(* ===== verification/Prelude.thy ===== *)
theory Prelude
  imports Main "HOL-Library.AList"
begin

text \<open>
  What every component theory shares: the result type of operations that can throw and its
  sequencing, the reading of a JavaScript \<open>Map\<close> as an association list in insertion order
  (\<open>AList.update\<close> keeps the position of a key that is set again, as \<open>Map.prototype.set\<close> does),
  the printing of numbers in template strings, and lemmas on lists, options and maps the
  components use. Strings are Isabelle \<open>string\<close>s; a character of the source outside ASCII is
  written as its UTF-8 bytes.
\<close>

named_theorems result_simps \<open>sequencing of results\<close>
named_theorems frame_simps \<open>fields an operation leaves unchanged\<close>

section \<open>Results\<close>

type_synonym ('e, 'a) result = "'e + 'a"

definition ebind :: "('e, 'a) result \<Rightarrow> ('a \<Rightarrow> ('e, 'b) result) \<Rightarrow> ('e, 'b) result" where
  "ebind m f = (case m of Inl e \<Rightarrow> Inl e | Inr x \<Rightarrow> f x)"

lemma ebind_Inl [simp, result_simps]: "ebind (Inl e) f = Inl e"
  by (simp add: ebind_def)

lemma ebind_Inr [simp, result_simps]: "ebind (Inr x) f = f x"
  by (simp add: ebind_def)

lemma ebind_eq_Inr [result_simps]: "ebind m f = Inr y \<longleftrightarrow> (\<exists>x. m = Inr x \<and> f x = Inr y)"
  by (cases m) simp_all

lemma ebind_postE:
  assumes "ebind m f = Inr y" and "\<And>x. m = Inr x \<Longrightarrow> f x = Inr y \<Longrightarrow> P"
  shows P
  using assms by (auto simp: ebind_eq_Inr)

lemma ebind_pairE:
  assumes "ebind m (\<lambda>(a, b). f a b) = Inr y"
    and "\<And>a b. m = Inr (a, b) \<Longrightarrow> f a b = Inr y \<Longrightarrow> P"
  shows P
  using assms by (auto simp: ebind_eq_Inr)

lemma ebind_eq_Inl:
  "ebind m f = Inl e \<longleftrightarrow> m = Inl e \<or> (\<exists>x. m = Inr x \<and> f x = Inl e)"
  by (cases m) simp_all

lemma ebind_assoc: "ebind (ebind m f) g = ebind m (\<lambda>x. ebind (f x) g)"
  by (cases m) simp_all

text \<open>A sequence of operations that stops at the first throw (a transaction body).\<close>

fun run_ops :: "('op \<Rightarrow> 's \<Rightarrow> ('e, 's) result) \<Rightarrow> 'op list \<Rightarrow> 's \<Rightarrow> ('e, 's) result" where
  "run_ops step [] s = Inr s"
| "run_ops step (x # xs) s = ebind (step x s) (run_ops step xs)"

lemma run_ops_append: "run_ops step (xs @ ys) s = ebind (run_ops step xs s) (run_ops step ys)"
  by (induction xs arbitrary: s) (auto simp: ebind_def split: sum.splits)

text \<open>
  A caller that survives a throw: the state is the one before the failed operation (the
  transaction was rolled back) and the next operation runs from there.
\<close>

definition settle :: "('e, 's) result \<Rightarrow> 's \<Rightarrow> 's" where
  "settle r s = (case r of Inl _ \<Rightarrow> s | Inr s' \<Rightarrow> s')"

lemma settle_simps [simp]: "settle (Inl e) s = s" "settle (Inr s') s = s'"
  by (simp_all add: settle_def)

text \<open>Every operation of the list attempted in turn, a throw leaving the state as it was.\<close>

definition run_live :: "('op \<Rightarrow> 's \<Rightarrow> ('e, 's) result) \<Rightarrow> 'op list \<Rightarrow> 's \<Rightarrow> 's" where
  "run_live step xs s = fold (\<lambda>x t. settle (step x t) t) xs s"

section \<open>Invariant machines\<close>

text \<open>
  The contract several stateful components share: a step that may throw, and an invariant that
  every completed step keeps. What follows for any sequence of operations, with or without
  failures in it, is proved once here.
\<close>

locale inv_machine =
  fixes step :: "'op \<Rightarrow> 's \<Rightarrow> ('e, 's) result"
    and good :: "'s \<Rightarrow> bool"
  assumes step_good: "good s \<Longrightarrow> step x s = Inr s' \<Longrightarrow> good s'"
begin

lemma settle_good: "good s \<Longrightarrow> good (settle (step x s) s)"
  by (cases "step x s") (auto intro: step_good)

lemma live_good: "good s \<Longrightarrow> good (run_live step xs s)"
  unfolding run_live_def by (induction xs arbitrary: s) (simp_all add: settle_good)

lemma run_good: "good s \<Longrightarrow> run_ops step xs s = Inr s' \<Longrightarrow> good s'"
  by (induction xs arbitrary: s) (auto simp: ebind_eq_Inr intro: step_good)

end

section \<open>Maps in insertion order\<close>

lemma update_fst_set: "fst ` set (AList.update k v m) = insert k (fst ` set m)"
  using dom_update [of k v m] by (simp add: dom_map_of_conv_image_fst)

lemma map_of_update_other [simp]: "a \<noteq> k \<Longrightarrow> map_of (AList.update k v m) a = map_of m a"
  by (simp add: update_conv')

lemma map_of_update_same [simp]: "map_of (AList.update k v m) k = Some v"
  by (simp add: update_conv')

section \<open>Lists\<close>

lemma find_map_other:
  assumes "\<And>x. x \<in> set xs \<Longrightarrow> P (f x) = P x"
  shows "find P (map f xs) = map_option f (find P xs)"
  using assms by (induction xs) auto

lemma length_filter_twice: "length (filter P (filter Q xs)) \<le> length (filter P xs)"
  by (induction xs) auto

lemma find_None_iff_all: "find P xs = None \<longleftrightarrow> (\<forall>x \<in> set xs. \<not> P x)"
  by (auto simp: find_None_iff)

lemma find_SomeD: "find P xs = Some x \<Longrightarrow> x \<in> set xs \<and> P x"
  by (auto simp: find_Some_iff)

lemma find_append: "find P (xs @ ys) = (case find P xs of None \<Rightarrow> find P ys | Some x \<Rightarrow> Some x)"
  by (induction xs) auto

text \<open>With distinct keys, looking a row up by key finds exactly the row of the list with it.\<close>

lemma find_key_iff:
  assumes "distinct (map key xs)"
  shows "find (\<lambda>x. key x = k) xs = Some y \<longleftrightarrow> y \<in> set xs \<and> key y = k"
  using assms by (induction xs) (auto simp: image_iff)

lemma length_filter_split:
  "length (filter P xs) =
     length (filter (\<lambda>x. P x \<and> Q x) xs) + length (filter (\<lambda>x. P x \<and> \<not> Q x) xs)"
  by (induction xs) auto

lemma sorted_dropWhile: "sorted xs \<Longrightarrow> sorted (dropWhile P xs)"
  by (induction xs) auto

section \<open>Template strings\<close>

text \<open>Decimal digits of a natural number, as \<open>`${n}`\<close> prints it.\<close>

fun show_nat :: "nat \<Rightarrow> string" where
  "show_nat n =
     (if n < 10 then [char_of (48 + n)] else show_nat (n div 10) @ [char_of (48 + n mod 10)])"

declare show_nat.simps [simp del]

definition show_int :: "int \<Rightarrow> string" where
  "show_int i = (if i < 0 then CHR ''-'' # show_nat (nat (- i)) else show_nat (nat i))"

text \<open>The em dash and the ellipsis of the source's messages, as UTF-8 bytes.\<close>

definition em_dash :: string where
  "em_dash = [CHR 0xE2, CHR 0x80, CHR 0x94]"

definition ellipsis :: string where
  "ellipsis = [CHR 0xE2, CHR 0x80, CHR 0xA6]"

text \<open>\<open>Array.prototype.join\<close>, \<open>startsWith\<close> and \<open>endsWith\<close>.\<close>

fun join_with :: "string \<Rightarrow> string list \<Rightarrow> string" where
  "join_with sep [] = []"
| "join_with sep [x] = x"
| "join_with sep (x # y # zs) = x @ sep @ join_with sep (y # zs)"

definition starts_with :: "string \<Rightarrow> string \<Rightarrow> bool" where
  "starts_with s p = (take (length p) s = p)"

definition ends_with :: "string \<Rightarrow> string \<Rightarrow> bool" where
  "ends_with s p = (length p \<le> length s \<and> drop (length s - length p) s = p)"

text \<open>Digits, \<open>toLowerCase\<close> and \<open>includes\<close>.\<close>

definition digit :: "char \<Rightarrow> bool" where
  "digit c = (48 \<le> (of_char c :: nat) \<and> (of_char c :: nat) \<le> 57)"

definition lower :: "char \<Rightarrow> char" where
  "lower c = (if 65 \<le> (of_char c :: nat) \<and> (of_char c :: nat) \<le> 90 then char_of (of_char c + 32 :: nat) else c)"

definition to_lower :: "string \<Rightarrow> string" where
  "to_lower s = map lower s"

fun contains :: "string \<Rightarrow> string \<Rightarrow> bool" where
  "contains [] p = (p = [])"
| "contains (c # cs) p = (starts_with (c # cs) p \<or> contains cs p)"

lemma contains_append: "contains (xs @ p @ ys) p"
proof (induction xs)
  case Nil
  have "take (length p) (p @ ys) = p" by simp
  then show ?case by (cases "p @ ys") (auto simp: starts_with_def simp del: append_eq_Cons_conv)
qed simp

text \<open>\<open>split\<close> at a character.\<close>

fun split_on :: "char \<Rightarrow> string \<Rightarrow> string list" where
  "split_on c [] = [[]]"
| "split_on c (x # xs) =
     (if x = c then [] # split_on c xs
      else (case split_on c xs of [] \<Rightarrow> [[x]] | l # ls \<Rightarrow> (x # l) # ls))"

lemma split_on_nonempty [simp]: "split_on c s \<noteq> []"
  by (induction s) (auto split: list.splits)

lemma split_on_single [simp]: "c \<notin> set s \<Longrightarrow> split_on c s = [s]"
  by (induction s) auto

lemma split_on_append: "c \<notin> set s \<Longrightarrow> split_on c (s @ c # t) = s # split_on c t"
  by (induction s) auto

lemma split_on_join:
  "xs \<noteq> [] \<Longrightarrow> \<forall>x \<in> set xs. c \<notin> set x \<Longrightarrow> split_on c (join_with [c] xs) = xs"
  by (induction "[c]" xs rule: join_with.induct) (auto simp: split_on_append)

text \<open>The number a string of digits prints.\<close>

definition digits_value :: "string \<Rightarrow> nat" where
  "digits_value s = foldl (\<lambda>n c. 10 * n + (of_char c - 48)) 0 s"

lemma digits_value_snoc: "digits_value (s @ [c]) = 10 * digits_value s + (of_char c - 48)"
  by (simp add: digits_value_def)

lemma digits_value_show_nat [simp]: "digits_value (show_nat n) = n"
proof (induction n rule: show_nat.induct)
  case (1 n)
  have "(of_char (char_of (48 + n mod 10) :: char) :: nat) = 48 + n mod 10" by simp
  then show ?case
    using 1 by (subst show_nat.simps) (auto simp: digits_value_snoc digits_value_def)
qed

lemma digits_show_nat: "list_all digit (show_nat n) \<and> show_nat n \<noteq> []"
proof (induction n rule: show_nat.induct)
  case (1 n)
  have "(of_char (char_of (48 + n mod 10) :: char) :: nat) = 48 + n mod 10" by simp
  then show ?case
    using 1 by (subst (1 2) show_nat.simps) (auto simp: digit_def [abs_def])
qed

lemma length_show_nat: "n < 10 ^ k \<Longrightarrow> 0 < k \<Longrightarrow> length (show_nat n) \<le> k"
proof (induction n arbitrary: k rule: show_nat.induct)
  case (1 n)
  show ?case
  proof (cases "n < 10")
    case True
    then show ?thesis using 1(3) by (subst show_nat.simps) simp
  next
    case False
    then obtain j where k: "k = Suc j" "0 < j" using 1(2,3) by (cases k; cases "k - 1") auto
    then have "length (show_nat (n div 10)) \<le> j" using 1 False by (intro 1(1)) auto
    then show ?thesis using False k by (subst show_nat.simps) simp
  qed
qed

text \<open>\<open>trim\<close>, on the white space of ASCII.\<close>

definition js_space :: "char \<Rightarrow> bool" where
  "js_space c = (of_char c \<in> {9, 10, 11, 12, 13, 32 :: nat})"

definition js_trim :: "string \<Rightarrow> string" where
  "js_trim s = rev (dropWhile js_space (rev (dropWhile js_space s)))"

text \<open>\<open>Set.prototype.add\<close> on a set listed in insertion order.\<close>

definition set_add :: "'a \<Rightarrow> 'a list \<Rightarrow> 'a list" where
  "set_add x xs = (if x \<in> set xs then xs else xs @ [x])"

lemma set_set_add [simp]: "set (set_add x xs) = insert x (set xs)"
  by (auto simp: set_add_def)

lemma distinct_set_add [simp]: "distinct (set_add x xs) = distinct xs"
  by (simp add: set_add_def)

lemma prefix_set_add: "\<exists>ys. set_add x xs = xs @ ys"
  by (simp add: set_add_def)

lemma sum_list_map_update:
  "i < length xs \<Longrightarrow>
     sum_list (map f (xs[i := x])) = sum_list (map f xs) + f x - (f (xs ! i) :: int)"
  by (induction xs arbitrary: i) (auto split: nat.splits)

lemma starts_with_append [simp]: "starts_with (p @ s) p"
  by (simp add: starts_with_def)

lemma ends_with_append [simp]: "ends_with (s @ p) p"
  by (simp add: ends_with_def)

end
