(* ===== verification/KanbanModel.thy ===== *)
theory KanbanModel
  imports Prelude
begin

text \<open>
  The data of the kanban board (extensions/kanban-store/src/index.ts): the tables of its SQLite
  schema as lists of rows in rowid order, the typed rows as records, and the table accesses the
  operations share. A CHECK constraint over a fixed set of strings is a datatype. The free-text
  search table is not modelled. Identifiers drawn from \<open>randomUUID\<close> and the reading of
  \<open>Date.now()\<close> are arguments of the operations that use them; all readings of the clock within
  one call give the same value.
\<close>

datatype task_status =
  Todo | Ready | Running | Blocked | Done | Archived | Scheduled | Failed | NeedsRevision

datatype workspace_mode = WsScratch | WsWorktree | WsDir

datatype block_kind = BkDependency | BkNeedsInput | BkCapability | BkTransient

datatype run_outcome = RunCompleted | RunBlocked | RunStalled | RunCancelled

datatype turn_audience = AudPrivate | AudShared

record task =
  t_id :: string
  t_title :: string
  t_body :: string
  t_assignee :: "string option"
  t_status :: task_status
  t_priority :: int
  t_workspace_mode :: workspace_mode
  t_workspace_path :: "string option"
  t_scheduled_for :: "int option"
  t_idempotency_key :: "string option"
  t_current_run :: "string option"
  t_max_retries :: "int option"
  t_retry_count :: int
  t_acceptance :: "string option"
  t_block_kind :: "block_kind option"
  t_block_count :: int
  t_audience :: "turn_audience option"
  t_created_at :: int
  t_updated_at :: int

record task_run =
  r_id :: string
  r_task :: string
  r_started_at :: int
  r_ended_at :: "int option"
  r_outcome :: "run_outcome option"
  r_summary :: "string option"
  r_heartbeat_at :: int
  r_completed_by :: "(string \<times> string) option"

record task_comment =
  c_id :: string
  c_task :: string
  c_author :: string
  c_body :: string
  c_created_at :: int

text \<open>
  An audit event with its JSON payload. A key whose value may be \<open>null\<close> is an option; a key that
  may be absent as well is an option of an option.
\<close>

datatype event_data =
    EvCreated task_status
  | EvStatusChanged task_status task_status "string option option"
  | EvCommented string
  | EvAssigned "string option"
  | EvLinked string string
  | EvRunStarted
  | EvRunCompleted run_outcome "string option" "(string \<times> string) option option"
  | EvHeartbeat "string option"
  | EvArchived

record task_event =
  e_id :: nat
  e_task :: string
  e_data :: event_data
  e_actor :: string
  e_created_at :: int

record member_stats =
  m_completed :: int
  m_failed :: int
  m_orphaned :: int
  m_updated_at :: int

datatype stat_column = ColCompleted | ColFailed | ColOrphaned

record board =
  b_tasks :: "task list"
  b_links :: "(string \<times> string) list"
  b_runs :: "task_run list"
  b_comments :: "task_comment list"
  b_events :: "task_event list"
  b_stats :: "(string \<times> member_stats) list"

definition empty_board :: board where
  "empty_board = \<lparr>b_tasks = [], b_links = [], b_runs = [], b_comments = [], b_events = [],
     b_stats = []\<rparr>"

text \<open>The options of the store (its readonly fields) and the clock reading of the call.\<close>

record kanban_env =
  k_team :: "string option"
  k_block_limit :: int
  k_max_in_progress :: "int option"
  k_max_per_profile :: "int option"
  k_now :: int

text \<open>\<open>Error\<close> objects the operations throw, one constructor per message.\<close>

datatype kanban_error =
    BadMaxRetries int
  | TaskNotFound string
  | AlreadyClaimed string task_status string
  | WipLimit nat int
  | WipLimitProfile string nat int
  | NoOpenRun string
  | RunRaced string
  | SelfParent string
  | LinkCycle string string
  | LinkNotFound string string
  | UniqueFailed string
  | ForeignKeyFailed string

type_synonym 'a kanban = "(kanban_error, 'a) result"

subsection \<open>Table accesses\<close>

definition get_task :: "board \<Rightarrow> string \<Rightarrow> task option" where
  "get_task b i = find (\<lambda>t. t_id t = i) (b_tasks b)"

text \<open>\<open>UPDATE tasks SET ... WHERE id = ?\<close>.\<close>

definition upd_task :: "string \<Rightarrow> (task \<Rightarrow> task) \<Rightarrow> board \<Rightarrow> board" where
  "upd_task i f b = b\<lparr>b_tasks := map (\<lambda>t. if t_id t = i then f t else t) (b_tasks b)\<rparr>"

text \<open>
  \<open>UPDATE task_runs SET ... WHERE id = ? AND ended_at IS NULL\<close>, with the number of rows changed.
\<close>

definition run_is_open :: "task_run \<Rightarrow> bool" where
  "run_is_open r = (r_ended_at r = None)"

definition upd_open_run :: "string \<Rightarrow> (task_run \<Rightarrow> task_run) \<Rightarrow> board \<Rightarrow> nat \<times> board" where
  "upd_open_run i f b =
     (length (filter (\<lambda>r. r_id r = i \<and> run_is_open r) (b_runs b)),
      b\<lparr>b_runs := map (\<lambda>r. if r_id r = i \<and> run_is_open r then f r else r) (b_runs b)\<rparr>)"

text \<open>
  \<open>INSERT INTO task_runs\<close> with the primary key and the unique index \<open>task_runs_open_one\<close> (one
  open run per task).
\<close>

definition insert_run :: "task_run \<Rightarrow> board \<Rightarrow> board kanban" where
  "insert_run r b =
     (if \<exists>q \<in> set (b_runs b). r_id q = r_id r then Inl (UniqueFailed ''task_runs.id'')
      else if \<exists>q \<in> set (b_runs b). r_task q = r_task r \<and> run_is_open q
      then Inl (UniqueFailed ''task_runs.task_id'')
      else Inr (b\<lparr>b_runs := b_runs b @ [r]\<rparr>))"

text \<open>\<open>emit\<close>: one audit row, numbered by the autoincrement key (rows are never deleted).\<close>

definition emit_event :: "kanban_env \<Rightarrow> string \<Rightarrow> event_data \<Rightarrow> string \<Rightarrow> board \<Rightarrow> board" where
  "emit_event E i d actor b =
     b\<lparr>b_events := b_events b @
        [\<lparr>e_id = Suc (length (b_events b)), e_task = i, e_data = d, e_actor = actor,
          e_created_at = k_now E\<rparr>]\<rparr>"

text \<open>
  \<open>bumpMemberStat\<close>: an upsert keyed by member (the team is fixed per store). The first outcome of
  a member inserts the row with 1 in the chosen column and the schema default 0 in the others.
\<close>

definition bump_col :: "stat_column \<Rightarrow> member_stats \<Rightarrow> member_stats" where
  "bump_col c m =
     (case c of
        ColCompleted \<Rightarrow> m\<lparr>m_completed := m_completed m + 1\<rparr>
      | ColFailed \<Rightarrow> m\<lparr>m_failed := m_failed m + 1\<rparr>
      | ColOrphaned \<Rightarrow> m\<lparr>m_orphaned := m_orphaned m + 1\<rparr>)"

definition zero_stats :: member_stats where
  "zero_stats = \<lparr>m_completed = 0, m_failed = 0, m_orphaned = 0, m_updated_at = 0\<rparr>"

definition bump_member_stat ::
  "kanban_env \<Rightarrow> string option \<Rightarrow> stat_column \<Rightarrow> board \<Rightarrow> board" where
  "bump_member_stat E member c b =
     (case (k_team E, member) of
        (Some _, Some m) \<Rightarrow>
          (let old = (case map_of (b_stats b) m of None \<Rightarrow> zero_stats | Some s \<Rightarrow> s)
           in b\<lparr>b_stats := AList.update m ((bump_col c old)\<lparr>m_updated_at := k_now E\<rparr>) (b_stats b)\<rparr>)
      | _ \<Rightarrow> b)"

subsection \<open>Ancestors of a task\<close>

text \<open>
  The recursive query of \<open>link\<close>: the rows already produced, and the queue of rows whose parents
  have not been added yet. \<open>UNION\<close> drops a row that was produced before.
\<close>

definition parents_of :: "(string \<times> string) list \<Rightarrow> string \<Rightarrow> string list" where
  "parents_of ls c = map fst (filter (\<lambda>l. snd l = c) ls)"

fun new_rows :: "string list \<Rightarrow> string list \<Rightarrow> string list" where
  "new_rows seen [] = []"
| "new_rows seen (x # xs) =
     (if x \<in> set seen then new_rows seen xs else x # new_rows (x # seen) xs)"

lemma new_rows_set: "set (new_rows seen xs) = set xs - set seen"
  by (induction seen xs rule: new_rows.induct) auto

lemma parents_of_set: "set (parents_of ls c) = {p. (p, c) \<in> set ls}"
  by (force simp: parents_of_def)

function ancestors_loop :: "(string \<times> string) list \<Rightarrow> string list \<Rightarrow> string list \<Rightarrow> string list" where
  "ancestors_loop ls seen [] = seen"
| "ancestors_loop ls seen (x # q) =
     (let ns = new_rows seen (parents_of ls x) in ancestors_loop ls (seen @ ns) (q @ ns))"
  by pat_completeness auto
termination
proof (relation "measures [\<lambda>(ls, seen, q). card (set (map fst ls) - set seen), \<lambda>(ls, seen, q). length q]",
    goal_cases)
  case 1
  show ?case by simp
next
  case (2 ls seen x q ns)
  let ?A = "set (map fst ls) - set seen"
  have sub: "set ns \<subseteq> set (map fst ls)"
    using 2 by (auto simp: new_rows_set parents_of_set image_iff) force
  have eq: "set (map fst ls) - set (seen @ ns) = ?A - set ns"
    by auto
  show ?case
  proof (cases "ns = []")
    case True
    then show ?thesis by simp
  next
    case False
    then obtain y where y: "y \<in> set ns" by (cases ns) auto
    moreover have "y \<notin> set seen" using y 2 by (simp add: new_rows_set)
    ultimately have "y \<in> ?A" using sub by blast
    then have "card (?A - set ns) < card ?A"
      using y by (intro psubset_card_mono) auto
    then show ?thesis by (simp only: in_measures prod.case eq) simp
  qed
qed

definition ancestors :: "(string \<times> string) list \<Rightarrow> string \<Rightarrow> string list" where
  "ancestors ls c = (let ps = new_rows [] (parents_of ls c) in ancestors_loop ls ps ps)"

end
