(* ===== verification/KanbanOps.thy ===== *)
theory KanbanOps
  imports Complex_Main KanbanModel "HOL-Library.Product_Lexorder"
begin

text \<open>
  The operations of \<open>KanbanStore\<close> (extensions/kanban-store/src/index.ts). An operation that can
  throw returns \<open>Inl\<close> of the error, and its transaction is rolled back, so the board is the one
  it was called on; otherwise it returns the new board. The \<open>Task\<close> a method returns is
  \<open>get_task\<close> of the new board. A run, task or comment id the call draws is an argument.
\<close>

section \<open>Status changes\<close>

definition running_others :: "board \<Rightarrow> string \<Rightarrow> task list" where
  "running_others b tid = filter (\<lambda>t. t_status t = Running \<and> t_id t \<noteq> tid) (b_tasks b)"

definition assert_wip_capacity ::
  "kanban_env \<Rightarrow> string \<Rightarrow> string option \<Rightarrow> board \<Rightarrow> unit kanban" where
  "assert_wip_capacity E tid assignee b =
     ebind
       (case k_max_in_progress E of
          None \<Rightarrow> Inr ()
        | Some cap \<Rightarrow>
            (let n = length (running_others b tid)
             in if int n \<ge> cap then Inl (WipLimit n cap) else Inr ()))
       (\<lambda>_. case (k_max_per_profile E, assignee) of
          (Some cap, Some a) \<Rightarrow>
            (let n = length (filter (\<lambda>t. t_assignee t = Some a) (running_others b tid))
             in if int n \<ge> cap then Inl (WipLimitProfile a n cap) else Inr ())
        | _ \<Rightarrow> Inr ())"

text \<open>
  The local variables of \<open>updateStatus\<close> after the board was written: the status the transition
  landed on, its reason, and whether a run was opened or cancelled.
\<close>

record flip =
  f_board :: board
  f_status :: task_status
  f_reason :: "string option"
  f_started :: bool
  f_cancelled :: bool

definition claim_run ::
  "kanban_env \<Rightarrow> string \<Rightarrow> string \<Rightarrow> string option \<Rightarrow> task \<Rightarrow> board \<Rightarrow> flip kanban" where
  "claim_run E rid tid reason row b =
     ebind (assert_wip_capacity E tid (t_assignee row) b) (\<lambda>_.
       let reclaimed = (\<exists>r \<in> set (b_runs b). r_task r = tid);
           next = t_retry_count row + (if reclaimed then 1 else 0);
           exhausted = (case t_max_retries row of None \<Rightarrow> False | Some m \<Rightarrow> next > m)
       in if exhausted
          then Inr \<lparr>f_board = upd_task tid (\<lambda>t. t\<lparr>t_status := Failed, t_retry_count := next,
                       t_updated_at := k_now E\<rparr>) b,
                    f_status = Failed, f_reason = Some ''retry_budget_exhausted'',
                    f_started = False, f_cancelled = False\<rparr>
          else ebind (insert_run \<lparr>r_id = rid, r_task = tid, r_started_at = k_now E,
                        r_ended_at = None, r_outcome = None, r_summary = None,
                        r_heartbeat_at = k_now E, r_completed_by = None\<rparr> b) (\<lambda>b1.
               Inr \<lparr>f_board = upd_task tid (\<lambda>t. t\<lparr>t_status := Running, t_current_run := Some rid,
                       t_retry_count := next, t_updated_at := k_now E\<rparr>) b1,
                    f_status = Running, f_reason = reason,
                    f_started = True, f_cancelled = False\<rparr>))"

definition cancel_open_run :: "kanban_env \<Rightarrow> string \<Rightarrow> board \<Rightarrow> nat \<times> board" where
  "cancel_open_run E rid b =
     upd_open_run rid (\<lambda>r. r\<lparr>r_ended_at := Some (k_now E), r_outcome := Some RunCancelled\<rparr>) b"

definition leave_run ::
  "kanban_env \<Rightarrow> string \<Rightarrow> task_status \<Rightarrow> string option \<Rightarrow> string \<Rightarrow> board \<Rightarrow> flip" where
  "leave_run E tid st reason rid b =
     (let (changes, b1) = cancel_open_run E rid b
      in \<lparr>f_board = upd_task tid (\<lambda>t. t\<lparr>t_status := st, t_current_run := None,
             t_updated_at := k_now E\<rparr>) b1,
          f_status = st, f_reason = reason, f_started = False, f_cancelled = (changes = 1)\<rparr>)"

definition plain_flip ::
  "kanban_env \<Rightarrow> string \<Rightarrow> task_status \<Rightarrow> string option \<Rightarrow> board \<Rightarrow> flip" where
  "plain_flip E tid st reason b =
     \<lparr>f_board = upd_task tid (\<lambda>t. t\<lparr>t_status := st, t_updated_at := k_now E\<rparr>) b,
      f_status = st, f_reason = reason, f_started = False, f_cancelled = False\<rparr>"

definition flip_status ::
  "kanban_env \<Rightarrow> string \<Rightarrow> string \<Rightarrow> task_status \<Rightarrow> string option \<Rightarrow> task \<Rightarrow> board \<Rightarrow> flip kanban" where
  "flip_status E rid tid st reason row b =
     (case t_current_run row of
        None \<Rightarrow>
          if st = Running then claim_run E rid tid reason row b
          else Inr (plain_flip E tid st reason b)
      | Some old \<Rightarrow>
          if st = Running then Inl (AlreadyClaimed tid (t_status row) old)
          else if t_status row = Running then Inr (leave_run E tid st reason old b)
          else Inr (plain_flip E tid st reason b))"

text \<open>The audit events and the failure counter after the board was written.\<close>

definition announce_flip :: "kanban_env \<Rightarrow> string \<Rightarrow> string \<Rightarrow> task \<Rightarrow> flip \<Rightarrow> board" where
  "announce_flip E tid actor row f =
     (let b1 = (if t_status row \<noteq> f_status f
                then (let b0 = emit_event E tid
                        (EvStatusChanged (t_status row) (f_status f) (Some (f_reason f))) actor (f_board f)
                      in if f_status f = Failed \<or> f_status f = NeedsRevision
                         then bump_member_stat E (t_assignee row) ColFailed b0 else b0)
                else f_board f);
          b2 = (if f_started f then emit_event E tid EvRunStarted actor b1 else b1)
      in if f_cancelled f
         then emit_event E tid (EvRunCompleted RunCancelled None None) actor b2 else b2)"

definition update_status ::
  "kanban_env \<Rightarrow> string \<Rightarrow> string \<Rightarrow> task_status \<Rightarrow> string option \<Rightarrow> string \<Rightarrow> board \<Rightarrow> board kanban" where
  "update_status E rid tid st reason actor b =
     (case get_task b tid of
        None \<Rightarrow> Inl (TaskNotFound tid)
      | Some row \<Rightarrow>
          ebind (flip_status E rid tid st reason row b) (\<lambda>f.
            Inr (announce_flip E tid actor row f)))"

section \<open>Ending a run\<close>

record end_opts =
  o_comment :: "(string \<times> string) option" \<comment> \<open>the comment id drawn, and the body\<close>
  o_completed_by :: "(string \<times> string) option"
  o_kind :: "block_kind option"

text \<open>The unblock-loop breaker: where a block lands, and the counters it leaves.\<close>

definition breaker_count :: "block_kind option \<Rightarrow> task \<Rightarrow> int" where
  "breaker_count kind row =
     (if kind \<noteq> None \<and> kind = t_block_kind row then t_block_count row + 1
      else if kind \<noteq> None then 1 else 0)"

definition end_target ::
  "kanban_env \<Rightarrow> task_status \<Rightarrow> block_kind option \<Rightarrow> task \<Rightarrow>
     task_status \<times> block_kind option \<times> int \<times> bool" where
  "end_target E st kind row =
     (if st = Blocked then
        (let n = breaker_count kind row
         in if n \<ge> k_block_limit E then (NeedsRevision, kind, n, True) else (Blocked, kind, n, False))
      else if st = Done then (Done, None, 0, False)
      else (st, t_block_kind row, t_block_count row, False))"

definition add_comment_row ::
  "kanban_env \<Rightarrow> string \<Rightarrow> string \<Rightarrow> string \<Rightarrow> string \<Rightarrow> board \<Rightarrow> board kanban" where
  "add_comment_row E cid tid author body b =
     (if \<exists>c \<in> set (b_comments b). c_id c = cid then Inl (UniqueFailed ''task_comments.id'')
      else if get_task b tid = None then Inl (ForeignKeyFailed ''task_comments.task_id'')
      else Inr (emit_event E tid (EvCommented cid) author
             (b\<lparr>b_comments := b_comments b @ [\<lparr>c_id = cid, c_task = tid, c_author = author,
                c_body = body, c_created_at = k_now E\<rparr>]\<rparr>)))"

definition end_stat :: "kanban_env \<Rightarrow> task \<Rightarrow> task_status \<Rightarrow> board \<Rightarrow> board" where
  "end_stat E row eff b =
     (if eff = Done then bump_member_stat E (t_assignee row) ColCompleted b
      else if eff = NeedsRevision then bump_member_stat E (t_assignee row) ColFailed b
      else b)"

definition end_comment ::
  "kanban_env \<Rightarrow> string \<Rightarrow> string \<Rightarrow> end_opts \<Rightarrow> board \<Rightarrow> board kanban" where
  "end_comment E tid actor opts b =
     (case o_comment opts of
        None \<Rightarrow> Inr b
      | Some (cid, body) \<Rightarrow> add_comment_row E cid tid actor body b)"

definition end_log ::
  "kanban_env \<Rightarrow> string \<Rightarrow> string \<Rightarrow> task \<Rightarrow> task_status \<Rightarrow> bool \<Rightarrow> run_outcome \<Rightarrow> string option \<Rightarrow>
     end_opts \<Rightarrow> board \<Rightarrow> board" where
  "end_log E tid actor row eff breached outcome summary opts b =
     (let b1 = emit_event E tid
                 (EvRunCompleted outcome summary (Some (o_completed_by opts))) actor b
      in if t_status row \<noteq> eff
         then emit_event E tid (EvStatusChanged (t_status row) eff
                (if breached then Some (Some ''block_recurrence_limit'') else None)) actor b1
         else b1)"

definition end_run ::
  "kanban_env \<Rightarrow> string \<Rightarrow> task_status \<Rightarrow> run_outcome \<Rightarrow> string option \<Rightarrow> string \<Rightarrow> end_opts \<Rightarrow>
     board \<Rightarrow> board kanban" where
  "end_run E tid st outcome summary actor opts b =
     (case get_task b tid of
        None \<Rightarrow> Inl (TaskNotFound tid)
      | Some row \<Rightarrow>
          (case t_current_run row of
             None \<Rightarrow> Inl (NoOpenRun tid)
           | Some rid \<Rightarrow>
               (let u = upd_open_run rid
                      (\<lambda>r. r\<lparr>r_ended_at := Some (k_now E), r_outcome := Some outcome,
                             r_summary := summary, r_completed_by := o_completed_by opts\<rparr>) b
                in if fst u \<noteq> 1 then Inl (RunRaced rid)
                   else
                     (let (eff, kind, n, breached) = end_target E st (o_kind opts) row;
                          b2 = upd_task tid (\<lambda>t. t\<lparr>t_status := eff, t_current_run := None,
                                 t_block_kind := kind, t_block_count := n,
                                 t_updated_at := k_now E\<rparr>) (snd u)
                      in ebind (end_comment E tid actor opts (end_stat E row eff b2)) (\<lambda>b4.
                           Inr (end_log E tid actor row eff breached outcome summary opts b4))))))"

definition complete_run ::
  "kanban_env \<Rightarrow> string \<Rightarrow> string \<Rightarrow> string \<Rightarrow> (string \<times> string) option \<Rightarrow> board \<Rightarrow> board kanban" where
  "complete_run E tid summary actor by b =
     end_run E tid Done RunCompleted (Some summary) actor
       \<lparr>o_comment = None, o_completed_by = by, o_kind = None\<rparr> b"

definition block_run ::
  "kanban_env \<Rightarrow> string \<Rightarrow> string \<Rightarrow> string \<Rightarrow> string \<Rightarrow> block_kind option \<Rightarrow> board \<Rightarrow> board kanban" where
  "block_run E cid tid reason actor kind b =
     end_run E tid Blocked RunBlocked (Some reason) actor
       \<lparr>o_comment = Some (cid, reason), o_completed_by = None, o_kind = kind\<rparr> b"

definition heartbeat_run ::
  "kanban_env \<Rightarrow> string \<Rightarrow> string option \<Rightarrow> string \<Rightarrow> board \<Rightarrow> board kanban" where
  "heartbeat_run E tid note actor b =
     (case get_task b tid of
        None \<Rightarrow> Inl (TaskNotFound tid)
      | Some row \<Rightarrow>
          (case t_current_run row of
             None \<Rightarrow> Inl (NoOpenRun tid)
           | Some rid \<Rightarrow>
               (let (changes, b1) = upd_open_run rid (\<lambda>r. r\<lparr>r_heartbeat_at := k_now E\<rparr>) b
                in if changes \<noteq> 1 then Inl (RunRaced rid)
                   else Inr (emit_event E tid (EvHeartbeat note) actor
                          (upd_task tid (\<lambda>t. t\<lparr>t_updated_at := k_now E\<rparr>) b1)))))"

definition reclaim_task ::
  "kanban_env \<Rightarrow> string \<Rightarrow> string \<Rightarrow> string \<Rightarrow> board \<Rightarrow> board kanban" where
  "reclaim_task E tid reason actor b =
     (case get_task b tid of
        None \<Rightarrow> Inl (TaskNotFound tid)
      | Some row \<Rightarrow>
          (let (cancelled, b1) =
                 (case t_current_run row of
                    None \<Rightarrow> (False, b)
                  | Some rid \<Rightarrow> (let (n, b') = cancel_open_run E rid b in (n = 1, b')));
               b2 = upd_task tid (\<lambda>t. t\<lparr>t_status := Ready, t_current_run := None,
                      t_updated_at := k_now E\<rparr>) b1;
               b3 = (if t_status row = Running
                     then bump_member_stat E (t_assignee row) ColOrphaned b2 else b2);
               b4 = (if cancelled
                     then emit_event E tid (EvRunCompleted RunCancelled None None) actor b3 else b3)
           in Inr (emit_event E tid (EvStatusChanged (t_status row) Ready (Some (Some reason)))
                     actor b4)))"

section \<open>Links, assignment, comments\<close>

definition link_tasks :: "kanban_env \<Rightarrow> string \<Rightarrow> string \<Rightarrow> string \<Rightarrow> board \<Rightarrow> board kanban" where
  "link_tasks E parent child actor b =
     (if parent = child then Inl (SelfParent child)
      else if child \<in> set (ancestors (b_links b) parent) then Inl (LinkCycle child parent)
      else if (parent, child) \<in> set (b_links b) then Inr b
      else if get_task b parent = None \<or> get_task b child = None
      then Inl (LinkNotFound parent child)
      else Inr (emit_event E child (EvLinked parent child) actor
             (emit_event E parent (EvLinked parent child) actor
               (b\<lparr>b_links := b_links b @ [(parent, child)]\<rparr>))))"

definition assign_task ::
  "kanban_env \<Rightarrow> string \<Rightarrow> string option \<Rightarrow> string \<Rightarrow> board \<Rightarrow> board kanban" where
  "assign_task E tid assignee actor b =
     (if get_task b tid = None then Inl (TaskNotFound tid)
      else Inr (emit_event E tid (EvAssigned assignee) actor
             (upd_task tid (\<lambda>t. t\<lparr>t_assignee := assignee, t_updated_at := k_now E\<rparr>) b)))"

definition archive_task :: "kanban_env \<Rightarrow> string \<Rightarrow> string \<Rightarrow> board \<Rightarrow> board kanban" where
  "archive_task E tid actor b =
     ebind (update_status E '''' tid Archived None actor b) (\<lambda>b1.
       Inr (emit_event E tid EvArchived actor b1))"

section \<open>Creating tasks\<close>

record task_input =
  i_title :: string
  i_body :: "string option"
  i_assignee :: "string option"
  i_priority :: "int option"
  i_parents :: "string list"
  i_workspace_mode :: "workspace_mode option"
  i_scheduled_for :: "int option"
  i_idempotency_key :: "string option"
  i_max_retries :: "int option"
  i_acceptance :: "string option"
  i_audience :: "turn_audience option"
  i_actor :: "string option"

definition or_else :: "'a option \<Rightarrow> 'a \<Rightarrow> 'a" where
  "or_else x d = (case x of None \<Rightarrow> d | Some v \<Rightarrow> v)"

definition idem_owner :: "board \<Rightarrow> string \<Rightarrow> string option" where
  "idem_owner b k = map_option t_id (find (\<lambda>t. t_idempotency_key t = Some k) (b_tasks b))"

text \<open>\<open>INSERT INTO tasks\<close> with the primary key and the unique index on the idempotency key.\<close>

definition insert_task :: "task \<Rightarrow> board \<Rightarrow> board kanban" where
  "insert_task t b =
     (if get_task b (t_id t) \<noteq> None then Inl (UniqueFailed ''tasks.id'')
      else if t_idempotency_key t \<noteq> None \<and> idem_owner b (the (t_idempotency_key t)) \<noteq> None
      then Inl (UniqueFailed ''tasks.idempotency_key'')
      else Inr (b\<lparr>b_tasks := b_tasks b @ [t]\<rparr>))"

definition new_task_row :: "kanban_env \<Rightarrow> string \<Rightarrow> task_input \<Rightarrow> task" where
  "new_task_row E tid inp =
     \<lparr>t_id = tid, t_title = i_title inp, t_body = or_else (i_body inp) [],
      t_assignee = i_assignee inp,
      t_status = (if i_scheduled_for inp \<noteq> None then Scheduled else Todo),
      t_priority = or_else (i_priority inp) 0,
      t_workspace_mode = or_else (i_workspace_mode inp) WsScratch, t_workspace_path = None,
      t_scheduled_for = i_scheduled_for inp, t_idempotency_key = i_idempotency_key inp,
      t_current_run = None, t_max_retries = i_max_retries inp, t_retry_count = 0,
      t_acceptance = i_acceptance inp, t_block_kind = None, t_block_count = 0,
      t_audience = i_audience inp, t_created_at = k_now E, t_updated_at = k_now E\<rparr>"

fun link_parents :: "kanban_env \<Rightarrow> string list \<Rightarrow> string \<Rightarrow> string \<Rightarrow> board \<Rightarrow> board kanban" where
  "link_parents E [] tid actor b = Inr b"
| "link_parents E (p # ps) tid actor b =
     ebind (link_tasks E p tid actor b) (link_parents E ps tid actor)"

definition insert_fresh ::
  "kanban_env \<Rightarrow> string \<Rightarrow> task_input \<Rightarrow> board \<Rightarrow> (string \<times> board) kanban" where
  "insert_fresh E tid inp b =
     (let actor = or_else (i_actor inp) ''system''; row = new_task_row E tid inp
      in case insert_task row b of
           Inl e \<Rightarrow>
             (case (i_idempotency_key inp, e) of
                (Some k, UniqueFailed col) \<Rightarrow>
                  if col = ''tasks.idempotency_key''
                  then (case idem_owner b k of Some w \<Rightarrow> Inr (w, b) | None \<Rightarrow> Inl e)
                  else Inl e
              | _ \<Rightarrow> Inl e)
         | Inr b1 \<Rightarrow>
             ebind (link_parents E (i_parents inp) tid actor
                 (emit_event E tid (EvCreated (t_status row)) actor b1)) (\<lambda>b2. Inr (tid, b2)))"

definition create_task ::
  "kanban_env \<Rightarrow> string \<Rightarrow> task_input \<Rightarrow> board \<Rightarrow> (string \<times> board) kanban" where
  "create_task E tid inp b =
     (case i_max_retries inp of
        Some m \<Rightarrow> if m < 0 then Inl (BadMaxRetries m) else
          (case Option.bind (i_idempotency_key inp) (idem_owner b) of
             Some w \<Rightarrow> Inr (w, b) | None \<Rightarrow> insert_fresh E tid inp b)
      | None \<Rightarrow>
          (case Option.bind (i_idempotency_key inp) (idem_owner b) of
             Some w \<Rightarrow> Inr (w, b) | None \<Rightarrow> insert_fresh E tid inp b))"

end
