(* ===== verification/Numbers.thy ===== *)
theory Numbers
  imports Complex_Main Prelude
begin

text \<open>Numbers the source rounds: a finite number is a rational.\<close>

text \<open>\<open>Math.round\<close> rounds a half up.\<close>

definition js_round :: "rat \<Rightarrow> int" where
  "js_round x = floor (x + 1 / 2)"

end
