(* ===== verification/KanbanSweeps.thy ===== *)
theory KanbanSweeps
  imports KanbanOps Numbers
begin

text \<open>
  The composed operations of \<open>KanbanStore\<close>: batches, the swarm graph, the dispatcher's
  promotion, reclaim and roll-up sweeps, and the queries (extensions/kanban-store/src/index.ts).
  A query without \<open>ORDER BY\<close> is read in rowid order. A status change to anything but \<open>running\<close>
  draws no run id, so those calls pass the empty one.
\<close>

section \<open>The dependency gate\<close>

text \<open>\<open>OPEN_BLOCKING_PARENT_SQL\<close>: an assigned parent that is not done.\<close>

definition blocking_parent :: "board \<Rightarrow> string \<Rightarrow> string \<Rightarrow> bool" where
  "blocking_parent b child p =
     (case get_task b p of
        None \<Rightarrow> False
      | Some t \<Rightarrow> t_assignee t \<noteq> None \<and> t_status t \<noteq> Done)"

definition has_open_blocking_parents :: "board \<Rightarrow> string \<Rightarrow> bool" where
  "has_open_blocking_parents b tid =
     (get_task b tid \<noteq> None \<and> (\<exists>p \<in> set (parents_of (b_links b) tid). blocking_parent b tid p))"

section \<open>Batches\<close>

fun bulk_update_status ::
  "kanban_env \<Rightarrow> (string \<times> string) list \<Rightarrow> task_status \<Rightarrow> string \<Rightarrow> board \<Rightarrow> board kanban" where
  "bulk_update_status E [] st actor b = Inr b"
| "bulk_update_status E ((tid, rid) # rest) st actor b =
     ebind (if st = Ready \<and> has_open_blocking_parents b tid
            then update_status E rid tid Todo (Some ''waiting on prerequisites'') actor b
            else update_status E rid tid st None actor b)
       (bulk_update_status E rest st actor)"

fun bulk_assign ::
  "kanban_env \<Rightarrow> string list \<Rightarrow> string option \<Rightarrow> string \<Rightarrow> board \<Rightarrow> board kanban" where
  "bulk_assign E [] assignee actor b = Inr b"
| "bulk_assign E (tid # rest) assignee actor b =
     ebind (assign_task E tid assignee actor b) (bulk_assign E rest assignee actor)"

text \<open>One status written to each candidate of a sweep.\<close>

fun flip_all ::
  "kanban_env \<Rightarrow> string list \<Rightarrow> task_status \<Rightarrow> string \<Rightarrow> string \<Rightarrow> board \<Rightarrow> board kanban" where
  "flip_all E [] st reason actor b = Inr b"
| "flip_all E (tid # rest) st reason actor b =
     ebind (update_status E [] tid st (Some reason) actor b) (flip_all E rest st reason actor)"

section \<open>Promotion and roll-up\<close>

definition promote_candidates :: "board \<Rightarrow> string list" where
  "promote_candidates b =
     map t_id (filter (\<lambda>t. t_status t = Todo
        \<and> \<not> (\<exists>p \<in> set (parents_of (b_links b) (t_id t)). blocking_parent b (t_id t) p)) (b_tasks b))"

definition promote_ready :: "kanban_env \<Rightarrow> string \<Rightarrow> board \<Rightarrow> (string list \<times> board) kanban" where
  "promote_ready E actor b =
     (let cs = promote_candidates b
      in ebind (flip_all E cs Ready ''parents done'' actor b) (\<lambda>b'. Inr (cs, b')))"

definition scheduled_candidates :: "int \<Rightarrow> board \<Rightarrow> string list" where
  "scheduled_candidates now b =
     map t_id (filter (\<lambda>t. t_status t = Scheduled
        \<and> (case t_scheduled_for t of None \<Rightarrow> False | Some due \<Rightarrow> due \<le> now)) (b_tasks b))"

definition promote_scheduled ::
  "kanban_env \<Rightarrow> int \<Rightarrow> string \<Rightarrow> board \<Rightarrow> (string list \<times> board) kanban" where
  "promote_scheduled E now actor b =
     (let cs = scheduled_candidates now b
      in ebind (flip_all E cs Ready ''scheduled time reached'' actor b) (\<lambda>b'. Inr (cs, b')))"

definition child_statuses :: "board \<Rightarrow> string \<Rightarrow> task_status list" where
  "child_statuses b p =
     List.map_filter (\<lambda>l. if fst l = p then map_option t_status (get_task b (snd l)) else None)
       (b_links b)"

definition rollup_candidates :: "board \<Rightarrow> string list" where
  "rollup_candidates b =
     map t_id (filter (\<lambda>g. t_assignee g = None \<and> t_status g \<notin> {Done, Archived}
        \<and> Done \<in> set (child_statuses b (t_id g))
        \<and> \<not> (\<exists>s \<in> set (child_statuses b (t_id g)). s \<notin> {Done, Archived})) (b_tasks b))"

definition rollup_completed_goals ::
  "kanban_env \<Rightarrow> string \<Rightarrow> board \<Rightarrow> (string list \<times> board) kanban" where
  "rollup_completed_goals E actor b =
     (let cs = rollup_candidates b
      in ebind (flip_all E cs Done ''all children done'' actor b) (\<lambda>b'. Inr (cs, b')))"

definition orphan_candidates :: "int \<Rightarrow> board \<Rightarrow> string list" where
  "orphan_candidates age b =
     map t_id (filter (\<lambda>t. t_assignee t = None \<and> t_status t \<notin> {Done, Archived}
        \<and> t_created_at t \<le> age \<and> \<not> (\<exists>l \<in> set (b_links b). fst l = t_id t)) (b_tasks b))"

definition adopt_orphan_tickets ::
  "kanban_env \<Rightarrow> string \<Rightarrow> int option \<Rightarrow> string option \<Rightarrow> board \<Rightarrow> (string list \<times> board) kanban" where
  "adopt_orphan_tickets E coordinator grace actor b =
     (let cs = orphan_candidates (k_now E - or_else grace 60000) b
      in ebind (bulk_assign E cs (Some coordinator) (or_else actor ''system'') b)
           (\<lambda>b'. Inr (cs, b')))"

section \<open>Liveness\<close>

text \<open>
  \<open>bumpActiveHeartbeats\<close>: \<open>None\<close> is a non-finite argument.
\<close>

definition bump_active_heartbeats :: "rat option \<Rightarrow> board \<Rightarrow> nat \<times> board" where
  "bump_active_heartbeats pause b =
     (case pause of
        None \<Rightarrow> (0, b)
      | Some p \<Rightarrow>
          (let off = js_round p
           in if off \<le> 0 then (0, b)
              else (length (filter run_is_open (b_runs b))
                      + length (filter (\<lambda>t. t_status t = Running) (b_tasks b)),
                    b\<lparr>b_runs := map (\<lambda>r. if run_is_open r
                          then r\<lparr>r_heartbeat_at := r_heartbeat_at r + off\<rparr> else r) (b_runs b),
                      b_tasks := map (\<lambda>t. if t_status t = Running
                          then t\<lparr>t_updated_at := t_updated_at t + off\<rparr> else t) (b_tasks b)\<rparr>)))"

definition find_stalled_runs :: "int \<Rightarrow> int \<Rightarrow> board \<Rightarrow> task_run list" where
  "find_stalled_runs cutoff now b =
     sort_key r_heartbeat_at
       (filter (\<lambda>r. run_is_open r \<and> r_heartbeat_at r < now - cutoff) (b_runs b))"

definition find_stale_running :: "int \<Rightarrow> int \<Rightarrow> board \<Rightarrow> task list" where
  "find_stale_running threshold now b =
     sort_key t_updated_at
       (filter (\<lambda>t. t_status t = Running \<and> t_updated_at t < now - threshold) (b_tasks b))"

section \<open>Queries\<close>

definition find_ready_to_dispatch :: "board \<Rightarrow> task list" where
  "find_ready_to_dispatch b =
     sort_key (\<lambda>t. (- t_priority t, t_created_at t))
       (filter (\<lambda>t. t_status t = Ready \<and> t_assignee t \<noteq> None \<and> t_current_run t = None) (b_tasks b))"

text \<open>\<open>listTasks\<close> without its free-text argument; a negative limit means no limit.\<close>

record list_filter =
  l_assignee :: "string option"
  l_status :: "task_status option"
  l_parent :: "string option"
  l_limit :: "int option"

definition list_tasks :: "list_filter \<Rightarrow> board \<Rightarrow> task list" where
  "list_tasks F b =
     (let keep = (\<lambda>t. (case l_status F of None \<Rightarrow> True | Some s \<Rightarrow> t_status t = s)
            \<and> (case l_assignee F of None \<Rightarrow> True | Some a \<Rightarrow> t_assignee t = Some a)
            \<and> (case l_parent F of None \<Rightarrow> True | Some p \<Rightarrow> (p, t_id t) \<in> set (b_links b)));
          rows = sort_key (\<lambda>t. (- t_priority t, - t_created_at t)) (filter keep (b_tasks b));
          lim = or_else (l_limit F) (- 1)
      in if lim < 0 then rows else take (nat lim) rows)"

definition get_parents :: "string \<Rightarrow> board \<Rightarrow> task list" where
  "get_parents child b =
     sort_key t_created_at (filter (\<lambda>t. (t_id t, child) \<in> set (b_links b)) (b_tasks b))"

definition list_runs :: "string \<Rightarrow> board \<Rightarrow> task_run list" where
  "list_runs tid b = sort_key r_started_at (filter (\<lambda>r. r_task r = tid) (b_runs b))"

definition list_comments :: "string \<Rightarrow> board \<Rightarrow> task_comment list" where
  "list_comments tid b = sort_key c_created_at (filter (\<lambda>c. c_task c = tid) (b_comments b))"

definition list_events :: "string \<Rightarrow> board \<Rightarrow> task_event list" where
  "list_events tid b =
     sort_key (\<lambda>e. (e_created_at e, e_id e)) (filter (\<lambda>e. e_task e = tid) (b_events b))"

definition get_member_stats :: "kanban_env \<Rightarrow> board \<Rightarrow> (string \<times> member_stats) list" where
  "get_member_stats E b = (if k_team E = None then [] else b_stats b)"

section \<open>Swarms\<close>

function collapse_spaces :: "string \<Rightarrow> string" where
  "collapse_spaces [] = []"
| "collapse_spaces (c # cs) =
     (if js_space c then CHR '' '' # collapse_spaces (dropWhile js_space cs)
      else c # collapse_spaces cs)"
  by pat_completeness auto
termination
  by (relation "measure length") (auto simp: le_imp_less_Suc length_dropWhile_le)

definition truncate_for_title :: "string \<Rightarrow> string" where
  "truncate_for_title text =
     (let t = collapse_spaces (js_trim text)
      in if t = [] then ''(empty)''
         else if length t \<le> 80 then t else take 79 t @ ellipsis)"

definition swarm_input :: "string \<Rightarrow> string \<Rightarrow> string option \<Rightarrow> string list \<Rightarrow>
    turn_audience option \<Rightarrow> string \<Rightarrow> task_input" where
  "swarm_input title body assignee parents aud actor =
     \<lparr>i_title = title, i_body = Some body, i_assignee = assignee, i_priority = None,
      i_parents = parents, i_workspace_mode = None, i_scheduled_for = None,
      i_idempotency_key = None, i_max_retries = None, i_acceptance = None,
      i_audience = aud, i_actor = Some actor\<rparr>"

text \<open>A worker of the input, with the task id drawn for it.\<close>

fun swarm_workers ::
  "kanban_env \<Rightarrow> string \<Rightarrow> (string \<times> string \<times> string) list \<Rightarrow> turn_audience option \<Rightarrow> string \<Rightarrow>
     board \<Rightarrow> (string list \<times> board) kanban" where
  "swarm_workers E goal_id [] aud actor b = Inr ([], b)"
| "swarm_workers E goal_id ((wid, personality, prompt) # ws) aud actor b =
     ebind (create_task E wid
         (swarm_input (''Swarm worker ('' @ personality @ ''): '' @ truncate_for_title prompt)
            prompt (Some personality) [goal_id] aud actor) b) (\<lambda>(i, b1).
       ebind (swarm_workers E goal_id ws aud actor b1) (\<lambda>(is, b2). Inr (i # is, b2)))"

record swarm_result =
  w_root :: string
  w_workers :: "string list"
  w_verifier :: "string option"
  w_synthesizer :: "string option"

text \<open>An optional tier: an omitted or empty personality creates nothing.\<close>

definition swarm_tier ::
  "kanban_env \<Rightarrow> string \<Rightarrow> string \<Rightarrow> string \<Rightarrow> string option \<Rightarrow> string list \<Rightarrow> turn_audience option \<Rightarrow>
     string \<Rightarrow> board \<Rightarrow> (string option \<times> board) kanban" where
  "swarm_tier E tid title body personality parents aud actor b =
     (case personality of
        None \<Rightarrow> Inr (None, b)
      | Some p \<Rightarrow>
          if p = [] then Inr (None, b)
          else ebind (create_task E tid (swarm_input title body (Some p) parents aud actor) b)
                 (\<lambda>(i, b1). Inr (Some i, b1)))"

definition create_swarm ::
  "kanban_env \<Rightarrow> string \<times> string \<times> string \<Rightarrow> string \<Rightarrow> (string \<times> string \<times> string) list \<Rightarrow>
     string option \<Rightarrow> string option \<Rightarrow> turn_audience option \<Rightarrow> string \<Rightarrow> board \<Rightarrow>
     (swarm_result \<times> board) kanban" where
  "create_swarm E fresh goal workers verifier synthesizer aud actor b =
     (case fresh of (root_id, verifier_id, synth_id) \<Rightarrow>
      ebind (create_task E root_id
          (swarm_input (''Swarm goal: '' @ truncate_for_title goal) goal None [] aud actor) b)
        (\<lambda>(goal_id, b1).
      ebind (update_status E [] goal_id Done (Some (''swarm root '' @ em_dash @ '' shared context''))
               actor b1) (\<lambda>b2.
      ebind (swarm_workers E goal_id workers aud actor b2) (\<lambda>(ws, b3).
      ebind (swarm_tier E verifier_id ''Verify swarm worker output''
               (''Verify the worker results below against this goal:'' @ [CHR 0x0A, CHR 0x0A] @ goal)
               verifier ws aud actor b3) (\<lambda>(v, b4).
      ebind (swarm_tier E synth_id ''Synthesize swarm results''
               (''Synthesize the final result for this goal:'' @ [CHR 0x0A, CHR 0x0A] @ goal)
               synthesizer (case v of Some i \<Rightarrow> [i] | None \<Rightarrow> ws) aud actor b4) (\<lambda>(sy, b5).
        Inr (\<lparr>w_root = goal_id, w_workers = ws, w_verifier = v, w_synthesizer = sy\<rparr>, b5)))))))"

section \<open>Autonomy tiers\<close>

datatype autonomy_tier = Probationary | Standard | Trusted

datatype trust_mode = FlatMode | TieredMode

text \<open>A policy's thresholds, each optional, and the defaults they are spread over.\<close>

record trust_thresholds =
  standard_min_completed :: "int option"
  standard_min_ratio :: "rat option"
  trusted_min_completed :: "int option"
  trusted_min_ratio :: "rat option"

definition autonomy_tier ::
  "member_stats \<Rightarrow> (trust_mode \<times> trust_thresholds) option \<Rightarrow> autonomy_tier" where
  "autonomy_tier s policy =
     (case policy of
        None \<Rightarrow> Standard
      | Some (mode, t) \<Rightarrow>
          if mode = FlatMode then Standard
          else
            (let total = m_completed s + m_failed s + m_orphaned s
             in if total = 0 then Probationary
                else
                  (let ratio = of_int (m_completed s) / of_int total :: rat
                   in if m_completed s \<ge> or_else (trusted_min_completed t) 30
                         \<and> ratio \<ge> or_else (trusted_min_ratio t) (9 / 10)
                      then Trusted
                      else if m_completed s \<ge> or_else (standard_min_completed t) 10
                         \<and> ratio \<ge> or_else (standard_min_ratio t) (1 / 2)
                      then Standard
                      else Probationary)))"

fun tier_max_retries :: "autonomy_tier \<Rightarrow> int" where
  "tier_max_retries Probationary = 1"
| "tier_max_retries Standard = 3"
| "tier_max_retries Trusted = 5"

end
