(* ===== verification/KanbanInv.thy ===== *)
theory KanbanInv
  imports KanbanSweeps
begin

text \<open>
  The invariant of the kanban board and its preservation by every operation. The board is read
  through two maps, task id to task and run id to run; the invariant says that a task is
  \<open>running\<close> exactly when it names an open run of its own, that every open run is the current run
  of its task, that a running task is within its retry budget, that the links join existing tasks
  without a cycle, and that the board-wide cap on running tasks holds.
\<close>

section \<open>The ancestor query\<close>

lemma ancestors_loop_sound:
  "x \<in> set (ancestors_loop ls seen q) \<Longrightarrow>
     x \<in> set seen \<or> (\<exists>y \<in> set q. (x, y) \<in> (set ls)\<^sup>+)"
proof (induction ls seen q rule: ancestors_loop.induct)
  case (1 ls seen)
  then show ?case by simp
next
  case (2 ls seen z q)
  let ?ns = "new_rows seen (parents_of ls z)"
  have ns: "(y, z) \<in> set ls" if "y \<in> set ?ns" for y
    using that by (simp add: new_rows_set parents_of_set)
  from 2 have "x \<in> set (seen @ ?ns) \<or> (\<exists>y \<in> set (q @ ?ns). (x, y) \<in> (set ls)\<^sup>+)"
    by (simp add: Let_def)
  then show ?case
    using ns by (auto intro: trancl_into_trancl)
qed

lemma ancestors_loop_closed:
  assumes "\<forall>x \<in> set seen - set q. set (parents_of ls x) \<subseteq> set seen" "set q \<subseteq> set seen"
  shows "set seen \<subseteq> set (ancestors_loop ls seen q)
    \<and> (\<forall>x \<in> set (ancestors_loop ls seen q).
         set (parents_of ls x) \<subseteq> set (ancestors_loop ls seen q))"
  using assms
proof (induction ls seen q rule: ancestors_loop.induct)
  case (1 ls seen)
  then show ?case by auto
next
  case (2 ls seen z q)
  let ?ns = "new_rows seen (parents_of ls z)"
  have sub: "set (parents_of ls z) \<subseteq> set (seen @ ?ns)"
    by (auto simp: new_rows_set)
  have "\<forall>x \<in> set (seen @ ?ns) - set (q @ ?ns). set (parents_of ls x) \<subseteq> set (seen @ ?ns)"
  proof
    fix x assume x: "x \<in> set (seen @ ?ns) - set (q @ ?ns)"
    show "set (parents_of ls x) \<subseteq> set (seen @ ?ns)"
    proof (cases "x = z")
      case True
      with sub show ?thesis by simp
    next
      case False
      with x 2(2) show ?thesis by fastforce
    qed
  qed
  moreover have "set (q @ ?ns) \<subseteq> set (seen @ ?ns)"
    using 2(3) by auto
  ultimately show ?case
    using 2(1) [OF refl] by (auto simp: Let_def)
qed

lemma ancestors_set: "set (ancestors ls c) = {x. (x, c) \<in> (set ls)\<^sup>+}"
proof (intro equalityI subsetI)
  fix x assume "x \<in> set (ancestors ls c)"
  then show "x \<in> {x. (x, c) \<in> (set ls)\<^sup>+}"
    unfolding ancestors_def Let_def
    by (auto dest!: ancestors_loop_sound simp: new_rows_set parents_of_set
        intro: trancl_into_trancl)
next
  let ?ps = "new_rows [] (parents_of ls c)"
  have cl: "set ?ps \<subseteq> set (ancestors ls c)"
    "\<forall>y \<in> set (ancestors ls c). set (parents_of ls y) \<subseteq> set (ancestors ls c)"
    using ancestors_loop_closed [of ?ps ?ps ls] by (auto simp: ancestors_def Let_def)
  fix x assume "x \<in> {x. (x, c) \<in> (set ls)\<^sup>+}"
  then have "(x, c) \<in> (set ls)\<^sup>+" by simp
  then show "x \<in> set (ancestors ls c)"
  proof (induction rule: converse_trancl_induct)
    case (base y)
    then have "y \<in> set ?ps" by (simp add: new_rows_set parents_of_set)
    with cl(1) show ?case by blast
  next
    case (step y z)
    then have "y \<in> set (parents_of ls z)" by (simp add: parents_of_set)
    with cl(2) step.IH show ?case by blast
  qed
qed

section \<open>Reading the board through maps\<close>

definition get_run :: "board \<Rightarrow> string \<Rightarrow> task_run option" where
  "get_run b i = find (\<lambda>r. r_id r = i) (b_runs b)"

lemma get_task_id: "get_task b i = Some t \<Longrightarrow> t_id t = i"
  by (auto simp: get_task_def dest: find_SomeD)

lemma get_task_mem: "get_task b i = Some t \<Longrightarrow> t \<in> set (b_tasks b)"
  by (auto simp: get_task_def dest: find_SomeD)

lemma get_run_id: "get_run b i = Some r \<Longrightarrow> r_id r = i"
  by (auto simp: get_run_def dest: find_SomeD)

lemma get_task_None: "get_task b i = None \<longleftrightarrow> i \<notin> t_id ` set (b_tasks b)"
  by (auto simp: get_task_def find_None_iff)

lemma get_run_None: "get_run b i = None \<longleftrightarrow> i \<notin> r_id ` set (b_runs b)"
  by (auto simp: get_run_def find_None_iff)

text \<open>Operations on the other tables leave tasks, links and runs alone.\<close>

lemma emit_event_frame [simp, frame_simps]:
  "b_tasks (emit_event E i d a b) = b_tasks b" "b_links (emit_event E i d a b) = b_links b"
  "b_runs (emit_event E i d a b) = b_runs b" "b_comments (emit_event E i d a b) = b_comments b"
  "b_stats (emit_event E i d a b) = b_stats b"
  by (simp_all add: emit_event_def)

lemma bump_member_stat_frame [simp, frame_simps]:
  "b_tasks (bump_member_stat E m c b) = b_tasks b"
  "b_links (bump_member_stat E m c b) = b_links b"
  "b_runs (bump_member_stat E m c b) = b_runs b"
  "b_comments (bump_member_stat E m c b) = b_comments b"
  by (simp_all add: bump_member_stat_def Let_def split: option.splits)

lemma upd_task_frame [simp, frame_simps]:
  "b_links (upd_task i f b) = b_links b" "b_runs (upd_task i f b) = b_runs b"
  "b_comments (upd_task i f b) = b_comments b" "b_stats (upd_task i f b) = b_stats b"
  by (simp_all add: upd_task_def)

lemma upd_open_run_frame [simp, frame_simps]:
  "b_tasks (snd (upd_open_run i f b)) = b_tasks b"
  "b_links (snd (upd_open_run i f b)) = b_links b"
  "b_comments (snd (upd_open_run i f b)) = b_comments b"
  by (simp_all add: upd_open_run_def)

lemma get_task_cong: "b_tasks b' = b_tasks b \<Longrightarrow> get_task b' i = get_task b i"
  by (simp add: get_task_def)

lemma get_run_cong: "b_runs b' = b_runs b \<Longrightarrow> get_run b' i = get_run b i"
  by (simp add: get_run_def)

text \<open>What the two updates do to the maps.\<close>

lemma get_task_upd:
  assumes "\<And>t. t_id (f t) = t_id t"
  shows "get_task (upd_task i f b) j =
     (if j = i then map_option f (get_task b i) else get_task b j)"
proof -
  let ?g = "\<lambda>t. if t_id t = i then f t else t"
  have "get_task (upd_task i f b) j = map_option ?g (get_task b j)"
    unfolding get_task_def upd_task_def by (simp add: find_map_other assms)
  then show ?thesis
    by (cases "get_task b j") (auto dest: get_task_id)
qed

lemma upd_task_ids:
  assumes "\<And>t. t_id (f t) = t_id t"
  shows "map t_id (b_tasks (upd_task i f b)) = map t_id (b_tasks b)"
  by (simp add: upd_task_def assms)

lemma get_run_upd_open:
  assumes "\<And>r. r_id (f r) = r_id r"
  shows "get_run (snd (upd_open_run i f b)) j =
     (if j = i then map_option (\<lambda>r. if run_is_open r then f r else r) (get_run b i)
      else get_run b j)"
proof -
  let ?g = "\<lambda>r. if r_id r = i \<and> run_is_open r then f r else r"
  have "get_run (snd (upd_open_run i f b)) j = map_option ?g (get_run b j)"
    unfolding get_run_def upd_open_run_def by (simp add: find_map_other assms)
  then show ?thesis
    by (cases "get_run b j") (auto dest: get_run_id)
qed

lemma upd_open_run_ids:
  assumes "\<And>r. r_id (f r) = r_id r"
  shows "map r_id (b_runs (snd (upd_open_run i f b))) = map r_id (b_runs b)"
  by (simp add: upd_open_run_def assms)

lemma filter_key_count:
  assumes "distinct (map key xs)"
  shows "length (filter (\<lambda>x. key x = k \<and> P x) xs) =
     (case find (\<lambda>x. key x = k) xs of None \<Rightarrow> 0 | Some x \<Rightarrow> if P x then 1 else 0)"
  using assms
proof (induction xs)
  case Nil
  then show ?case by simp
next
  case (Cons a xs)
  show ?case
  proof (cases "key a = k")
    case True
    with Cons.prems have "\<forall>x \<in> set xs. key x \<noteq> k" by (metis distinct.simps(2) image_eqI image_set list.map(2))
    with True show ?thesis by (simp add: filter_False)
  next
    case False
    with Cons show ?thesis by simp
  qed
qed

lemma upd_open_run_changes:
  assumes "distinct (map r_id (b_runs b))"
  shows "fst (upd_open_run i f b) =
     (case get_run b i of None \<Rightarrow> 0 | Some r \<Rightarrow> if run_is_open r then 1 else 0)"
  using assms by (simp add: upd_open_run_def get_run_def filter_key_count)

lemma insert_run_Inr:
  assumes "insert_run r b = Inr b'"
  shows "b' = b\<lparr>b_runs := b_runs b @ [r]\<rparr>" "get_run b (r_id r) = None"
    "get_run b' j = (if j = r_id r then Some r else get_run b j)"
proof -
  show eq: "b' = b\<lparr>b_runs := b_runs b @ [r]\<rparr>"
    using assms by (auto simp: insert_run_def split: if_splits)
  show None: "get_run b (r_id r) = None"
    using assms by (auto simp: insert_run_def get_run_def find_None_iff split: if_splits)
  show "get_run b' j = (if j = r_id r then Some r else get_run b j)"
    using None eq by (auto simp: get_run_def find_append split: option.split)
qed

section \<open>The invariant\<close>

text \<open>Tasks and their runs: each points at the other exactly when the task is running.\<close>

definition own_ok :: "board \<Rightarrow> bool" where
  "own_ok b \<longleftrightarrow>
     (\<forall>i t. get_task b i = Some t \<longrightarrow>
        (t_status t = Running) = (t_current_run t \<noteq> None)
        \<and> (\<forall>r. t_current_run t = Some r \<longrightarrow>
             (\<exists>q. get_run b r = Some q \<and> r_task q = i \<and> run_is_open q)))
     \<and> (\<forall>r q. get_run b r = Some q \<longrightarrow> run_is_open q \<longrightarrow>
          (\<exists>t. get_task b (r_task q) = Some t \<and> t_current_run t = Some r))"

lemma own_okI:
  assumes "\<And>i t. get_task b i = Some t \<Longrightarrow> (t_status t = Running) = (t_current_run t \<noteq> None)"
    and "\<And>i t r. get_task b i = Some t \<Longrightarrow> t_current_run t = Some r \<Longrightarrow>
       \<exists>q. get_run b r = Some q \<and> r_task q = i \<and> run_is_open q"
    and "\<And>r q. get_run b r = Some q \<Longrightarrow> run_is_open q \<Longrightarrow>
       \<exists>t. get_task b (r_task q) = Some t \<and> t_current_run t = Some r"
  shows "own_ok b"
  using assms unfolding own_ok_def by blast

lemma own_ok_running:
  "own_ok b \<Longrightarrow> get_task b i = Some t \<Longrightarrow> (t_status t = Running) = (t_current_run t \<noteq> None)"
  unfolding own_ok_def by blast

lemma own_ok_run:
  "own_ok b \<Longrightarrow> get_task b i = Some t \<Longrightarrow> t_current_run t = Some r \<Longrightarrow>
     \<exists>q. get_run b r = Some q \<and> r_task q = i \<and> run_is_open q"
  unfolding own_ok_def by blast

lemma own_ok_task:
  "own_ok b \<Longrightarrow> get_run b r = Some q \<Longrightarrow> run_is_open q \<Longrightarrow>
     \<exists>t. get_task b (r_task q) = Some t \<and> t_current_run t = Some r"
  unfolding own_ok_def by blast

definition ids_ok :: "board \<Rightarrow> bool" where
  "ids_ok b \<longleftrightarrow> distinct (map t_id (b_tasks b)) \<and> distinct (map r_id (b_runs b))"

definition task_ok :: "task \<Rightarrow> bool" where
  "task_ok t \<longleftrightarrow> 0 \<le> t_retry_count t \<and> 0 \<le> t_block_count t
     \<and> (t_status t = Running \<longrightarrow>
          (case t_max_retries t of None \<Rightarrow> True | Some m \<Rightarrow> t_retry_count t \<le> m))"

definition tasks_ok :: "board \<Rightarrow> bool" where
  "tasks_ok b \<longleftrightarrow> (\<forall>i t. get_task b i = Some t \<longrightarrow> task_ok t)"

definition links_ok :: "board \<Rightarrow> bool" where
  "links_ok b \<longleftrightarrow> distinct (b_links b) \<and> acyclic (set (b_links b))
     \<and> (\<forall>p c. (p, c) \<in> set (b_links b) \<longrightarrow> get_task b p \<noteq> None \<and> get_task b c \<noteq> None)"

definition running_tasks :: "board \<Rightarrow> task list" where
  "running_tasks b = filter (\<lambda>t. t_status t = Running) (b_tasks b)"

definition wip_ok :: "kanban_env \<Rightarrow> board \<Rightarrow> bool" where
  "wip_ok E b \<longleftrightarrow>
     (case k_max_in_progress E of None \<Rightarrow> True | Some cap \<Rightarrow> length (running_tasks b) \<le> nat cap)"

definition kanban_inv :: "kanban_env \<Rightarrow> board \<Rightarrow> bool" where
  "kanban_inv E b \<longleftrightarrow> ids_ok b \<and> own_ok b \<and> tasks_ok b \<and> links_ok b \<and> wip_ok E b"

text \<open>Only the tasks, the links and the runs matter to it.\<close>

lemma board_frame:
  assumes "b_tasks b' = b_tasks b" "b_runs b' = b_runs b"
  shows "ids_ok b' = ids_ok b" "own_ok b' = own_ok b" "tasks_ok b' = tasks_ok b"
    "wip_ok E b' = wip_ok E b"
proof -
  have T: "get_task b' i = get_task b i" and R: "get_run b' i = get_run b i" for i
    using assms by (auto intro: get_task_cong get_run_cong)
  have W: "running_tasks b' = running_tasks b"
    by (simp add: running_tasks_def assms)
  show "ids_ok b' = ids_ok b" by (simp add: ids_ok_def assms)
  show "own_ok b' = own_ok b" by (simp only: own_ok_def T R)
  show "tasks_ok b' = tasks_ok b" by (simp only: tasks_ok_def T)
  show "wip_ok E b' = wip_ok E b" by (simp only: wip_ok_def W)
qed

lemma kanban_inv_cong:
  assumes "b_tasks b' = b_tasks b" "b_links b' = b_links b" "b_runs b' = b_runs b"
  shows "kanban_inv E b' = kanban_inv E b"
proof -
  have "get_task b' i = get_task b i" for i
    using assms by (auto intro: get_task_cong)
  then show ?thesis
    by (simp only: kanban_inv_def links_ok_def board_frame [OF assms(1,3)] assms(2))
qed

lemma kanban_inv_clock: "kanban_inv (E\<lparr>k_now := n\<rparr>) b = kanban_inv E b"
  by (simp add: kanban_inv_def wip_ok_def)

lemma kanban_inv_emit [simp]: "kanban_inv E (emit_event F i d a b) = kanban_inv E b"
  by (rule kanban_inv_cong) simp_all

lemma kanban_inv_bump [simp]: "kanban_inv E (bump_member_stat F m c b) = kanban_inv E b"
  by (rule kanban_inv_cong) simp_all

lemma kanban_inv_empty: "kanban_inv E empty_board"
  by (simp add: kanban_inv_def ids_ok_def own_ok_def tasks_ok_def links_ok_def wip_ok_def
      running_tasks_def empty_board_def get_task_def get_run_def acyclic_def split: option.split)

subsection \<open>Counting running tasks\<close>

lemma running_split:
  assumes "distinct (map t_id (b_tasks b))"
  shows "length (running_tasks b) = length (running_others b tid)
     + (case get_task b tid of None \<Rightarrow> 0 | Some t \<Rightarrow> if t_status t = Running then 1 else 0)"
proof -
  have "length (running_tasks b) = length (running_others b tid)
      + length (filter (\<lambda>t. t_id t = tid \<and> t_status t = Running) (b_tasks b))"
    unfolding running_tasks_def running_others_def
    by (subst length_filter_split [where Q = "\<lambda>t. t_id t = tid"]) (simp add: conj_commute)
  then show ?thesis
    using filter_key_count [OF assms, of tid "\<lambda>t. t_status t = Running"]
    by (simp add: get_task_def)
qed

lemma running_others_upd:
  assumes "\<And>t. t_id (f t) = t_id t"
  shows "running_others (upd_task tid f b) tid = running_others b tid"
proof -
  have "filter (\<lambda>t. t_status t = Running \<and> t_id t \<noteq> tid)
      (map (\<lambda>t. if t_id t = tid then f t else t) ts)
    = filter (\<lambda>t. t_status t = Running \<and> t_id t \<noteq> tid) ts" for ts
    by (induction ts) (simp_all add: assms)
  then show ?thesis by (simp add: running_others_def upd_task_def)
qed

lemma running_count_upd:
  assumes "distinct (map t_id (b_tasks b))" "\<And>t. t_id (f t) = t_id t" "get_task b tid = Some row"
  shows "length (running_tasks (upd_task tid f b)) =
     length (running_others b tid) + (if t_status (f row) = Running then 1 else 0)"
proof -
  have d: "distinct (map t_id (b_tasks (upd_task tid f b)))"
    using assms(1,2) by (simp only: upd_task_ids)
  show ?thesis
    using running_split [OF d, of tid] assms(2,3)
    by (simp add: get_task_upd running_others_upd)
qed

end
