(* ===== verification/KanbanSafe.thy ===== *)
theory KanbanSafe
  imports KanbanInv
begin

text \<open>
  Every operation of the kanban store keeps the board invariant: first the updates the operations
  are made of (a task edit that keeps its run, opening a run, closing a run, a new task, a new
  link), then the operations, then any sequence of them with throws in between.
\<close>

section \<open>The updates\<close>

text \<open>A task edit that leaves id and current run alone and does not change being \<open>running\<close>.\<close>

lemma kanban_inv_edit:
  assumes inv: "kanban_inv E b"
    and row: "get_task b tid = Some row"
    and f: "\<And>t. t_id (f t) = t_id t" "t_current_run (f row) = t_current_run row"
      "(t_status (f row) = Running) = (t_status row = Running)" "task_ok (f row)"
  shows "kanban_inv E (upd_task tid f b)"
proof -
  have ids: "distinct (map t_id (b_tasks b))"
    using inv by (simp add: kanban_inv_def ids_ok_def)
  have cnt: "length (running_tasks (upd_task tid f b)) = length (running_tasks b)"
    using running_count_upd [OF ids f(1) row] running_split [OF ids, of tid] row f(3) by simp
  have T: "get_task (upd_task tid f b) j = (if j = tid then Some (f row) else get_task b j)" for j
    by (simp add: get_task_upd f(1) row)
  have R: "get_run (upd_task tid f b) r = get_run b r" for r
    by (simp add: get_run_def)
  have own: "own_ok b" using inv by (simp add: kanban_inv_def)
  have "own_ok (upd_task tid f b)"
  proof (rule own_okI, goal_cases)
    case (1 i t)
    then show ?case
      using own_ok_running [OF own] row f(2,3) by (auto simp: T split: if_splits)
  next
    case (2 i t r)
    then show ?case
      using own_ok_run [OF own] row f(2) by (auto simp: T R split: if_splits)
  next
    case (3 r q)
    then show ?case
      using own_ok_task [OF own, of r q] row f(2) by (auto simp: T R)
  qed
  moreover have "tasks_ok (upd_task tid f b)"
    using inv f(4) unfolding kanban_inv_def tasks_ok_def T by auto
  moreover have "links_ok (upd_task tid f b)"
    using inv unfolding kanban_inv_def links_ok_def T by auto
  moreover have "ids_ok (upd_task tid f b)"
    using inv f(1) by (simp add: kanban_inv_def ids_ok_def upd_task_ids)
  moreover have "wip_ok E (upd_task tid f b)"
    using inv cnt by (simp add: kanban_inv_def wip_ok_def split: option.splits)
  ultimately show ?thesis by (simp add: kanban_inv_def)
qed

text \<open>Opening a run for a task that has none.\<close>

lemma kanban_inv_open:
  assumes inv: "kanban_inv E b"
    and row: "get_task b tid = Some row" "t_current_run row = None"
    and ins: "insert_run q b = Inr b1" "r_task q = tid" "run_is_open q"
    and f: "\<And>t. t_id (f t) = t_id t" "t_current_run (f row) = Some (r_id q)"
      "t_status (f row) = Running" "task_ok (f row)"
    and cap: "\<And>c. k_max_in_progress E = Some c \<Longrightarrow> int (length (running_others b tid)) < c"
  shows "kanban_inv E (upd_task tid f b1)"
proof -
  note b1 = insert_run_Inr [OF ins(1)]
  have ids: "distinct (map t_id (b_tasks b1))" "get_task b1 tid = Some row"
    "running_others b1 tid = running_others b tid"
    using inv row by (simp_all add: kanban_inv_def ids_ok_def b1(1) get_task_def running_others_def)
  have T: "get_task (upd_task tid f b1) j = (if j = tid then Some (f row) else get_task b j)" for j
    by (simp add: get_task_upd f(1) row ids) (simp add: b1(1) get_task_def)
  have R: "get_run (upd_task tid f b1) r = (if r = r_id q then Some q else get_run b r)" for r
    using b1(3) by (simp add: get_run_def)
  have "own_ok (upd_task tid f b1)"
    using inv row ins(2,3) f(2,3) b1(2) unfolding kanban_inv_def own_ok_def T R
    by auto (metis option.distinct(1) option.inject)+
  moreover have "tasks_ok (upd_task tid f b1)"
    using inv f(4) unfolding kanban_inv_def tasks_ok_def T by auto
  moreover have "links_ok (upd_task tid f b1)"
    using inv unfolding kanban_inv_def links_ok_def T by (auto simp: b1(1))
  moreover have "r_id q \<notin> r_id ` set (b_runs b)"
    using b1(2) by (simp add: get_run_None)
  then have "ids_ok (upd_task tid f b1)"
    using inv f(1) by (simp add: kanban_inv_def ids_ok_def upd_task_ids b1(1))
  moreover have "wip_ok E (upd_task tid f b1)"
    using running_count_upd [OF ids(1) f(1) ids(2)] ids(3) f(3) cap
    by (auto simp: wip_ok_def split: option.splits)
  ultimately show ?thesis by (simp add: kanban_inv_def)
qed

text \<open>Closing the current run of a task; the update of the run changes exactly one row.\<close>

lemma current_run_open:
  assumes "kanban_inv E b" "get_task b tid = Some row" "t_current_run row = Some rid"
  obtains q where "get_run b rid = Some q" "r_task q = tid" "run_is_open q"
    "\<And>g. fst (upd_open_run rid g b) = 1"
proof -
  from assms obtain q where q: "get_run b rid = Some q" "r_task q = tid" "run_is_open q"
    unfolding kanban_inv_def own_ok_def by blast
  moreover have "fst (upd_open_run rid g b) = 1" for g
    using assms(1) q by (simp add: upd_open_run_changes kanban_inv_def ids_ok_def)
  ultimately show ?thesis using that by blast
qed

lemma kanban_inv_close:
  assumes inv: "kanban_inv E b"
    and row: "get_task b tid = Some row" "t_current_run row = Some rid"
    and f: "\<And>t. t_id (f t) = t_id t" "t_current_run (f row) = None"
      "t_status (f row) \<noteq> Running" "task_ok (f row)"
    and g: "\<And>r. r_id (g r) = r_id r" "\<And>r. r_task (g r) = r_task r" "\<And>r. \<not> run_is_open (g r)"
  shows "kanban_inv E (upd_task tid f (snd (upd_open_run rid g b)))"
proof -
  let ?b1 = "snd (upd_open_run rid g b)"
  obtain q where q: "get_run b rid = Some q" "r_task q = tid" "run_is_open q"
    using current_run_open [OF inv row] by blast
  have ids: "distinct (map t_id (b_tasks ?b1))" "get_task ?b1 tid = Some row"
    "running_others ?b1 tid = running_others b tid"
    using inv row by (simp_all add: kanban_inv_def ids_ok_def get_task_def running_others_def)
  have T: "get_task (upd_task tid f ?b1) j = (if j = tid then Some (f row) else get_task b j)" for j
    by (simp add: get_task_upd f(1) row ids) (simp add: get_task_def)
  have R: "get_run (upd_task tid f ?b1) r = (if r = rid then Some (g q) else get_run b r)" for r
    using get_run_upd_open [OF g(1), of rid b r] q by (simp add: get_run_def)
  have "own_ok (upd_task tid f ?b1)"
    using inv row q f(2,3) g(3) unfolding kanban_inv_def own_ok_def T R
    by auto (metis option.inject)+
  moreover have "tasks_ok (upd_task tid f ?b1)"
    using inv f(4) unfolding kanban_inv_def tasks_ok_def T by auto
  moreover have "links_ok (upd_task tid f ?b1)"
    using inv unfolding kanban_inv_def links_ok_def T by auto
  moreover have "ids_ok (upd_task tid f ?b1)"
    using inv f(1) upd_open_run_ids [OF g(1), of rid b]
    by (simp add: kanban_inv_def ids_ok_def upd_task_ids)
  moreover have "wip_ok E (upd_task tid f ?b1)"
    using running_count_upd [OF ids(1) f(1) ids(2)] ids(3) f(3) inv
      running_split [of b tid] row
    by (auto simp: wip_ok_def kanban_inv_def ids_ok_def split: option.splits if_splits)
  ultimately show ?thesis by (simp add: kanban_inv_def)
qed

text \<open>An edit of an open run that keeps it open.\<close>

lemma kanban_inv_touch_run:
  assumes inv: "kanban_inv E b"
    and g: "\<And>r. r_id (g r) = r_id r" "\<And>r. r_task (g r) = r_task r"
      "\<And>r. r_ended_at (g r) = r_ended_at r"
  shows "kanban_inv E (snd (upd_open_run rid g b))"
proof -
  let ?b1 = "snd (upd_open_run rid g b)"
  have T: "get_task ?b1 j = get_task b j" for j by (simp add: get_task_def)
  have W: "running_tasks ?b1 = running_tasks b" by (simp add: running_tasks_def)
  have R: "get_run ?b1 r = map_option (\<lambda>q. if r = rid \<and> run_is_open q then g q else q) (get_run b r)"
    for r
    by (simp add: get_run_upd_open [OF g(1)] option.map_ident)
  have own: "own_ok b" using inv by (simp add: kanban_inv_def)
  have "own_ok ?b1"
  proof (rule own_okI, goal_cases)
    case (1 i t)
    then show ?case using own_ok_running [OF own] by (simp add: T)
  next
    case (2 i t r)
    then obtain q where "get_run b r = Some q" "r_task q = i" "run_is_open q"
      using own_ok_run [OF own, of i t r] by (auto simp: T)
    then show ?case
      by (intro exI [of _ "if r = rid then g q else q"]) (simp add: R run_is_open_def g(2,3))
  next
    case (3 r q)
    then show ?case
      using own_ok_task [OF own, of r] g(2,3) by (auto simp: T R run_is_open_def split: if_splits)
  qed
  then show ?thesis
    using inv upd_open_run_ids [OF g(1), of rid b]
    unfolding kanban_inv_def ids_ok_def tasks_ok_def links_ok_def wip_ok_def T W by simp
qed

section \<open>The operations\<close>

lemma kanban_inv_task_ok: "kanban_inv E b \<Longrightarrow> get_task b i = Some t \<Longrightarrow> task_ok t"
  unfolding kanban_inv_def tasks_ok_def by blast

lemma kanban_inv_running:
  "kanban_inv E b \<Longrightarrow> get_task b i = Some t \<Longrightarrow> (t_status t = Running) = (t_current_run t \<noteq> None)"
  unfolding kanban_inv_def by (metis own_ok_running)

lemma assert_wip_ok:
  assumes "assert_wip_capacity E tid a b = Inr u" "k_max_in_progress E = Some c"
  shows "int (length (running_others b tid)) < c"
  using assms by (auto simp: assert_wip_capacity_def ebind_eq_Inr Let_def split: if_splits)

lemma announce_flip_inv [simp]: "kanban_inv E (announce_flip F tid actor row f) = kanban_inv E (f_board f)"
  by (simp add: announce_flip_def Let_def)

lemma claim_run_inv:
  assumes inv: "kanban_inv E b" and row: "get_task b tid = Some row" "t_current_run row = None"
    and c: "claim_run E rid tid reason row b = Inr f"
  shows "kanban_inv E (f_board f)"
proof -
  define nxt where "nxt = t_retry_count row + (if \<exists>r \<in> set (b_runs b). r_task r = tid then 1 else 0)"
  define ex where "ex = (case t_max_retries row of None \<Rightarrow> False | Some m \<Rightarrow> nxt > m)"
  note tok = kanban_inv_task_ok [OF inv row(1)]
  from c have w: "assert_wip_capacity E tid (t_assignee row) b = Inr ()"
    by (auto simp: claim_run_def ebind_eq_Inr)
  note c' = c [unfolded claim_run_def w Let_def ebind_Inr nxt_def [symmetric], folded ex_def]
  have nxt: "0 \<le> nxt" using tok by (simp add: nxt_def task_ok_def)
  have ts: "t_status row \<noteq> Running"
    using kanban_inv_running [OF inv row(1)] row(2) by simp
  show ?thesis
  proof (cases ex)
    case True
    with c' have "f_board f = upd_task tid (\<lambda>t. t\<lparr>t_status := Failed, t_retry_count := nxt,
        t_updated_at := k_now E\<rparr>) b"
      by auto
    then show ?thesis
      using kanban_inv_edit [OF inv row(1)] row(2) ts tok nxt by (simp add: task_ok_def)
  next
    case False
    define q where "q = \<lparr>r_id = rid, r_task = tid, r_started_at = k_now E,
      r_ended_at = None, r_outcome = None, r_summary = None,
      r_heartbeat_at = k_now E, r_completed_by = None\<rparr>"
    from False c' obtain b1 where b1: "insert_run q b = Inr b1"
      and fb: "f_board f = upd_task tid (\<lambda>t. t\<lparr>t_status := Running, t_current_run := Some rid,
        t_retry_count := nxt, t_updated_at := k_now E\<rparr>) b1"
      by (auto simp: q_def ebind_eq_Inr)
    have "task_ok (row\<lparr>t_status := Running, t_current_run := Some rid,
        t_retry_count := nxt, t_updated_at := k_now E\<rparr>)"
      using tok False nxt by (simp add: task_ok_def ex_def split: option.splits)
    then show ?thesis
      unfolding fb
      by (intro kanban_inv_open [OF inv row b1]) (auto simp: q_def run_is_open_def dest: assert_wip_ok [OF w])
  qed
qed

lemma leave_run_inv:
  assumes "kanban_inv E b" "get_task b tid = Some row" "t_current_run row = Some rid" "st \<noteq> Running"
  shows "kanban_inv E (f_board (leave_run F tid st reason rid b))"
proof -
  have "f_board (leave_run F tid st reason rid b) =
    upd_task tid (\<lambda>t. t\<lparr>t_status := st, t_current_run := None, t_updated_at := k_now F\<rparr>)
      (snd (upd_open_run rid (\<lambda>r. r\<lparr>r_ended_at := Some (k_now F), r_outcome := Some RunCancelled\<rparr>) b))"
    by (simp add: leave_run_def cancel_open_run_def split: prod.split)
  moreover have "task_ok (row\<lparr>t_status := st, t_current_run := None, t_updated_at := k_now F\<rparr>)"
    using kanban_inv_task_ok [OF assms(1,2)] assms(4) by (simp add: task_ok_def)
  ultimately show ?thesis
    using kanban_inv_close [OF assms(1-3)] assms(4) by (simp add: run_is_open_def)
qed

lemma plain_flip_inv:
  assumes "kanban_inv E b" "get_task b tid = Some row" "t_current_run row = None" "st \<noteq> Running"
  shows "kanban_inv E (f_board (plain_flip F tid st reason b))"
  using kanban_inv_edit [OF assms(1,2)] kanban_inv_task_ok [OF assms(1,2)]
    kanban_inv_running [OF assms(1,2)] assms(3,4)
  by (simp add: plain_flip_def task_ok_def)

lemma flip_status_inv:
  assumes "kanban_inv E b" "get_task b tid = Some row" "flip_status E rid tid st reason row b = Inr f"
  shows "kanban_inv E (f_board f)"
  using assms kanban_inv_running [OF assms(1,2)]
  by (auto simp: flip_status_def claim_run_inv leave_run_inv plain_flip_inv
      split: option.splits if_splits)

lemma update_status_inv:
  assumes "kanban_inv E b" "update_status E rid tid st reason actor b = Inr b'"
  shows "kanban_inv E b'"
  using assms by (auto simp: update_status_def ebind_eq_Inr flip_status_inv split: option.splits)

lemma add_comment_inv:
  assumes "kanban_inv E b" "add_comment_row F cid tid author body b = Inr b'"
  shows "kanban_inv E b'"
proof -
  from assms(2) have "b_tasks b' = b_tasks b" "b_links b' = b_links b" "b_runs b' = b_runs b"
    by (auto simp: add_comment_row_def split: if_splits)
  with assms(1) show ?thesis using kanban_inv_cong by blast
qed

lemma end_target_ok:
  assumes "task_ok row" "st \<noteq> Running" "end_target E st kind row = (eff, k, n, br)"
  shows "eff \<noteq> Running" "0 \<le> n"
  using assms
  by (auto simp: end_target_def breaker_count_def task_ok_def Let_def split: if_splits)

lemma end_stat_inv [simp]: "kanban_inv E (end_stat F row eff b) = kanban_inv E b"
  by (simp add: end_stat_def)

lemma end_comment_inv:
  "kanban_inv E b \<Longrightarrow> end_comment F tid actor opts b = Inr b' \<Longrightarrow> kanban_inv E b'"
  by (auto simp: end_comment_def add_comment_inv split: option.splits)

lemma end_run_inv:
  assumes inv: "kanban_inv E b" and st: "st \<noteq> Running"
    and e: "end_run E tid st outcome summary actor opts b = Inr b'"
  shows "kanban_inv E b'"
proof -
  from e obtain row rid where row: "get_task b tid = Some row" "t_current_run row = Some rid"
    by (auto simp: end_run_def split: option.splits)
  obtain eff k n br where tgt: "end_target E st (o_kind opts) row = (eff, k, n, br)"
    by (cases "end_target E st (o_kind opts) row") auto
  define b2 where "b2 = upd_task tid (\<lambda>t. t\<lparr>t_status := eff, t_current_run := None,
      t_block_kind := k, t_block_count := n, t_updated_at := k_now E\<rparr>)
    (snd (upd_open_run rid (\<lambda>r. r\<lparr>r_ended_at := Some (k_now E), r_outcome := Some outcome,
        r_summary := summary, r_completed_by := o_completed_by opts\<rparr>) b))"
  note tok = kanban_inv_task_ok [OF inv row(1)] and ok = end_target_ok [OF _ st tgt]
  have b2: "kanban_inv E b2"
    unfolding b2_def
    by (rule kanban_inv_close [OF inv row]) (use tok ok in \<open>auto simp: run_is_open_def task_ok_def\<close>)
  from e row tgt obtain b4 where
    b4: "end_comment E tid actor opts (end_stat E row eff b2) = Inr b4"
    and b': "b' = end_log E tid actor row eff br outcome summary opts b4"
    by (auto simp: end_run_def b2_def ebind_eq_Inr Let_def split: if_splits)
  have "kanban_inv E b4"
    using end_comment_inv [OF _ b4] b2 by simp
  with b' show ?thesis by (simp add: end_log_def Let_def)
qed

lemma heartbeat_run_inv:
  assumes inv: "kanban_inv E b" and h: "heartbeat_run E tid note actor b = Inr b'"
  shows "kanban_inv E b'"
proof -
  from h obtain row rid where row: "get_task b tid = Some row" "t_current_run row = Some rid"
    and b': "b' = emit_event E tid (EvHeartbeat note) actor (upd_task tid (\<lambda>t. t\<lparr>t_updated_at := k_now E\<rparr>)
       (snd (upd_open_run rid (\<lambda>r. r\<lparr>r_heartbeat_at := k_now E\<rparr>) b)))"
    by (auto simp: heartbeat_run_def split: option.splits prod.splits if_splits)
  have i1: "kanban_inv E (snd (upd_open_run rid (\<lambda>r. r\<lparr>r_heartbeat_at := k_now E\<rparr>) b))"
    by (rule kanban_inv_touch_run [OF inv]) simp_all
  have "get_task (snd (upd_open_run rid (\<lambda>r. r\<lparr>r_heartbeat_at := k_now E\<rparr>) b)) tid = Some row"
    using row(1) by (simp add: get_task_def)
  then have "kanban_inv E (upd_task tid (\<lambda>t. t\<lparr>t_updated_at := k_now E\<rparr>)
       (snd (upd_open_run rid (\<lambda>r. r\<lparr>r_heartbeat_at := k_now E\<rparr>) b)))"
    by (rule kanban_inv_edit [OF i1])
      (use kanban_inv_task_ok [OF inv row(1)] in
        \<open>simp_all add: task_ok_def split: option.splits\<close>)
  with b' show ?thesis by simp
qed

lemma reclaim_task_inv:
  assumes inv: "kanban_inv E b" and r: "reclaim_task E tid reason actor b = Inr b'"
  shows "kanban_inv E b'"
proof -
  from r obtain row where row: "get_task b tid = Some row"
    by (auto simp: reclaim_task_def split: option.splits)
  let ?f = "\<lambda>t. t\<lparr>t_status := Ready, t_current_run := None, t_updated_at := k_now E\<rparr>"
  have tok: "task_ok (?f row)"
    using kanban_inv_task_ok [OF inv row] by (simp add: task_ok_def)
  show ?thesis
  proof (cases "t_current_run row")
    case None
    have "kanban_inv E (upd_task tid ?f b)"
      by (rule kanban_inv_edit [OF inv row])
        (use None tok kanban_inv_running [OF inv row] in auto)
    with r row None show ?thesis by (auto simp: reclaim_task_def Let_def)
  next
    case (Some rid)
    have "kanban_inv E (upd_task tid ?f (snd (cancel_open_run E rid b)))"
      unfolding cancel_open_run_def
      by (rule kanban_inv_close [OF inv row Some]) (use tok in \<open>auto simp: run_is_open_def\<close>)
    with r row Some show ?thesis by (auto simp: reclaim_task_def Let_def split: prod.splits)
  qed
qed

lemma link_tasks_inv:
  assumes inv: "kanban_inv E b" and l: "link_tasks F p c actor b = Inr b'"
  shows "kanban_inv E b'"
proof (cases "(p, c) \<in> set (b_links b)")
  case True
  with l inv show ?thesis by (auto simp: link_tasks_def split: if_splits)
next
  case False
  let ?b1 = "b\<lparr>b_links := b_links b @ [(p, c)]\<rparr>"
  from l False have ne: "p \<noteq> c" and anc: "(c, p) \<notin> (set (b_links b))\<^sup>+"
    and ex: "get_task b p \<noteq> None" "get_task b c \<noteq> None"
    by (auto simp: link_tasks_def ancestors_set split: if_splits)
  from l False have fr: "b_tasks b' = b_tasks b" "b_runs b' = b_runs b"
    "b_links b' = b_links b @ [(p, c)]"
    by (auto simp: link_tasks_def split: if_splits)
  have T: "get_task b' i = get_task b i" for i
    using fr by (auto intro: get_task_cong)
  have "(c, p) \<notin> (set (b_links b))\<^sup>*"
    using ne anc by (auto simp: rtrancl_eq_or_trancl)
  then have "links_ok b'"
    using inv False ex by (auto simp: kanban_inv_def links_ok_def fr T)
  then show ?thesis
    using inv by (simp add: kanban_inv_def board_frame [OF fr(1,2)])
qed

lemma link_parents_inv:
  "kanban_inv E b \<Longrightarrow> link_parents F ps tid actor b = Inr b' \<Longrightarrow> kanban_inv E b'"
  by (induction ps arbitrary: b) (auto simp: ebind_eq_Inr dest: link_tasks_inv)

lemma assign_task_inv:
  assumes inv: "kanban_inv E b" and a: "assign_task F tid assignee actor b = Inr b'"
  shows "kanban_inv E b'"
proof -
  from a obtain row where row: "get_task b tid = Some row"
    and b': "b' = emit_event F tid (EvAssigned assignee) actor
      (upd_task tid (\<lambda>t. t\<lparr>t_assignee := assignee, t_updated_at := k_now F\<rparr>) b)"
    by (auto simp: assign_task_def split: if_splits)
  have "kanban_inv E (upd_task tid (\<lambda>t. t\<lparr>t_assignee := assignee, t_updated_at := k_now F\<rparr>) b)"
    by (rule kanban_inv_edit [OF inv row])
      (use kanban_inv_task_ok [OF inv row] in \<open>simp_all add: task_ok_def split: option.splits\<close>)
  with b' show ?thesis by simp
qed

lemma archive_task_inv:
  "kanban_inv E b \<Longrightarrow> archive_task E tid actor b = Inr b' \<Longrightarrow> kanban_inv E b'"
  by (auto simp: archive_task_def ebind_eq_Inr dest: update_status_inv)

lemma insert_task_inv:
  assumes inv: "kanban_inv E b" and ins: "insert_task t b = Inr b'"
    and t: "t_status t \<noteq> Running" "t_current_run t = None" "task_ok t"
  shows "kanban_inv E b'"
proof -
  from ins have new: "get_task b (t_id t) = None" and b': "b' = b\<lparr>b_tasks := b_tasks b @ [t]\<rparr>"
    by (auto simp: insert_task_def split: if_splits)
  have T: "get_task b' i = (if i = t_id t then Some t else get_task b i)" for i
    using new by (auto simp: get_task_def b' find_append split: option.split)
  have R: "get_run b' i = get_run b i" for i by (simp add: b' get_run_def)
  have own: "own_ok b" using inv by (simp add: kanban_inv_def)
  have "own_ok b'"
  proof (rule own_okI, goal_cases)
    case (1 i u)
    then show ?case using own_ok_running [OF own] t by (auto simp: T split: if_splits)
  next
    case (2 i u r)
    then show ?case using own_ok_run [OF own] t by (auto simp: T R split: if_splits)
  next
    case (3 r q)
    then obtain u where "get_task b (r_task q) = Some u" "t_current_run u = Some r"
      using own_ok_task [OF own] by (auto simp: R)
    then show ?case using new by (auto simp: T)
  qed
  moreover have "ids_ok b'"
    using inv new by (simp add: kanban_inv_def ids_ok_def b' get_task_None)
  moreover have "tasks_ok b'"
    using inv t(3) by (auto simp: kanban_inv_def tasks_ok_def T)
  moreover have "links_ok b'"
    using inv by (auto simp: kanban_inv_def links_ok_def T) (simp_all add: b')
  moreover have "running_tasks b' = running_tasks b"
    using t(1) by (simp add: running_tasks_def b')
  ultimately show ?thesis
    using inv by (simp add: kanban_inv_def wip_ok_def split: option.splits)
qed

lemma insert_fresh_inv:
  assumes inv: "kanban_inv E b" and c: "insert_fresh F tid inp b = Inr (i, b')"
  shows "kanban_inv E b'"
proof (cases "insert_task (new_task_row F tid inp) b")
  case (Inl e)
  with c inv show ?thesis
    by (auto simp: insert_fresh_def Let_def split: option.splits kanban_error.splits if_splits)
next
  case (Inr b1)
  have "kanban_inv E b1"
    by (rule insert_task_inv [OF inv Inr]) (simp_all add: new_task_row_def task_ok_def)
  with c Inr show ?thesis
    by (auto simp: insert_fresh_def Let_def ebind_eq_Inr intro: link_parents_inv [rotated])
qed

lemma create_task_inv:
  "kanban_inv E b \<Longrightarrow> create_task F tid inp b = Inr (i, b') \<Longrightarrow> kanban_inv E b'"
  by (auto simp: create_task_def insert_fresh_inv split: option.splits if_splits)

subsection \<open>Composed operations\<close>

lemma bulk_update_status_inv:
  "kanban_inv E b \<Longrightarrow> bulk_update_status E ids st actor b = Inr b' \<Longrightarrow> kanban_inv E b'"
  by (induction E ids st actor b rule: bulk_update_status.induct)
    (auto simp: ebind_eq_Inr dest: update_status_inv split: if_splits)

lemma bulk_assign_inv:
  "kanban_inv E b \<Longrightarrow> bulk_assign F ids assignee actor b = Inr b' \<Longrightarrow> kanban_inv E b'"
  by (induction ids arbitrary: b) (auto simp: ebind_eq_Inr dest: assign_task_inv)

lemma flip_all_inv:
  "kanban_inv E b \<Longrightarrow> flip_all E ids st reason actor b = Inr b' \<Longrightarrow> kanban_inv E b'"
  by (induction ids arbitrary: b) (auto simp: ebind_eq_Inr dest: update_status_inv)

lemma swarm_workers_inv:
  "kanban_inv E b \<Longrightarrow> swarm_workers F g ws aud actor b = Inr (is, b') \<Longrightarrow> kanban_inv E b'"
proof (induction ws arbitrary: b "is")
  case Nil
  then show ?case by simp
next
  case (Cons w ws)
  obtain wid p pr where w: "w = (wid, p, pr)" by (cases w) auto
  from Cons.prems show ?case
    by (auto simp: w ebind_eq_Inr dest: create_task_inv intro: Cons.IH)
qed

lemma swarm_tier_inv:
  "kanban_inv E b \<Longrightarrow> swarm_tier F i title body p ps aud actor b = Inr (r, b') \<Longrightarrow> kanban_inv E b'"
  by (auto simp: swarm_tier_def ebind_eq_Inr dest: create_task_inv split: option.splits if_splits)

lemma create_swarm_inv:
  assumes "kanban_inv E b" "create_swarm E fresh goal ws v sy aud actor b = Inr (r, b')"
  shows "kanban_inv E b'"
proof -
  obtain x y z where fr: "fresh = (x, y, z)" by (cases fresh) auto
  from assms(2) show ?thesis
    unfolding create_swarm_def fr prod.case
    apply (elim ebind_pairE ebind_postE)
    apply (drule create_task_inv [OF assms(1)], drule (1) update_status_inv)
    apply (drule (1) swarm_workers_inv, drule (1) swarm_tier_inv, drule (1) swarm_tier_inv)
    apply simp
    done
qed

lemma bump_active_heartbeats_inv:
  assumes inv: "kanban_inv E b"
  shows "kanban_inv E (snd (bump_active_heartbeats pause b))"
proof (cases "pause = None \<or> js_round (the pause) \<le> 0")
  case True
  with inv show ?thesis by (auto simp: bump_active_heartbeats_def Let_def split: option.split)
next
  case False
  then obtain p where p: "pause = Some p" "\<not> js_round p \<le> 0" by auto
  let ?b = "snd (bump_active_heartbeats pause b)" and ?off = "js_round p"
  let ?ft = "\<lambda>t. if t_status t = Running then t\<lparr>t_updated_at := t_updated_at t + ?off\<rparr> else t"
  let ?fr = "\<lambda>r. if run_is_open r then r\<lparr>r_heartbeat_at := r_heartbeat_at r + ?off\<rparr> else r"
  have fr: "b_tasks ?b = map ?ft (b_tasks b)" "b_runs ?b = map ?fr (b_runs b)"
    "b_links ?b = b_links b"
    using p by (simp_all add: bump_active_heartbeats_def Let_def)
  have T: "get_task ?b i = map_option ?ft (get_task b i)" for i
    by (simp add: get_task_def fr find_map_other)
  have R: "get_run ?b i = map_option ?fr (get_run b i)" for i
    by (simp add: get_run_def fr find_map_other)
  have own: "own_ok b" using inv by (simp add: kanban_inv_def)
  have "own_ok ?b"
  proof (rule own_okI, goal_cases)
    case (1 i t)
    then show ?case using own_ok_running [OF own, of i] by (auto simp: T)
  next
    case (2 i t r)
    then obtain u where u: "get_task b i = Some u" "t_current_run u = Some r"
      by (auto simp: T split: if_splits)
    then obtain q where "get_run b r = Some q" "r_task q = i" "run_is_open q"
      using own_ok_run [OF own] by blast
    then show ?case by (simp add: R run_is_open_def)
  next
    case (3 r q)
    then obtain q0 where "get_run b r = Some q0" "run_is_open q0" "r_task q0 = r_task q"
      by (auto simp: R run_is_open_def split: if_splits)
    then obtain t where "get_task b (r_task q) = Some t" "t_current_run t = Some r"
      using own_ok_task [OF own] by metis
    then show ?case by (simp add: T)
  qed
  moreover have "tasks_ok ?b"
    unfolding tasks_ok_def
  proof (intro allI impI)
    fix i t assume "get_task ?b i = Some t"
    then obtain u where "get_task b i = Some u" "t = ?ft u" by (auto simp: T)
    moreover from this have "task_ok u" using kanban_inv_task_ok [OF inv] by blast
    ultimately show "task_ok t" by (simp add: task_ok_def split: option.splits)
  qed
  moreover have "length (filter (\<lambda>t. t_status t = Running) (map ?ft ts)) =
      length (filter (\<lambda>t. t_status t = Running) ts)" for ts
    by (induction ts) simp_all
  then have "length (running_tasks ?b) = length (running_tasks b)"
    by (simp only: running_tasks_def fr)
  moreover have "map t_id (b_tasks ?b) = map t_id (b_tasks b)"
    "map r_id (b_runs ?b) = map r_id (b_runs b)"
    by (simp_all add: fr)
  then have "ids_ok ?b"
    using inv by (simp only: kanban_inv_def ids_ok_def)
  moreover have "links_ok ?b"
    using inv by (auto simp: kanban_inv_def links_ok_def fr T)
  ultimately show ?thesis
    using inv by (simp add: kanban_inv_def wip_ok_def split: option.splits)
qed

end
