(* ===== verification/KanbanProps.thy ===== *)
theory KanbanProps
  imports KanbanSafe
begin

text \<open>
  The kanban store as a machine: one constructor per writing method, each call with its own clock
  reading, run in any order with throwing calls in between. Then the properties of the board that
  hold after any such history, and what single operations do on each branch.
\<close>

section \<open>The store as a machine\<close>

datatype kanban_op =
    KCreate string task_input
  | KStatus string string task_status "string option" string
  | KComplete string string string "(string \<times> string) option"
  | KBlock string string string string "block_kind option"
  | KHeartbeat string "string option" string
  | KReclaim string string string
  | KComment string string string string
  | KAssign string "string option" string
  | KArchive string string
  | KBulkStatus "(string \<times> string) list" task_status string
  | KBulkAssign "string list" "string option" string
  | KSwarm "string \<times> string \<times> string" string "(string \<times> string \<times> string) list"
      "string option" "string option" "turn_audience option" string
  | KLink string string string
  | KPromoteReady string
  | KPromoteScheduled int string
  | KRollup string
  | KAdopt string "int option" "string option"
  | KBump "rat option"

definition drop_value :: "('v \<times> board) kanban \<Rightarrow> board kanban" where
  "drop_value r = ebind r (\<lambda>(_, b). Inr b)"

fun kanban_call :: "kanban_env \<Rightarrow> kanban_op \<Rightarrow> board \<Rightarrow> board kanban" where
  "kanban_call E (KCreate tid inp) b = drop_value (create_task E tid inp b)"
| "kanban_call E (KStatus rid tid st reason actor) b = update_status E rid tid st reason actor b"
| "kanban_call E (KComplete tid summary actor by) b = complete_run E tid summary actor by b"
| "kanban_call E (KBlock cid tid reason actor kind) b = block_run E cid tid reason actor kind b"
| "kanban_call E (KHeartbeat tid note actor) b = heartbeat_run E tid note actor b"
| "kanban_call E (KReclaim tid reason actor) b = reclaim_task E tid reason actor b"
| "kanban_call E (KComment cid tid author body) b = add_comment_row E cid tid author body b"
| "kanban_call E (KAssign tid assignee actor) b = assign_task E tid assignee actor b"
| "kanban_call E (KArchive tid actor) b = archive_task E tid actor b"
| "kanban_call E (KBulkStatus ids st actor) b = bulk_update_status E ids st actor b"
| "kanban_call E (KBulkAssign ids assignee actor) b = bulk_assign E ids assignee actor b"
| "kanban_call E (KSwarm fresh goal ws v sy aud actor) b =
     drop_value (create_swarm E fresh goal ws v sy aud actor b)"
| "kanban_call E (KLink p c actor) b = link_tasks E p c actor b"
| "kanban_call E (KPromoteReady actor) b = drop_value (promote_ready E actor b)"
| "kanban_call E (KPromoteScheduled now actor) b = drop_value (promote_scheduled E now actor b)"
| "kanban_call E (KRollup actor) b = drop_value (rollup_completed_goals E actor b)"
| "kanban_call E (KAdopt coord grace actor) b = drop_value (adopt_orphan_tickets E coord grace actor b)"
| "kanban_call E (KBump pause) b = Inr (snd (bump_active_heartbeats pause b))"

definition kanban_step :: "kanban_env \<Rightarrow> int \<times> kanban_op \<Rightarrow> board \<Rightarrow> board kanban" where
  "kanban_step E x b = kanban_call (E\<lparr>k_now := fst x\<rparr>) (snd x) b"

lemma drop_value_Inr: "drop_value r = Inr b \<longleftrightarrow> (\<exists>v. r = Inr (v, b))"
  by (cases r) (auto simp: drop_value_def)

lemma kanban_call_inv:
  assumes "kanban_inv E b" "kanban_call E x b = Inr b'"
  shows "kanban_inv E b'"
proof (cases x)
  case (KSwarm fresh goal ws v sy aud actor)
  with assms show ?thesis by (auto simp: drop_value_Inr intro: create_swarm_inv)
qed (use assms in \<open>auto simp: drop_value_Inr complete_run_def block_run_def promote_ready_def
    promote_scheduled_def rollup_completed_goals_def adopt_orphan_tickets_def Let_def ebind_eq_Inr
    bump_active_heartbeats_inv
    intro: create_task_inv update_status_inv end_run_inv heartbeat_run_inv reclaim_task_inv
      add_comment_inv assign_task_inv archive_task_inv bulk_update_status_inv bulk_assign_inv
      link_tasks_inv flip_all_inv\<close>)

interpretation kb: inv_machine "kanban_step E" "kanban_inv E" for E
proof
  fix b x b'
  assume "kanban_inv E b" "kanban_step E x b = Inr b'"
  then show "kanban_inv E b'"
    using kanban_call_inv [of "E\<lparr>k_now := fst x\<rparr>" b "snd x" b']
    by (simp add: kanban_step_def kanban_inv_clock)
qed

text \<open>The board after a history of calls on a new store.\<close>

definition board_after :: "kanban_env \<Rightarrow> (int \<times> kanban_op) list \<Rightarrow> board" where
  "board_after E ops = run_live (kanban_step E) ops empty_board"

lemma board_after_inv: "kanban_inv E (board_after E ops)"
  unfolding board_after_def by (rule kb.live_good [OF kanban_inv_empty])

section \<open>What the calls do\<close>

lemma open_runs_of_task:
  assumes inv: "kanban_inv E b" and t: "get_task b i = Some t"
  shows "length (filter (\<lambda>r. r_task r = i \<and> run_is_open r) (b_runs b)) =
     (if t_status t = Running then 1 else 0)"
proof -
  have own: "own_ok b" and ids: "distinct (map r_id (b_runs b))"
    using inv by (simp_all add: kanban_inv_def ids_ok_def)
  have mem: "get_run b (r_id q) = Some q" if "q \<in> set (b_runs b)" for q
    unfolding get_run_def using find_key_iff [OF ids, of "r_id q" q] that by simp
  have cur: "t_current_run t = Some (r_id q)"
    if "q \<in> set (b_runs b)" "r_task q = i" "run_is_open q" for q
    using own_ok_task [OF own mem [OF that(1)]] that t by auto
  show ?thesis
  proof (cases "t_current_run t")
    case None
    then have "filter (\<lambda>r. r_task r = i \<and> run_is_open r) (b_runs b) = []"
      using cur by (auto simp: filter_empty_conv)
    then show ?thesis using None kanban_inv_running [OF inv t] by simp
  next
    case (Some rid)
    then obtain q where q: "get_run b rid = Some q" "r_task q = i" "run_is_open q"
      using own_ok_run [OF own t] by blast
    have "filter (\<lambda>r. r_task r = i \<and> run_is_open r) (b_runs b)
        = filter (\<lambda>r. r_id r = rid \<and> run_is_open r) (b_runs b)"
    proof (rule filter_cong [OF refl])
      fix r assume r: "r \<in> set (b_runs b)"
      show "(r_task r = i \<and> run_is_open r) = (r_id r = rid \<and> run_is_open r)"
        using cur [OF r] mem [OF r] q Some by auto
    qed
    then show ?thesis
      using Some kanban_inv_running [OF inv t] filter_key_count [OF ids, of rid run_is_open] q
      by (simp add: get_run_def)
  qed
qed

lemma announce_flip_frame [simp, frame_simps]:
  "b_tasks (announce_flip E tid actor row f) = b_tasks (f_board f)"
  "b_links (announce_flip E tid actor row f) = b_links (f_board f)"
  "b_runs (announce_flip E tid actor row f) = b_runs (f_board f)"
  by (simp_all add: announce_flip_def Let_def)

text \<open>The exhausted retry budget, as the claim reads it.\<close>

definition budget_exhausted :: "board \<Rightarrow> task \<Rightarrow> bool" where
  "budget_exhausted b row =
     (case t_max_retries row of
        None \<Rightarrow> False
      | Some m \<Rightarrow>
          t_retry_count row + (if \<exists>r \<in> set (b_runs b). r_task r = t_id row then 1 else 0) > m)"

lemma claim_effect:
  assumes row: "get_task b tid = Some row"
    and c: "update_status E rid tid Running reason actor b = Inr b'"
  shows "\<exists>t. get_task b' tid = Some t \<and>
     (if budget_exhausted b row
      then t_status t = Failed \<and> t_current_run t = None \<and> b_runs b' = b_runs b
      else t_status t = Running \<and> t_current_run t = Some rid)"
proof -
  from row c have cur: "t_current_run row = None"
    by (auto simp: update_status_def flip_status_def split: option.splits)
  from row c cur obtain f where f: "claim_run E rid tid reason row b = Inr f"
    and b': "b' = announce_flip E tid actor row f"
    by (auto simp: update_status_def flip_status_def ebind_eq_Inr)
  note id = get_task_id [OF row]
  show ?thesis
  proof (cases "budget_exhausted b row")
    case True
    with f id have "\<exists>n. f_board f = upd_task tid (\<lambda>t. t\<lparr>t_status := Failed, t_retry_count := n,
        t_updated_at := k_now E\<rparr>) b"
      by (auto simp: claim_run_def ebind_eq_Inr Let_def budget_exhausted_def split: if_splits option.splits)
    then obtain n where fb: "f_board f = upd_task tid (\<lambda>t. t\<lparr>t_status := Failed,
        t_retry_count := n, t_updated_at := k_now E\<rparr>) b" by blast
    have "get_task b' tid = get_task (f_board f) tid"
      by (rule get_task_cong) (simp add: b')
    with True fb row cur show ?thesis by (simp add: get_task_upd b')
  next
    case False
    with f id obtain b1 n q where b1: "insert_run q b = Inr b1"
      and fb: "f_board f = upd_task tid (\<lambda>t. t\<lparr>t_status := Running, t_current_run := Some rid,
        t_retry_count := n, t_updated_at := k_now E\<rparr>) b1"
      by (auto simp: claim_run_def ebind_eq_Inr Let_def budget_exhausted_def split: if_splits option.splits)
    have "get_task b' tid = get_task (f_board f) tid"
      by (rule get_task_cong) (simp add: b')
    moreover have "get_task b1 tid = Some row"
      using row insert_run_Inr(1) [OF b1] by (simp add: get_task_def)
    ultimately show ?thesis using False fb by (simp add: get_task_upd)
  qed
qed

text \<open>Sweeps write one status to tasks without a run and touch nothing else.\<close>

lemma plain_update:
  assumes "get_task b tid = Some row" "t_current_run row = None" "st \<noteq> Running"
  shows "\<exists>b'. update_status E rid tid st reason actor b = Inr b' \<and> b_links b' = b_links b
     \<and> b_runs b' = b_runs b
     \<and> (\<forall>i. get_task b' i = (if i = tid then Some (row\<lparr>t_status := st, t_updated_at := k_now E\<rparr>)
             else get_task b i))"
proof -
  let ?f = "\<lambda>t. t\<lparr>t_status := st, t_updated_at := k_now E\<rparr>"
  let ?b' = "announce_flip E tid actor row (plain_flip E tid st reason b)"
  have "update_status E rid tid st reason actor b = Inr ?b'"
    using assms by (simp add: update_status_def flip_status_def)
  moreover have "get_task ?b' i = get_task (upd_task tid ?f b) i" for i
    by (rule get_task_cong) (simp add: plain_flip_def)
  ultimately show ?thesis
    using assms(1) by (simp add: plain_flip_def get_task_upd)
qed

lemma flip_all_effect:
  assumes "distinct ids" "st \<noteq> Running"
    and "\<And>i. i \<in> set ids \<Longrightarrow> \<exists>t. get_task b i = Some t \<and> t_current_run t = None"
  shows "\<exists>b'. flip_all E ids st reason actor b = Inr b' \<and> b_links b' = b_links b
     \<and> b_runs b' = b_runs b
     \<and> (\<forall>i. get_task b' i = (if i \<in> set ids
             then map_option (\<lambda>t. t\<lparr>t_status := st, t_updated_at := k_now E\<rparr>) (get_task b i)
             else get_task b i))"
  using assms
proof (induction ids arbitrary: b)
  case Nil
  then show ?case by simp
next
  case (Cons x xs)
  from Cons.prems(3) [of x] obtain row where row: "get_task b x = Some row" "t_current_run row = None"
    by auto
  from plain_update [OF row Cons.prems(2), of E "[]" "Some reason" actor] obtain b1 where
    b1: "update_status E [] x st (Some reason) actor b = Inr b1" "b_links b1 = b_links b"
      "b_runs b1 = b_runs b"
      "\<And>i. get_task b1 i = (if i = x then Some (row\<lparr>t_status := st, t_updated_at := k_now E\<rparr>)
         else get_task b i)" by blast
  have "\<exists>t. get_task b1 i = Some t \<and> t_current_run t = None" if "i \<in> set xs" for i
    using Cons.prems(3) [of i] that b1(4) row by auto
  with Cons.IH [of b1] Cons.prems(1,2) b1 row show ?case
    by (auto split: if_splits)
qed

lemma candidates_tasks:
  assumes inv: "kanban_inv E b" and i: "i \<in> set (map t_id (filter P (b_tasks b)))"
    and P: "\<And>t. P t \<Longrightarrow> t_status t \<noteq> Running"
  shows "\<exists>t. get_task b i = Some t \<and> P t \<and> t_current_run t = None"
proof -
  from i obtain t where t: "t \<in> set (b_tasks b)" "t_id t = i" "P t" by auto
  then have "get_task b i = Some t"
    using inv find_key_iff [of t_id "b_tasks b" i t]
    by (simp add: get_task_def kanban_inv_def ids_ok_def)
  moreover from this have "t_current_run t = None"
    using kanban_inv_running [OF inv] P [OF t(3)] by auto
  ultimately show ?thesis using t by auto
qed

lemma sweep_distinct: "kanban_inv E b \<Longrightarrow> distinct (map t_id (filter P (b_tasks b)))"
  by (simp add: kanban_inv_def ids_ok_def distinct_map_filter)

text \<open>Sorting rows by a key that an edit shifts uniformly.\<close>

lemma insort_key_map:
  assumes "\<And>y z. k (g y) \<le> k (g z) \<longleftrightarrow> k y \<le> k z"
  shows "insort_key k (g x) (map g xs) = map g (insort_key k x xs)"
  by (induction xs) (simp_all add: assms)

lemma sort_key_map:
  assumes "\<And>y z. k (g y) \<le> k (g z) \<longleftrightarrow> k y \<le> k z"
  shows "sort_key k (map g xs) = map g (sort_key k xs)"
  by (induction xs) (simp_all add: insort_key_map [of k g, OF assms])

lemma add_comment_ok:
  assumes "cid \<notin> c_id ` set (b_comments b)" "get_task b tid = Some t"
  shows "\<exists>b'. add_comment_row F cid tid author body b = Inr b' \<and> b_tasks b' = b_tasks b"
proof -
  have "\<not> (\<exists>c \<in> set (b_comments b). c_id c = cid)" using assms(1) by force
  then show ?thesis using assms(2) by (simp add: add_comment_row_def)
qed

section \<open>A small history\<close>

definition demo_env :: kanban_env where
  "demo_env = \<lparr>k_team = Some ''core'', k_block_limit = 2, k_max_in_progress = Some 1,
     k_max_per_profile = None, k_now = 0\<rparr>"

definition demo_input :: "string \<Rightarrow> string option \<Rightarrow> string list \<Rightarrow> task_input" where
  "demo_input title assignee parents =
     \<lparr>i_title = title, i_body = None, i_assignee = assignee, i_priority = None,
      i_parents = parents, i_workspace_mode = None, i_scheduled_for = None,
      i_idempotency_key = None, i_max_retries = Some 1, i_acceptance = None,
      i_audience = None, i_actor = None\<rparr>"

text \<open>Two tasks, a refused cycle, a promotion; then one claim (and one over the cap).\<close>

definition demo_ops :: "(int \<times> kanban_op) list" where
  "demo_ops =
    [(10, KCreate ''a'' (demo_input ''build'' (Some ''eng'') [])),
     (20, KCreate ''b'' (demo_input ''ship'' (Some ''ops'') [''a''])),
     (30, KLink ''b'' ''a'' ''eng''),
     (40, KPromoteReady ''eng'')]"

definition demo_claimed :: "(int \<times> kanban_op) list" where
  "demo_claimed = demo_ops @
    [(50, KStatus ''r1'' ''a'' Running None ''eng''),
     (60, KStatus ''r2'' ''b'' Running None ''ops'')]"

lemma demo_claimed_status:
  "map_option t_status (get_task (board_after demo_env demo_claimed) ''a'') = Some Running"
  by code_simp

section \<open>Properties\<close>

text \<open>
  C1: after any history of calls, a task has exactly one open run when it is \<open>running\<close> and none
  otherwise: no ticket is ever worked on twice at once.
\<close>
theorem kanban_one_open_run:
  assumes "get_task (board_after E ops) i = Some t"
  shows "length (filter (\<lambda>r. r_task r = i \<and> run_is_open r) (b_runs (board_after E ops))) =
     (if t_status t = Running then 1 else 0)"
  by (rule open_runs_of_task [OF board_after_inv assms])

theorem kanban_one_open_run_witness:
  "length (filter (\<lambda>r. r_task r = ''a'' \<and> run_is_open r)
     (b_runs (board_after demo_env demo_claimed))) = 1"
proof -
  obtain t where "get_task (board_after demo_env demo_claimed) ''a'' = Some t" "t_status t = Running"
    using demo_claimed_status by (cases "get_task (board_after demo_env demo_claimed) ''a''") auto
  then show ?thesis using kanban_one_open_run by simp
qed

text \<open>
  C20: the dependency links of a board are acyclic after any history of calls, and both ends of
  every link exist.
\<close>
theorem kanban_links_acyclic:
  "acyclic (set (b_links (board_after E ops)))
   \<and> fst ` set (b_links (board_after E ops)) \<union> snd ` set (b_links (board_after E ops))
       \<subseteq> t_id ` set (b_tasks (board_after E ops))"
proof -
  have ok: "links_ok (board_after E ops)"
    using board_after_inv [of E ops] by (simp add: kanban_inv_def)
  have "p \<in> t_id ` set (b_tasks (board_after E ops)) \<and> c \<in> t_id ` set (b_tasks (board_after E ops))"
    if "(p, c) \<in> set (b_links (board_after E ops))" for p c
    using ok that get_task_None [of "board_after E ops"] unfolding links_ok_def by blast
  with ok show ?thesis by (auto simp: links_ok_def)
qed

text \<open>
  with a board-wide cap configured, no history of calls ever has more tasks \<open>running\<close> than
  the cap.
\<close>
theorem kanban_wip_cap:
  assumes "k_max_in_progress E = Some cap" "0 \<le> cap"
  shows "int (length (filter (\<lambda>t. t_status t = Running) (b_tasks (board_after E ops)))) \<le> cap"
proof -
  have "wip_ok E (board_after E ops)"
    using board_after_inv [of E ops] by (simp add: kanban_inv_def)
  with assms show ?thesis by (simp add: wip_ok_def running_tasks_def)
qed

theorem kanban_wip_cap_witness:
  "int (length (filter (\<lambda>t. t_status t = Running) (b_tasks (board_after demo_env demo_claimed)))) \<le> 1"
  by (rule kanban_wip_cap) (simp_all add: demo_env_def)

text \<open>
  \<open>link\<close> refuses an edge as a cycle exactly when adding it to the links of the board would
  make them cyclic.
\<close>
theorem kanban_link_exact:
  assumes "kanban_inv E b"
  shows "(link_tasks F p c actor b \<in> {Inl (SelfParent c), Inl (LinkCycle c p)}) =
     (\<not> acyclic (insert (p, c) (set (b_links b))))"
proof -
  have "acyclic (set (b_links b))"
    using assms by (simp add: kanban_inv_def links_ok_def)
  then have "acyclic (insert (p, c) (set (b_links b))) \<longleftrightarrow> p \<noteq> c \<and> (c, p) \<notin> (set (b_links b))\<^sup>+"
    by (auto simp: rtrancl_eq_or_trancl)
  then show ?thesis by (auto simp: link_tasks_def ancestors_set)
qed

theorem kanban_link_exact_witness:
  "\<not> acyclic (insert (''b'', ''a'') (set (b_links (board_after demo_env demo_ops))))"
proof -
  have "link_tasks demo_env ''b'' ''a'' ''eng'' (board_after demo_env demo_ops)
      = Inl (LinkCycle ''a'' ''b'')" by code_simp
  then show ?thesis
    using kanban_link_exact [of demo_env "board_after demo_env demo_ops" demo_env "''b''" "''a''" "''eng''",
        OF board_after_inv]
    by simp
qed

text \<open>
  a claim either finds the retry budget exhausted, fails the task and opens no run, or makes
  the task \<open>running\<close> under the run it drew; in that case every later claim of it is refused with
  the owner's run id until the run ends.
\<close>
theorem kanban_claim_exclusive:
  assumes "get_task b tid = Some row"
    and "update_status E rid tid Running reason actor b = Inr b'"
  shows "\<exists>t. get_task b' tid = Some t \<and>
     (if budget_exhausted b row
      then t_status t = Failed \<and> t_current_run t = None \<and> b_runs b' = b_runs b
      else t_status t = Running \<and> t_current_run t = Some rid \<and>
        (\<forall>F rid2 reason2 actor2. update_status F rid2 tid Running reason2 actor2 b' =
           Inl (AlreadyClaimed tid Running rid)))"
  using claim_effect [OF assms] by (auto simp: update_status_def flip_status_def)

theorem kanban_claim_exclusive_witness:
  "\<exists>b'. update_status demo_env ''r1'' ''a'' Running None ''eng'' (board_after demo_env demo_ops) = Inr b'
     \<and> update_status demo_env ''r9'' ''a'' Running None ''ops'' b' = Inl (AlreadyClaimed ''a'' Running ''r1'')"
proof -
  let ?b = "board_after demo_env demo_ops"
  have "map_option (budget_exhausted ?b) (get_task ?b ''a'') = Some False" by code_simp
  then obtain row where row: "get_task ?b ''a'' = Some row" "\<not> budget_exhausted ?b row"
    by (cases "get_task ?b ''a''") auto
  have "\<not> isl (update_status demo_env ''r1'' ''a'' Running None ''eng'' ?b)" by code_simp
  then obtain b' where b': "update_status demo_env ''r1'' ''a'' Running None ''eng'' ?b = Inr b'"
    by (cases "update_status demo_env ''r1'' ''a'' Running None ''eng'' ?b") auto
  show ?thesis using kanban_claim_exclusive [OF row(1) b'] row(2) b' by auto
qed

text \<open>
  \<open>completeRun\<close> succeeds exactly on a running task, and then the task is \<open>done\<close> with no
  current run and its block streak is forgotten.
\<close>
theorem kanban_complete_exact:
  assumes "kanban_inv E b"
  shows "(case complete_run F tid summary actor completer b of
       Inr b' \<Rightarrow> map_option t_status (get_task b tid) = Some Running
         \<and> (\<exists>t. get_task b' tid = Some t \<and> t_status t = Done \<and> t_current_run t = None
              \<and> t_block_kind t = None \<and> t_block_count t = 0)
     | Inl e \<Rightarrow> map_option t_status (get_task b tid) \<noteq> Some Running)"
proof (cases "get_task b tid")
  case None
  then show ?thesis by (simp add: complete_run_def end_run_def)
next
  case (Some row)
  note run = kanban_inv_running [OF assms Some]
  show ?thesis
  proof (cases "t_current_run row")
    case None
    with Some run show ?thesis by (simp add: complete_run_def end_run_def)
  next
    case cur: (Some rid)
    obtain q where one: "\<And>g. fst (upd_open_run rid g b) = 1"
      using current_run_open [OF assms Some cur] by metis
    let ?b2 = "upd_task tid (\<lambda>t. t\<lparr>t_status := Done, t_current_run := None, t_block_kind := None,
        t_block_count := 0, t_updated_at := k_now F\<rparr>) (snd (upd_open_run rid
          (\<lambda>r. r\<lparr>r_ended_at := Some (k_now F), r_outcome := Some RunCompleted,
             r_summary := Some summary, r_completed_by := completer\<rparr>) b))"
    let ?e = "end_log F tid actor row Done False RunCompleted (Some summary)
        \<lparr>o_comment = None, o_completed_by = completer, o_kind = None\<rparr> (end_stat F row Done ?b2)"
    have res: "complete_run F tid summary actor completer b = Inr ?e"
      using Some cur one
      by (simp add: complete_run_def end_run_def Let_def end_target_def end_comment_def)
    have "get_task ?e tid = get_task ?b2 tid"
      by (rule get_task_cong) (simp add: end_log_def end_stat_def Let_def)
    moreover have "get_task ?b2 tid = Some (row\<lparr>t_status := Done, t_current_run := None,
        t_block_kind := None, t_block_count := 0, t_updated_at := k_now F\<rparr>)"
      using Some get_task_cong [of "snd (upd_open_run rid _ b)" b tid]
      by (simp add: get_task_upd)
    ultimately show ?thesis using Some run cur res by simp
  qed
qed

theorem kanban_complete_exact_witness:
  "\<exists>b'. complete_run demo_env ''a'' ''ok'' ''eng'' None (board_after demo_env demo_claimed) = Inr b'
     \<and> map_option t_status (get_task b' ''a'') = Some Done"
  using kanban_complete_exact [OF board_after_inv [of demo_env demo_claimed], where F = demo_env and tid = "''a''"
      and summary = "''ok''" and actor = "''eng''" and completer = None]
    demo_claimed_status
  by (auto split: sum.splits)

text \<open>
  ending a run as blocked moves the task to \<open>blocked\<close>, or to \<open>needs_revision\<close> when the block
  kind has now recurred up to the limit; a repeat counts only when both kinds are given and equal.
\<close>
theorem kanban_breaker:
  assumes inv: "kanban_inv E b" and row: "get_task b tid = Some row" "t_status row = Running"
    and cid: "cid \<notin> c_id ` set (b_comments b)"
  shows "\<exists>b' t. block_run F cid tid reason actor kind b = Inr b' \<and> get_task b' tid = Some t
     \<and> t_current_run t = None \<and> t_block_kind t = kind
     \<and> t_block_count t =
         (if kind \<noteq> None \<and> kind = t_block_kind row then t_block_count row + 1
          else if kind = None then 0 else 1)
     \<and> t_status t = (if t_block_count t \<ge> k_block_limit F then NeedsRevision else Blocked)"
proof -
  obtain rid where cur: "t_current_run row = Some rid"
    using kanban_inv_running [OF inv row(1)] row(2) by auto
  have one: "\<And>g. fst (upd_open_run rid g b) = 1"
    using current_run_open [OF inv row(1) cur] by metis
  let ?n = "breaker_count kind row"
  let ?eff = "if ?n \<ge> k_block_limit F then NeedsRevision else Blocked"
  let ?f = "\<lambda>t. t\<lparr>t_status := ?eff, t_current_run := None, t_block_kind := kind,
      t_block_count := ?n, t_updated_at := k_now F\<rparr>"
  let ?b2 = "upd_task tid ?f (snd (upd_open_run rid
      (\<lambda>r. r\<lparr>r_ended_at := Some (k_now F), r_outcome := Some RunBlocked,
         r_summary := Some reason, r_completed_by := None\<rparr>) b))"
  let ?b3 = "end_stat F row ?eff ?b2"
  have tgt: "end_target F Blocked kind row = (?eff, kind, ?n, ?n \<ge> k_block_limit F)"
    by (simp add: end_target_def Let_def)
  have "get_task ?b2 tid = Some (?f row)"
    using row(1) get_task_cong [of "snd (upd_open_run rid _ b)" b tid] by (simp add: get_task_upd)
  then have g3: "get_task ?b3 tid = Some (?f row)"
    using get_task_cong [of ?b3 ?b2 tid] by (simp add: end_stat_def)
  have c3: "b_comments ?b3 = b_comments b" by (simp add: end_stat_def)
  obtain b4 where b4: "add_comment_row F cid tid actor reason ?b3 = Inr b4"
    and t4: "b_tasks b4 = b_tasks ?b3"
    using add_comment_ok [OF _ g3, of cid F actor reason] cid c3 by auto
  let ?o = "\<lparr>o_comment = Some (cid, reason), o_completed_by = None, o_kind = kind\<rparr>"
  let ?e = "end_log F tid actor row ?eff (?n \<ge> k_block_limit F) RunBlocked (Some reason) ?o b4"
  have "block_run F cid tid reason actor kind b = Inr ?e"
    using row(1) cur one b4 by (simp add: block_run_def end_run_def Let_def tgt end_comment_def)
  moreover have "get_task ?e tid = Some (?f row)"
    using g3 get_task_cong [of ?e ?b3 tid] t4 by (simp add: end_log_def Let_def)
  ultimately show ?thesis by (auto simp: breaker_count_def)
qed

theorem kanban_breaker_witness:
  "\<exists>b' t. block_run demo_env ''c1'' ''a'' ''stuck'' ''eng'' (Some BkTransient)
        (board_after demo_env demo_claimed) = Inr b'
     \<and> get_task b' ''a'' = Some t \<and> t_status t = Blocked \<and> t_block_count t = 1"
proof -
  let ?b = "board_after demo_env demo_claimed"
  obtain row where row: "get_task ?b ''a'' = Some row" "t_status row = Running"
    using demo_claimed_status by (cases "get_task ?b ''a''") auto
  have "map_option t_block_kind (get_task ?b ''a'') = Some None" by code_simp
  then have k: "t_block_kind row = None" using row by simp
  have c: "''c1'' \<notin> c_id ` set (b_comments ?b)" by code_simp
  show ?thesis
    using kanban_breaker [OF board_after_inv row c, of demo_env "''stuck''" "''eng''" "Some BkTransient"] k
    by (auto simp: demo_env_def)
qed

text \<open>
  \<open>promoteReady\<close> never throws; it moves to \<open>ready\<close> exactly the \<open>todo\<close> tasks all of whose
  assigned parents are done, and changes the status of no other task. Afterwards every task still
  at \<open>todo\<close> waits on an open parent.
\<close>
theorem kanban_promote_exact:
  assumes inv: "kanban_inv E b"
  shows "\<exists>cs b'. promote_ready F actor b = Inr (cs, b')
     \<and> set cs = {i. map_option t_status (get_task b i) = Some Todo \<and> \<not> has_open_blocking_parents b i}
     \<and> (\<forall>i. map_option t_status (get_task b' i) =
           (if i \<in> set cs then Some Ready else map_option t_status (get_task b i)))
     \<and> (\<forall>i. map_option t_status (get_task b' i) = Some Todo \<longrightarrow> has_open_blocking_parents b' i)"
proof -
  let ?P = "\<lambda>t. t_status t = Todo
     \<and> \<not> (\<exists>p \<in> set (parents_of (b_links b) (t_id t)). blocking_parent b (t_id t) p)"
  let ?cs = "promote_candidates b"
  have ids: "distinct (map t_id (b_tasks b))"
    using inv by (simp add: kanban_inv_def ids_ok_def)
  have set_cs: "i \<in> set ?cs \<longleftrightarrow> (\<exists>t. get_task b i = Some t \<and> ?P t)" for i
    using find_key_iff [OF ids, of i]
    by (auto simp: promote_candidates_def get_task_def image_iff)
  have pre: "\<exists>t. get_task b i = Some t \<and> t_current_run t = None" if "i \<in> set ?cs" for i
    using candidates_tasks [OF inv, of i ?P] that by (auto simp: promote_candidates_def)
  have d: "distinct ?cs"
    unfolding promote_candidates_def by (rule sweep_distinct [OF inv])
  from flip_all_effect [OF d, of Ready b F "''parents done''" actor] pre obtain b' where
    b': "flip_all F ?cs Ready ''parents done'' actor b = Inr b'" "b_links b' = b_links b"
    and g: "\<And>i. get_task b' i = (if i \<in> set ?cs
       then map_option (\<lambda>t. t\<lparr>t_status := Ready, t_updated_at := k_now F\<rparr>) (get_task b i)
       else get_task b i)" by auto
  have st: "map_option t_status (get_task b' i) =
      (if i \<in> set ?cs then Some Ready else map_option t_status (get_task b i))" for i
    using set_cs [of i] g [of i] by auto
  have bp: "blocking_parent b' c p" if "blocking_parent b c p" for c p
    using that g [of p] set_cs [of p] by (auto simp: blocking_parent_def split: option.splits)
  have op: "i \<in> set ?cs \<longleftrightarrow>
      map_option t_status (get_task b i) = Some Todo \<and> \<not> has_open_blocking_parents b i" for i
    using set_cs [of i] by (auto simp: has_open_blocking_parents_def dest: get_task_id)
  have "has_open_blocking_parents b' i" if "map_option t_status (get_task b' i) = Some Todo" for i
  proof -
    have n: "i \<notin> set ?cs" "map_option t_status (get_task b i) = Some Todo"
      using that st [of i] by (auto split: if_splits)
    then have "has_open_blocking_parents b i" using op by blast
    then show ?thesis
      using bp g [of i] n(1) by (auto simp: has_open_blocking_parents_def b'(2))
  qed
  then show ?thesis
    using b'(1) op st by (intro exI [of _ ?cs] exI [of _ b']) (auto simp: promote_ready_def Let_def)
qed

theorem kanban_promote_exact_witness:
  "\<exists>cs b'. promote_ready demo_env ''eng'' (board_after demo_env demo_ops) = Inr (cs, b')
     \<and> map_option t_status (get_task b' ''b'') = Some Todo"
proof -
  let ?b = "board_after demo_env demo_ops"
  have "map_option t_status (get_task ?b ''b'') = Some Todo" "has_open_blocking_parents ?b ''b''"
    by code_simp+
  moreover obtain cs b' where "promote_ready demo_env ''eng'' ?b = Inr (cs, b')"
    "set cs = {i. map_option t_status (get_task ?b i) = Some Todo \<and> \<not> has_open_blocking_parents ?b i}"
    "\<forall>i. map_option t_status (get_task b' i) =
       (if i \<in> set cs then Some Ready else map_option t_status (get_task ?b i))"
    using kanban_promote_exact [of demo_env ?b demo_env "''eng''", OF board_after_inv] by blast
  moreover from this(3) have "map_option t_status (get_task b' ''b'') =
      (if ''b'' \<in> set cs then Some Ready else map_option t_status (get_task ?b ''b''))" by blast
  ultimately have "map_option t_status (get_task b' ''b'') = Some Todo"
    by (simp only: mem_Collect_eq not_True_eq_False simp_thms if_False)
  with \<open>promote_ready demo_env ''eng'' ?b = Inr (cs, b')\<close> show ?thesis by blast
qed

text \<open>
  discounting a pause of \<open>p\<close> milliseconds leaves the staleness gates unmoved: read \<open>p\<close> later,
  they report exactly the runs and the tasks they would have reported before it.
\<close>
theorem kanban_pause_shift:
  assumes "0 < js_round p"
  shows "map r_id (find_stalled_runs cutoff (now + js_round p) (snd (bump_active_heartbeats (Some p) b)))
         = map r_id (find_stalled_runs cutoff now b)
     \<and> map t_id (find_stale_running cutoff (now + js_round p) (snd (bump_active_heartbeats (Some p) b)))
         = map t_id (find_stale_running cutoff now b)"
proof -
  let ?off = "js_round p"
  let ?ft = "\<lambda>t. t\<lparr>t_updated_at := t_updated_at t + ?off\<rparr>"
  let ?fr = "\<lambda>r. r\<lparr>r_heartbeat_at := r_heartbeat_at r + ?off\<rparr>"
  have R: "filter (\<lambda>r. run_is_open r \<and> r_heartbeat_at r < now + ?off - cutoff)
      (map (\<lambda>r. if run_is_open r then ?fr r else r) rs)
    = map ?fr (filter (\<lambda>r. run_is_open r \<and> r_heartbeat_at r < now - cutoff) rs)" for rs
    by (induction rs) (auto simp: run_is_open_def)
  have T: "filter (\<lambda>t. t_status t = Running \<and> t_updated_at t < now + ?off - cutoff)
      (map (\<lambda>t. if t_status t = Running then ?ft t else t) ts)
    = map ?ft (filter (\<lambda>t. t_status t = Running \<and> t_updated_at t < now - cutoff) ts)" for ts
    by (induction ts) auto
  show ?thesis
    using assms
    by (simp add: find_stalled_runs_def find_stale_running_def bump_active_heartbeats_def Let_def
        R T sort_key_map o_def)
qed

theorem kanban_pause_shift_witness:
  "map r_id (find_stalled_runs 90000 (500000 + 400000)
     (snd (bump_active_heartbeats (Some 400000) (board_after demo_env demo_claimed))))
   = map r_id (find_stalled_runs 90000 500000 (board_after demo_env demo_claimed))"
proof -
  have r: "js_round 400000 = 400000" by (simp add: js_round_def floor_eq_iff)
  then have "0 < js_round 400000" by simp
  from kanban_pause_shift [OF this, of 90000 500000 "board_after demo_env demo_claimed"]
  show ?thesis by (simp only: r)
qed

end
