(* ===== verification/Lanes.thy ===== *)
theory Lanes
  imports Prelude "HOL-Library.Multiset" "HOL-Library.Sublist"
begin

text \<open>
  The two queues in front of shared work: \<open>SessionLane\<close> (packages/session-lane/src/index.ts), which
  serialises the turns of one chat, and the counting \<open>Semaphore\<close> of the batch runner
  (extensions/batch-runner/src/semaphore.ts). Code between two awaits runs without interruption,
  so a call, and the resumption of an awaiting loop, is one step. A task of a lane is named by a
  value of type \<open>'a\<close>; that it settles, and how, is an event from outside. Both queues keep the
  order of submission: the locale \<open>fifo_service\<close> states that contract and both are instances.
\<close>

section \<open>First come, first served\<close>

text \<open>
  \<open>served\<close> lists what was taken off the queue, oldest first, and \<open>waiting\<close> what is still in it.
\<close>

locale fifo_service =
  fixes ok :: "'s \<Rightarrow> bool"
    and submit :: "'a \<Rightarrow> 's \<Rightarrow> 's"
    and advance :: "'e \<Rightarrow> 's \<Rightarrow> 's"
    and served :: "'s \<Rightarrow> 'a list"
    and waiting :: "'s \<Rightarrow> 'a list"
  assumes submit_ok: "ok s \<Longrightarrow> ok (submit x s)"
    and advance_ok: "ok s \<Longrightarrow> ok (advance e s)"
    and submit_order: "ok s \<Longrightarrow> served (submit x s) @ waiting (submit x s) = served s @ waiting s @ [x]"
    and advance_order: "ok s \<Longrightarrow> served (advance e s) @ waiting (advance e s) = served s @ waiting s"
begin

definition apply_one :: "'a + 'e \<Rightarrow> 's \<Rightarrow> 's" where
  "apply_one ev s = (case ev of Inl x \<Rightarrow> submit x s | Inr e \<Rightarrow> advance e s)"

definition submitted :: "('a + 'e) list \<Rightarrow> 'a list" where
  "submitted evs = concat (map (\<lambda>ev. case ev of Inl x \<Rightarrow> [x] | Inr _ \<Rightarrow> []) evs)"

lemma apply_one_order:
  "ok s \<Longrightarrow> ok (apply_one ev s) \<and>
     served (apply_one ev s) @ waiting (apply_one ev s) = served s @ waiting s @ submitted [ev]"
  by (cases ev) (simp_all add: apply_one_def submitted_def submit_ok advance_ok submit_order advance_order)

lemma run_order:
  "ok s \<Longrightarrow> ok (fold apply_one evs s) \<and>
     served (fold apply_one evs s) @ waiting (fold apply_one evs s) = served s @ waiting s @ submitted evs"
proof (induction evs arbitrary: s)
  case (Cons ev evs)
  note one = apply_one_order [OF Cons.prems, of ev]
  have "submitted (ev # evs) = submitted [ev] @ submitted evs" by (simp add: submitted_def)
  with Cons.IH [of "apply_one ev s"] one show ?case by (metis append_assoc fold_simps(2))
qed (simp add: submitted_def)

text \<open>Starting empty, what was served is a prefix of what was submitted.\<close>

lemma served_first:
  assumes "ok s" "served s = []" "waiting s = []"
  shows "prefix (served (fold apply_one evs s)) (submitted evs)"
  using run_order [OF assms(1), of evs] assms(2,3) by (metis append_Nil prefixI)

end

section \<open>Session lanes\<close>

datatype lane_outcome = Resolved | Rejected string

text \<open>
  \<open>queue\<close>, \<open>processing\<close> and \<open>currentAbort\<close> are the fields of the class (the controller as its
  \<open>aborted\<close> flag). The item \<open>drain\<close> awaits is \<open>ln_running\<close>; \<open>ln_started\<close> and \<open>ln_settled\<close> record
  the runs started and the promises settled, in order.
\<close>

record 'a lane =
  ln_queue :: "'a list"
  ln_processing :: bool
  ln_abort :: "bool option"
  ln_running :: "'a option"
  ln_started :: "'a list"
  ln_settled :: "('a \<times> lane_outcome) list"

definition new_lane :: "'a lane" where
  "new_lane = \<lparr>ln_queue = [], ln_processing = False, ln_abort = None, ln_running = None,
     ln_started = [], ln_settled = []\<rparr>"

text \<open>The \<open>while\<close> of \<open>drain\<close>, from its test to the next \<open>await\<close> or to the end of the method.\<close>

definition drain_loop :: "'a lane \<Rightarrow> 'a lane" where
  "drain_loop l =
     (case ln_queue l of
        [] \<Rightarrow> l\<lparr>ln_running := None, ln_abort := None, ln_processing := False\<rparr>
      | x # q \<Rightarrow> l\<lparr>ln_queue := q, ln_abort := Some False, ln_running := Some x,
                  ln_started := ln_started l @ [x]\<rparr>)"

definition drain :: "'a lane \<Rightarrow> 'a lane" where
  "drain l = (if ln_processing l then l else drain_loop (l\<lparr>ln_processing := True\<rparr>))"

definition enqueue :: "'a \<Rightarrow> 'a lane \<Rightarrow> 'a lane" where
  "enqueue x l = drain (l\<lparr>ln_queue := ln_queue l @ [x]\<rparr>)"

definition abort_lane :: "'a lane \<Rightarrow> 'a lane" where
  "abort_lane l =
     l\<lparr>ln_abort := map_option (\<lambda>_. True) (ln_abort l), ln_queue := [],
       ln_settled := ln_settled l @ map (\<lambda>x. (x, Rejected ''aborted'')) (ln_queue l)\<rparr>"

definition lane_length :: "'a lane \<Rightarrow> nat" where
  "lane_length l = length (ln_queue l) + (if ln_processing l then 1 else 0)"

text \<open>The awaited run settles: \<open>drain\<close> settles the item's promise and goes round its loop.\<close>

definition run_settles :: "lane_outcome \<Rightarrow> 'a lane \<Rightarrow> 'a lane" where
  "run_settles out l =
     (case ln_running l of
        None \<Rightarrow> l
      | Some x \<Rightarrow> drain_loop (l\<lparr>ln_settled := ln_settled l @ [(x, out)]\<rparr>))"

datatype 'a lane_event = Enqueue 'a | Abort | Settle lane_outcome

inductive lane_step :: "'a lane \<Rightarrow> 'a lane_event \<Rightarrow> 'a lane \<Rightarrow> bool" where
  do_enqueue: "lane_step l (Enqueue x) (enqueue x l)"
| do_abort: "lane_step l Abort (abort_lane l)"
| do_settle: "ln_running l = Some x \<Longrightarrow> lane_step l (Settle out) (run_settles out l)"

inductive_cases lane_stepE: "lane_step l ev l'"
inductive_simps lane_step_settle: "lane_step l (Settle out) l'"

text \<open>The lanes reached from a new one, with the events that led there, latest last.\<close>

inductive lane_trace :: "'a lane_event list \<Rightarrow> 'a lane \<Rightarrow> bool" where
  start: "lane_trace [] new_lane"
| more: "lane_trace evs l \<Longrightarrow> lane_step l ev l' \<Longrightarrow> lane_trace (evs @ [ev]) l'"

definition enqueued :: "'a lane_event list \<Rightarrow> 'a list" where
  "enqueued evs = List.map_filter (\<lambda>ev. case ev of Enqueue x \<Rightarrow> Some x | _ \<Rightarrow> None) evs"

lemma enqueued_snoc [simp]:
  "enqueued [] = []"
  "enqueued (evs @ [ev]) = enqueued evs @ (case ev of Enqueue x \<Rightarrow> [x] | _ \<Rightarrow> [])"
  by (simp_all add: enqueued_def map_filter_simps map_filter_def split: lane_event.splits)

lemma enqueued_one: "enqueued [ev] = (case ev of Enqueue x \<Rightarrow> [x] | _ \<Rightarrow> [])"
  using enqueued_snoc(2) [of "[]" ev] by simp

lemmas lane_defs = enqueue_def drain_def drain_loop_def abort_lane_def run_settles_def

text \<open>The fields agree with one another at every await.\<close>

definition lane_ok :: "'a lane \<Rightarrow> bool" where
  "lane_ok l =
     ((ln_processing l \<longleftrightarrow> ln_running l \<noteq> None) \<and> (ln_abort l \<noteq> None \<longleftrightarrow> ln_running l \<noteq> None)
       \<and> (ln_queue l \<noteq> [] \<longrightarrow> ln_processing l))"

lemma lane_ok_step: "lane_step l ev l' \<Longrightarrow> lane_ok l \<Longrightarrow> lane_ok l'"
  by (erule lane_stepE) (auto simp: lane_ok_def lane_defs split: list.splits option.splits)

lemma lane_ok_trace: "lane_trace evs l \<Longrightarrow> lane_ok l"
proof (induction rule: lane_trace.induct)
  case start
  show ?case by (simp add: lane_ok_def new_lane_def)
next
  case (more evs l ev l')
  then show ?case by (blast intro: lane_ok_step)
qed

definition lane_pending :: "'a lane \<Rightarrow> 'a list" where
  "lane_pending l = (case ln_running l of None \<Rightarrow> [] | Some x \<Rightarrow> [x]) @ ln_queue l"

lemma pending_step:
  "lane_step l ev l' \<Longrightarrow> lane_ok l \<Longrightarrow>
     mset (map fst (ln_settled l')) + mset (lane_pending l') =
     mset (map fst (ln_settled l)) + mset (lane_pending l) + mset (enqueued [ev])"
  by (erule lane_stepE)
     (auto simp: lane_ok_def lane_pending_def lane_defs o_def enqueued_one split: list.splits option.splits)

lemma length_step_le: "lane_ok l \<Longrightarrow> lane_length l = length (lane_pending l)"
  by (auto simp: lane_ok_def lane_length_def lane_pending_def split: option.splits)

text \<open>The lane as a first-come-first-served service (without \<open>abort\<close>).\<close>

interpretation lane_fifo: fifo_service lane_ok enqueue run_settles ln_started ln_queue
  by unfold_locales (auto simp: lane_ok_def lane_defs split: list.splits option.splits)

lemma started_step:
  "lane_step l ev l' \<Longrightarrow> lane_ok l \<Longrightarrow>
     ln_started l' @ ln_queue l' =
       (if ev = Abort then ln_started l else ln_started l @ ln_queue l @ enqueued [ev])"
  by (erule lane_stepE)
     (auto simp: lane_fifo.submit_order lane_fifo.advance_order abort_lane_def enqueued_one)

section \<open>Semaphores\<close>

text \<open>
  \<open>count\<close> and \<open>queue\<close> are the fields; a waiter is named by a value. \<open>sm_granted\<close> lists the
  acquisitions that resolved, in order.
\<close>

record 'a semaphore =
  sm_count :: int
  sm_queue :: "'a list"
  sm_granted :: "'a list"

definition new_semaphore :: "int \<Rightarrow> 'a semaphore" where
  "new_semaphore n = \<lparr>sm_count = n, sm_queue = [], sm_granted = []\<rparr>"

definition sem_acquire :: "'a \<Rightarrow> 'a semaphore \<Rightarrow> 'a semaphore" where
  "sem_acquire x s =
     (if sm_count s > 0
      then s\<lparr>sm_count := sm_count s - 1, sm_granted := sm_granted s @ [x]\<rparr>
      else s\<lparr>sm_queue := sm_queue s @ [x]\<rparr>)"

definition sem_release :: "'a semaphore \<Rightarrow> 'a semaphore" where
  "sem_release s =
     (case sm_queue s of
        x # q \<Rightarrow> s\<lparr>sm_queue := q, sm_granted := sm_granted s @ [x]\<rparr>
      | [] \<Rightarrow> s\<lparr>sm_count := sm_count s + 1\<rparr>)"

text \<open>No one waits while a permit is free.\<close>

definition sem_ok :: "'a semaphore \<Rightarrow> bool" where
  "sem_ok s = (sm_queue s \<noteq> [] \<longrightarrow> sm_count s \<le> 0)"

lemma sem_ok_new [simp]: "sem_ok (new_semaphore n)"
  by (simp add: sem_ok_def new_semaphore_def)

lemma sem_ok_acquire: "sem_ok s \<Longrightarrow> sem_ok (sem_acquire x s)"
  by (auto simp: sem_ok_def sem_acquire_def)

lemma sem_ok_release: "sem_ok s \<Longrightarrow> sem_ok (sem_release s)"
  by (auto simp: sem_ok_def sem_release_def split: list.splits)

text \<open>Permits are conserved: those free and those granted, less those returned.\<close>

definition sem_total :: "'a semaphore \<Rightarrow> int" where
  "sem_total s = sm_count s + int (length (sm_granted s))"

lemma sem_total_new [simp]: "sem_total (new_semaphore n) = n"
  by (simp add: sem_total_def new_semaphore_def)

lemma sem_total_acquire [simp]: "sem_total (sem_acquire x s) = sem_total s"
  by (simp add: sem_total_def sem_acquire_def)

lemma sem_total_release [simp]: "sem_total (sem_release s) = sem_total s + 1"
  by (simp add: sem_total_def sem_release_def split: list.splits)

interpretation sem_fifo: fifo_service sem_ok sem_acquire "\<lambda>_ :: unit. sem_release" sm_granted sm_queue
  by unfold_locales (auto simp: sem_ok_def sem_acquire_def sem_release_def split: list.splits)

section \<open>Properties of the lanes\<close>

text \<open>
  whatever is enqueued, aborted and settled in whatever order, each promise of the lane settles
  at most once, and the tasks enqueued are exactly those settled, the one running and those queued;
  \<open>length\<close> counts the unsettled ones.
\<close>
theorem lane_settles_once:
  assumes "lane_trace evs l"
  shows "mset (enqueued evs) = mset (map fst (ln_settled l)) + mset (lane_pending l)
     \<and> lane_length l + length (ln_settled l) = length (enqueued evs)"
proof -
  have "mset (enqueued evs) = mset (map fst (ln_settled l)) + mset (lane_pending l)"
    using assms
  proof (induction rule: lane_trace.induct)
    case start
    show ?case by (simp add: new_lane_def lane_pending_def)
  next
    case (more evs l ev l')
    then show ?case
      using pending_step [OF more.hyps(2) lane_ok_trace [OF more.hyps(1)]]
      by (simp add: enqueued_one)
  qed
  moreover from arg_cong [OF this, of size] have "length (enqueued evs) =
      length (ln_settled l) + length (lane_pending l)" by simp
  ultimately show ?thesis
    using length_step_le [OF lane_ok_trace [OF assms]] by simp
qed

theorem lane_settles_once_witness:
  "mset (enqueued [Enqueue (1 :: nat), Enqueue 2]) = mset (map fst (ln_settled (enqueue 2 (enqueue 1 new_lane))))
     + mset (lane_pending (enqueue 2 (enqueue 1 new_lane)))"
proof -
  have "lane_trace ([] @ [Enqueue (1 :: nat)] @ [Enqueue 2]) (enqueue 2 (enqueue 1 new_lane))"
    using lane_trace.more [OF lane_trace.more [OF lane_trace.start do_enqueue] do_enqueue] by simp
  from lane_settles_once [OF this] show ?thesis by simp
qed

text \<open>
  a lane starts its tasks in the order they were enqueued, and without an abort it starts or
  still holds every one of them. Aborting rejects all that wait and signals the running task; once
  that task settles the lane is idle, and the next task gets a signal of its own.
\<close>
theorem lane_in_order:
  assumes "lane_trace evs l"
  shows "subseq (ln_started l @ ln_queue l) (enqueued evs)
     \<and> (Abort \<notin> set evs \<longrightarrow> ln_started l @ ln_queue l = enqueued evs)
     \<and> (\<forall>out x. let idle = run_settles out (abort_lane l)
          in lane_length idle = 0 \<and> ln_abort idle = None
             \<and> ln_running (enqueue x idle) = Some x \<and> ln_abort (enqueue x idle) = Some False)"
proof -
  have ok: "lane_ok l" by (rule lane_ok_trace [OF assms])
  have "subseq (ln_started l @ ln_queue l) (enqueued evs)
     \<and> (Abort \<notin> set evs \<longrightarrow> ln_started l @ ln_queue l = enqueued evs)"
    using assms
  proof (induction rule: lane_trace.induct)
    case start
    show ?case by (simp add: new_lane_def)
  next
    case (more evs l ev l')
    have s: "subseq (ln_started l) (enqueued evs)"
      using more.IH by (meson list_emb_append_mono subseq_append_le_same_iff subseq_rev_drop_many
          subseq_order.trans prefix_imp_subseq prefixI)
    show ?case
      using more.IH s started_step [OF more.hyps(2) lane_ok_trace [OF more.hyps(1)]]
      by (cases ev) (auto simp: enqueued_one simp flip: append_assoc)
  qed
  moreover have "let idle = run_settles out (abort_lane l)
     in lane_length idle = 0 \<and> ln_abort idle = None
        \<and> ln_running (enqueue x idle) = Some x \<and> ln_abort (enqueue x idle) = Some False" for out x
    using ok by (cases "ln_running l")
      (auto simp: lane_ok_def Let_def lane_length_def lane_defs)
  ultimately show ?thesis by blast
qed

theorem lane_in_order_witness:
  "ln_started (enqueue 2 (enqueue (1 :: nat) new_lane)) @ ln_queue (enqueue 2 (enqueue 1 new_lane)) = [1, 2]"
proof -
  have "lane_trace ([] @ [Enqueue (1 :: nat)] @ [Enqueue 2]) (enqueue 2 (enqueue 1 new_lane))"
    using lane_trace.more [OF lane_trace.more [OF lane_trace.start do_enqueue] do_enqueue] by simp
  from lane_in_order [OF this] show ?thesis by (simp add: enqueued_def map_filter_simps)
qed

end
