(* ===== verification/BatchRun.thy ===== *)
theory BatchRun
  imports Complex_Main Lanes
begin

text \<open>
  The batch runner (extensions/batch-runner/src/runner.ts): its tasks wait on a semaphore, stream an
  agent run each, append their records through a writer that keeps the appends in order
  (atropos-writer.ts) and save a checkpoint after each task (checkpoint.ts). The tasks interleave at
  their awaits; what resumes next is an event. What a storage call answers and what an agent run
  emits are events too; the JSON text of tool arguments is a string. Time is not modelled.
\<close>

section \<open>Records and the answer of a run\<close>

record batch_task =
  bt_id :: string
  bt_prompt :: string
  bt_personality :: "string option"

record atropos_usage =
  u_input :: int
  u_output :: int
  u_cost :: rat

datatype record_role = RoleUser | RoleAssistant | RoleTool

record atropos_record =
  a_task :: string
  a_role :: record_role
  a_content :: string
  a_calls :: "(string \<times> string) list option"
  a_results :: "(string \<times> bool) list option"
  a_usage :: "atropos_usage option"
  a_error :: "string option"

datatype agent_event =
    TextDelta string
  | TurnDone "string option"
  | ToolStart string string
  | ToolEnd string bool
  | UsageEvent atropos_usage
  | OtherEvent

text \<open>An absent or an empty answer, or one the streamed text already ends with, adds nothing.\<close>

definition unstreamed_answer :: "string \<Rightarrow> string option \<Rightarrow> string" where
  "unstreamed_answer streamed answer =
     (case answer of
        None \<Rightarrow> []
      | Some a \<Rightarrow> if a = [] \<or> ends_with streamed a then [] else a)"

definition answer_suffix :: "string \<Rightarrow> string option \<Rightarrow> string" where
  "answer_suffix streamed answer =
     (let a = unstreamed_answer streamed answer
      in if a = [] then []
         else if js_trim streamed \<noteq> [] then [CHR 0x0A, CHR 0x0A] @ a else a)"

text \<open>The locals of \<open>runTask\<close>.\<close>

record turn_acc =
  x_text :: string
  x_usage :: "atropos_usage option"
  x_calls :: "(string \<times> string) list"
  x_results :: "(string \<times> bool) list"

definition empty_acc :: turn_acc where
  "empty_acc = \<lparr>x_text = [], x_usage = None, x_calls = [], x_results = []\<rparr>"

fun absorb :: "agent_event \<Rightarrow> turn_acc \<Rightarrow> turn_acc" where
  "absorb (TextDelta t) x = x\<lparr>x_text := x_text x @ t\<rparr>"
| "absorb (TurnDone t) x = x\<lparr>x_text := x_text x @ answer_suffix (x_text x) t\<rparr>"
| "absorb (ToolStart n args) x = x\<lparr>x_calls := x_calls x @ [(n, args)]\<rparr>"
| "absorb (ToolEnd n good) x = x\<lparr>x_results := x_results x @ [(n, good)]\<rparr>"
| "absorb (UsageEvent u) x = x\<lparr>x_usage := Some u\<rparr>"
| "absorb OtherEvent x = x"

definition session_key :: "string \<Rightarrow> batch_task \<Rightarrow> string" where
  "session_key dflt t =
     ''batch:'' @ (case bt_personality t of Some p \<Rightarrow> p | None \<Rightarrow> dflt) @ '':'' @ bt_id t"

definition user_record :: "batch_task \<Rightarrow> atropos_record" where
  "user_record t = \<lparr>a_task = bt_id t, a_role = RoleUser, a_content = bt_prompt t, a_calls = None,
     a_results = None, a_usage = None, a_error = None\<rparr>"

definition assistant_record :: "batch_task \<Rightarrow> turn_acc \<Rightarrow> atropos_record" where
  "assistant_record t x = \<lparr>a_task = bt_id t, a_role = RoleAssistant, a_content = x_text x,
     a_calls = (if x_calls x = [] then None else Some (x_calls x)), a_results = None,
     a_usage = x_usage x, a_error = None\<rparr>"

definition tool_record :: "batch_task \<Rightarrow> turn_acc \<Rightarrow> atropos_record" where
  "tool_record t x = \<lparr>a_task = bt_id t, a_role = RoleTool, a_content = [], a_calls = None,
     a_results = Some (x_results x), a_usage = None, a_error = None\<rparr>"

definition error_record :: "batch_task \<Rightarrow> string \<Rightarrow> atropos_record" where
  "error_record t msg = \<lparr>a_task = bt_id t, a_role = RoleAssistant, a_content = [], a_calls = None,
     a_results = None, a_usage = None, a_error = Some msg\<rparr>"

section \<open>The state of a batch\<close>

text \<open>
  Where a task is: waiting for its permit, or at the await of the append or of the checkpoint save
  it has called, or streaming. A checkpoint is the two lists of ids.
\<close>

type_synonym checkpoint = "string list \<times> string list"

datatype phase =
    Waiting
  | Opening
  | Streaming turn_acc
  | Closing turn_acc
  | Tooling
  | Failing
  | Saving checkpoint
  | Finished

record batch =
  ba_tasks :: "batch_task list"
  ba_total :: nat
  ba_completed :: "string list"
  ba_failed :: "string list"
  ba_stopping :: bool
  ba_sem :: "nat semaphore"
  ba_phase :: "phase list"
  ba_chain :: "(nat \<times> atropos_record) list"
  ba_broken :: "string option"
  ba_output :: "atropos_record list"
  ba_file :: checkpoint
  ba_progress :: "(nat \<times> nat) list"

text \<open>
  \<open>run\<close> up to the \<open>allSettled\<close>: the pending tasks are those of neither list, and each acquires in
  its turn without an await in between, so \<open>stopping\<close> cannot change within the loop.
\<close>

definition pending_tasks :: "checkpoint \<Rightarrow> batch_task list \<Rightarrow> batch_task list" where
  "pending_tasks cp ts = filter (\<lambda>t. bt_id t \<notin> set (fst cp) \<and> bt_id t \<notin> set (snd cp)) ts"

definition start_batch :: "int \<Rightarrow> checkpoint \<Rightarrow> batch_task list \<Rightarrow> batch" where
  "start_batch n cp ts =
     (let p = pending_tasks cp ts
      in \<lparr>ba_tasks = p, ba_total = length ts, ba_completed = fold set_add (fst cp) [],
          ba_failed = fold set_add (snd cp) [], ba_stopping = False,
          ba_sem = fold sem_acquire [0..<length p] (new_semaphore n),
          ba_phase = replicate (length p) Waiting, ba_chain = [], ba_broken = None, ba_output = [],
          ba_file = cp, ba_progress = []\<rparr>)"

section \<open>Steps\<close>

definition set_phase :: "nat \<Rightarrow> phase \<Rightarrow> batch \<Rightarrow> batch" where
  "set_phase i p b = b\<lparr>ba_phase := (ba_phase b)[i := p]\<rparr>"

text \<open>\<open>append\<close> chains the write behind the earlier ones; the caller awaits it in phase \<open>p\<close>.\<close>

definition append_record :: "nat \<Rightarrow> atropos_record \<Rightarrow> phase \<Rightarrow> batch \<Rightarrow> batch" where
  "append_record i r p b = set_phase i p (b\<lparr>ba_chain := ba_chain b @ [(i, r)]\<rparr>)"

text \<open>The \<open>finally\<close> block, and the early return of a stopping batch.\<close>

definition release_task :: "nat \<Rightarrow> batch \<Rightarrow> batch" where
  "release_task i b = set_phase i Finished (b\<lparr>ba_sem := sem_release (ba_sem b)\<rparr>)"

definition finish_task :: "nat \<Rightarrow> batch \<Rightarrow> batch" where
  "finish_task i b =
     (release_task i b)
       \<lparr>ba_progress := ba_progress b @
          [(length (ba_completed b) + length (ba_failed b), ba_total b)]\<rparr>"

definition save_checkpoint :: "nat \<Rightarrow> batch \<Rightarrow> batch" where
  "save_checkpoint i b = set_phase i (Saving (ba_completed b, ba_failed b)) b"

definition count_completed :: "nat \<Rightarrow> batch \<Rightarrow> batch" where
  "count_completed i b =
     save_checkpoint i (b\<lparr>ba_completed := set_add (bt_id (ba_tasks b ! i)) (ba_completed b)\<rparr>)"

definition count_failed :: "nat \<Rightarrow> batch \<Rightarrow> batch" where
  "count_failed i b =
     save_checkpoint i (b\<lparr>ba_failed := set_add (bt_id (ba_tasks b ! i)) (ba_failed b)\<rparr>)"

text \<open>The continuation of \<open>runTask\<close> after an append resolved, and after it rejected.\<close>

fun appended :: "nat \<Rightarrow> phase \<Rightarrow> batch \<Rightarrow> batch" where
  "appended i Opening b = set_phase i (Streaming empty_acc) b"
| "appended i (Closing x) b =
     (if x_results x = [] then count_completed i b
      else append_record i (tool_record (ba_tasks b ! i) x) Tooling b)"
| "appended i Tooling b = count_completed i b"
| "appended i Failing b = count_failed i b"
| "appended i _ b = b"

fun append_failed :: "nat \<Rightarrow> string \<Rightarrow> phase \<Rightarrow> batch \<Rightarrow> batch" where
  "append_failed i msg Opening b = finish_task i b"
| "append_failed i msg (Closing x) b = append_record i (error_record (ba_tasks b ! i) msg) Failing b"
| "append_failed i msg Tooling b = append_record i (error_record (ba_tasks b ! i) msg) Failing b"
| "append_failed i msg Failing b = finish_task i b"
| "append_failed i msg _ b = b"

text \<open>
  The events: the signal, a permit's holder resuming, an event of an agent run and its end, the
  outcome of the write at the head of the chain, and that of a checkpoint save. A rejected write
  rejects every append chained behind it, also the ones called later.
\<close>

datatype batch_event =
    Sigterm
  | Wake nat
  | Arrive nat agent_event
  | StreamEnds nat
  | StreamThrows nat string
  | WriteDone "string option"
  | SaveDone nat bool

datatype not_enabled = NotEnabled

definition phase_of :: "nat \<Rightarrow> batch \<Rightarrow> phase" where
  "phase_of i b = (if i < length (ba_phase b) then ba_phase b ! i else Finished)"

fun batch_do :: "batch_event \<Rightarrow> batch \<Rightarrow> (not_enabled, batch) result" where
  "batch_do Sigterm b = Inr (b\<lparr>ba_stopping := True\<rparr>)"
| "batch_do (Wake i) b =
     (if phase_of i b = Waiting \<and> i \<in> set (sm_granted (ba_sem b))
      then Inr (if ba_stopping b then release_task i b
                else append_record i (user_record (ba_tasks b ! i)) Opening b)
      else Inl NotEnabled)"
| "batch_do (Arrive i e) b =
     (case phase_of i b of
        Streaming x \<Rightarrow> Inr (set_phase i (Streaming (absorb e x)) b)
      | _ \<Rightarrow> Inl NotEnabled)"
| "batch_do (StreamEnds i) b =
     (case phase_of i b of
        Streaming x \<Rightarrow> Inr (append_record i (assistant_record (ba_tasks b ! i) x) (Closing x) b)
      | _ \<Rightarrow> Inl NotEnabled)"
| "batch_do (StreamThrows i msg) b =
     (case phase_of i b of
        Streaming x \<Rightarrow> Inr (append_record i (error_record (ba_tasks b ! i) msg) Failing b)
      | _ \<Rightarrow> Inl NotEnabled)"
| "batch_do (WriteDone err) b =
     (case ba_chain b of
        [] \<Rightarrow> Inl NotEnabled
      | (i, r) # q \<Rightarrow>
          (let failure = (case ba_broken b of Some m \<Rightarrow> Some m | None \<Rightarrow> err);
               b1 = b\<lparr>ba_chain := q\<rparr>
           in case failure of
                None \<Rightarrow> Inr (appended i (phase_of i b) (b1\<lparr>ba_output := ba_output b @ [r]\<rparr>))
              | Some m \<Rightarrow> Inr (append_failed i m (phase_of i b) (b1\<lparr>ba_broken := Some m\<rparr>))))"
| "batch_do (SaveDone i landed) b =
     (case phase_of i b of
        Saving snap \<Rightarrow> Inr (finish_task i (if landed then b\<lparr>ba_file := snap\<rparr> else b))
      | _ \<Rightarrow> Inl NotEnabled)"

fun_cases batch_wakeE: "batch_do (Wake i) b = Inr b'"
fun_cases batch_writeE: "batch_do (WriteDone err) b = Inr b'"

record batch_stats =
  bs_total :: nat
  bs_completed :: nat
  bs_failed :: nat
  bs_skipped :: nat

definition stats_of :: "batch \<Rightarrow> batch_stats" where
  "stats_of b = \<lparr>bs_total = ba_total b, bs_completed = length (ba_completed b),
     bs_failed = length (ba_failed b), bs_skipped = ba_total b - length (ba_tasks b)\<rparr>"

section \<open>Invariant\<close>

definition finished_one :: "phase \<Rightarrow> int" where
  "finished_one p = (if p = Finished then 1 else 0)"

definition finished_count :: "batch \<Rightarrow> int" where
  "finished_count b = sum_list (map finished_one (ba_phase b))"

text \<open>Permits: the tasks hold those granted and not yet returned.\<close>

definition permits_ok :: "int \<Rightarrow> batch \<Rightarrow> bool" where
  "permits_ok n b =
     (sem_ok (ba_sem b) \<and> sm_count (ba_sem b) \<ge> min 0 n
       \<and> sem_total (ba_sem b) = n + finished_count b
       \<and> sm_granted (ba_sem b) @ sm_queue (ba_sem b) = [0..<length (ba_tasks b)]
       \<and> length (ba_phase b) = length (ba_tasks b)
       \<and> (\<forall>i < length (ba_phase b). ba_phase b ! i \<noteq> Waiting \<longrightarrow> i < length (sm_granted (ba_sem b))))"

definition counted :: "nat \<Rightarrow> batch \<Rightarrow> bool" where
  "counted i b = (bt_id (ba_tasks b ! i) \<in> set (ba_completed b) \<union> set (ba_failed b))"

definition cp_within :: "checkpoint \<Rightarrow> batch \<Rightarrow> bool" where
  "cp_within cp b = (set (fst cp) \<subseteq> set (ba_completed b) \<and> set (snd cp) \<subseteq> set (ba_failed b))"

text \<open>
  Books: a task ends counted, unless the batch was stopped or its output file broke; a checkpoint,
  on disk or being saved, lists only ids that are counted.
\<close>

fun phase_books :: "batch \<Rightarrow> nat \<Rightarrow> phase \<Rightarrow> bool" where
  "phase_books b i Finished = (counted i b \<or> ba_stopping b \<or> ba_broken b \<noteq> None)"
| "phase_books b i (Saving cp) = (counted i b \<and> cp_within cp b)"
| "phase_books b i _ = True"

definition books_ok :: "batch \<Rightarrow> bool" where
  "books_ok b =
     (cp_within (ba_file b) b \<and> (\<forall>i < length (ba_phase b). phase_books b i (ba_phase b ! i)))"

definition batch_ok :: "int \<Rightarrow> batch \<Rightarrow> bool" where
  "batch_ok n b = (permits_ok n b \<and> books_ok b)"

subsection \<open>Permits\<close>

lemma phase_ofD:
  "phase_of i b = p \<Longrightarrow> p \<noteq> Finished \<Longrightarrow> i < length (ba_phase b) \<and> ba_phase b ! i = p"
  by (auto simp: phase_of_def split: if_splits)

lemma upt_prefix_set: "xs @ ys = [0..<n] \<Longrightarrow> set xs = {..<length xs}"
proof -
  assume e: "xs @ ys = [0..<n]"
  have "length xs \<le> n" using arg_cong [OF e, of length] by simp
  moreover have "xs = take (length xs) [0..<n]" using e by (metis append_eq_conv_conj)
  ultimately have "xs = [0..<length xs]" by (simp add: take_upt)
  then show ?thesis by (metis atLeast_upt)
qed

text \<open>
  What a step does to the phases and the permits: a task moves within \<open>runTask\<close>, or ends and
  returns its permit.
\<close>

definition same_core :: "batch \<Rightarrow> batch \<Rightarrow> bool" where
  "same_core b c = (ba_phase c = ba_phase b \<and> ba_sem c = ba_sem b \<and> ba_tasks c = ba_tasks b)"

definition holds_permit :: "nat \<Rightarrow> batch \<Rightarrow> bool" where
  "holds_permit i b =
     (phase_of i b \<noteq> Finished \<and> (phase_of i b = Waiting \<longrightarrow> i \<in> set (sm_granted (ba_sem b))))"

definition effect :: "batch \<Rightarrow> batch \<Rightarrow> bool" where
  "effect b b' =
     (same_core b b' \<or>
      (\<exists>i p c. holds_permit i b \<and> p \<notin> {Waiting, Finished} \<and> same_core b c \<and> same_core (set_phase i p c) b') \<or>
      (\<exists>i c. holds_permit i b \<and> same_core b c \<and> same_core (release_task i c) b'))"

lemma effect_same: "same_core b b' \<Longrightarrow> effect b b'"
  by (simp add: effect_def)

lemma effect_move:
  "holds_permit i b \<Longrightarrow> p \<notin> {Waiting, Finished} \<Longrightarrow> same_core b c \<Longrightarrow> effect b (set_phase i p c)"
  unfolding effect_def same_core_def by blast

lemma effect_release: "holds_permit i b \<Longrightarrow> same_core b c \<Longrightarrow> effect b (release_task i c)"
  unfolding effect_def same_core_def by blast

lemma effect_finish: "holds_permit i b \<Longrightarrow> same_core b c \<Longrightarrow> effect b (finish_task i c)"
  unfolding effect_def same_core_def finish_task_def by fastforce

lemma effect_moves:
  assumes "holds_permit i b" "same_core b c"
  shows "p \<notin> {Waiting, Finished} \<Longrightarrow> effect b (append_record i r p c)"
    and "effect b (count_completed i c)" and "effect b (count_failed i c)"
    and "effect b (finish_task i c)"
proof -
  show "effect b (append_record i r p c)" if "p \<notin> {Waiting, Finished}"
    unfolding append_record_def using assms that by (intro effect_move) (simp_all add: same_core_def)
  show "effect b (count_completed i c)" "effect b (count_failed i c)"
    unfolding count_completed_def count_failed_def save_checkpoint_def
    using assms by (auto intro!: effect_move simp: same_core_def)
  show "effect b (finish_task i c)" using assms by (rule effect_finish)
qed

lemma appended_effect:
  assumes "same_core b c"
  shows "effect b (appended i (phase_of i b) c) \<and> effect b (append_failed i m (phase_of i b) c)"
proof (cases "phase_of i b \<in> {Waiting, Finished}")
  case True
  then show ?thesis using effect_same [OF assms] by auto
next
  case False
  then have h: "holds_permit i b" by (simp add: holds_permit_def)
  note moves = effect_moves [OF h assms] effect_same [OF assms] effect_move [OF h _ assms]
  show ?thesis by (cases "phase_of i b") (simp_all add: moves)
qed

lemma batch_effect: "batch_do e b = Inr b' \<Longrightarrow> effect b b'"
proof (induction e b rule: batch_do.induct)
  case (1 b)
  then show ?case by (auto intro: effect_same simp: same_core_def)
next
  case (2 i b)
  then have "holds_permit i b" by (auto simp: holds_permit_def split: if_splits)
  with 2 show ?case
    using effect_release [of i b b] effect_moves(1) [of i b b]
    by (auto simp: same_core_def split: if_splits)
next
  case (3 i e b)
  then show ?case
    by (auto simp: holds_permit_def same_core_def split: phase.splits intro!: effect_move)
next
  case (4 i b)
  then show ?case
    by (auto simp: holds_permit_def same_core_def split: phase.splits intro!: effect_moves)
next
  case (5 i msg b)
  then show ?case
    by (auto simp: holds_permit_def same_core_def split: phase.splits intro!: effect_moves)
next
  case (6 err b)
  then show ?case
    using appended_effect
    by (auto simp: Let_def same_core_def split: list.splits option.splits)
next
  case (7 i landed b)
  then show ?case
    by (auto simp: holds_permit_def same_core_def split: phase.splits intro!: effect_moves)
qed

subsection \<open>Permits\<close>

lemma granted_index:
  assumes "permits_ok n b" "holds_permit i b"
  shows "i < length (ba_phase b) \<and> i < length (sm_granted (ba_sem b)) \<and> ba_phase b ! i \<noteq> Finished"
proof -
  have "set (sm_granted (ba_sem b)) = {..<length (sm_granted (ba_sem b))}"
    using assms(1) by (auto simp: permits_ok_def intro!: upt_prefix_set)
  with assms show ?thesis
    by (auto simp: permits_ok_def holds_permit_def phase_of_def split: if_splits)
qed

lemma finished_set_phase:
  "i < length (ba_phase b) \<Longrightarrow> ba_phase b ! i \<noteq> Finished \<Longrightarrow>
     finished_count (set_phase i p b) = finished_count b + finished_one p"
  by (simp add: finished_count_def set_phase_def sum_list_map_update finished_one_def)

lemma holds_permit_same: "same_core b c \<Longrightarrow> holds_permit i c = holds_permit i b"
  by (simp add: holds_permit_def same_core_def phase_of_def)

lemma permits_same: "same_core b c \<Longrightarrow> permits_ok n c = permits_ok n b"
  by (simp add: same_core_def permits_ok_def finished_count_def)

lemma permits_move:
  assumes "permits_ok n b" "holds_permit i b" "p \<notin> {Waiting, Finished}"
  shows "permits_ok n (set_phase i p b)"
proof -
  have "finished_count (set_phase i p b) = finished_count b"
    using finished_set_phase [of i b p] granted_index [OF assms(1,2)] assms(3)
    by (simp add: finished_one_def)
  then show ?thesis
    using assms(1) granted_index [OF assms(1,2)]
    by (auto simp: permits_ok_def set_phase_def nth_list_update)
qed

lemma permits_release:
  assumes "permits_ok n b" "holds_permit i b"
  shows "permits_ok n (release_task i b)"
proof -
  let ?s = "sem_release (ba_sem b)"
  have "finished_count (release_task i b) = finished_count b + 1"
    using finished_set_phase [of i "b\<lparr>ba_sem := ?s\<rparr>" Finished] granted_index [OF assms]
    by (simp add: release_task_def finished_one_def) (simp add: finished_count_def)
  moreover have "length (sm_granted (ba_sem b)) \<le> length (sm_granted ?s)"
    "sm_count (ba_sem b) \<le> sm_count ?s"
    by (simp_all add: sem_release_def split: list.splits)
  moreover have "sm_granted ?s @ sm_queue ?s = [0..<length (ba_tasks b)]"
    using sem_fifo.advance_order [of "ba_sem b"] assms(1) by (simp add: permits_ok_def)
  ultimately show ?thesis
    using assms(1) granted_index [OF assms]
    by (auto simp: permits_ok_def release_task_def set_phase_def nth_list_update sem_ok_release
        intro: less_le_trans)
qed

lemma permits_step:
  assumes "permits_ok n b" "batch_do e b = Inr b'"
  shows "permits_ok n b'"
  using batch_effect [OF assms(2)] unfolding effect_def
proof (elim disjE exE conjE)
  assume "same_core b b'"
  then show ?thesis using assms(1) permits_same by blast
next
  fix i p c
  assume h: "holds_permit i b" "p \<notin> {Waiting, Finished}" "same_core b c" "same_core (set_phase i p c) b'"
  then have "holds_permit i c" using holds_permit_same by blast
  then show ?thesis using h assms(1) permits_same permits_move by blast
next
  fix i c
  assume h: "holds_permit i b" "same_core b c" "same_core (release_task i c) b'"
  then have "holds_permit i c" using holds_permit_same by blast
  then show ?thesis using h assms(1) permits_same permits_release by blast
qed

subsection \<open>Books\<close>

definition grows :: "batch \<Rightarrow> batch \<Rightarrow> bool" where
  "grows b c =
     (ba_tasks c = ba_tasks b \<and> set (ba_completed b) \<subseteq> set (ba_completed c)
       \<and> set (ba_failed b) \<subseteq> set (ba_failed c) \<and> (ba_stopping b \<longrightarrow> ba_stopping c)
       \<and> (ba_broken b \<noteq> None \<longrightarrow> ba_broken c \<noteq> None))"

lemma grows_books: "grows b c \<Longrightarrow> phase_books b i p \<Longrightarrow> phase_books c i p"
  by (cases p) (auto simp: grows_def counted_def cp_within_def)

lemma grows_within: "grows b c \<Longrightarrow> cp_within cp b \<Longrightarrow> cp_within cp c"
  by (auto simp: grows_def cp_within_def)

text \<open>What the bookkeeping reads, and a step that only grows it.\<close>

definition books_move :: "nat \<Rightarrow> batch \<Rightarrow> batch \<Rightarrow> bool" where
  "books_move i b c =
     (grows b c \<and> cp_within (ba_file c) c \<and>
      length (ba_phase c) = length (ba_phase b) \<and>
      (\<forall>j < length (ba_phase b). j \<noteq> i \<longrightarrow> ba_phase c ! j = ba_phase b ! j) \<and>
      (i < length (ba_phase b) \<longrightarrow> phase_books c i (ba_phase c ! i)))"

lemma books_moveI:
  assumes "books_ok b" "books_move i b c"
  shows "books_ok c"
  using assms unfolding books_ok_def books_move_def by (metis grows_books)

lemma books_same:
  "books_ok b \<Longrightarrow> grows b c \<Longrightarrow> ba_file c = ba_file b \<Longrightarrow> ba_phase c = ba_phase b \<Longrightarrow> books_ok c"
  by (auto simp: books_ok_def intro: grows_books grows_within)

lemmas move_defs = books_move_def grows_def append_record_def set_phase_def count_completed_def
  count_failed_def save_checkpoint_def finish_task_def release_task_def cp_within_def counted_def

lemma appended_books:
  assumes "books_ok b" "grows b c" "ba_file c = ba_file b" "ba_phase c = ba_phase b"
  shows "books_ok (appended i p c)"
    and "ba_broken c \<noteq> None \<Longrightarrow> books_ok (append_failed i m p c)"
proof -
  have c: "books_ok c" using assms by (rule books_same)
  then have f: "cp_within (ba_file c) c" by (simp add: books_ok_def)
  show "books_ok (appended i p c)"
    using f by (cases p) (auto intro!: c books_moveI [OF c, of i] simp: move_defs)
  show "books_ok (append_failed i m p c)" if "ba_broken c \<noteq> None"
    using f that by (cases p) (auto intro!: c books_moveI [OF c, of i] simp: move_defs)
qed

lemma books_step: "books_ok b \<Longrightarrow> batch_do e b = Inr b' \<Longrightarrow> books_ok b'"
proof (induction e b rule: batch_do.induct)
  case (1 b)
  then show ?case by (auto intro: books_same simp: grows_def)
next
  case (2 i b)
  then have f: "cp_within (ba_file b) b" by (simp add: books_ok_def)
  with 2 show ?case
    by (auto split: if_splits intro!: books_moveI [OF 2(1), of i] simp: move_defs)
next
  case (3 i e b)
  then have f: "cp_within (ba_file b) b" by (simp add: books_ok_def)
  with 3 show ?case
    by (auto split: phase.splits intro!: books_moveI [OF 3(1), of i] simp: move_defs)
next
  case (4 i b)
  then have f: "cp_within (ba_file b) b" by (simp add: books_ok_def)
  with 4 show ?case
    by (auto split: phase.splits intro!: books_moveI [OF 4(1), of i] simp: move_defs)
next
  case (5 i msg b)
  then have f: "cp_within (ba_file b) b" by (simp add: books_ok_def)
  with 5 show ?case
    by (auto split: phase.splits intro!: books_moveI [OF 5(1), of i] simp: move_defs)
next
  case (6 err b)
  then show ?case
    by (auto simp: Let_def grows_def split: list.splits option.splits
        intro!: appended_books [of b])
next
  case (7 i landed b)
  then obtain snap where p: "phase_of i b = Saving snap"
    by (auto split: phase.splits)
  then have i: "i < length (ba_phase b)" "ba_phase b ! i = Saving snap"
    by (auto simp: phase_of_def split: if_splits)
  then have "phase_books b i (Saving snap)" using 7(1) by (metis books_ok_def)
  then have "cp_within snap b" "counted i b" "cp_within (ba_file b) b"
    using 7(1) by (simp_all add: books_ok_def)
  then show ?case
    using 7(2) p by (auto intro!: books_moveI [OF 7(1), of i] simp: move_defs)
qed

interpretation batch_machine: inv_machine batch_do "batch_ok n" for n
  by unfold_locales (auto simp: batch_ok_def intro: permits_step books_step)

lemma acquire_all:
  "sem_ok s \<Longrightarrow> sm_count s \<ge> min 0 n \<Longrightarrow>
     sem_ok (fold sem_acquire xs s) \<and> sm_count (fold sem_acquire xs s) \<ge> min 0 n
     \<and> sem_total (fold sem_acquire xs s) = sem_total s
     \<and> sm_granted (fold sem_acquire xs s) @ sm_queue (fold sem_acquire xs s) =
         sm_granted s @ sm_queue s @ xs"
proof (induction xs arbitrary: s)
  case (Cons x xs)
  have "sm_count (sem_acquire x s) \<ge> min 0 n"
    using Cons.prems(2) by (auto simp: sem_acquire_def)
  from Cons.IH [OF sem_ok_acquire [OF Cons.prems(1)] this] show ?case
    using sem_fifo.submit_order [OF Cons.prems(1), of x] by (metis append_assoc append_Cons append_Nil
        fold_simps(2) sem_total_acquire)
qed simp

lemma set_fold_set_add [simp]: "set (fold set_add xs ys) = set xs \<union> set ys"
  by (induction xs arbitrary: ys) auto

lemma start_ok: "batch_ok n (start_batch n cp ts)"
proof -
  have "sm_granted (new_semaphore n) = ([] :: nat list)" "sm_queue (new_semaphore n) = ([] :: nat list)"
    "sm_count (new_semaphore n :: nat semaphore) = n"
    by (simp_all add: new_semaphore_def)
  moreover have "sum_list (replicate k (0 :: int)) = 0" for k by (induction k) auto
  ultimately show ?thesis
    using acquire_all [of "new_semaphore n" n "[0..<length (pending_tasks cp ts)]"]
    by (auto simp: batch_ok_def permits_ok_def books_ok_def start_batch_def Let_def cp_within_def
        finished_count_def finished_one_def)
qed

definition batch_after :: "int \<Rightarrow> checkpoint \<Rightarrow> batch_task list \<Rightarrow> batch_event list \<Rightarrow> batch" where
  "batch_after n cp ts evs = run_live batch_do evs (start_batch n cp ts)"

lemma batch_after_ok: "batch_ok n (batch_after n cp ts evs)"
  unfolding batch_after_def by (rule batch_machine.live_good [OF start_ok])

text \<open>The task list of a batch is fixed, and it never forgets an id.\<close>

definition batch_keeps :: "checkpoint \<Rightarrow> batch_task list \<Rightarrow> batch \<Rightarrow> bool" where
  "batch_keeps cp ts b = (ba_tasks b = ts \<and> cp_within cp b)"

lemma appended_grows:
  "ba_broken c \<noteq> None \<Longrightarrow> grows c (append_failed i m p c)" "grows c (appended i p c)"
  by (cases p; auto simp: move_defs)+

lemma step_grows: "batch_do e b = Inr b' \<Longrightarrow> grows b b'"
proof (induction e b rule: batch_do.induct)
  case (6 err b)
  obtain i r q where c: "ba_chain b = (i, r) # q"
    using 6 by (cases "ba_chain b") auto
  let ?b1 = "b\<lparr>ba_chain := q, ba_output := ba_output b @ [r]\<rparr>"
  let ?b2 = "\<lambda>m. b\<lparr>ba_chain := q, ba_broken := Some m\<rparr>"
  have "grows ?b1 (appended i (phase_of i b) ?b1)"
    "grows (?b2 m) (append_failed i m (phase_of i b) (?b2 m))" for m
    by (simp_all add: appended_grows)
  then show ?case
    using 6 c by (auto simp: grows_def Let_def split: option.splits)
qed (auto simp: move_defs split: if_splits phase.splits)

interpretation batch_memory: inv_machine batch_do "batch_keeps cp ts" for cp ts
  by unfold_locales (drule step_grows, auto simp: batch_keeps_def grows_def cp_within_def)

lemma batch_after_keeps: "batch_keeps cp (pending_tasks cp ts) (batch_after n cp ts evs)"
  unfolding batch_after_def
  by (rule batch_memory.live_good)
     (auto simp: batch_keeps_def start_batch_def Let_def cp_within_def)

section \<open>Properties\<close>

text \<open>
  at every moment of a batch, however its tasks interleave, at most \<open>concurrency\<close> of them are
  between taking a permit and returning it.
\<close>
theorem batch_bound:
  "int (length (filter (\<lambda>p. p \<notin> {Waiting, Finished}) (ba_phase (batch_after n cp ts evs)))) \<le> max 0 n"
proof -
  let ?b = "batch_after n cp ts evs"
  let ?ps = "ba_phase ?b"
  have ok: "permits_ok n ?b" using batch_after_ok [of n cp ts evs] by (simp add: batch_ok_def)
  have sums: "sum_list (map finished_one ps) = int (length (filter (\<lambda>p. p = Finished) ps))" for ps
    by (induction ps) (auto simp: finished_one_def)
  then have fin: "finished_count ?b = int (length (filter (\<lambda>p. p = Finished) ?ps))"
    by (simp add: finished_count_def)
  have "{i. i < length ?ps \<and> ?ps ! i \<noteq> Waiting} \<subseteq> {..<length (sm_granted (ba_sem ?b))}"
    using ok by (auto simp: permits_ok_def)
  then have "length (filter (\<lambda>p. p \<noteq> Waiting) ?ps) \<le> length (sm_granted (ba_sem ?b))"
    using card_mono [of "{..<length (sm_granted (ba_sem ?b))}"] by (auto simp: length_filter_conv_card)
  moreover have "length (filter (\<lambda>p. p \<noteq> Waiting) ?ps) =
      length (filter (\<lambda>p. p = Finished) ?ps) + length (filter (\<lambda>p. p \<notin> {Waiting, Finished}) ?ps)"
    using length_filter_split [of "\<lambda>p. p \<noteq> Waiting" ?ps "\<lambda>p. p = Finished"]
    by (simp add: conj_commute cong: conj_cong)
  ultimately show ?thesis
    using ok fin by (auto simp: permits_ok_def sem_total_def)
qed

text \<open>
  C37: a batch that ran to its end without a SIGTERM and without a failed append of its output
  accounts for every task of its input: the task is in the completed or the failed set, from the
  checkpoint it resumed or from a run of its own.
\<close>
theorem batch_accounts:
  assumes "set (ba_phase (batch_after n cp ts evs)) \<subseteq> {Finished}"
    and "\<not> ba_stopping (batch_after n cp ts evs)" "ba_broken (batch_after n cp ts evs) = None"
    and "t \<in> set ts"
  shows "bt_id t \<in> set (ba_completed (batch_after n cp ts evs)) \<union> set (ba_failed (batch_after n cp ts evs))"
proof (cases "t \<in> set (pending_tasks cp ts)")
  case False
  then show ?thesis
    using batch_after_keeps [of cp ts n evs] assms(4)
    by (auto simp: batch_keeps_def pending_tasks_def cp_within_def)
next
  case True
  let ?b = "batch_after n cp ts evs"
  have k: "ba_tasks ?b = pending_tasks cp ts" "permits_ok n ?b" "books_ok ?b"
    using batch_after_keeps [of cp ts n evs] batch_after_ok [of n cp ts evs]
    by (simp_all add: batch_keeps_def batch_ok_def)
  then obtain i where i: "i < length (ba_phase ?b)" "ba_tasks ?b ! i = t"
    using True by (auto simp: permits_ok_def in_set_conv_nth)
  then have "phase_books ?b i Finished"
    using assms(1) k(3) by (metis books_ok_def nth_mem singletonD subsetD)
  then show ?thesis using assms(2,3) i(2) by (auto simp: counted_def)
qed

definition demo_tasks :: "batch_task list" where
  "demo_tasks = [\<lparr>bt_id = ''t1'', bt_prompt = ''one'', bt_personality = None\<rparr>,
     \<lparr>bt_id = ''t2'', bt_prompt = ''two'', bt_personality = None\<rparr>]"

text \<open>Both tasks run to their end; the second save lands before the first.\<close>

definition demo_batch :: "batch_event list" where
  "demo_batch = [Wake 0, Wake 1, WriteDone None, WriteDone None, Arrive 0 (TextDelta ''hi''),
     StreamEnds 0, StreamEnds 1, WriteDone None, WriteDone None, SaveDone 1 True, SaveDone 0 True]"

theorem batch_accounts_witness:
  "''t1'' \<in> set (ba_completed (batch_after 2 ([], []) demo_tasks demo_batch))
     \<union> set (ba_failed (batch_after 2 ([], []) demo_tasks demo_batch))"
  using batch_accounts [of 2 "([], [])" demo_tasks demo_batch "demo_tasks ! 0"]
  by code_simp

text \<open>
  no checkpoint, on disk or on its way there, lists a task that has not ended with that
  outcome; so a resumed batch never skips a task that was not finished.
\<close>
theorem batch_checkpoint_sound:
  "set (fst (ba_file (batch_after n cp ts evs))) \<subseteq> set (ba_completed (batch_after n cp ts evs))
   \<and> set (snd (ba_file (batch_after n cp ts evs))) \<subseteq> set (ba_failed (batch_after n cp ts evs))"
  using batch_after_ok [of n cp ts evs] by (simp add: batch_ok_def books_ok_def cp_within_def)

text \<open>
  the converse fails under concurrency. Two saves in flight may land in either order, and the
  older snapshot then stays on disk: a batch whose every task completed and whose every save
  succeeded can leave a checkpoint that lacks a completed task, which a resumed run repeats.
\<close>
theorem batch_checkpoint_race:
  "\<exists>evs. (let b = batch_after 2 ([], []) demo_tasks evs
     in set (ba_phase b) = {Finished} \<and> \<not> ba_stopping b \<and> ba_broken b = None
        \<and> (\<forall>i. SaveDone i False \<notin> set evs)
        \<and> ''t2'' \<in> set (ba_completed b)
        \<and> ''t2'' \<in> bt_id ` set (pending_tasks (ba_file b) demo_tasks))"
proof (rule exI [of _ demo_batch])
  have "\<forall>i. SaveDone i False \<notin> set demo_batch" by (simp add: demo_batch_def)
  moreover have "set (ba_phase (batch_after 2 ([], []) demo_tasks demo_batch)) = {Finished}"
    "\<not> ba_stopping (batch_after 2 ([], []) demo_tasks demo_batch)"
    "ba_broken (batch_after 2 ([], []) demo_tasks demo_batch) = None"
    "''t2'' \<in> set (ba_completed (batch_after 2 ([], []) demo_tasks demo_batch))"
    "''t2'' \<in> bt_id ` set (pending_tasks (ba_file (batch_after 2 ([], []) demo_tasks demo_batch)) demo_tasks)"
    by code_simp+
  ultimately show "let b = batch_after 2 ([], []) demo_tasks demo_batch
     in set (ba_phase b) = {Finished} \<and> \<not> ba_stopping b \<and> ba_broken b = None
        \<and> (\<forall>i. SaveDone i False \<notin> set demo_batch)
        \<and> ''t2'' \<in> set (ba_completed b)
        \<and> ''t2'' \<in> bt_id ` set (pending_tasks (ba_file b) demo_tasks)"
    by (simp only: Let_def simp_thms)
qed

end
