(* ===== verification/Limiter.thy ===== *)
theory Limiter
  imports Prelude
begin

text \<open>
  The two gates in front of the agent-to-agent endpoint (packages/a2a/src/limiter.ts): the
  pre-authentication flood gate, keyed by remote address, and the per-peer limiter with its rate
  and its concurrency cap. Both rates are sliding windows over time stamps: the locale
  \<open>sliding_window\<close> states what such a gate does on one key and bounds what it admits in any window;
  \<open>exact_window\<close> adds that nothing else is refused. Clock readings are the times of the events; a
  \<open>Map\<close> is an association list in insertion order.
\<close>

section \<open>Sliding windows\<close>

text \<open>The \<open>while\<close> loops that shift expired stamps off the front.\<close>

definition evict :: "int \<Rightarrow> int list \<Rightarrow> int list" where
  "evict cutoff ts = dropWhile (\<lambda>t. t \<le> cutoff) ts"

text \<open>The stamps inside the window that ends at \<open>t\<close>.\<close>

definition in_window :: "int \<Rightarrow> int \<Rightarrow> int list \<Rightarrow> int list" where
  "in_window w t ts = filter (\<lambda>x. t - w < x \<and> x \<le> t) ts"

text \<open>The times at which a run of events was admitted, of those events \<open>mine\<close> picks.\<close>

fun admitted :: "('e \<Rightarrow> 's \<Rightarrow> bool \<times> 's) \<Rightarrow> ('e \<Rightarrow> bool) \<Rightarrow> ('e \<Rightarrow> int) \<Rightarrow> 'e list \<Rightarrow> 's \<Rightarrow> int list" where
  "admitted act mine clock [] s = []"
| "admitted act mine clock (e # es) s =
     (case act e s of
        (ok, s1) \<Rightarrow> (if ok \<and> mine e then [clock e] else []) @ admitted act mine clock es s1)"

definition state_after :: "('e \<Rightarrow> 's \<Rightarrow> bool \<times> 's) \<Rightarrow> 'e list \<Rightarrow> 's \<Rightarrow> 's" where
  "state_after act es s = fold (\<lambda>e s. snd (act e s)) es s"

text \<open>
  A gate is driven by events; \<open>mine\<close> picks those that ask for admission under one key, at the time
  \<open>clock\<close>. An admission is stamped, a refusal only drops the expired stamps. Other events leave the
  stamps of this key alone, except that a \<open>timed\<close> one may prune what has expired by its own clock.
\<close>

locale sliding_window =
  fixes act :: "'e \<Rightarrow> 's \<Rightarrow> bool \<times> 's"
    and mine timed :: "'e \<Rightarrow> bool"
    and clock :: "'e \<Rightarrow> int"
    and stamps :: "'s \<Rightarrow> int list"
    and window cap :: int
  assumes admit: "mine e \<Longrightarrow> act e s = (True, s') \<Longrightarrow>
      int (length (evict (clock e - window) (stamps s))) < cap
      \<and> stamps s' = evict (clock e - window) (stamps s) @ [clock e]"
    and refuse: "mine e \<Longrightarrow> act e s = (False, s') \<Longrightarrow> stamps s' = evict (clock e - window) (stamps s)"
    and mine_timed: "mine e \<Longrightarrow> timed e"
    and other: "\<not> mine e \<Longrightarrow> act e s = (ok, s') \<Longrightarrow>
      stamps s' = stamps s \<or> timed e \<and> (\<exists>c \<le> clock e - window. stamps s' = evict c (stamps s))"
begin

text \<open>
  The stamps are the latest admissions; those dropped are out of every window from \<open>now\<close> on.
\<close>

definition tracks :: "int list \<Rightarrow> int \<Rightarrow> 's \<Rightarrow> bool" where
  "tracks adm now s =
     (sorted adm \<and> (\<forall>x \<in> set adm. x \<le> now)
       \<and> (\<exists>old. adm = old @ stamps s \<and> (\<forall>x \<in> set old. x \<le> now - window))
       \<and> (\<forall>t. int (length (in_window window t adm)) \<le> max 0 cap))"

lemma evict_tracks:
  assumes "tracks adm now s" "now \<le> t"
  shows "\<exists>old. adm = old @ evict (t - window) (stamps s) \<and> (\<forall>x \<in> set old. x \<le> t - window)"
    and "in_window window t adm = evict (t - window) (stamps s)"
proof -
  obtain old where o: "adm = old @ stamps s" "\<forall>x \<in> set old. x \<le> now - window"
    and srt: "sorted adm" and le: "\<forall>x \<in> set adm. x \<le> now"
    using assms(1) by (auto simp: tracks_def)
  let ?P = "\<lambda>x. x \<le> t - window"
  have split: "adm = (old @ takeWhile ?P (stamps s)) @ evict (t - window) (stamps s)"
    using o(1) by (simp add: evict_def)
  moreover have small: "\<forall>x \<in> set (old @ takeWhile ?P (stamps s)). x \<le> t - window"
    using o(2) assms(2) by (auto dest: set_takeWhileD)
  ultimately show "\<exists>old. adm = old @ evict (t - window) (stamps s) \<and> (\<forall>x \<in> set old. x \<le> t - window)"
    by blast
  have big: "\<forall>x \<in> set (evict (t - window) (stamps s)). t - window < x"
  proof (cases "evict (t - window) (stamps s)")
    case (Cons y ys)
    then have "\<not> ?P y" unfolding evict_def by (metis dropWhile_eq_Cons_conv)
    moreover have "sorted (y # ys)" using srt split Cons by (metis sorted_append)
    ultimately show ?thesis using Cons by auto
  qed simp
  have "in_window window t adm = in_window window t (evict (t - window) (stamps s))"
    using small by (subst split) (auto simp: in_window_def filter_empty_conv not_less)
  also have "\<dots> = evict (t - window) (stamps s)"
    using big le split assms(2) by (auto simp: in_window_def intro!: filter_True) (metis Un_iff order_trans set_append)
  finally show "in_window window t adm = evict (t - window) (stamps s)" .
qed

lemma tracks_step:
  assumes "tracks adm now s" "mine e" "now \<le> clock e" "act e s = (ok, s')"
  shows "tracks (if ok then adm @ [clock e] else adm) (clock e) s'"
proof -
  let ?c = "clock e - window" and ?t = "clock e"
  have srt: "sorted adm" and le: "\<forall>x \<in> set adm. x \<le> ?t"
    and bd: "\<And>t. int (length (in_window window t adm)) \<le> max 0 cap"
    using assms(1,3) by (auto simp: tracks_def)
  obtain old where old: "adm = old @ evict ?c (stamps s)" "\<forall>x \<in> set old. x \<le> ?c"
    using evict_tracks(1) [OF assms(1,3)] by blast
  show ?thesis
  proof (cases ok)
    case False
    then have "stamps s' = evict ?c (stamps s)" using refuse [OF assms(2)] assms(4) by simp
    then show ?thesis using False srt le bd old by (auto simp: tracks_def)
  next
    case True
    then have adm: "int (length (evict ?c (stamps s))) < cap" "stamps s' = evict ?c (stamps s) @ [?t]"
      using admit [OF assms(2)] assms(4) by simp_all
    have "int (length (in_window window t (adm @ [?t]))) \<le> max 0 cap" for t
    proof (cases "t - window < ?t \<and> ?t \<le> t")
      case False
      then have "in_window window t (adm @ [?t]) = in_window window t adm"
        by (auto simp: in_window_def)
      then show ?thesis using bd by simp
    next
      case True
      then have "in_window window t old = []"
        using old(2) by (force simp: in_window_def filter_empty_conv)
      then have "length (in_window window t adm) \<le> length (evict ?c (stamps s))"
        using old(1) by (simp add: in_window_def)
      then show ?thesis using adm(1) True by (simp add: in_window_def)
    qed
    then show ?thesis
      using True srt le old adm(2) by (auto simp: tracks_def sorted_append)
  qed
qed

lemma tracks_other:
  assumes "tracks adm now s" "\<not> mine e" "act e s = (ok, s')" "timed e \<Longrightarrow> now \<le> clock e"
  shows "tracks adm (if timed e then clock e else now) s'"
proof (cases "stamps s' = stamps s")
  case True
  then show ?thesis using assms(1,4) by (force simp: tracks_def)
next
  case False
  then obtain c where c: "timed e" "c \<le> clock e - window" "stamps s' = evict c (stamps s)"
    using other [OF assms(2,3)] by blast
  obtain old where o: "adm = old @ stamps s" "\<forall>x \<in> set old. x \<le> now - window"
    using assms(1) by (auto simp: tracks_def)
  have "adm = (old @ takeWhile (\<lambda>x. x \<le> c) (stamps s)) @ stamps s'"
    using o(1) c(3) by (simp add: evict_def)
  moreover have "\<forall>x \<in> set (old @ takeWhile (\<lambda>x. x \<le> c) (stamps s)). x \<le> clock e - window"
    using o(2) c(1,2) assms(4) by (auto dest: set_takeWhileD)
  moreover have "sorted adm" "\<forall>x \<in> set adm. x \<le> clock e"
    "\<forall>t. int (length (in_window window t adm)) \<le> max 0 cap"
    using assms(1,4) c(1) by (auto simp: tracks_def)
  ultimately show ?thesis unfolding tracks_def using c(1) by auto
qed

lemma tracks_run:
  assumes "tracks adm now s" "sorted (now # map clock (filter timed es))"
  shows "\<exists>later. tracks (adm @ admitted act mine clock es s) later (state_after act es s)
     \<and> (\<forall>t. (\<forall>x \<in> set (now # map clock (filter timed es)). x \<le> t) \<longrightarrow> later \<le> t)"
  using assms
proof (induction es arbitrary: adm now s)
  case Nil
  then show ?case by (auto simp: state_after_def)
next
  case (Cons e es)
  obtain ok s1 where act: "act e s = (ok, s1)" by fastforce
  show ?case
  proof (cases "mine e")
    case True
    then have "tracks (if ok then adm @ [clock e] else adm) (clock e) s1"
      using tracks_step [OF Cons.prems(1) _ _ act] Cons.prems(2) mine_timed by simp
    from Cons.IH [OF this] show ?thesis
      using Cons.prems(2) True mine_timed [OF True] act by (auto simp: state_after_def)
  next
    case False
    have "tracks adm (if timed e then clock e else now) s1"
      using tracks_other [OF Cons.prems(1) False act] Cons.prems(2) by simp
    from Cons.IH [OF this] show ?thesis
      using Cons.prems(2) False act by (cases "timed e") (auto simp: state_after_def)
  qed
qed

lemma tracks_start: "stamps s = [] \<Longrightarrow> tracks [] now s"
  by (auto simp: tracks_def in_window_def)

text \<open>No window of any length \<open>window\<close> holds more than \<open>cap\<close> admissions.\<close>

lemma window_bound:
  assumes "stamps s = []" "sorted (map clock (filter timed es))"
  shows "int (length (in_window window t (admitted act mine clock es s))) \<le> max 0 cap"
proof -
  let ?now = "case filter timed es of [] \<Rightarrow> 0 | e # _ \<Rightarrow> clock e"
  have "sorted (?now # map clock (filter timed es))"
    using assms(2) by (cases "filter timed es") auto
  from tracks_run [OF tracks_start [OF assms(1)] this] show ?thesis
    by (auto simp: tracks_def)
qed

end

text \<open>A gate that refuses only for its rate.\<close>

locale exact_window = sliding_window +
  assumes refuse_full: "mine e \<Longrightarrow> act e s = (False, s') \<Longrightarrow>
      cap \<le> int (length (evict (clock e - window) (stamps s)))"
begin

lemma admits_iff:
  assumes "stamps s = []" "sorted (map clock (filter timed (es @ [e])))" "mine e"
  shows "fst (act e (state_after act es s)) \<longleftrightarrow>
     int (length (in_window window (clock e) (admitted act mine clock es s))) < cap"
proof -
  let ?now = "case filter timed es of [] \<Rightarrow> clock e | e # _ \<Rightarrow> clock e"
  have srt: "sorted (?now # map clock (filter timed es))"
    using assms(2) by (cases "filter timed es") (auto simp: sorted_append)
  obtain later where tr: "tracks (admitted act mine clock es s) later (state_after act es s)"
    and "\<forall>t. (\<forall>x \<in> set (?now # map clock (filter timed es)). x \<le> t) \<longrightarrow> later \<le> t"
    using tracks_run [OF tracks_start [OF assms(1)] srt] by auto
  moreover have "\<forall>x \<in> set (?now # map clock (filter timed es)). x \<le> clock e"
    using assms(2) mine_timed [OF assms(3)] by (cases "filter timed es") (auto simp: sorted_append)
  ultimately have "later \<le> clock e" by blast
  note win = evict_tracks(2) [OF tr this]
  obtain ok s' where act: "act e (state_after act es s) = (ok, s')" by fastforce
  show ?thesis
    using admit [OF assms(3), of "state_after act es s" s']
      refuse_full [OF assms(3), of "state_after act es s" s'] act win
    by (cases ok) auto
qed

end

section \<open>The pre-authentication gate\<close>

record preauth_opts =
  p_max :: int
  p_window :: int

definition preauth_defaults :: preauth_opts where
  "preauth_defaults = \<lparr>p_max = 20, p_window = 10000\<rparr>"

type_synonym preauth = "(string \<times> int list) list"

definition bucket_of :: "string \<Rightarrow> preauth \<Rightarrow> int list" where
  "bucket_of key m = (case map_of m key of None \<Rightarrow> [] | Some ts \<Rightarrow> ts)"

text \<open>\<open>check(key)\<close> at the time \<open>now\<close>; the array in the map is updated in place.\<close>

definition preauth_check :: "preauth_opts \<Rightarrow> string \<times> int \<Rightarrow> preauth \<Rightarrow> bool \<times> preauth" where
  "preauth_check L = (\<lambda>(key, now) m.
     (let ts = evict (now - p_window L) (bucket_of key m)
      in if int (length ts) \<ge> p_max L then (False, AList.update key ts m)
         else (True, AList.update key (ts @ [now]) m)))"

interpretation preauth: exact_window "preauth_check L" "\<lambda>e. fst e = key" "\<lambda>e. fst e = key" snd "bucket_of key"
    "p_window L" "p_max L" for L key
  by unfold_locales
     (auto simp: preauth_check_def bucket_of_def Let_def split: if_splits prod.splits option.splits)

section \<open>The per-peer limiter\<close>

record limiter_opts =
  o_concurrent :: int
  o_rate :: int
  o_window :: int

definition limiter_defaults :: limiter_opts where
  "limiter_defaults = \<lparr>o_concurrent = 4, o_rate = 30, o_window = 60000\<rparr>"

record peer_bucket =
  pb_recent :: "int list"
  pb_active :: int

text \<open>
  Besides the buckets, the leases handed out: each closes over its bucket, named by its key (a
  bucket is never removed), and its own \<open>released\<close> flag.
\<close>

record limiter =
  lm_buckets :: "(string \<times> peer_bucket) list"
  lm_leases :: "(string \<times> bool) list"

definition empty_limiter :: limiter where
  "empty_limiter = \<lparr>lm_buckets = [], lm_leases = []\<rparr>"

definition peer_key :: "string \<Rightarrow> string \<Rightarrow> string" where
  "peer_key personality fingerprint = personality @ '' '' @ fingerprint"

definition peer_bucket_of :: "string \<Rightarrow> limiter \<Rightarrow> peer_bucket" where
  "peer_bucket_of key l =
     (case map_of (lm_buckets l) key of
        None \<Rightarrow> \<lparr>pb_recent = [], pb_active = 0\<rparr>
      | Some b \<Rightarrow> b)"

definition put_bucket :: "string \<Rightarrow> peer_bucket \<Rightarrow> limiter \<Rightarrow> limiter" where
  "put_bucket key b l = l\<lparr>lm_buckets := AList.update key b (lm_buckets l)\<rparr>"

text \<open>\<open>acquire\<close>: the number of the lease granted, or \<open>None\<close> for \<open>null\<close>.\<close>

definition acquire :: "limiter_opts \<Rightarrow> string \<Rightarrow> int \<Rightarrow> limiter \<Rightarrow> nat option \<times> limiter" where
  "acquire L key now l =
     (let b = peer_bucket_of key l;
          b1 = b\<lparr>pb_recent := evict (now - o_window L) (pb_recent b)\<rparr>
      in if pb_active b1 \<ge> o_concurrent L then (None, put_bucket key b1 l)
         else if int (length (pb_recent b1)) \<ge> o_rate L then (None, put_bucket key b1 l)
         else (Some (length (lm_leases l)),
               (put_bucket key (b1\<lparr>pb_recent := pb_recent b1 @ [now], pb_active := pb_active b1 + 1\<rparr>) l)
                 \<lparr>lm_leases := lm_leases l @ [(key, False)]\<rparr>))"

definition release :: "nat \<Rightarrow> limiter \<Rightarrow> limiter" where
  "release i l =
     (if i < length (lm_leases l)
      then (case lm_leases l ! i of
              (key, released) \<Rightarrow>
                if released then l
                else let b = peer_bucket_of key l
                     in (put_bucket key (b\<lparr>pb_active := max 0 (pb_active b - 1)\<rparr>) l)
                          \<lparr>lm_leases := (lm_leases l)[i := (key, True)]\<rparr>)
      else l)"

datatype limiter_event = Acquire string string int | Release nat

fun limiter_act :: "limiter_opts \<Rightarrow> limiter_event \<Rightarrow> limiter \<Rightarrow> bool \<times> limiter" where
  "limiter_act L (Acquire personality fingerprint now) l =
     (case acquire L (peer_key personality fingerprint) now l of (lease, l') \<Rightarrow> (lease \<noteq> None, l'))"
| "limiter_act L (Release i) l = (True, release i l)"

fun acquires_under :: "string \<Rightarrow> limiter_event \<Rightarrow> bool" where
  "acquires_under key (Acquire p f now) = (peer_key p f = key)"
| "acquires_under key (Release i) = False"

fun acquired_at :: "limiter_event \<Rightarrow> int" where
  "acquired_at (Acquire p f now) = now"
| "acquired_at (Release i) = 0"

lemma bucket_put [simp]:
  "peer_bucket_of key (put_bucket k b l) = (if key = k then b else peer_bucket_of key l)"
  "peer_bucket_of key (l\<lparr>lm_leases := ls\<rparr>) = peer_bucket_of key l"
  "lm_leases (put_bucket k b l) = lm_leases l"
  by (simp_all add: peer_bucket_of_def put_bucket_def)

interpretation rate: sliding_window "limiter_act L" "acquires_under key" "acquires_under key" acquired_at
    "\<lambda>l. pb_recent (peer_bucket_of key l)" "o_window L" "o_rate L" for L key
proof (unfold_locales, goal_cases)
  case (1 e s s')
  then show ?case by (cases e) (auto simp: acquire_def Let_def split: if_splits)
next
  case (2 e s s')
  then show ?case by (cases e) (auto simp: acquire_def Let_def split: if_splits)
next
  case (4 e s ok s')
  then show ?case
    by (cases e) (auto simp: acquire_def release_def Let_def split: if_splits prod.splits)
qed simp

text \<open>The count of a bucket is that of its outstanding leases, and within the cap.\<close>

definition outstanding :: "string \<Rightarrow> limiter \<Rightarrow> int" where
  "outstanding key l = int (length (filter (\<lambda>x. x = (key, False)) (lm_leases l)))"

definition leases_ok :: "limiter_opts \<Rightarrow> limiter \<Rightarrow> bool" where
  "leases_ok L l =
     (\<forall>key. pb_active (peer_bucket_of key l) = outstanding key l
        \<and> outstanding key l \<le> max 0 (o_concurrent L))"

lemma filter_update_count:
  "i < length xs \<Longrightarrow> xs ! i = x \<Longrightarrow> y \<noteq> x \<Longrightarrow>
     length (filter (\<lambda>z. z = x) xs) = Suc (length (filter (\<lambda>z. z = x) (xs[i := y])))"
  by (induction xs arbitrary: i) (auto split: nat.splits)

lemma filter_update_other:
  "i < length xs \<Longrightarrow> xs ! i \<noteq> x \<Longrightarrow> y \<noteq> x \<Longrightarrow>
     length (filter (\<lambda>z. z = x) (xs[i := y])) = length (filter (\<lambda>z. z = x) xs)"
  by (induction xs arbitrary: i) (auto split: nat.splits)

lemma leases_step: "leases_ok L l \<Longrightarrow> leases_ok L (snd (limiter_act L e l))"
proof (cases e)
  case (Acquire p f now)
  assume "leases_ok L l"
  then show ?thesis
    using Acquire by (auto simp: leases_ok_def outstanding_def acquire_def Let_def)
next
  case (Release i)
  assume ok: "leases_ok L l"
  show ?thesis
  proof (cases "i < length (lm_leases l) \<and> \<not> snd (lm_leases l ! i)")
    case False
    then show ?thesis using ok Release by (auto simp: release_def split: prod.splits)
  next
    case True
    then obtain key where i: "i < length (lm_leases l)" "lm_leases l ! i = (key, False)"
      by (metis prod.collapse)
    let ?l = "release i l"
    have "outstanding key l = outstanding key ?l + 1"
      using i filter_update_count [of i "lm_leases l" "(key, False)" "(key, True)"]
      by (simp add: release_def outstanding_def Let_def)
    moreover have "outstanding k ?l = outstanding k l" if "k \<noteq> key" for k
      using i that filter_update_other [of i "lm_leases l" "(k, False)" "(key, True)"]
      by (simp add: release_def outstanding_def Let_def)
    moreover have "pb_active (peer_bucket_of k ?l) =
        (if k = key then max 0 (pb_active (peer_bucket_of k l) - 1) else pb_active (peer_bucket_of k l))" for k
      using i by (simp add: release_def Let_def)
    ultimately show ?thesis
      using ok Release by (auto simp: leases_ok_def) (smt (verit) outstanding_def of_nat_0_le_iff)+
  qed
qed

lemma leases_run: "leases_ok L l \<Longrightarrow> leases_ok L (state_after (limiter_act L) es l)"
  unfolding state_after_def by (induction es arbitrary: l) (simp_all add: leases_step)

lemma leases_empty: "leases_ok L empty_limiter"
  by (simp add: leases_ok_def empty_limiter_def outstanding_def peer_bucket_of_def)

section \<open>Properties\<close>

text \<open>
  under the per-peer limiter a peer never holds more than \<open>maxConcurrentPerPeer\<close> unreleased
  leases, whatever is acquired and released (twice, or not at all), and no window of \<open>windowMs\<close>
  holds more than \<open>ratePerWindow\<close> of its admissions.
\<close>
theorem limiter_caps:
  assumes "sorted (map acquired_at (filter (acquires_under key) es))"
  shows "outstanding key (state_after (limiter_act L) es empty_limiter) \<le> max 0 (o_concurrent L)
     \<and> int (length (in_window (o_window L) t
          (admitted (limiter_act L) (acquires_under key) acquired_at es empty_limiter))) \<le> max 0 (o_rate L)"
proof
  show "outstanding key (state_after (limiter_act L) es empty_limiter) \<le> max 0 (o_concurrent L)"
    using leases_run [OF leases_empty, of L es] by (simp add: leases_ok_def)
  show "int (length (in_window (o_window L) t
          (admitted (limiter_act L) (acquires_under key) acquired_at es empty_limiter))) \<le> max 0 (o_rate L)"
    by (rule rate.window_bound [OF _ assms])
       (simp add: empty_limiter_def peer_bucket_of_def)
qed

theorem limiter_caps_witness:
  "outstanding ''p f'' (state_after (limiter_act limiter_defaults)
     [Acquire ''p'' ''f'' 5, Acquire ''p'' ''f'' 7, Release 0] empty_limiter) \<le> 4"
  using limiter_caps [of "''p f''" "[Acquire ''p'' ''f'' 5, Acquire ''p'' ''f'' 7, Release 0]"
      limiter_defaults 7]
  by (simp add: limiter_defaults_def peer_key_def)

text \<open>
  while its clock does not run backwards, the pre-authentication gate lets a request through
  exactly when fewer than \<open>maxPerWindow\<close> requests of that key were let through in the window before
  it; refused requests and other keys do not count.
\<close>
theorem preauth_exact:
  assumes "sorted (map snd (filter (\<lambda>e. fst e = key) (es @ [(key, now)])))"
  shows "fst (preauth_check L (key, now) (state_after (preauth_check L) es [])) \<longleftrightarrow>
     int (length (in_window (p_window L) now
        (admitted (preauth_check L) (\<lambda>e. fst e = key) snd es []))) < p_max L"
  using preauth.admits_iff [of key "[]" es "(key, now)" L] assms by (simp add: bucket_of_def)

theorem preauth_exact_witness:
  "\<not> fst (preauth_check \<lparr>p_max = 1, p_window = 10\<rparr> (''ip'', 5)
      (state_after (preauth_check \<lparr>p_max = 1, p_window = 10\<rparr>) [(''ip'', 3), (''ot'', 4)] []))"
proof -
  have "int (length (in_window 10 5 (admitted (preauth_check \<lparr>p_max = 1, p_window = 10\<rparr>)
      (\<lambda>e. fst e = ''ip'') snd [(''ip'', 3), (''ot'', 4)] []))) = 1" by code_simp
  then show ?thesis
    using preauth_exact [of "''ip''" "[(''ip'', 3), (''ot'', 4)]" 5 "\<lparr>p_max = 1, p_window = 10\<rparr>"]
    by simp
qed

end
