(* ===== verification/Breaker.thy ===== *)
theory Breaker
  imports Prelude
begin

text \<open>
  The circuit breaker of the decision provider (extensions/decision-typesafe/src/breaker.ts), and a
  call through it as provider.ts makes it. The clock is the argument \<open>now\<close> of each method; the
  observer \<open>onEvent\<close>, whose failures are swallowed, is the list of events emitted. The three-state
  machine drawn at the head of the file is the specification the fields refine.
\<close>

datatype decision_code =
    Auth | Timeout | Unavailable | Overloaded | RateLimited
  | Invalid | Malformed | TooLarge | Aborted | BreakerOpen

datatype breaker_event = OpenedOn decision_code | Closed

datatype outcome = Good | Bad decision_code

datatype admission = Pass | Probe | Reject

record breaker =
  br_failures :: nat
  br_open_until :: "int option"
  br_probing :: bool

definition new_breaker :: breaker where
  "new_breaker = \<lparr>br_failures = 0, br_open_until = None, br_probing = False\<rparr>"

definition health_code :: "decision_code \<Rightarrow> bool" where
  "health_code c = (c \<in> {Auth, Timeout, Unavailable, Overloaded, RateLimited})"

definition failure_threshold :: nat where
  "failure_threshold = 3"

definition cooldown_ms :: int where
  "cooldown_ms = 60000"

definition admit :: "int \<Rightarrow> breaker \<Rightarrow> admission \<times> breaker" where
  "admit now b =
     (case br_open_until b of
        None \<Rightarrow> (Pass, b)
      | Some until \<Rightarrow>
          if now < until \<or> br_probing b then (Reject, b)
          else (Probe, b\<lparr>br_probing := True\<rparr>))"

definition counts :: "decision_code \<Rightarrow> bool \<Rightarrow> bool" where
  "counts c timeout_counts = (health_code c \<and> (c \<noteq> Timeout \<or> timeout_counts))"

definition record_outcome ::
  "int \<Rightarrow> outcome \<Rightarrow> bool \<Rightarrow> bool \<Rightarrow> breaker \<Rightarrow> breaker_event list \<times> breaker" where
  "record_outcome now out probe timeout_counts b0 =
     (let b = (if probe then b0\<lparr>br_probing := False\<rparr> else b0)
      in case out of
           Good \<Rightarrow>
             (let b1 = b\<lparr>br_failures := 0\<rparr>
              in if br_open_until b1 \<noteq> None
                 then ([Closed], b1\<lparr>br_open_until := None, br_probing := False\<rparr>)
                 else ([], b1))
         | Bad c \<Rightarrow>
             if \<not> counts c timeout_counts then ([], b)
             else if br_open_until b \<noteq> None then
               (if probe then ([OpenedOn c], b\<lparr>br_open_until := Some (now + cooldown_ms)\<rparr>)
                else ([], b))
             else
               (let b1 = b\<lparr>br_failures := br_failures b + 1\<rparr>
                in if br_failures b1 \<ge> failure_threshold
                   then ([OpenedOn c], b1\<lparr>br_failures := 0, br_open_until := Some (now + cooldown_ms)\<rparr>)
                   else ([], b1)))"

text \<open>
  \<open>decide\<close> of provider.ts, once the request is valid: admission, the transport's outcome, its
  recording. A rejected call sends nothing and records nothing.
\<close>

record decision_call =
  dc_start :: int
  dc_end :: int
  dc_sent :: outcome
  dc_timeout_counts :: bool

definition decide :: "decision_call \<Rightarrow> breaker \<Rightarrow> (outcome \<times> breaker_event list) \<times> breaker" where
  "decide c b =
     (case admit (dc_start c) b of
        (Reject, b1) \<Rightarrow> ((Bad BreakerOpen, []), b1)
      | (a, b1) \<Rightarrow>
          (case record_outcome (dc_end c) (dc_sent c) (a = Probe) (dc_timeout_counts c) b1 of
             (evs, b2) \<Rightarrow> ((dc_sent c, evs), b2)))"

section \<open>The specification\<close>

text \<open>
  Closed with a count of consecutive health failures, or open until a time; open past its time is
  the half-open state, in which the next call is the probe.
\<close>

datatype mode = CLOSED nat | OPEN int

fun spec_call :: "decision_call \<Rightarrow> mode \<Rightarrow> (outcome \<times> breaker_event list) \<times> mode" where
  "spec_call c (CLOSED n) =
     (case dc_sent c of
        Good \<Rightarrow> ((Good, []), CLOSED 0)
      | Bad x \<Rightarrow>
          if \<not> counts x (dc_timeout_counts c) then ((Bad x, []), CLOSED n)
          else if n + 1 = 3 then ((Bad x, [OpenedOn x]), OPEN (dc_end c + 60000))
          else ((Bad x, []), CLOSED (n + 1)))"
| "spec_call c (OPEN t) =
     (if dc_start c < t then ((Bad BreakerOpen, []), OPEN t)
      else (case dc_sent c of
              Good \<Rightarrow> ((Good, [Closed]), CLOSED 0)
            | Bad x \<Rightarrow>
                if counts x (dc_timeout_counts c)
                then ((Bad x, [OpenedOn x]), OPEN (dc_end c + 60000))
                else ((Bad x, []), OPEN t)))"

definition mode_of :: "breaker \<Rightarrow> mode" where
  "mode_of b = (case br_open_until b of None \<Rightarrow> CLOSED (br_failures b) | Some t \<Rightarrow> OPEN t)"

text \<open>Between calls: no probe under way, the count below its threshold, and zero while open.\<close>

definition breaker_ok :: "breaker \<Rightarrow> bool" where
  "breaker_ok b =
     (\<not> br_probing b \<and> br_failures b < 3 \<and> (br_open_until b \<noteq> None \<longrightarrow> br_failures b = 0))"

lemma decide_step:
  assumes "breaker_ok b"
  shows "breaker_ok (snd (decide c b))
     \<and> map_prod id mode_of (decide c b) = spec_call c (mode_of b)"
proof -
  have f: "br_failures b \<noteq> 2 \<longleftrightarrow> br_failures b < 2"
    using assms by (auto simp: breaker_ok_def)
  show ?thesis
  proof (cases "br_open_until b")
    case None
    with assms f show ?thesis
      by (cases "dc_sent c")
        (auto simp: decide_def admit_def record_outcome_def Let_def mode_of_def breaker_ok_def
          failure_threshold_def cooldown_ms_def)
  next
    case (Some t)
    with assms show ?thesis
      by (cases "dc_sent c"; cases "dc_start c < t")
        (auto simp: decide_def admit_def record_outcome_def Let_def mode_of_def breaker_ok_def
          failure_threshold_def cooldown_ms_def)
  qed
qed

fun run_calls :: "('c \<Rightarrow> 's \<Rightarrow> 'r \<times> 's) \<Rightarrow> 'c list \<Rightarrow> 's \<Rightarrow> 'r list \<times> 's" where
  "run_calls f [] s = ([], s)"
| "run_calls f (c # cs) s =
     (case f c s of (r, s1) \<Rightarrow> case run_calls f cs s1 of (rs, s2) \<Rightarrow> (r # rs, s2))"

section \<open>Properties\<close>

text \<open>
  C38: calls made one after another through the breaker return what the drawn state machine returns,
  emit its events and leave its state: three counted failures in a row open it for sixty seconds,
  an open breaker answers \<open>breaker_open\<close> and sends nothing, the first call after that is a probe
  whose success closes it and whose counted failure opens it again.
\<close>
theorem breaker_refines:
  "map_prod id mode_of (run_calls decide cs new_breaker) = run_calls spec_call cs (CLOSED 0)"
proof -
  have "map_prod id mode_of (run_calls decide cs b) = run_calls spec_call cs (mode_of b)"
    if "breaker_ok b" for b
    using that
  proof (induction cs arbitrary: b)
    case (Cons c cs)
    obtain r b1 where d: "decide c b = (r, b1)" by fastforce
    then have "breaker_ok b1" "spec_call c (mode_of b) = (r, mode_of b1)"
      using decide_step [OF Cons.prems, of c] by auto
    with Cons.IH [of b1] d show ?case by (auto split: prod.splits)
  qed simp
  from this [of new_breaker] show ?thesis
    by (simp add: breaker_ok_def new_breaker_def mode_of_def)
qed

text \<open>
  whatever calls are in flight, an open breaker whose time has not come admits none, one that
  is probing admits none, and only the probe or a success changes the time it is open until.
\<close>
theorem breaker_holds:
  assumes "br_open_until b = Some t"
  shows "(now < t \<or> br_probing b \<longrightarrow> fst (admit now b) = Reject)
     \<and> (t \<le> now \<and> \<not> br_probing b \<longrightarrow>
          fst (admit now b) = Probe \<and> fst (admit later (snd (admit now b))) = Reject)
     \<and> (record_outcome now (Bad c) False tc b = ([], b))"
  using assms by (auto simp: admit_def record_outcome_def)

theorem breaker_holds_witness:
  "fst (admit 0 \<lparr>br_failures = 0, br_open_until = Some 5, br_probing = False\<rparr>) = Reject"
  using breaker_holds [of "\<lparr>br_failures = 0, br_open_until = Some 5, br_probing = False\<rparr>" 5 0 0 Auth True]
  by simp

end
