(* ===== verification/PauseClock.thy ===== *)
theory PauseClock
  imports Complex_Main Prelude
begin

text \<open>
  The pause detector (extensions/pause-clock/src/index.ts): a watchdog that reads a jump of the wall
  clock as a pause, an explicit report of one, and two ways to deliver it, handlers and a
  consuming read. The wall clock is the argument \<open>now\<close>; a duration is a rational, and one that is
  not finite is \<open>None\<close>. A handler is named by a number; what it does with the duration, and a throw,
  stay outside: \<open>pl_log\<close> records the calls. Handlers that call back into the detector are not
  modelled.
\<close>

record pause_opts =
  po_interval :: rat
  po_threshold :: rat

definition pause_defaults :: pause_opts where
  "pause_defaults = \<lparr>po_interval = 1000, po_threshold = 60000\<rparr>"

record lifecycle =
  pl_armed :: bool
  pl_expected :: rat
  pl_pending :: rat
  pl_handlers :: "nat list"
  pl_log :: "(nat \<times> rat) list"

definition new_lifecycle :: lifecycle where
  "new_lifecycle = \<lparr>pl_armed = False, pl_expected = 0, pl_pending = 0, pl_handlers = [], pl_log = []\<rparr>"

definition start_watch :: "rat \<Rightarrow> lifecycle \<Rightarrow> lifecycle" where
  "start_watch now p = (if pl_armed p then p else p\<lparr>pl_expected := now, pl_armed := True\<rparr>)"

definition stop_watch :: "lifecycle \<Rightarrow> lifecycle" where
  "stop_watch p = (if pl_armed p then p\<lparr>pl_armed := False\<rparr> else p)"

definition dispatch :: "lifecycle \<Rightarrow> lifecycle" where
  "dispatch p =
     (if pl_handlers p = [] \<or> pl_pending p \<le> 0 then p
      else p\<lparr>pl_pending := 0, pl_log := pl_log p @ map (\<lambda>h. (h, pl_pending p)) (pl_handlers p)\<rparr>)"

definition notify_resume :: "rat \<Rightarrow> rat option \<Rightarrow> lifecycle \<Rightarrow> lifecycle" where
  "notify_resume now dur p =
     (case dur of
        None \<Rightarrow> p
      | Some d \<Rightarrow>
          if d \<le> 0 then p
          else dispatch (p\<lparr>pl_pending := pl_pending p + d, pl_expected := now\<rparr>))"

definition on_resume :: "nat \<Rightarrow> lifecycle \<Rightarrow> lifecycle" where
  "on_resume h p = p\<lparr>pl_handlers := pl_handlers p @ [h]\<rparr>"

text \<open>\<open>splice\<close> of the first occurrence.\<close>

definition unsubscribe :: "nat \<Rightarrow> lifecycle \<Rightarrow> lifecycle" where
  "unsubscribe h p = p\<lparr>pl_handlers := remove1 h (pl_handlers p)\<rparr>"

definition read_pause_offset :: "lifecycle \<Rightarrow> rat option \<times> lifecycle" where
  "read_pause_offset p =
     (if pl_pending p \<le> 0 then (None, p) else (Some (pl_pending p), p\<lparr>pl_pending := 0\<rparr>))"

definition tick_drift :: "pause_opts \<Rightarrow> rat \<Rightarrow> lifecycle \<Rightarrow> rat" where
  "tick_drift L now p = now - pl_expected p - po_interval L"

text \<open>The timer fires only while armed.\<close>

definition tick :: "pause_opts \<Rightarrow> rat \<Rightarrow> lifecycle \<Rightarrow> lifecycle" where
  "tick L now p =
     (if \<not> pl_armed p then p
      else let drift = tick_drift L now p; p1 = p\<lparr>pl_expected := now\<rparr>
           in if drift \<le> po_threshold L then p1
              else dispatch (p1\<lparr>pl_pending := pl_pending p1 + drift\<rparr>))"

datatype pause_op =
    OpStart rat | OpStop | OpTick rat | OpNotify rat "rat option" | OpOn nat | OpOff nat | OpRead

fun pause_do :: "pause_opts \<Rightarrow> pause_op \<Rightarrow> lifecycle \<Rightarrow> lifecycle" where
  "pause_do L (OpStart now) p = start_watch now p"
| "pause_do L OpStop p = stop_watch p"
| "pause_do L (OpTick now) p = tick L now p"
| "pause_do L (OpNotify now d) p = notify_resume now d p"
| "pause_do L (OpOn h) p = on_resume h p"
| "pause_do L (OpOff h) p = unsubscribe h p"
| "pause_do L OpRead p = snd (read_pause_offset p)"

text \<open>What an operation detects, hands to the handlers, and hands to a reader.\<close>

fun detects :: "pause_opts \<Rightarrow> pause_op \<Rightarrow> lifecycle \<Rightarrow> rat" where
  "detects L (OpTick now) p =
     (if pl_armed p \<and> po_threshold L < tick_drift L now p then tick_drift L now p else 0)"
| "detects L (OpNotify now (Some d)) p = max 0 d"
| "detects L _ p = 0"

definition pushed :: "lifecycle \<Rightarrow> lifecycle \<Rightarrow> rat" where
  "pushed p p' =
     (case drop (length (pl_log p)) (pl_log p') of [] \<Rightarrow> 0 | (h, d) # _ \<Rightarrow> d)"

fun pulled :: "pause_op \<Rightarrow> lifecycle \<Rightarrow> rat" where
  "pulled OpRead p = (case fst (read_pause_offset p) of None \<Rightarrow> 0 | Some d \<Rightarrow> d)"
| "pulled _ p = 0"

fun totals :: "pause_opts \<Rightarrow> pause_op list \<Rightarrow> lifecycle \<Rightarrow> (rat \<times> rat \<times> rat) \<times> lifecycle" where
  "totals L [] p = ((0, 0, 0), p)"
| "totals L (e # es) p =
     (let p1 = pause_do L e p
      in case totals L es p1 of
           ((d, h, r), p2) \<Rightarrow> ((detects L e p + d, pushed p p1 + h, pulled e p + r), p2))"

definition pause_ok :: "lifecycle \<Rightarrow> bool" where
  "pause_ok p = (0 \<le> pl_pending p)"

lemma dispatch_split:
  "0 \<le> pl_pending p \<Longrightarrow> pl_log q = pl_log p \<Longrightarrow>
     pause_ok (dispatch p) \<and> pushed q (dispatch p) + pl_pending (dispatch p) = pl_pending p"
  by (cases "pl_handlers p") (auto simp: dispatch_def pushed_def pause_ok_def)

lemma pause_step:
  assumes "pause_ok p" "0 \<le> po_threshold L"
  shows "pause_ok (pause_do L e p) \<and>
     detects L e p + pl_pending p =
       pushed p (pause_do L e p) + pulled e p + pl_pending (pause_do L e p)"
proof (cases e)
  case (OpTick now)
  show ?thesis
  proof (cases "pl_armed p \<and> po_threshold L < tick_drift L now p")
    case True
    let ?q = "p\<lparr>pl_expected := now, pl_pending := pl_pending p + tick_drift L now p\<rparr>"
    have "pause_ok (dispatch ?q) \<and> pushed p (dispatch ?q) + pl_pending (dispatch ?q) = pl_pending ?q"
      using assms True by (intro dispatch_split) (simp_all add: pause_ok_def)
    then show ?thesis using True OpTick by (simp add: tick_def Let_def)
  next
    case False
    then show ?thesis using assms OpTick by (auto simp: tick_def Let_def pause_ok_def pushed_def)
  qed
next
  case (OpNotify now dur)
  show ?thesis
  proof (cases "\<exists>d. dur = Some d \<and> 0 < d")
    case True
    then obtain d where d: "dur = Some d" "0 < d" by blast
    let ?q = "p\<lparr>pl_pending := pl_pending p + d, pl_expected := now\<rparr>"
    have "pause_ok (dispatch ?q) \<and> pushed p (dispatch ?q) + pl_pending (dispatch ?q) = pl_pending ?q"
      using assms d by (intro dispatch_split) (simp_all add: pause_ok_def)
    then show ?thesis using d OpNotify by (simp add: notify_resume_def)
  next
    case False
    then show ?thesis
      using assms OpNotify by (cases dur) (auto simp: notify_resume_def pause_ok_def pushed_def)
  qed
qed (use assms in \<open>auto simp: start_watch_def stop_watch_def on_resume_def unsubscribe_def
  read_pause_offset_def pause_ok_def pushed_def\<close>)

text \<open>
  the time detected by the watchdog or reported to \<open>notifyResume\<close> is delivered exactly once:
  over any run it is the sum of what was handed to the handlers, what was read, and what is still
  pending; and with a handler registered nothing stays pending after a detection.
\<close>
theorem pause_conserved:
  assumes "0 \<le> po_threshold L"
  shows "(case totals L es new_lifecycle of
      ((detected, handed, taken), p) \<Rightarrow> detected = handed + taken + pl_pending p \<and> 0 \<le> pl_pending p)"
proof -
  have "case totals L es p of ((d, h, r), p2) \<Rightarrow> d + pl_pending p = h + r + pl_pending p2 \<and> pause_ok p2"
    if "pause_ok p" for p
    using that
  proof (induction es arbitrary: p)
    case (Cons e es)
    from pause_step [OF Cons.prems assms, of e] Cons.IH [of "pause_do L e p"] show ?case
      by (auto simp: Let_def split: prod.splits)
  qed simp
  from this [of new_lifecycle] show ?thesis
    by (auto simp: new_lifecycle_def pause_ok_def split: prod.splits)
qed

theorem pause_conserved_witness:
  "fst (fst (totals pause_defaults [OpStart 0, OpTick 1000, OpOn 7, OpTick 100000] new_lifecycle)) =
     fst (snd (fst (totals pause_defaults [OpStart 0, OpTick 1000, OpOn 7, OpTick 100000] new_lifecycle)))"
proof -
  let ?t = "totals pause_defaults [OpStart 0, OpTick 1000, OpOn 7, OpTick 100000] new_lifecycle"
  have "pl_pending (snd ?t) = 0" "snd (snd (fst ?t)) = 0" by code_simp+
  then show ?thesis
    using pause_conserved [of pause_defaults "[OpStart 0, OpTick 1000, OpOn 7, OpTick 100000]"]
    by (simp add: pause_defaults_def split: prod.splits)
qed

end
