(* ===== verification/Hooks.thy ===== *)
theory Hooks
  imports Prelude
begin

text \<open>
  The hook registry (packages/core/src/hook-registry.ts). A registered handler is an object: it has an
  identity, numbered here in order of registration. What a handler answers to the payload of a
  firing is an argument \<open>answer\<close>, by that identity. A firing works on a filtered copy of the
  handler list, so registrations made while it awaits do not concern it.
\<close>

datatype failure_policy = FailOpen | FailClosed

record hook_entry =
  he_id :: nat
  he_plugin :: "string option"
  he_policy :: failure_policy

type_synonym handler_map = "(string \<times> hook_entry list) list"

record hooks =
  hk_void :: handler_map
  hk_modifying :: handler_map
  hk_claiming :: handler_map
  hk_next :: nat

definition new_hooks :: hooks where
  "new_hooks = \<lparr>hk_void = [], hk_modifying = [], hk_claiming = [], hk_next = 0\<rparr>"

definition handlers_of :: "string \<Rightarrow> handler_map \<Rightarrow> hook_entry list" where
  "handlers_of name m = (case map_of m name of None \<Rightarrow> [] | Some hs \<Rightarrow> hs)"

text \<open>An absent or empty plugin id marks a built-in handler.\<close>

definition is_allowed :: "string list option \<Rightarrow> hook_entry \<Rightarrow> bool" where
  "is_allowed allowed h =
     (case he_plugin h of
        None \<Rightarrow> True
      | Some p \<Rightarrow> if p = [] then True else (case allowed of None \<Rightarrow> False | Some ps \<Rightarrow> p \<in> set ps))"

section \<open>Registration\<close>

definition add_handler :: "string \<Rightarrow> hook_entry \<Rightarrow> handler_map \<Rightarrow> handler_map" where
  "add_handler name h m = AList.update name (handlers_of name m @ [h]) m"

definition register_void ::
  "string \<Rightarrow> string option \<Rightarrow> failure_policy option \<Rightarrow> hooks \<Rightarrow> nat \<times> hooks" where
  "register_void name plugin policy R =
     (hk_next R,
      R\<lparr>hk_next := Suc (hk_next R),
        hk_void := add_handler name \<lparr>he_id = hk_next R, he_plugin = plugin,
          he_policy = (case policy of None \<Rightarrow> FailOpen | Some p \<Rightarrow> p)\<rparr> (hk_void R)\<rparr>)"

definition register_modifying :: "string \<Rightarrow> string option \<Rightarrow> hooks \<Rightarrow> nat \<times> hooks" where
  "register_modifying name plugin R =
     (hk_next R,
      R\<lparr>hk_next := Suc (hk_next R),
        hk_modifying := add_handler name
          \<lparr>he_id = hk_next R, he_plugin = plugin, he_policy = FailOpen\<rparr> (hk_modifying R)\<rparr>)"

definition register_claiming :: "string \<Rightarrow> string option \<Rightarrow> hooks \<Rightarrow> nat \<times> hooks" where
  "register_claiming name plugin R =
     (hk_next R,
      R\<lparr>hk_next := Suc (hk_next R),
        hk_claiming := add_handler name
          \<lparr>he_id = hk_next R, he_plugin = plugin, he_policy = FailOpen\<rparr> (hk_claiming R)\<rparr>)"

text \<open>\<open>remove\<close>, which the unsubscribe functions call with their own entry.\<close>

definition remove_handler :: "string \<Rightarrow> nat \<Rightarrow> handler_map \<Rightarrow> handler_map" where
  "remove_handler name i m = AList.update name (filter (\<lambda>h. he_id h \<noteq> i) (handlers_of name m)) m"

definition drop_plugin :: "string \<Rightarrow> handler_map \<Rightarrow> handler_map" where
  "drop_plugin p m = map (\<lambda>(name, hs). (name, filter (\<lambda>h. he_plugin h \<noteq> Some p) hs)) m"

definition unregister_plugin :: "string \<Rightarrow> hooks \<Rightarrow> hooks" where
  "unregister_plugin p R =
     R\<lparr>hk_void := drop_plugin p (hk_void R), hk_modifying := drop_plugin p (hk_modifying R),
       hk_claiming := drop_plugin p (hk_claiming R)\<rparr>"

datatype hook_model = VoidModel | ModifyingModel | ClaimingModel

definition has_handlers :: "hook_model \<Rightarrow> string \<Rightarrow> hooks \<Rightarrow> bool" where
  "has_handlers k name R =
     (handlers_of name (case k of
        VoidModel \<Rightarrow> hk_void R
      | ModifyingModel \<Rightarrow> hk_modifying R
      | ClaimingModel \<Rightarrow> hk_claiming R) \<noteq> [])"

section \<open>Firing\<close>

text \<open>The handlers run, by identity; their outcomes are settled and dropped.\<close>

definition fire_void :: "string \<Rightarrow> string list option \<Rightarrow> hooks \<Rightarrow> nat list" where
  "fire_void name allowed R =
     map he_id (filter (is_allowed allowed) (handlers_of name (hk_void R)))"

text \<open>
  What a modifying handler answers: a throw, nothing usable, or the entries of an object, a value of
  \<open>None\<close> for \<open>null\<close> and \<open>undefined\<close>. The test \<open>k in merged\<close> also finds the keys every object
  inherits, so those are never merged.
\<close>

datatype 'v modify_reply = ModifyThrows | ModifyNothing | ModifyFields "(string \<times> 'v option) list"

definition inherited_keys :: "string list" where
  "inherited_keys =
     [''constructor'', ''__defineGetter__'', ''__defineSetter__'', ''hasOwnProperty'',
      ''__lookupGetter__'', ''__lookupSetter__'', ''isPrototypeOf'', ''propertyIsEnumerable'',
      ''toString'', ''valueOf'', ''__proto__'', ''toLocaleString'']"

fun merge_fields :: "(string \<times> 'v option) list \<Rightarrow> (string \<times> 'v) list \<Rightarrow> (string \<times> 'v) list" where
  "merge_fields [] merged = merged"
| "merge_fields ((k, v) # fs) merged =
     merge_fields fs
       (case v of
          None \<Rightarrow> merged
        | Some x \<Rightarrow>
            if k \<in> set inherited_keys \<or> k \<in> fst ` set merged then merged else merged @ [(k, x)])"

fun merge_replies :: "'v modify_reply list \<Rightarrow> (string \<times> 'v) list \<Rightarrow> (string \<times> 'v) list" where
  "merge_replies [] merged = merged"
| "merge_replies (ModifyFields fs # rs) merged = merge_replies rs (merge_fields fs merged)"
| "merge_replies (_ # rs) merged = merge_replies rs merged"

definition fire_modifying ::
  "(nat \<Rightarrow> 'v modify_reply) \<Rightarrow> string \<Rightarrow> string list option \<Rightarrow> hooks \<Rightarrow> (string \<times> 'v) list" where
  "fire_modifying answer name allowed R =
     merge_replies
       (map (\<lambda>h. answer (he_id h)) (filter (is_allowed allowed) (handlers_of name (hk_modifying R)))) []"

text \<open>A claiming handler throws, passes, or handles; with the handlers that were run.\<close>

datatype 'v claim_reply = ClaimThrows | ClaimPass | ClaimHandled 'v

fun claim_loop :: "(nat \<Rightarrow> 'v claim_reply) \<Rightarrow> hook_entry list \<Rightarrow> nat list \<times> 'v option" where
  "claim_loop answer [] = ([], None)"
| "claim_loop answer (h # hs) =
     (case answer (he_id h) of
        ClaimHandled v \<Rightarrow> ([he_id h], Some v)
      | _ \<Rightarrow> (case claim_loop answer hs of (ids, r) \<Rightarrow> (he_id h # ids, r)))"

definition fire_claiming ::
  "(nat \<Rightarrow> 'v claim_reply) \<Rightarrow> string \<Rightarrow> string list option \<Rightarrow> hooks \<Rightarrow> nat list \<times> 'v option" where
  "fire_claiming answer name allowed R =
     claim_loop answer (filter (is_allowed allowed) (handlers_of name (hk_claiming R)))"

section \<open>Lemmas\<close>

fun usable_fields :: "'v modify_reply \<Rightarrow> (string \<times> 'v) list" where
  "usable_fields (ModifyFields fs) =
     List.map_filter (\<lambda>(k, v). if k \<in> set inherited_keys then None else map_option (Pair k) v) fs"
| "usable_fields _ = []"

lemma merge_fields_lookup:
  "map_of (merge_fields fs merged) k =
     map_of (merged @ usable_fields (ModifyFields fs)) k"
proof (induction fs merged rule: merge_fields.induct)
  case (2 key v fs merged)
  show ?case
  proof (cases v)
    case (Some x)
    show ?thesis
    proof (cases "key \<in> set inherited_keys \<or> key \<in> fst ` set merged")
      case True
      then have "map_of merged key \<noteq> None" if "key \<notin> set inherited_keys"
        using that by (auto simp: map_of_eq_None_iff)
      with True 2 Some show ?thesis
        by (auto simp: map_filter_simps map_add_def split: option.splits)
    next
      case False
      with 2 Some show ?thesis by (simp add: map_filter_simps)
    qed
  qed (use 2 in \<open>simp add: map_filter_simps\<close>)
qed (simp add: map_filter_simps)

lemma merge_replies_lookup:
  "map_of (merge_replies rs merged) k = map_of (merged @ concat (map usable_fields rs)) k"
proof (induction rs merged rule: merge_replies.induct)
  case (2 fs rs merged)
  then show ?case using merge_fields_lookup [of fs merged k] by (simp add: map_add_def split: option.splits)
qed simp_all

lemma handlers_drop:
  "handlers_of name (drop_plugin p m) = filter (\<lambda>h. he_plugin h \<noteq> Some p) (handlers_of name m)"
  by (induction m) (auto simp: handlers_of_def drop_plugin_def)

text \<open>Disallowing a plugin reads the same handlers as having unregistered it.\<close>

lemma allowed_drop:
  assumes "p \<noteq> []"
  shows "filter (is_allowed (Some ps)) (filter (\<lambda>h. he_plugin h \<noteq> Some p) hs) =
     filter (is_allowed (Some (filter (\<lambda>q. q \<noteq> p) ps))) hs"
  using assms by (induction hs) (auto simp: is_allowed_def split: option.splits)

lemma claim_loop_ran:
  "fst (claim_loop answer hs) =
     (let passes = takeWhile (\<lambda>h. case answer (he_id h) of ClaimHandled v \<Rightarrow> False | _ \<Rightarrow> True) hs
      in map he_id (take (Suc (length passes)) hs))"
  by (induction hs) (auto simp: Let_def split: claim_reply.splits prod.splits)

lemma claim_loop_result:
  "snd (claim_loop answer hs) =
     (case dropWhile (\<lambda>h. case answer (he_id h) of ClaimHandled v \<Rightarrow> False | _ \<Rightarrow> True) hs of
        [] \<Rightarrow> None
      | h # _ \<Rightarrow> (case answer (he_id h) of ClaimHandled v \<Rightarrow> Some v | _ \<Rightarrow> None))"
  by (induction hs) (auto split: claim_reply.splits prod.splits)

section \<open>Properties\<close>

text \<open>
  a modifying hook gives each key the first non-null value any allowed handler offers for it, in
  the order of registration, whatever handlers throw or answer nothing; keys that objects inherit
  are never set.
\<close>
theorem hooks_first_wins:
  "map_of (fire_modifying answer name allowed R) k =
     (if k \<in> set inherited_keys then None
      else map_of (concat (map (\<lambda>h. case answer (he_id h) of
                 ModifyFields fs \<Rightarrow> List.map_filter (\<lambda>(k, v). map_option (Pair k) v) fs
               | _ \<Rightarrow> [])
             (filter (is_allowed allowed) (handlers_of name (hk_modifying R))))) k)"
proof -
  let ?hs = "filter (is_allowed allowed) (handlers_of name (hk_modifying R))"
  have one: "map_of (usable_fields r) k =
      (if k \<in> set inherited_keys then None
       else map_of (case r of ModifyFields fs \<Rightarrow> List.map_filter (\<lambda>(k, v). map_option (Pair k) v) fs
          | _ \<Rightarrow> []) k)" for r :: "'a modify_reply"
  proof (cases r)
    case (ModifyFields fs)
    have "map_of (usable_fields (ModifyFields fs)) k =
        (if k \<in> set inherited_keys then None
         else map_of (List.map_filter (\<lambda>(k, v). map_option (Pair k) v) fs) k)"
      by (induction fs) (auto simp: map_filter_simps split: option.splits if_splits)
    with ModifyFields show ?thesis by simp
  qed simp_all
  have "map_of (concat (map usable_fields (map (\<lambda>h. answer (he_id h)) hs))) k =
      (if k \<in> set inherited_keys then None
       else map_of (concat (map (\<lambda>h. case answer (he_id h) of
            ModifyFields fs \<Rightarrow> List.map_filter (\<lambda>(k, v). map_option (Pair k) v) fs | _ \<Rightarrow> []) hs)) k)"
    for hs
    by (induction hs) (simp_all add: one map_add_def split: option.splits)
  from this [of ?hs] show ?thesis
    by (simp add: fire_modifying_def merge_replies_lookup)
qed

text \<open>
  under an allowlist a plugin left off it is invisible to every kind of hook: each firing runs
  the handlers, and returns the answer, of a registry from which the plugin was unregistered, and
  without an allowlist no plugin handler runs.
\<close>
theorem hooks_disallow:
  assumes "p \<noteq> []"
  shows "fire_void name (Some ps) (unregister_plugin p R) =
       fire_void name (Some (filter (\<lambda>q. q \<noteq> p) ps)) R
     \<and> fire_modifying answer name (Some ps) (unregister_plugin p R) =
       fire_modifying answer name (Some (filter (\<lambda>q. q \<noteq> p) ps)) R
     \<and> fire_claiming claim name (Some ps) (unregister_plugin p R) =
       fire_claiming claim name (Some (filter (\<lambda>q. q \<noteq> p) ps)) R
     \<and> fire_claiming claim name None R = fire_claiming claim name (Some []) R"
proof -
  have "is_allowed None = is_allowed (Some [])"
    by (auto simp: is_allowed_def fun_eq_iff split: option.splits)
  then show ?thesis
    by (simp add: fire_void_def fire_modifying_def fire_claiming_def unregister_plugin_def
        handlers_drop allowed_drop [OF assms] del: filter_filter)
qed

theorem hooks_disallow_witness:
  "fire_void ''agent_done'' (Some [''p'', ''q''])
     (unregister_plugin ''p'' (snd (register_void ''agent_done'' (Some ''p'') None new_hooks))) = []"
proof -
  let ?R = "snd (register_void ''agent_done'' (Some ''p'') None new_hooks)"
  have "fire_void ''agent_done'' (Some [''p'', ''q'']) (unregister_plugin ''p'' ?R) =
      fire_void ''agent_done'' (Some (filter (\<lambda>q. q \<noteq> ''p'') [''p'', ''q''])) ?R"
    using hooks_disallow [where p = "''p''"] by blast
  also have "\<dots> = []" by code_simp
  finally show ?thesis .
qed

text \<open>
  a claiming hook returns the answer of the first allowed handler that handles, having run that
  handler and those before it and none after it; a handler that throws counts as one that passes.
\<close>
theorem hooks_claim_first:
  "let hs = filter (is_allowed allowed) (handlers_of name (hk_claiming R));
       before = takeWhile (\<lambda>h. case answer (he_id h) of ClaimHandled v \<Rightarrow> False | _ \<Rightarrow> True) hs
   in fst (fire_claiming answer name allowed R) = map he_id (take (Suc (length before)) hs)
      \<and> snd (fire_claiming answer name allowed R) =
          (case drop (length before) hs of
             [] \<Rightarrow> None
           | h # _ \<Rightarrow> (case answer (he_id h) of ClaimHandled v \<Rightarrow> Some v | _ \<Rightarrow> None))"
  by (simp add: Let_def fire_claiming_def claim_loop_ran claim_loop_result dropWhile_eq_drop)

end
