(* ===== verification/Budgets.thy ===== *)
theory Budgets
  imports Complex_Main Prelude "HOL-Library.Sublist"
begin

text \<open>
  The guards of a turn (packages/core/src/agent-loop/budgets.ts). Counts are integers, money is
  rational; \<open>toFixed\<close> rounds a half up. The JSON text of a call's arguments is an argument, \<open>None\<close>
  when they cannot be serialised.
\<close>

section \<open>Streaks\<close>

record streak =
  st_key :: string
  st_tool :: string
  st_count :: nat

definition call_key :: "string \<Rightarrow> string option \<Rightarrow> string" where
  "call_key tool json = (case json of Some j \<Rightarrow> tool @ '':'' @ j | None \<Rightarrow> tool)"

definition update_identical_streak :: "streak option \<Rightarrow> string \<Rightarrow> string option \<Rightarrow> streak" where
  "update_identical_streak prev tool json =
     (let key = call_key tool json
      in case prev of
           Some s \<Rightarrow>
             if st_key s = key then \<lparr>st_key = key, st_tool = tool, st_count = st_count s + 1\<rparr>
             else \<lparr>st_key = key, st_tool = tool, st_count = 1\<rparr>
         | None \<Rightarrow> \<lparr>st_key = key, st_tool = tool, st_count = 1\<rparr>)"

definition max_consecutive_denials :: nat where
  "max_consecutive_denials = 3"

text \<open>A batch: its denials by the approval hook and the calls of it that ran.\<close>

definition update_denial_streak :: "nat \<Rightarrow> nat \<times> nat \<Rightarrow> nat" where
  "update_denial_streak prev batch =
     (case batch of
        (denials, successes) \<Rightarrow>
          if denials = 0 then 0 else if successes > 0 then denials else prev + denials)"

section \<open>The checks\<close>

datatype budget_rule = ToolBudget | IdenticalName | IdenticalStreak | CostCap | DenialBreaker

fun rule_name :: "budget_rule \<Rightarrow> string" where
  "rule_name ToolBudget = ''tool-budget''"
| "rule_name IdenticalName = ''identical-name''"
| "rule_name IdenticalStreak = ''identical-streak''"
| "rule_name CostCap = ''cost-cap''"
| "rule_name DenialBreaker = ''denial_circuit_breaker''"

record cost_budget =
  cb_spent :: rat
  cb_cap :: "rat option"

record budget_note =
  bn_rule :: budget_rule
  bn_tool :: string
  bn_count :: "int option"
  bn_message :: string

datatype budget_result = Within "budget_note list" | Exceeded budget_note

text \<open>\<open>toFixed(d)\<close>.\<close>

definition pad_left :: "nat \<Rightarrow> string \<Rightarrow> string" where
  "pad_left n s = replicate (n - length s) (CHR ''0'') @ s"

definition to_fixed :: "nat \<Rightarrow> rat \<Rightarrow> string" where
  "to_fixed d x =
     (let n = nat (floor (\<bar>x\<bar> * 10 ^ d + 1 / 2))
      in (if x < 0 then ''-'' else []) @ show_nat (n div 10 ^ d) @ ''.'' @ pad_left d (show_nat (n mod 10 ^ d)))"

definition check_cost_budget :: "cost_budget \<Rightarrow> budget_result" where
  "check_cost_budget c =
     (case cb_cap c of
        None \<Rightarrow> Within []
      | Some cap \<Rightarrow>
          if cb_spent c < cap then Within []
          else Exceeded \<lparr>bn_rule = CostCap, bn_tool = ''_budget'', bn_count = None,
            bn_message = ''Stopped: hit $'' @ to_fixed 2 cap @ '' budget cap for this session ($''
              @ to_fixed 4 (cb_spent c) @ '' spent)''\<rparr>)"

record turn_caps =
  tc_calls :: int
  tc_identical :: int
  tc_streak :: nat
  tc_calls_warn :: "int option"
  tc_identical_warn :: "int option"

definition over_count :: "int \<Rightarrow> (string \<times> int) list \<Rightarrow> (string \<times> int) option" where
  "over_count cap counts = find (\<lambda>x. snd x \<ge> cap) counts"

definition turn_warns :: "int \<Rightarrow> (string \<times> int) list \<Rightarrow> turn_caps \<Rightarrow> budget_note list" where
  "turn_warns calls counts C =
     (case tc_calls_warn C of
        Some at_calls \<Rightarrow>
          if calls \<ge> at_calls
          then [\<lparr>bn_rule = ToolBudget, bn_tool = ''_budget'', bn_count = Some calls,
                 bn_message = show_int calls @ '' tool calls this turn (warn at '' @ show_int at_calls
                   @ '', hard cap '' @ show_int (tc_calls C) @ '')''\<rparr>]
          else []
      | None \<Rightarrow> [])
     @ (case tc_identical_warn C of
          Some at_name \<Rightarrow>
            (case over_count at_name counts of
               Some (tool, n) \<Rightarrow>
                 [\<lparr>bn_rule = IdenticalName, bn_tool = tool, bn_count = Some n,
                   bn_message = tool @ '' called '' @ show_int n @ '' times this turn (warn at ''
                     @ show_int at_name @ '', hard cap '' @ show_int (tc_identical C) @ '')''\<rparr>]
             | None \<Rightarrow> [])
        | None \<Rightarrow> [])"

definition check_turn_budgets ::
  "int \<Rightarrow> (string \<times> int) list \<Rightarrow> streak option \<Rightarrow> cost_budget option \<Rightarrow> nat \<Rightarrow> turn_caps \<Rightarrow> budget_result" where
  "check_turn_budgets calls counts strk cost denials C =
     (if denials \<ge> max_consecutive_denials
      then Exceeded \<lparr>bn_rule = DenialBreaker, bn_tool = ''_approval'', bn_count = Some (int denials),
        bn_message = ''Stopped: '' @ show_nat denials @ '' tool calls denied in a row '' @ em_dash
          @ '' retrying will not help''\<rparr>
      else
        (case (case cost of None \<Rightarrow> Within [] | Some c \<Rightarrow> check_cost_budget c) of
           Exceeded n \<Rightarrow> Exceeded n
         | Within _ \<Rightarrow>
             if calls \<ge> tc_calls C
             then Exceeded \<lparr>bn_rule = ToolBudget, bn_tool = ''_budget'', bn_count = Some calls,
               bn_message = ''Stopped: hit '' @ show_int (tc_calls C) @ ''-tool-call budget for this turn''\<rparr>
             else
               (case over_count (tc_identical C) counts of
                  Some (tool, n) \<Rightarrow>
                    Exceeded \<lparr>bn_rule = IdenticalName, bn_tool = tool, bn_count = Some n,
                      bn_message = ''Stopped: '' @ tool @ '' called '' @ show_int n
                        @ '' times in one turn (likely loop)''\<rparr>
                | None \<Rightarrow>
                    (case strk of
                       Some s \<Rightarrow>
                         if st_count s \<ge> tc_streak C
                         then Exceeded \<lparr>bn_rule = IdenticalStreak, bn_tool = st_tool s,
                           bn_count = Some (int (st_count s)),
                           bn_message = ''Stopped: '' @ st_tool s @ '' called '' @ show_nat (st_count s)
                             @ '' times in a row with identical arguments (loop)''\<rparr>
                         else Within (turn_warns calls counts C)
                     | None \<Rightarrow> Within (turn_warns calls counts C)))))"

section \<open>Events\<close>

datatype audience = Internal | User

datatype budget_event =
    ToolProgress string string audience
  | Halt budget_rule string "int option" string

text \<open>The warnings, each rule once while the latch of the turn holds it.\<close>

fun warn_events :: "budget_note list \<Rightarrow> budget_rule list \<Rightarrow> budget_event list \<times> budget_rule list" where
  "warn_events [] latch = ([], latch)"
| "warn_events (w # ws) latch =
     (if bn_rule w \<in> set latch then warn_events ws latch
      else (case warn_events ws (latch @ [bn_rule w]) of
              (evs, l) \<Rightarrow> (ToolProgress (bn_tool w) (bn_message w) Internal # evs, l)))"

text \<open>Yielded events, whether the turn must stop, and the latch.\<close>

definition budget_guard_events ::
  "budget_result \<Rightarrow> budget_rule list \<Rightarrow> budget_event list \<times> bool \<times> budget_rule list" where
  "budget_guard_events r latch =
     (case r of
        Exceeded n \<Rightarrow>
          ([ToolProgress (bn_tool n) (bn_message n) User,
            Halt (bn_rule n) (bn_tool n) (bn_count n) (bn_message n)], True, latch)
      | Within ws \<Rightarrow> (case warn_events ws latch of (evs, l) \<Rightarrow> (evs, False, l)))"

datatype halt_kind = BudgetHalt | WatcherHalt

definition warning_sign :: string where
  "warning_sign = [CHR 0xE2, CHR 0x9A, CHR 0xA0]"

definition halt_notice :: "halt_kind \<Rightarrow> string \<Rightarrow> string \<Rightarrow> string option" where
  "halt_notice kind rule message =
     (if kind \<noteq> BudgetHalt then None
      else if rule = ''cost-cap''
      then Some (warning_sign @ '' '' @ message @ ''. Send /budget reset to start a new budget window.'')
      else Some (warning_sign @ '' '' @ message @ ''.''))"

text \<open>The checks of one turn, up to the one that stops it.\<close>

fun guard_turn :: "budget_result list \<Rightarrow> budget_rule list \<Rightarrow> budget_event list" where
  "guard_turn [] latch = []"
| "guard_turn (r # rs) latch =
     (case budget_guard_events r latch of
        (evs, stop, l) \<Rightarrow> if stop then evs else evs @ guard_turn rs l)"

section \<open>Lemmas\<close>

lemma over_count_None: "over_count cap counts = None \<longleftrightarrow> (\<forall>x \<in> set counts. snd x < cap)"
  by (auto simp: over_count_def find_None_iff_all not_le)

lemma over_count_SomeD: "over_count cap counts = Some (t, k) \<Longrightarrow> (t, k) \<in> set counts \<and> cap \<le> k"
  by (auto simp: over_count_def dest: find_SomeD)

fun internal_event :: "budget_event \<Rightarrow> bool" where
  "internal_event (ToolProgress t m a) = (a = Internal)"
| "internal_event (Halt r t c m) = False"

lemma warn_events_count:
  "warn_events ws latch = (evs, l) \<Longrightarrow> distinct latch \<Longrightarrow>
     list_all internal_event evs \<and> distinct l \<and> length latch + length evs = length l
     \<and> set l \<subseteq> set latch \<union> bn_rule ` set ws"
proof (induction ws latch arbitrary: evs l rule: warn_events.induct)
  case (2 w ws latch)
  show ?case
  proof (cases "bn_rule w \<in> set latch")
    case True
    then show ?thesis using 2(1) [OF True] 2(3,4) by auto
  next
    case False
    obtain evs1 l1 where w: "warn_events ws (latch @ [bn_rule w]) = (evs1, l1)" by fastforce
    from 2(2) [OF False w] show ?thesis using False w 2(3,4) by auto
  qed
qed simp

lemma turn_warns_rules: "bn_rule ` set (turn_warns calls counts C) \<subseteq> {ToolBudget, IdenticalName}"
  by (auto simp: turn_warns_def split: option.splits if_splits)

section \<open>Properties\<close>

text \<open>
  folded over the calls of a turn, the identical-call streak names the last call and counts how
  many calls at the end of the turn have its key.
\<close>
theorem budgets_streak:
  "fold (\<lambda>(tool, json) prev. Some (update_identical_streak prev tool json)) (calls @ [(tool, json)]) None =
     Some \<lparr>st_key = call_key tool json, st_tool = tool,
       st_count = length (takeWhile (\<lambda>(t, j). call_key t j = call_key tool json)
          (rev (calls @ [(tool, json)])))\<rparr>"
proof (induction calls arbitrary: tool json rule: rev_induct)
  case Nil
  show ?case by (simp add: update_identical_streak_def Let_def)
next
  case (snoc c calls)
  obtain t j where c: "c = (t, j)" by fastforce
  have "takeWhile (\<lambda>(t', j'). call_key t' j' = call_key tool json) (rev calls) =
      takeWhile (\<lambda>(t', j'). call_key t' j' = call_key t j) (rev calls)"
    if "call_key t j = call_key tool json" using that by simp
  with snoc.IH [of t j] c show ?case
    by (auto simp: update_identical_streak_def Let_def)
qed

text \<open>
  a turn goes on exactly while the denials in a row are below three, the spend is below its cap,
  the total of calls and every per-tool count are below theirs, and so is the identical streak; a
  denial streak is reported before the cost, and the cost before the loop guards.
\<close>
theorem budgets_verdict:
  "(case check_turn_budgets calls counts strk cost denials C of
      Within ws \<Rightarrow>
        denials < 3 \<and> (\<forall>c cap. cost = Some c \<and> cb_cap c = Some cap \<longrightarrow> cb_spent c < cap)
        \<and> calls < tc_calls C \<and> (\<forall>x \<in> set counts. snd x < tc_identical C)
        \<and> (\<forall>s. strk = Some s \<longrightarrow> st_count s < tc_streak C)
    | Exceeded n \<Rightarrow>
        (bn_rule n = DenialBreaker \<longleftrightarrow> denials \<ge> 3)
        \<and> (bn_rule n = CostCap \<longleftrightarrow>
             denials < 3 \<and> (\<exists>c cap. cost = Some c \<and> cb_cap c = Some cap \<and> cap \<le> cb_spent c))
        \<and> (bn_rule n = ToolBudget \<longrightarrow> calls \<ge> tc_calls C)
        \<and> (bn_rule n = IdenticalName \<longrightarrow>
             (\<exists>k. (bn_tool n, k) \<in> set counts \<and> bn_count n = Some k \<and> k \<ge> tc_identical C))
        \<and> (bn_rule n = IdenticalStreak \<longrightarrow> (\<exists>s. strk = Some s \<and> st_count s \<ge> tc_streak C)))"
  by (auto simp: check_turn_budgets_def check_cost_budget_def max_consecutive_denials_def
      over_count_None not_le not_less dest: over_count_SomeD
      split: budget_result.splits option.splits if_splits)

definition demo_caps :: turn_caps where
  "demo_caps = \<lparr>tc_calls = 3, tc_identical = 2, tc_streak = 5, tc_calls_warn = Some 1, tc_identical_warn = None\<rparr>"

theorem budgets_verdict_witness:
  "\<exists>n. check_turn_budgets 2 [(''ls'', 2)] None None 0 demo_caps = Exceeded n
     \<and> bn_rule n = IdenticalName \<and> (\<exists>k. (bn_tool n, k) \<in> set [(''ls'', 2)] \<and> k \<ge> (2 :: int))"
proof -
  obtain n where n: "check_turn_budgets 2 [(''ls'', 2)] None None 0 demo_caps = Exceeded n" "bn_rule n = IdenticalName"
    by (simp add: check_turn_budgets_def max_consecutive_denials_def over_count_def demo_caps_def)
  from budgets_verdict [where calls = 2 and counts = "[(''ls'', 2)]" and strk = None and cost = None and denials = 0 and C = demo_caps] n show ?thesis
    by (auto simp: demo_caps_def)
qed

text \<open>
  however often the guards are consulted during a turn, they nudge at most twice, once per
  warning rule, and the turn ends with at most one halt, which is then its last event.
\<close>
theorem budgets_turn_events:
  "let evs = guard_turn (map (\<lambda>(calls, counts, strk, cost, denials).
         check_turn_budgets calls counts strk cost denials C) checks) []
   in length (filter internal_event evs) \<le> 2
      \<and> (\<forall>e \<in> set (butlast evs). case e of Halt _ _ _ _ \<Rightarrow> False | _ \<Rightarrow> True)"
proof -
  let ?chk = "\<lambda>(calls, counts, strk, cost, denials). check_turn_budgets calls counts strk cost denials C"
  let ?noh = "\<lambda>e. case e of Halt _ _ _ _ \<Rightarrow> False | _ \<Rightarrow> True"
  have "length latch + length (filter internal_event (guard_turn (map ?chk checks) latch)) \<le> 2
     \<and> (\<forall>e \<in> set (butlast (guard_turn (map ?chk checks) latch)). ?noh e)"
    if "distinct latch" "set latch \<subseteq> {ToolBudget, IdenticalName}" for latch
    using that
  proof (induction checks arbitrary: latch)
    case Nil
    then have "length latch \<le> card {ToolBudget, IdenticalName}"
      by (metis card_mono distinct_card finite.emptyI finite.insertI)
    then show ?case by simp
  next
    case (Cons x checks)
    show ?case
    proof (cases "?chk x")
      case (Exceeded n)
      have "length latch \<le> card {ToolBudget, IdenticalName}"
        using Cons.prems by (metis card_mono distinct_card finite.emptyI finite.insertI)
      with Exceeded show ?thesis by (simp add: budget_guard_events_def)
    next
      case (Within ws)
      obtain calls counts strk cost denials where x: "x = (calls, counts, strk, cost, denials)"
        using prod_cases5 by blast
      from Within have "ws = turn_warns calls counts C"
        unfolding x
        by (auto simp: check_turn_budgets_def check_cost_budget_def
            split: option.splits if_splits budget_result.splits)
      then have rules: "bn_rule ` set ws \<subseteq> {ToolBudget, IdenticalName}"
        using turn_warns_rules by simp
      obtain evs l where w: "warn_events ws latch = (evs, l)" by fastforce
      note c = warn_events_count [OF w Cons.prems(1)]
      have "set l \<subseteq> {ToolBudget, IdenticalName}" using c rules Cons.prems(2) by blast
      with Cons.IH [of l] c
      have ih: "length l + length (filter internal_event (guard_turn (map ?chk checks) l)) \<le> 2"
        "\<forall>e \<in> set (butlast (guard_turn (map ?chk checks) l)). ?noh e" by blast+
      have evs: "filter internal_event evs = evs" "\<forall>e \<in> set evs. ?noh e"
        using c by (auto simp: list_all_iff filter_id_conv split: budget_event.splits)
      have g: "guard_turn (map ?chk (x # checks)) latch = evs @ guard_turn (map ?chk checks) l"
        using Within w by (simp add: budget_guard_events_def)
      have "\<forall>e \<in> set (butlast (evs @ guard_turn (map ?chk checks) l)). ?noh e"
        using ih(2) evs(2) by (auto simp: butlast_append dest: in_set_butlastD)
      then show ?thesis using g ih(1) evs(1) c by simp
    qed
  qed
  from this [of "[]"] show ?thesis by (simp add: Let_def)
qed

theorem budgets_turn_events_witness:
  "length (filter internal_event (guard_turn (map (\<lambda>(calls, counts, strk, cost, denials).
     check_turn_budgets calls counts strk cost denials demo_caps)
       [(1, [], None, None, 0), (2, [], None, None, 0), (3, [], None, None, 0)]) [])) = 1"
proof -
  let ?evs = "guard_turn (map (\<lambda>(calls, counts, strk, cost, denials).
     check_turn_budgets calls counts strk cost denials demo_caps)
       [(1, [], None, None, 0), (2, [], None, None, 0), (3, [], None, None, 0)]) []"
  have "length (filter internal_event ?evs) \<le> 2"
    using budgets_turn_events [where C = demo_caps and checks = "[(1, [], None, None, 0), (2, [], None, None, 0), (3, [], None, None, 0)]"]
    by (simp only: Let_def)
  then show ?thesis
    by (simp add: demo_caps_def check_turn_budgets_def max_consecutive_denials_def over_count_def turn_warns_def
        budget_guard_events_def)
qed

end
