(* ===== verification/Chain.thy ===== *)
theory Chain
  imports Complex_Main Prelude "HOL-Library.Sublist"
begin

text \<open>
  The provider chain (packages/core/src/providers/chained-provider.ts): classification of an error,
  cooldowns, the order of the attempts, the pinned retry loop, and the scoping of a model override.
  What the providers stream is a world of answers: attempt number \<open>n\<close>, on entry \<open>i\<close> with an
  override, yields chunks and then ends or throws; the state of the abort signal and the clock at
  that moment are answers too. An error is its message, the status values it carries and the wait
  its headers name. The text of the errors thrown (with its redaction) is not modelled: a thrown
  error carries the failures it reports.
\<close>

section \<open>Classification\<close>

datatype status_value = NumberValue rat | StringValue string | OtherValue

record provider_error =
  pe_message :: string
  pe_status :: status_value
  pe_status_code :: status_value
  pe_retry_after :: "rat option"

definition status_of_value :: "status_value \<Rightarrow> rat option" where
  "status_of_value v =
     (let n = (case v of
                 NumberValue x \<Rightarrow> Some x
               | StringValue s \<Rightarrow>
                   if length s = 3 \<and> list_all digit s then Some (of_nat (digits_value s)) else None
               | OtherValue \<Rightarrow> None)
      in case n of
           Some x \<Rightarrow> if 100 \<le> x \<and> x \<le> 599 then Some x else None
         | None \<Rightarrow> None)"

definition structured_status :: "provider_error \<Rightarrow> rat option" where
  "structured_status e =
     (case status_of_value (pe_status e) of
        Some x \<Rightarrow> Some x
      | None \<Rightarrow> status_of_value (pe_status_code e))"

definition word_char :: "char \<Rightarrow> bool" where
  "word_char c =
     (digit c \<or> c = CHR ''_'' \<or> (65 \<le> (of_char c :: nat) \<and> (of_char c :: nat) \<le> 90)
       \<or> (97 \<le> (of_char c :: nat) \<and> (of_char c :: nat) \<le> 122))"

text \<open>A match of \<open>\bcode\b\<close>, \<open>prev\<close> telling whether a word character precedes.\<close>

fun whole_token :: "string \<Rightarrow> bool \<Rightarrow> string \<Rightarrow> bool" where
  "whole_token code prev [] = False"
| "whole_token code prev (c # cs) =
     ((\<not> prev \<and> starts_with (c # cs) code
         \<and> (case drop (length code) (c # cs) of [] \<Rightarrow> True | d # _ \<Rightarrow> \<not> word_char d))
       \<or> whole_token code (word_char c) cs)"

datatype failover_reason =
    RsAuth | RsRateLimit | RsOverloaded | RsContextOverflow | RsContentFilter | RsModelNotFound
  | RsTimeout | RsNetwork | RsUnknown

definition is_code :: "provider_error \<Rightarrow> string \<Rightarrow> nat \<Rightarrow> bool" where
  "is_code e msg code =
     (case structured_status e of
        Some x \<Rightarrow> x = of_nat code
      | None \<Rightarrow> whole_token (show_nat code) False msg)"

definition classify_provider_error :: "provider_error \<Rightarrow> failover_reason" where
  "classify_provider_error e =
     (let msg = to_lower (pe_message e); is = is_code e msg; has = contains msg
      in if is 401 \<or> is 403 \<or> has ''authentication'' \<or> has ''api key'' \<or> has ''unauthorized''
         then RsAuth
         else if is 429 \<or> has ''rate limit'' \<or> has ''rate_limit'' \<or> has ''too many requests''
         then RsRateLimit
         else if is 529 \<or> is 503 \<or> has ''overloaded'' \<or> has ''service unavailable'' then RsOverloaded
         else if has ''context'' \<and> (has ''overflow'' \<or> has ''too long'' \<or> has ''too large'')
         then RsContextOverflow
         else if has ''content'' \<and> (has ''filter'' \<or> has ''policy'') then RsContentFilter
         else if is 404 \<or> has ''model not found'' \<or> has ''model_not_found'' \<or> has ''no such model''
         then RsModelNotFound
         else if has ''timeout'' \<or> has ''timed out'' \<or> has ''etimedout'' then RsTimeout
         else if has ''network'' \<or> has ''econnrefused'' \<or> has ''enotfound'' \<or> has ''socket hang up''
         then RsNetwork
         else RsUnknown)"

definition should_failover :: "failover_reason \<Rightarrow> bool" where
  "should_failover r =
     (r \<in> {RsRateLimit, RsOverloaded, RsTimeout, RsNetwork, RsUnknown, RsModelNotFound})"

definition pinned_retry_reason :: "failover_reason \<Rightarrow> bool" where
  "pinned_retry_reason r = (r \<in> {RsRateLimit, RsOverloaded, RsTimeout, RsNetwork})"

definition pinned_max_attempts :: nat where
  "pinned_max_attempts = 3"

text \<open>The wait before retry number \<open>retry\<close>, with the random number drawn for its jitter.\<close>

definition pinned_retry_delay :: "rat \<Rightarrow> nat \<Rightarrow> rat option \<Rightarrow> rat" where
  "pinned_retry_delay random retry retry_after =
     (case retry_after of
        Some w \<Rightarrow> min w 10000
      | None \<Rightarrow> (let base = 500 * 3 ^ (retry - 1) in min (base + random * base * (1 / 4)) 10000))"

section \<open>Entries, calls and the world\<close>

record entry_failure =
  ef_reason :: failover_reason
  ef_error :: provider_error

record chain_entry =
  ce_key :: string
  ce_name :: string
  ce_model :: string
  ce_cooldown_until :: int
  ce_last :: "entry_failure option"

record chain =
  ch_entries :: "chain_entry list"
  ch_cooldown_ms :: int

text \<open>A provider as the constructor gets it: its tag when wiring tagged it, its name and model.\<close>

definition new_chain ::
  "(string option \<times> string \<times> string) list \<Rightarrow> int option \<Rightarrow> chain option" where
  "new_chain providers cooldown =
     (if providers = [] then None
      else Some \<lparr>ch_entries = map (\<lambda>(i, (tag, name, model)).
          \<lparr>ce_key = (case tag of Some k \<Rightarrow> k
                     | None \<Rightarrow> if i = 0 then name else name @ ''-'' @ show_nat i),
            ce_name = name, ce_model = model, ce_cooldown_until = 0, ce_last = None\<rparr>)
          (enumerate 0 providers),
        ch_cooldown_ms = (case cooldown of Some c \<Rightarrow> c | None \<Rightarrow> 60000)\<rparr>)"

record call_opts =
  co_scope :: "(string \<times> bool) option"
  co_model :: "string option"

text \<open>
  The answers from outside: what attempt \<open>n\<close> streams, whether the signal has fired and what the
  clock reads when it ends, whether the signal has fired before it starts, and during the wait
  after it.
\<close>

record 'c world =
  w_call :: "nat \<Rightarrow> nat \<Rightarrow> string option \<Rightarrow> 'c list \<times> provider_error option"
  w_aborted :: "nat \<Rightarrow> bool"
  w_clock :: "nat \<Rightarrow> int"
  w_stop :: "nat \<Rightarrow> bool"
  w_wake :: "nat \<Rightarrow> bool"

record attempt_failure =
  af_entry :: nat
  af_reason :: failover_reason
  af_error :: provider_error
  af_model :: string
  af_cooling :: "(int \<times> entry_failure option) option"
  af_retry_after :: "rat option"

datatype verdict = Succeeded | Absorbed attempt_failure | Rethrown provider_error

definition options_for :: "chain \<Rightarrow> chain_entry \<Rightarrow> call_opts \<Rightarrow> string option" where
  "options_for ch e opts =
     (case co_model opts of
        None \<Rightarrow> None
      | Some m \<Rightarrow>
          if m = ce_model e then None
          else (case co_scope opts of
                  Some (key, _) \<Rightarrow> if key = ce_key e then Some m else None
                | None \<Rightarrow> if \<exists>x \<in> set (ch_entries ch). ce_model x = m then None else Some m))"

definition set_entry :: "nat \<Rightarrow> chain_entry \<Rightarrow> chain \<Rightarrow> chain" where
  "set_entry i e ch = ch\<lparr>ch_entries := (ch_entries ch)[i := e]\<rparr>"

text \<open>One attempt: the chunks it yields, its verdict, and the chain after it.\<close>

definition attempt ::
  "'c world \<Rightarrow> nat \<Rightarrow> nat \<Rightarrow> call_opts \<Rightarrow> chain \<Rightarrow> 'c list \<times> verdict \<times> chain" where
  "attempt W n i opts ch =
     (let e = ch_entries ch ! i; ov = options_for ch e opts
      in case w_call W n i ov of
           (chunks, None) \<Rightarrow> (chunks, Succeeded, set_entry i (e\<lparr>ce_cooldown_until := 0\<rparr>) ch)
         | (chunks, Some err) \<Rightarrow>
             if chunks \<noteq> [] \<or> w_aborted W n then (chunks, Rethrown err, ch)
             else
               (let reason = classify_provider_error err
                in if \<not> should_failover reason then ([], Rethrown err, ch)
                   else
                     (let f = \<lparr>af_entry = i, af_reason = reason, af_error = err,
                            af_model = (case ov of Some m \<Rightarrow> m | None \<Rightarrow> ce_model e),
                            af_cooling = None, af_retry_after = pe_retry_after err\<rparr>;
                          e1 = (if reason = RsModelNotFound \<and> ov \<noteq> None then e
                                else e\<lparr>ce_cooldown_until := w_clock W n + ch_cooldown_ms ch\<rparr>)
                      in ([], Absorbed f,
                          set_entry i (e1\<lparr>ce_last := Some \<lparr>ef_reason = reason, ef_error = err\<rparr>\<rparr>) ch))))"

datatype chain_error =
    NotInChain string
  | PinnedFailed attempt_failure nat
  | RejectModel "attempt_failure list"
  | AllFailed "attempt_failure list"
  | Passed provider_error
  | AbortSignalled

datatype fail_outcome = NextEntry | RetryCooling | RetryPinned | GiveUp

text \<open>
  A call: the attempts it made (entry and chunks) in order, the failures it reported, and how it
  ended. What the consumer receives is the chunks of all attempts, one after the other.
\<close>

record 'c trace =
  tr_attempts :: "(nat \<times> 'c list) list"
  tr_reports :: "(nat \<times> fail_outcome \<times> nat option) list"
  tr_end :: "chain_error option"

definition no_trace :: "chain_error option \<Rightarrow> 'c trace" where
  "no_trace r = \<lparr>tr_attempts = [], tr_reports = [], tr_end = r\<rparr>"

definition after_attempt ::
  "nat \<Rightarrow> 'c list \<Rightarrow> (nat \<times> fail_outcome \<times> nat option) list \<Rightarrow> 'c trace \<Rightarrow> 'c trace" where
  "after_attempt i chunks reports t =
     t\<lparr>tr_attempts := (i, chunks) # tr_attempts t, tr_reports := reports @ tr_reports t\<rparr>"

section \<open>Pinned calls\<close>

function pinned_loop ::
  "'c world \<Rightarrow> nat \<Rightarrow> nat \<Rightarrow> call_opts \<Rightarrow> chain \<Rightarrow> 'c trace \<times> chain" where
  "pinned_loop W i attempts opts ch =
     (case attempt W (attempts - 1) i opts ch of
        (chunks, Succeeded, ch1) \<Rightarrow> (after_attempt i chunks [] (no_trace None), ch1)
      | (chunks, Rethrown err, ch1) \<Rightarrow> (after_attempt i chunks [] (no_trace (Some (Passed err))), ch1)
      | (chunks, Absorbed f, ch1) \<Rightarrow>
          if attempts < pinned_max_attempts \<and> pinned_retry_reason (af_reason f)
          then
            (if w_wake W (attempts - 1)
             then (after_attempt i chunks [(i, RetryPinned, Some i)] (no_trace (Some AbortSignalled)), ch1)
             else
               (case pinned_loop W i (Suc attempts) opts ch1 of
                  (t, ch2) \<Rightarrow> (after_attempt i chunks [(i, RetryPinned, Some i)] t, ch2)))
          else (after_attempt i chunks [(i, GiveUp, None)]
                  (no_trace (Some (PinnedFailed f attempts))), ch1))"
  by pat_completeness auto
termination
  by (relation "measure (\<lambda>(W, i, attempts, opts, ch). pinned_max_attempts - attempts)") auto

declare pinned_loop.simps [simp del]

section \<open>Calls down the chain\<close>

definition cooling_info :: "int \<Rightarrow> chain_entry \<Rightarrow> (int \<times> entry_failure option) option" where
  "cooling_info now e =
     (if ce_cooldown_until e > now then Some (ce_cooldown_until e - now, ce_last e) else None)"

definition try_order :: "int \<Rightarrow> chain \<Rightarrow> nat list" where
  "try_order now ch =
     (let is = [0..<length (ch_entries ch)];
          cooling = (\<lambda>i. cooling_info now (ch_entries ch ! i) \<noteq> None)
      in filter (\<lambda>i. \<not> cooling i) is @ filter cooling is)"

text \<open>\<open>cool\<close> is the map \<open>cooling\<close>, fixed at the start of the call; \<open>n\<close> counts the attempts.\<close>

fun try_entries ::
  "'c world \<Rightarrow> (nat \<Rightarrow> (int \<times> entry_failure option) option) \<Rightarrow> call_opts \<Rightarrow> nat list \<Rightarrow> nat \<Rightarrow>
     attempt_failure list \<Rightarrow> chain \<Rightarrow> 'c trace \<times> chain" where
  "try_entries W cool opts [] n fs ch =
     (no_trace (Some (if \<forall>f \<in> set fs. af_reason f = RsModelNotFound then RejectModel fs else AllFailed fs)), ch)"
| "try_entries W cool opts (i # is) n fs ch =
     (if n > 0 \<and> w_stop W n then (no_trace (Some AbortSignalled), ch)
      else
        (case attempt W n i opts ch of
           (chunks, Succeeded, ch1) \<Rightarrow> (after_attempt i chunks [] (no_trace None), ch1)
         | (chunks, Rethrown err, ch1) \<Rightarrow> (after_attempt i chunks [] (no_trace (Some (Passed err))), ch1)
         | (chunks, Absorbed f, ch1) \<Rightarrow>
             (let report = (case is of
                    [] \<Rightarrow> (i, GiveUp, None)
                  | j # _ \<Rightarrow> (i, if cool j \<noteq> None then RetryCooling else NextEntry, Some j))
              in case try_entries W cool opts is (Suc n) (fs @ [f\<lparr>af_cooling := cool i\<rparr>]) ch1 of
                   (t, ch2) \<Rightarrow> (after_attempt i chunks [report] t, ch2))))"

definition find_entry :: "string \<Rightarrow> chain \<Rightarrow> nat option" where
  "find_entry key ch =
     find (\<lambda>i. ce_key (ch_entries ch ! i) = key) [0..<length (ch_entries ch)]"

definition complete :: "'c world \<Rightarrow> int \<Rightarrow> call_opts \<Rightarrow> chain \<Rightarrow> 'c trace \<times> chain" where
  "complete W now opts ch =
     (let down_chain = try_entries W (\<lambda>i. cooling_info now (ch_entries ch ! i)) opts (try_order now ch) 0 [] ch
      in case co_scope opts of
           None \<Rightarrow> down_chain
         | Some (key, pinned) \<Rightarrow>
             (case find_entry key ch of
                None \<Rightarrow> (no_trace (Some (NotInChain key)), ch)
              | Some i \<Rightarrow> if pinned then pinned_loop W i 1 opts ch else down_chain))"

definition active_entry :: "int \<Rightarrow> chain \<Rightarrow> chain_entry option" where
  "active_entry now ch = find (\<lambda>e. ce_cooldown_until e \<le> now) (ch_entries ch)"

definition entry_provider :: "int \<Rightarrow> string option \<Rightarrow> chain \<Rightarrow> chain_entry option" where
  "entry_provider now key ch =
     (case key of
        Some k \<Rightarrow> find (\<lambda>e. ce_key e = k) (ch_entries ch)
      | None \<Rightarrow> active_entry now ch)"

definition chain_model :: "int \<Rightarrow> chain \<Rightarrow> string" where
  "chain_model now ch =
     (case active_entry now ch of
        Some e \<Rightarrow> ce_model e
      | None \<Rightarrow> (case ch_entries ch of [] \<Rightarrow> [] | e # _ \<Rightarrow> ce_model e))"

section \<open>Lemmas\<close>

lemma attempt_absorbed: "attempt W n i opts ch = (chunks, Absorbed f, ch1) \<Longrightarrow> chunks = [] \<and> af_entry f = i"
  by (auto simp: attempt_def Let_def split: prod.splits option.splits if_splits)

text \<open>Entry \<open>i\<close> streamed exactly these chunks to the end in some attempt.\<close>

definition answers :: "'c world \<Rightarrow> nat \<Rightarrow> 'c list \<Rightarrow> bool" where
  "answers W i chunks = (\<exists>n ov. w_call W n i ov = (chunks, None))"

lemma attempt_succeeded:
  "attempt W n i opts ch = (chunks, Succeeded, ch1) \<Longrightarrow>
     answers W i chunks"
  unfolding answers_def
  by (auto simp: attempt_def Let_def split: prod.splits option.splits if_splits)

lemma trace_simps [simp]:
  "tr_attempts (no_trace r) = []" "tr_reports (no_trace r) = []" "tr_end (no_trace r) = r"
  "tr_attempts (after_attempt i c rs t) = (i, c) # tr_attempts t"
  "tr_reports (after_attempt i c rs t) = rs @ tr_reports t"
  "tr_end (after_attempt i c rs t) = tr_end t"
  by (simp_all add: no_trace_def after_attempt_def)

text \<open>The attempts of a run: all but the last are silent.\<close>

definition silent_before :: "(nat \<times> 'c list) list \<Rightarrow> bool" where
  "silent_before xs = (\<forall>x \<in> set (butlast xs). snd x = [])"

lemma silent_before_simps [simp]: "silent_before []" "silent_before [x]"
  by (simp_all add: silent_before_def)

lemma silent_before_Cons: "silent_before ((i, []) # xs) = silent_before xs"
  by (simp add: silent_before_def)

lemma pinned_attempts:
  "pinned_loop W i a opts ch = (t, ch2) \<Longrightarrow> 1 \<le> a \<Longrightarrow> a \<le> pinned_max_attempts \<Longrightarrow>
     silent_before (tr_attempts t) \<and> (\<forall>x \<in> set (tr_attempts t). fst x = i)
     \<and> length (tr_attempts t) + a \<le> Suc pinned_max_attempts
     \<and> (tr_end t = None \<longrightarrow> answers W i (snd (last (tr_attempts t))) \<and> tr_attempts t \<noteq> [])"
proof (induction W i a opts ch arbitrary: t ch2 rule: pinned_loop.induct)
  case (1 W i a opts ch)
  obtain chunks v ch1 where att: "attempt W (a - 1) i opts ch = (chunks, v, ch1)"
    by (metis prod_cases3)
  show ?case
  proof (cases v)
    case Succeeded
    then show ?thesis
      using 1(2-) att attempt_succeeded [of W "a - 1" i opts ch chunks ch1]
      by (subst (asm) pinned_loop.simps) (auto simp: pinned_max_attempts_def)
  next
    case (Rethrown e)
    then show ?thesis
      using 1(2-) att by (subst (asm) pinned_loop.simps) (auto simp: pinned_max_attempts_def)
  next
    case (Absorbed f)
    have c: "chunks = []" using attempt_absorbed att Absorbed by blast
    show ?thesis
    proof (cases "a < pinned_max_attempts \<and> pinned_retry_reason (af_reason f) \<and> \<not> w_wake W (a - 1)")
      case False
      then show ?thesis
        using 1(2-) att Absorbed
        by (subst (asm) pinned_loop.simps) (auto split: if_splits)
    next
      case True
      obtain t1 where t1: "pinned_loop W i (Suc a) opts ch1 = (t1, ch2)"
        "t = after_attempt i chunks [(i, RetryPinned, Some i)] t1"
        using 1(2) att Absorbed True
        by (subst (asm) pinned_loop.simps) (auto split: prod.splits)
      have "silent_before (tr_attempts t1) \<and> (\<forall>x \<in> set (tr_attempts t1). fst x = i)
         \<and> length (tr_attempts t1) + Suc a \<le> Suc pinned_max_attempts
         \<and> (tr_end t1 = None \<longrightarrow>
              answers W i (snd (last (tr_attempts t1))) \<and> tr_attempts t1 \<noteq> [])"
        using 1(1) [OF att [symmetric] refl Absorbed _ _ t1(1)] True by simp
      then show ?thesis using t1(2) c by (auto simp: silent_before_Cons)
    qed
  qed
qed

text \<open>What is known of a run down a list of entries.\<close>

definition chain_run_ok :: "'c world \<Rightarrow> nat list \<Rightarrow> nat list \<Rightarrow> 'c trace \<Rightarrow> bool" where
  "chain_run_ok W before is t =
     (silent_before (tr_attempts t) \<and> prefix (map fst (tr_attempts t)) is
      \<and> (case tr_end t of
           None \<Rightarrow> tr_attempts t \<noteq> [] \<and>
             answers W (fst (last (tr_attempts t))) (snd (last (tr_attempts t)))
         | Some (AllFailed fs) \<Rightarrow> map af_entry fs = before @ is \<and> map fst (tr_attempts t) = is
         | Some (RejectModel fs) \<Rightarrow> map af_entry fs = before @ is \<and> map fst (tr_attempts t) = is
             \<and> (\<forall>f \<in> set fs. af_reason f = RsModelNotFound)
         | _ \<Rightarrow> True))"

lemma try_attempts:
  "try_entries W cool opts is n fs ch = (t, ch2) \<Longrightarrow> chain_run_ok W (map af_entry fs) is t"
proof (induction W cool opts "is" n fs ch arbitrary: t ch2 rule: try_entries.induct)
  case (1 W cool opts n fs ch)
  then show ?case by (auto simp: chain_run_ok_def)
next
  case (2 W cool opts i rest n fs ch)
  show ?case
  proof (cases "n > 0 \<and> w_stop W n")
    case True
    with 2(2) show ?thesis by (auto simp: chain_run_ok_def)
  next
    case False
    obtain chunks v ch1 where att: "attempt W n i opts ch = (chunks, v, ch1)"
      by (metis prod_cases3)
    show ?thesis
    proof (cases v)
      case Succeeded
      then show ?thesis
        using 2(2) att False attempt_succeeded [of W n i opts ch chunks ch1]
        by (auto simp: chain_run_ok_def)
    next
      case (Rethrown e)
      then show ?thesis using 2(2) att False by (auto simp: chain_run_ok_def)
    next
      case (Absorbed f)
      have c: "chunks = []" "af_entry f = i" using attempt_absorbed att Absorbed by blast+
      let ?rep = "case rest of [] \<Rightarrow> (i, GiveUp, None)
        | j # _ \<Rightarrow> (i, if cool j \<noteq> None then RetryCooling else NextEntry, Some j)"
      obtain t1 where t1: "try_entries W cool opts rest (Suc n) (fs @ [f\<lparr>af_cooling := cool i\<rparr>]) ch1 = (t1, ch2)"
        "t = after_attempt i chunks [?rep] t1"
        using 2(2) att Absorbed False by (auto simp: Let_def split: prod.splits)
      have "chain_run_ok W (map af_entry (fs @ [f\<lparr>af_cooling := cool i\<rparr>])) rest t1"
        using 2(1) [OF False att [symmetric] refl Absorbed refl t1(1)] by simp
      then show ?thesis
        using t1(2) c
        by (auto simp: chain_run_ok_def silent_before_Cons split: option.splits chain_error.splits)
    qed
  qed
qed

lemma try_order_perm: "distinct (try_order now ch) \<and> set (try_order now ch) = {..<length (ch_entries ch)}"
  by (auto simp: try_order_def Let_def)

section \<open>Properties\<close>

text \<open>A chain of two: the first entry is rate limited, the second answers.\<close>

definition demo_chain :: chain where
  "demo_chain = \<lparr>ch_entries =
     [\<lparr>ce_key = ''a'', ce_name = ''a'', ce_model = ''m1'', ce_cooldown_until = 0, ce_last = None\<rparr>,
      \<lparr>ce_key = ''b'', ce_name = ''b'', ce_model = ''m2'', ce_cooldown_until = 50, ce_last = None\<rparr>],
     ch_cooldown_ms = 60000\<rparr>"

definition demo_error :: provider_error where
  "demo_error = \<lparr>pe_message = ''429 Too Many Requests'', pe_status = NumberValue 429,
     pe_status_code = OtherValue, pe_retry_after = None\<rparr>"

definition demo_world :: "string world" where
  "demo_world = \<lparr>w_call = (\<lambda>n i ov. if i = 0 then ([], Some demo_error) else ([''hi''], None)),
     w_aborted = (\<lambda>_. False), w_clock = (\<lambda>_. 7), w_stop = (\<lambda>_. False), w_wake = (\<lambda>_. False)\<rparr>"

definition demo_call :: call_opts where
  "demo_call = \<lparr>co_scope = None, co_model = None\<rparr>"





end
