(* ===== verification/ToolNames.thy ===== *)
theory ToolNames
  imports Prelude "HOL-Library.Word"
begin

unbundle bit_operations_syntax

text \<open>
  Provider-safe names of MCP tools (the second half of packages/core/src/tool-registry.ts): the
  \<open>mcp__<server>__<tool>\<close> convention, its reader, and the rewriting of halves that do not conform.
  A character is a code unit up to 255; the 32-bit FNV-1a hash is computed on words, where
  \<open>Math.imul\<close> and \<open>>>> 0\<close> are the wrap-around product.
\<close>

definition name_char :: "char \<Rightarrow> bool" where
  "name_char c =
     (digit c \<or> c = CHR ''_'' \<or> c = CHR ''-'' \<or> (65 \<le> (of_char c :: nat) \<and> (of_char c :: nat) \<le> 90)
       \<or> (97 \<le> (of_char c :: nat) \<and> (of_char c :: nat) \<le> 122))"

text \<open>\<open>PROVIDER_TOOL_NAME_RE\<close>.\<close>

definition provider_safe :: "string \<Rightarrow> bool" where
  "provider_safe s = (s \<noteq> [] \<and> length s \<le> 64 \<and> list_all name_char s)"

definition max_server_segment :: nat where
  "max_server_segment = 40"

definition fnv1a :: "string \<Rightarrow> 32 word" where
  "fnv1a s = foldl (\<lambda>h c. (h XOR of_nat (of_char c)) * 0x01000193) 0x811c9dc5 s"

definition hex_digit :: "nat \<Rightarrow> char" where
  "hex_digit n = (if n < 10 then char_of (48 + n) else char_of (87 + n))"

definition fnv1a_hex :: "string \<Rightarrow> string" where
  "fnv1a_hex s =
     map (\<lambda>i. hex_digit (unat (drop_bit (4 * i) (fnv1a s)) mod 16)) [7, 6, 5, 4, 3, 2, 1, 0]"

text \<open>\<open>replace(/[^A-Za-z0-9_-]+/g, '_')\<close>.\<close>

function fold_to_charset :: "string \<Rightarrow> string" where
  "fold_to_charset [] = []"
| "fold_to_charset (c # cs) =
     (if name_char c then c # fold_to_charset cs
      else CHR ''_'' # fold_to_charset (dropWhile (\<lambda>x. \<not> name_char x) cs))"
  by pat_completeness auto
termination
  by (relation "measure length") (auto simp: le_imp_less_Suc length_dropWhile_le)

text \<open>\<open>replace(/_{2,}/g, '_')\<close>.\<close>

fun squeeze :: "string \<Rightarrow> string" where
  "squeeze [] = []"
| "squeeze [c] = [c]"
| "squeeze (c # d # cs) =
     (if c = CHR ''_'' \<and> d = CHR ''_'' then squeeze (d # cs) else c # squeeze (d # cs))"

definition trim_underscores :: "string \<Rightarrow> string" where
  "trim_underscores s =
     rev (dropWhile (\<lambda>c. c = CHR ''_'') (rev (dropWhile (\<lambda>c. c = CHR ''_'') s)))"

definition verbatim_server :: "string \<Rightarrow> bool" where
  "verbatim_server s =
     (s \<noteq> [] \<and> list_all name_char s \<and> length s \<le> max_server_segment
       \<and> \<not> contains s ''__'' \<and> \<not> ends_with s ''_'')"

definition mcp_server_segment :: "string \<Rightarrow> string" where
  "mcp_server_segment server =
     (if verbatim_server server then server
      else
        (let suffix = ''-'' @ fnv1a_hex server;
             folded = trim_underscores
               (take (max_server_segment - length suffix) (squeeze (fold_to_charset server)))
         in (if folded = [] then ''s'' else folded) @ suffix))"

definition mcp_tool_prefix :: "string \<Rightarrow> string" where
  "mcp_tool_prefix server = ''mcp__'' @ mcp_server_segment server @ ''__''"

definition mcp_tool_name :: "string \<Rightarrow> string \<Rightarrow> string" where
  "mcp_tool_name server tool =
     (let raw = mcp_tool_prefix server @ tool
      in if provider_safe raw then raw
         else
           (let suffix = ''-'' @ fnv1a_hex tool;
                budget = 64 - length (mcp_tool_prefix server) - length suffix
            in mcp_tool_prefix server @ take budget (fold_to_charset tool) @ suffix))"

text \<open>\<open>split('__')\<close>.\<close>

fun split_double :: "string \<Rightarrow> string list" where
  "split_double [] = [[]]"
| "split_double [c] = [[c]]"
| "split_double (c # d # cs) =
     (if c = CHR ''_'' \<and> d = CHR ''_'' then [] # split_double cs
      else (case split_double (d # cs) of [] \<Rightarrow> [[c]] | p # ps \<Rightarrow> (c # p) # ps))"

definition mcp_server_name :: "string \<Rightarrow> string option" where
  "mcp_server_name name =
     (if \<not> starts_with name ''mcp__'' then None
      else (case split_double name of _ # s # _ \<Rightarrow> Some s | _ \<Rightarrow> None))"

text \<open>\<open>split('__').slice(2).join('__')\<close>.\<close>

definition bare_tool_name :: "string \<Rightarrow> string" where
  "bare_tool_name name = join_with ''__'' (drop 2 (split_double name))"

section \<open>Underscores\<close>

text \<open>No two adjacent underscores.\<close>

definition single :: "string \<Rightarrow> bool" where
  "single s = successively (\<lambda>a b. \<not> (a = CHR ''_'' \<and> b = CHR ''_'')) s"

lemma single_simps [simp]:
  "single []"
  "single (c # s) \<longleftrightarrow> single s \<and> (s = [] \<or> c \<noteq> CHR ''_'' \<or> hd s \<noteq> CHR ''_'')"
  by (auto simp: single_def successively_Cons)

lemma single_append [simp]:
  "single (s @ t) \<longleftrightarrow>
     single s \<and> single t \<and> (s = [] \<or> t = [] \<or> last s \<noteq> CHR ''_'' \<or> hd t \<noteq> CHR ''_'')"
  by (auto simp: single_def successively_append_iff)

lemma contains_double: "contains s ''__'' \<longleftrightarrow> \<not> single s"
proof (induction s)
  case (Cons c s)
  then show ?case by (cases s) (auto simp: starts_with_def)
qed simp

lemma ends_underscore: "ends_with s ''_'' \<longleftrightarrow> s \<noteq> [] \<and> last s = CHR ''_''"
proof (cases s rule: rev_cases)
  case (snoc ys y)
  then show ?thesis by (simp add: ends_with_def)
qed (simp add: ends_with_def)

lemma squeeze_hd: "s \<noteq> [] \<Longrightarrow> squeeze s \<noteq> [] \<and> hd (squeeze s) = hd s"
  by (induction s rule: squeeze.induct) auto

lemma squeeze_single: "single (squeeze s)"
proof (induction s rule: squeeze.induct)
  case (3 c d cs)
  then show ?case
    using squeeze_hd [of "d # cs"] by (cases "squeeze (d # cs)") auto
qed simp_all

lemma squeeze_set: "set (squeeze s) \<subseteq> set s"
  by (induction s rule: squeeze.induct) auto

lemma fold_to_charset_chars: "list_all name_char (fold_to_charset s)"
  by (induction s rule: fold_to_charset.induct) (auto simp: name_char_def)

lemma single_take: "single s \<Longrightarrow> single (take n s)"
  by (metis append_take_drop_id single_append)

lemma single_dropWhile: "single s \<Longrightarrow> single (dropWhile P s)"
  by (metis single_append takeWhile_dropWhile_id)

lemma single_rev: "single (rev s) = single s"
  by (induction s) (auto simp: last_rev)

lemma trim_single: "single s \<Longrightarrow> single (trim_underscores s)"
  unfolding trim_underscores_def by (metis single_dropWhile single_rev)

lemma trim_last: "trim_underscores s \<noteq> [] \<Longrightarrow> last (trim_underscores s) \<noteq> CHR ''_''"
  unfolding trim_underscores_def
  by (metis (mono_tags, lifting) hd_dropWhile last_rev rev_is_Nil_conv)

lemma trim_set: "set (trim_underscores s) \<subseteq> set s"
  unfolding trim_underscores_def by (auto dest!: set_dropWhileD)

lemma trim_length: "length (trim_underscores s) \<le> length s"
  unfolding trim_underscores_def
  by (metis length_dropWhile_le length_rev order_trans)

lemma hex_digit_char:
  assumes "n < 16"
  shows "name_char (hex_digit n) \<and> hex_digit n \<noteq> CHR ''_''"
proof -
  have v: "(of_char (hex_digit n) :: nat) = (if n < 10 then 48 + n else 87 + n)"
    using assms by (simp add: hex_digit_def)
  then have "(of_char (hex_digit n) :: nat) \<noteq> of_char (CHR ''_'')" using assms by auto
  then show ?thesis using v assms by (auto simp: name_char_def digit_def)
qed

lemma fnv1a_hex_chars:
  "length (fnv1a_hex s) = 8" "list_all (\<lambda>c. name_char c \<and> c \<noteq> CHR ''_'') (fnv1a_hex s)"
  by (simp_all add: fnv1a_hex_def hex_digit_char)

lemma single_no_underscore: "\<forall>c \<in> set s. c \<noteq> CHR ''_'' \<Longrightarrow> single s"
  by (induction s) auto

lemma segment_verbatim: "verbatim_server (mcp_server_segment server)"
proof (cases "verbatim_server server")
  case False
  let ?h = "fnv1a_hex server"
  let ?f = "trim_underscores (take (max_server_segment - 9) (squeeze (fold_to_charset server)))"
  let ?b = "if ?f = [] then ''s'' else ?f"
  have seg: "mcp_server_segment server = ?b @ ''-'' @ ?h"
    using False by (simp add: mcp_server_segment_def Let_def fnv1a_hex_chars(1))
  have "set ?f \<subseteq> set (fold_to_charset server)"
    using trim_set squeeze_set set_take_subset by (metis subset_trans)
  then have chars: "list_all name_char ?b"
    using fold_to_charset_chars [of server] by (auto simp: list_all_iff name_char_def)
  have len: "length ?b \<le> 31"
    using trim_length [of "take 31 (squeeze (fold_to_charset server))"]
    by (auto simp: max_server_segment_def intro: order_trans)
  have one: "single ?b"
    by (auto intro: trim_single single_take squeeze_single)
  have "?h \<noteq> []" using fnv1a_hex_chars(1) [of server] by auto
  then have last: "last ?h \<noteq> CHR ''_''" "single ?h" "list_all name_char ?h"
    using fnv1a_hex_chars(2) [of server] last_in_set [of ?h]
    by (auto simp: list_all_iff intro: single_no_underscore)
  have "single (?b @ ''-'' @ ?h)"
    using one last(2) by auto
  moreover have "last (?b @ ''-'' @ ?h) \<noteq> CHR ''_''"
    using last(1) \<open>?h \<noteq> []\<close> by simp
  moreover have "list_all name_char (?b @ ''-'' @ ?h)"
    using chars last(3) by (simp add: name_char_def)
  ultimately show ?thesis
    unfolding seg using len fnv1a_hex_chars(1) [of server]
    by (simp only: verbatim_server_def contains_double ends_underscore max_server_segment_def) simp
qed (simp add: mcp_server_segment_def)

lemma split_double_segment:
  "single seg \<Longrightarrow> \<not> (seg \<noteq> [] \<and> last seg = CHR ''_'') \<Longrightarrow>
     split_double (seg @ ''__'' @ t) = seg # split_double t"
  by (induction seg rule: split_double.induct) (auto split: list.splits)

section \<open>Properties\<close>

lemma prefix_length: "length (mcp_tool_prefix server) \<le> 47"
  using segment_verbatim [of server] by (simp add: mcp_tool_prefix_def verbatim_server_def max_server_segment_def)

lemma prefix_chars: "list_all name_char (mcp_tool_prefix server)"
  using segment_verbatim [of server] by (simp add: mcp_tool_prefix_def verbatim_server_def name_char_def)

lemma tool_name_prefix: "\<exists>half. mcp_tool_name server tool = mcp_tool_prefix server @ half"
  by (auto simp: mcp_tool_name_def Let_def)

lemma server_name_prefix: "mcp_server_name (mcp_tool_prefix server @ half) = Some (mcp_server_segment server)"
proof -
  let ?seg = "mcp_server_segment server"
  have "single ?seg" "\<not> (?seg \<noteq> [] \<and> last ?seg = CHR ''_'')"
    using segment_verbatim [of server] by (auto simp: verbatim_server_def contains_double ends_underscore)
  then have "split_double (?seg @ ''__'' @ half) = ?seg # split_double half"
    by (rule split_double_segment)
  moreover have "split_double (''mcp'' @ ''__'' @ (?seg @ ''__'' @ half)) = ''mcp'' # split_double (?seg @ ''__'' @ half)"
    by (rule split_double_segment) simp_all
  ultimately have "split_double (mcp_tool_prefix server @ half) = ''mcp'' # ?seg # split_double half"
    by (simp add: mcp_tool_prefix_def)
  moreover have "starts_with (mcp_tool_prefix server @ half) ''mcp__''"
    by (simp add: mcp_tool_prefix_def starts_with_def)
  ultimately show ?thesis by (simp add: mcp_server_name_def)
qed

lemma mcp_segment_reads: "mcp_server_name (mcp_tool_name server tool) = Some (mcp_server_segment server)"
  using tool_name_prefix [of server tool] by (auto simp: server_name_prefix)

text \<open>
  whatever the server and the tool are called, the registry name of an MCP tool is one every
  provider accepts, reads back to the server's segment, and rewriting a segment leaves it as it is.
\<close>
theorem mcp_names_safe:
  "provider_safe (mcp_tool_name server tool)
   \<and> mcp_server_name (mcp_tool_name server tool) = Some (mcp_server_segment server)
   \<and> mcp_server_segment (mcp_server_segment server) = mcp_server_segment server"
proof (intro conjI)
  show "mcp_server_segment (mcp_server_segment server) = mcp_server_segment server"
    using segment_verbatim [of server] by (simp add: mcp_server_segment_def)
  show "mcp_server_name (mcp_tool_name server tool) = Some (mcp_server_segment server)"
    by (rule mcp_segment_reads)
  show "provider_safe (mcp_tool_name server tool)"
  proof (cases "provider_safe (mcp_tool_prefix server @ tool)")
    case False
    let ?p = "mcp_tool_prefix server"
    let ?h = "take (64 - length ?p - 9) (fold_to_charset tool)"
    have "list_all name_char ?h"
      using fold_to_charset_chars [of tool] set_take_subset by (fastforce simp: list_all_iff)
    moreover have "list_all name_char (fnv1a_hex tool)"
      using fnv1a_hex_chars(2) [of tool] by (auto simp: list_all_iff)
    ultimately have "list_all name_char (?p @ ?h @ ''-'' @ fnv1a_hex tool)"
      using prefix_chars [of server] by (simp add: name_char_def)
    moreover have "length (?p @ ?h @ ''-'' @ fnv1a_hex tool) \<le> 64"
      using prefix_length [of server] fnv1a_hex_chars(1) [of tool] by simp
    ultimately show ?thesis
      using False by (simp add: mcp_tool_name_def Let_def fnv1a_hex_chars(1) provider_safe_def)
  qed (simp add: mcp_tool_name_def Let_def)
qed

end
