(* ===== verification/ToolRegistry.thy ===== *)
theory ToolRegistry
  imports Complex_Main ToolNames
begin

text \<open>
  The tool registry (packages/core/src/tool-registry.ts): registration, the filters that gate a tool,
  the reach of a personality, the result cache, and the parallel execution of a batch. Arguments of
  a call are their JSON text. What is outside is an argument: the transport's answer to a dispatch,
  the reducers, the invocation filters' wrapper, and the order in which the calls of a batch finish.
  Within a batch every call runs to its dispatch before any of them continues.
\<close>

section \<open>Tools and results\<close>

record tool_caps =
  cp_network :: bool
  cp_secrets :: bool
  cp_storage :: bool
  cp_fs_reach :: bool
  cp_process :: bool
  cp_attachments :: bool

definition needs_backends :: "tool_caps option \<Rightarrow> bool" where
  "needs_backends caps =
     (case caps of
        None \<Rightarrow> False
      | Some c \<Rightarrow> cp_network c \<or> cp_secrets c \<or> cp_storage c \<or> cp_fs_reach c \<or> cp_process c
          \<or> cp_attachments c)"

text \<open>\<open>cache\<close>: absent, or its options (\<open>true\<close> is no options).\<close>

record cache_opts =
  cf_key :: "(string \<Rightarrow> string) option"
  cf_ttl :: "int option"

record tool =
  tl_name :: string
  tl_description :: string
  tl_schema :: string
  tl_toolset :: "string option"
  tl_available :: "bool option"
  tl_always :: bool
  tl_cache :: "cache_opts option"
  tl_max_result :: "nat option"
  tl_caps :: "tool_caps option"

record tool_entry =
  te_tool :: tool
  te_plugin :: "string option"

datatype result_code = NotAvailable | ExecutionFailed | InputInvalid

text \<open>A result: its text, with the evidence and the cost beside it, or an error.\<close>

datatype tool_result =
    ToolOk string "string option" "rat option"
  | ToolError result_code string

record filter_opts =
  fo_servers :: "string list option"
  fo_plugins :: "string list option"
  fo_tools :: "(string \<times> string list) list option"
  fo_exclude :: "string list option"

section \<open>Filters\<close>

definition names_server :: "string \<Rightarrow> string \<Rightarrow> bool" where
  "names_server config segment = (config = segment \<or> mcp_server_segment config = segment)"

definition lists_server :: "string list \<Rightarrow> string \<Rightarrow> bool" where
  "lists_server allowed segment = (\<exists>s \<in> set allowed. names_server s segment)"

definition allowed_tools_for ::
  "(string \<times> string list) list \<Rightarrow> string \<Rightarrow> (string \<times> string list) option" where
  "allowed_tools_for allowed segment = find (\<lambda>x. names_server (fst x) segment) allowed"

definition lists_tool :: "string \<times> string list \<Rightarrow> string \<Rightarrow> string \<Rightarrow> bool" where
  "lists_tool e bare name = (\<exists>t \<in> set (snd e). t = bare \<or> mcp_tool_name (fst e) t = name)"

definition is_mcp :: "string \<Rightarrow> bool" where
  "is_mcp name = starts_with name ''mcp__''"

definition passes_filter :: "tool_entry \<Rightarrow> filter_opts option \<Rightarrow> bool" where
  "passes_filter e opts =
     (case opts of
        None \<Rightarrow> True
      | Some F \<Rightarrow>
          (let name = tl_name (te_tool e); server = mcp_server_name name
           in \<not> (case fo_exclude F of None \<Rightarrow> False | Some xs \<Rightarrow> name \<in> set xs)
              \<and> (case (fo_servers F, server) of
                   (Some allowed, Some s) \<Rightarrow> lists_server allowed s
                 | _ \<Rightarrow> True)
              \<and> (case (fo_tools F, server) of
                   (Some allowed, Some s) \<Rightarrow>
                     (case allowed_tools_for allowed s of
                        None \<Rightarrow> True
                      | Some x \<Rightarrow> lists_tool x (bare_tool_name name) name)
                 | _ \<Rightarrow> True)
              \<and> (case (fo_plugins F, te_plugin e) of
                   (Some allowed, Some p) \<Rightarrow> p \<in> set allowed
                 | _ \<Rightarrow> True)))"

text \<open>The toolset gates built-in tools only, and not those always included.\<close>

definition passes_toolset :: "tool_entry \<Rightarrow> string list option \<Rightarrow> bool" where
  "passes_toolset e allowed =
     (is_mcp (tl_name (te_tool e)) \<or> te_plugin e \<noteq> None \<or> tl_always (te_tool e)
       \<or> (case allowed of None \<Rightarrow> True | Some ts \<Rightarrow> tl_name (te_tool e) \<in> set ts))"

definition tool_available :: "tool \<Rightarrow> bool" where
  "tool_available t = (case tl_available t of None \<Rightarrow> True | Some b \<Rightarrow> b)"

section \<open>Registration and listing\<close>

record cache_entry =
  cc_result :: tool_result
  cc_expires :: int

record registry =
  rg_tools :: "(string \<times> tool_entry) list"
  rg_cache :: "(string \<times> cache_entry) list"
  rg_backends :: bool

datatype register_error = ReservedName string

definition register_tool :: "tool \<Rightarrow> string option \<Rightarrow> registry \<Rightarrow> (register_error, registry) result" where
  "register_tool t plugin R =
     (if starts_with (tl_name t) ''_'' then Inl (ReservedName (tl_name t))
      else Inr (R\<lparr>rg_tools :=
        AList.update (tl_name t) \<lparr>te_tool = t, te_plugin = plugin\<rparr> (rg_tools R)\<rparr>))"

definition unregister_tool :: "string \<Rightarrow> registry \<Rightarrow> registry" where
  "unregister_tool name R = R\<lparr>rg_tools := AList.delete name (rg_tools R)\<rparr>"

definition get_tool :: "string \<Rightarrow> registry \<Rightarrow> tool option" where
  "get_tool name R = map_option te_tool (map_of (rg_tools R) name)"

definition available_entries :: "registry \<Rightarrow> tool_entry list" where
  "available_entries R = filter (\<lambda>e. tool_available (te_tool e)) (map snd (rg_tools R))"

definition get_for_toolset :: "string \<Rightarrow> registry \<Rightarrow> tool list" where
  "get_for_toolset ts R = filter (\<lambda>t. tl_toolset t = Some ts) (map te_tool (available_entries R))"

definition to_definitions ::
  "string list option \<Rightarrow> filter_opts option \<Rightarrow> registry \<Rightarrow> (string \<times> string \<times> string) list" where
  "to_definitions allowed F R =
     map (\<lambda>e. (tl_name (te_tool e), tl_description (te_tool e), tl_schema (te_tool e)))
       (filter (\<lambda>e. passes_toolset e allowed \<and> passes_filter e F) (available_entries R))"

text \<open>
  The names a personality reaches. The MCP branch compares the segment of the name with the
  configured names as they are written.
\<close>

record personality_reach =
  pr_toolset :: "string list option"
  pr_servers :: "string list option"
  pr_plugins :: "string list option"

definition reaches_tool :: "personality_reach \<Rightarrow> string \<times> tool_entry \<Rightarrow> bool" where
  "reaches_tool P = (\<lambda>(name, e).
     if \<not> is_mcp name \<and> te_plugin e = None
     then (case pr_toolset P of None \<Rightarrow> True | Some ts \<Rightarrow> name \<in> set ts)
     else if is_mcp name
     then (case (mcp_server_name name, pr_servers P) of
             (Some s, Some allowed) \<Rightarrow> s \<noteq> [] \<and> s \<in> set allowed
           | _ \<Rightarrow> False)
     else (case (te_plugin e, pr_plugins P) of
             (Some p, Some allowed) \<Rightarrow> p \<noteq> [] \<and> p \<in> set allowed
           | _ \<Rightarrow> False))"

definition tool_names_for_personality :: "personality_reach \<Rightarrow> registry \<Rightarrow> string list" where
  "tool_names_for_personality P R = map fst (filter (reaches_tool P) (rg_tools R))"

section \<open>The result cache\<close>

record tool_ctx =
  cx_session :: string
  cx_personality :: "string option"
  cx_budget :: nat
  cx_dry_run :: bool
  cx_aborted :: bool

definition cache_key :: "tool \<Rightarrow> cache_opts \<Rightarrow> string \<Rightarrow> tool_ctx \<Rightarrow> string" where
  "cache_key t C args cx =
     tl_name t @ '':'' @ cx_session cx @ '':''
       @ (case cx_personality cx of None \<Rightarrow> [] | Some p \<Rightarrow> p) @ '':''
       @ (case cf_key C of Some f \<Rightarrow> f args | None \<Rightarrow> args)"

definition cache_get ::
  "int \<Rightarrow> tool \<Rightarrow> string \<Rightarrow> tool_ctx \<Rightarrow> registry \<Rightarrow> tool_result option \<times> registry" where
  "cache_get now t args cx R =
     (case tl_cache t of
        None \<Rightarrow> (None, R)
      | Some C \<Rightarrow>
          (let key = cache_key t C args cx
           in case map_of (rg_cache R) key of
                None \<Rightarrow> (None, R)
              | Some x \<Rightarrow>
                  if now > cc_expires x then (None, R\<lparr>rg_cache := AList.delete key (rg_cache R)\<rparr>)
                  else (Some (cc_result x), R)))"

definition max_cache_entries :: nat where
  "max_cache_entries = 1000"

definition cache_set :: "int \<Rightarrow> tool \<Rightarrow> string \<Rightarrow> tool_result \<Rightarrow> tool_ctx \<Rightarrow> registry \<Rightarrow> registry" where
  "cache_set now t args r cx R =
     (case tl_cache t of
        None \<Rightarrow> R
      | Some C \<Rightarrow>
          (let expires = now + (case cf_ttl C of Some ttl \<Rightarrow> ttl | None \<Rightarrow> 300000);
               m = AList.update (cache_key t C args cx) \<lparr>cc_result = r, cc_expires = expires\<rparr> (rg_cache R)
           in R\<lparr>rg_cache := (if length m > max_cache_entries then AList.delete (fst (hd m)) m else m)\<rparr>))"

section \<open>Execution\<close>

record tool_call =
  tk_id :: string
  tk_name :: string
  tk_args :: string

text \<open>
  An invocation filter with its answers: \<open>before\<close> may settle the call, \<open>after\<close> may replace the
  result, either may throw.
\<close>

datatype name_filter = AnyName | NameIs string | NameIn "string list"

record invocation_filter =
  vf_name :: name_filter
  vf_toolset :: "string option"
  vf_before :: "(string \<Rightarrow> (string, tool_result option) result) option"
  vf_after :: "(tool_result \<Rightarrow> (string, tool_result) result) option"

text \<open>
  What the batch asks the world: the invocation filters, the dry-run synthesis, the transport's answer to a dispatch with its
  capped budget (or its throw), and the reducer of a tool (or its throw).
\<close>

record tool_world =
  tw_filters :: "invocation_filter list"
  tw_dry :: "string \<Rightarrow> string \<Rightarrow> tool_result"
  tw_dispatch :: "tool_call \<Rightarrow> nat \<Rightarrow> (string, tool_result) result"
  tw_reduce :: "string \<Rightarrow> (tool_result \<Rightarrow> string \<Rightarrow> tool_result option) option"

definition aborted_tool_result :: string where
  "aborted_tool_result = ''Aborted '' @ em_dash @ '' the turn was cancelled before this tool ran.''"

definition refuse :: "string \<Rightarrow> tool_result" where
  "refuse msg = ToolError NotAvailable msg"

text \<open>The gates of \<open>runCall\<close> before the cache, in order.\<close>

definition gate_call ::
  "tool_call \<Rightarrow> string list option \<Rightarrow> filter_opts option \<Rightarrow> registry \<Rightarrow> (tool_result, tool_entry) result" where
  "gate_call c allowed F R =
     (let name = tk_name c
      in case map_of (rg_tools R) name of
           None \<Rightarrow> Inl (refuse (''Unknown tool: '' @ name))
         | Some e \<Rightarrow>
             if case F of Some f \<Rightarrow> (case fo_exclude f of Some xs \<Rightarrow> name \<in> set xs | None \<Rightarrow> False)
                | None \<Rightarrow> False
             then Inl (refuse (''Tool '' @ name @ '' is not available on this surface''))
             else if \<not> (is_mcp name \<or> te_plugin e \<noteq> None) \<and> \<not> tl_always (te_tool e)
                \<and> (case allowed of Some ts \<Rightarrow> name \<notin> set ts | None \<Rightarrow> False)
             then Inl (refuse (''Tool '' @ name @ '' is not permitted for this personality''))
             else if \<not> passes_filter e F
             then Inl (refuse (''Tool '' @ name @ '' is not permitted for this personality''))
             else if \<not> tool_available (te_tool e)
             then Inl (refuse (''Tool '' @ name @ '' is not currently available''))
             else Inr e)"

text \<open>A call up to its dispatch: settled already, or waiting with its tool and its capped budget.\<close>

datatype begun = Settled tool_result | Waiting tool nat

definition begin_call ::
  "tool_world \<Rightarrow> int \<Rightarrow> tool_ctx \<Rightarrow> nat \<Rightarrow> string list option \<Rightarrow> filter_opts option \<Rightarrow>
     tool_call \<Rightarrow> registry \<Rightarrow> begun \<times> registry" where
  "begin_call W now cx budget allowed F c R =
     (case gate_call c allowed F R of
        Inl r \<Rightarrow> (Settled r, R)
      | Inr e \<Rightarrow>
          (case cache_get now (te_tool e) (tk_args c) cx R of
             (Some r, R1) \<Rightarrow> (Settled r, R1)
           | (None, R1) \<Rightarrow>
               if needs_backends (tl_caps (te_tool e)) \<and> \<not> rg_backends R1
               then (Settled (refuse (''Tool '' @ tk_name c
                      @ '' declares capabilities but no capability backends are configured'')), R1)
               else if cx_dry_run cx then (Settled (tw_dry W (tk_name c) (tk_args c)), R1)
               else if cx_aborted cx then (Settled (ToolError ExecutionFailed aborted_tool_result), R1)
               else (Waiting (te_tool e)
                      (min budget (case tl_max_result (te_tool e) of Some m \<Rightarrow> m | None \<Rightarrow> budget)), R1)))"

definition trim_note :: "nat \<Rightarrow> string" where
  "trim_note n = [CHR 0x0A] @ ''[truncated '' @ em_dash @ '' '' @ show_nat n @ '' chars total]''"

definition matches_filter :: "string \<Rightarrow> tool \<Rightarrow> invocation_filter \<Rightarrow> bool" where
  "matches_filter name t f =
     ((case vf_name f of AnyName \<Rightarrow> True | NameIs n \<Rightarrow> n = [] \<or> n = name | NameIn ns \<Rightarrow> name \<in> set ns)
       \<and> (case vf_toolset f of None \<Rightarrow> True | Some ts \<Rightarrow> ts = [] \<or> tl_toolset t = Some ts))"

fun before_filters :: "invocation_filter list \<Rightarrow> string \<Rightarrow> (string, tool_result option) result" where
  "before_filters [] args = Inr None"
| "before_filters (f # fs) args =
     (case vf_before f of
        None \<Rightarrow> before_filters fs args
      | Some g \<Rightarrow> ebind (g args) (\<lambda>r. if r \<noteq> None then Inr r else before_filters fs args))"

fun after_filters :: "invocation_filter list \<Rightarrow> tool_result \<Rightarrow> (string, tool_result) result" where
  "after_filters [] r = Inr r"
| "after_filters (f # fs) r =
     (case vf_after f of
        None \<Rightarrow> after_filters fs r
      | Some g \<Rightarrow> ebind (g r) (after_filters fs))"

definition apply_filters ::
  "invocation_filter list \<Rightarrow> tool \<Rightarrow> tool_call \<Rightarrow> (string, tool_result) result \<Rightarrow> (string, tool_result) result" where
  "apply_filters fs t c run =
     (let ms = filter (matches_filter (tk_name c) t) fs
      in ebind (before_filters ms (tk_args c)) (\<lambda>short.
           ebind (case short of Some r \<Rightarrow> Inr r | None \<Rightarrow> run) (after_filters ms)))"

text \<open>The rest of the call, once the dispatch has answered.\<close>

definition finish_call ::
  "tool_world \<Rightarrow> int \<Rightarrow> tool_ctx \<Rightarrow> tool_call \<Rightarrow> tool \<Rightarrow> nat \<Rightarrow> registry \<Rightarrow> tool_result \<times> registry" where
  "finish_call W now cx c t cap R =
     (case apply_filters (tw_filters W) t c (tw_dispatch W c cap) of
        Inl msg \<Rightarrow> (ToolError ExecutionFailed msg, R)
      | Inr raw \<Rightarrow>
          (let r = (case tw_reduce W (tk_name c) of
                      None \<Rightarrow> raw
                    | Some f \<Rightarrow> (case f raw (tk_args c) of Some x \<Rightarrow> x | None \<Rightarrow> raw))
           in case r of
                ToolOk v st cost \<Rightarrow>
                  if length v > cap
                  then (ToolOk (take cap v @ trim_note (length v)) st cost, R)
                  else (r, cache_set now t (tk_args c) r cx R)
              | ToolError code msg \<Rightarrow> (r, cache_set now t (tk_args c) r cx R)))"

fun begin_all ::
  "tool_world \<Rightarrow> int \<Rightarrow> tool_ctx \<Rightarrow> nat \<Rightarrow> string list option \<Rightarrow> filter_opts option \<Rightarrow>
     tool_call list \<Rightarrow> registry \<Rightarrow> (tool_call \<times> begun) list \<times> registry" where
  "begin_all W now cx budget allowed F [] R = ([], R)"
| "begin_all W now cx budget allowed F (c # cs) R =
     (case begin_call W now cx budget allowed F c R of
        (b, R1) \<Rightarrow>
          (case begin_all W now cx budget allowed F cs R1 of (bs, R2) \<Rightarrow> ((c, b) # bs, R2)))"

text \<open>\<open>order\<close> lists the positions of the waiting calls in the order their dispatches answer.\<close>

fun finish_all ::
  "tool_world \<Rightarrow> int \<Rightarrow> tool_ctx \<Rightarrow> nat list \<Rightarrow> (tool_call \<times> begun) list \<Rightarrow> registry \<Rightarrow>
     (tool_call \<times> begun) list \<times> registry" where
  "finish_all W now cx [] bs R = (bs, R)"
| "finish_all W now cx (i # is) bs R =
     (if i < length bs
      then (case bs ! i of
              (c, Waiting t cap) \<Rightarrow>
                (case finish_call W now cx c t cap R of
                   (r, R1) \<Rightarrow> finish_all W now cx is (bs[i := (c, Settled r)]) R1)
            | _ \<Rightarrow> finish_all W now cx is bs R)
      else finish_all W now cx is bs R)"

definition per_call_budget :: "nat \<Rightarrow> nat \<Rightarrow> nat" where
  "per_call_budget budget calls = budget div max calls 1"

definition execute_parallel ::
  "tool_world \<Rightarrow> int \<Rightarrow> int \<Rightarrow> tool_ctx \<Rightarrow> string list option \<Rightarrow> filter_opts option \<Rightarrow> nat list \<Rightarrow>
     tool_call list \<Rightarrow> registry \<Rightarrow> (tool_call \<times> begun) list \<times> registry" where
  "execute_parallel W start later cx allowed F order calls R =
     (case begin_all W start cx (per_call_budget (cx_budget cx) (length calls)) allowed F calls R of
        (bs, R1) \<Rightarrow> finish_all W later cx order bs R1)"

section \<open>Well-formed registries\<close>

text \<open>Each entry stands under its tool's name, once.\<close>

definition registry_ok :: "registry \<Rightarrow> bool" where
  "registry_ok R =
     (distinct (map fst (rg_tools R)) \<and> (\<forall>(name, e) \<in> set (rg_tools R). tl_name (te_tool e) = name)
       \<and> length (rg_cache R) \<le> max_cache_entries)"

lemma set_update_sub: "set (AList.update k v m) \<subseteq> insert (k, v) (set m)"
  by (induction m) auto

lemma register_ok: "registry_ok R \<Longrightarrow> register_tool t plugin R = Inr R' \<Longrightarrow> registry_ok R'"
  using set_update_sub [of "tl_name t" "\<lparr>te_tool = t, te_plugin = plugin\<rparr>" "rg_tools R"]
  by (auto simp: registry_ok_def register_tool_def distinct_update split: if_splits)

lemma update_length: "length (AList.update k v m) \<le> Suc (length m)"
  by (induction m) auto

lemma unregister_ok: "registry_ok R \<Longrightarrow> registry_ok (unregister_tool name R)"
  using distinct_delete [of "rg_tools R" name]
  by (auto simp: registry_ok_def unregister_tool_def AList.delete_eq)

lemma cache_get_tools [simp]: "rg_tools (snd (cache_get now t args cx R)) = rg_tools R"
  by (auto simp: cache_get_def Let_def split: option.splits)

lemma cache_set_tools [simp]: "rg_tools (cache_set now t args r cx R) = rg_tools R"
  by (auto simp: cache_set_def Let_def split: option.splits)

lemma cache_get_size: "length (rg_cache (snd (cache_get now t args cx R))) \<le> length (rg_cache R)"
  by (auto simp: cache_get_def Let_def length_delete_le split: option.splits)

lemma cache_set_size:
  assumes "length (rg_cache R) \<le> max_cache_entries"
  shows "length (rg_cache (cache_set now t args r cx R)) \<le> max_cache_entries"
proof (cases "tl_cache t")
  case (Some C)
  let ?m = "AList.update (cache_key t C args cx) \<lparr>cc_result = r, cc_expires = now +
    (case cf_ttl C of Some ttl \<Rightarrow> ttl | None \<Rightarrow> 300000)\<rparr> (rg_cache R)"
  have m: "length ?m \<le> Suc max_cache_entries"
    using update_length [of "cache_key t C args cx" _ "rg_cache R"] assms order_trans by fastforce
  show ?thesis
  proof (cases "length ?m > max_cache_entries")
    case True
    then obtain x xs where x: "?m = x # xs" by (cases ?m) auto
    have "length (AList.delete (fst x) (x # xs)) \<le> length xs"
      by (simp add: length_delete_le)
    then show ?thesis
      using True m x Some by (simp add: cache_set_def Let_def)
  next
    case False
    then show ?thesis using Some by (simp add: cache_set_def Let_def)
  qed
qed (use assms in \<open>simp add: cache_set_def\<close>)

section \<open>Batches\<close>

lemma gate_cong: "rg_tools R' = rg_tools R \<Longrightarrow> gate_call c allowed F R' = gate_call c allowed F R"
  by (simp add: gate_call_def)

lemma begin_call_frame:
  assumes "begin_call W now cx budget allowed F c R = (b, R')"
  shows "rg_tools R' = rg_tools R \<and> (registry_ok R \<longrightarrow> registry_ok R')
     \<and> (\<forall>r. gate_call c allowed F R = Inl r \<longrightarrow> b = Settled r)"
proof (cases "gate_call c allowed F R")
  case (Inr e)
  obtain hit R1 where g: "cache_get now (te_tool e) (tk_args c) cx R = (hit, R1)" by fastforce
  have R': "R' = R1"
    using assms Inr g by (auto simp: begin_call_def split: option.splits if_splits)
  show ?thesis
    using Inr cache_get_tools [of now "te_tool e" "tk_args c" cx R]
      cache_get_size [of now "te_tool e" "tk_args c" cx R] g unfolding R'
    by (auto simp: registry_ok_def)
qed (use assms in \<open>auto simp: begin_call_def\<close>)

lemma begin_all_frame:
  "begin_all W now cx budget allowed F calls R = (bs, R') \<Longrightarrow>
     map fst bs = calls \<and> rg_tools R' = rg_tools R \<and> (registry_ok R \<longrightarrow> registry_ok R')
     \<and> (\<forall>i < length calls. \<forall>r. gate_call (calls ! i) allowed F R = Inl r \<longrightarrow> snd (bs ! i) = Settled r)"
proof (induction calls arbitrary: R bs)
  case (Cons c calls)
  obtain b R1 bs1 where b: "begin_call W now cx budget allowed F c R = (b, R1)"
    and bs1: "begin_all W now cx budget allowed F calls R1 = (bs1, R')" and bs: "bs = (c, b) # bs1"
    using Cons.prems by (auto split: prod.splits)
  note f = begin_call_frame [OF b]
  from Cons.IH [OF bs1] f bs show ?case
    by (auto simp: nth_Cons gate_cong [of R1 R] split: nat.splits)
qed simp

lemma finish_call_frame:
  "finish_call W now cx c t cap R = (r, R') \<Longrightarrow> rg_tools R' = rg_tools R \<and> (registry_ok R \<longrightarrow> registry_ok R')"
  using cache_set_size [of R now t "tk_args c" _ cx]
  by (auto simp: finish_call_def Let_def registry_ok_def split: sum.splits tool_result.splits if_splits)

lemma finish_all_frame:
  "finish_all W now cx order bs R = (bs', R') \<Longrightarrow>
     map fst bs' = map fst bs \<and> (registry_ok R \<longrightarrow> registry_ok R')
     \<and> (\<forall>i < length bs. \<forall>r. snd (bs ! i) = Settled r \<longrightarrow> snd (bs' ! i) = Settled r)
     \<and> (\<forall>i < length bs. i \<in> set order \<longrightarrow> (\<exists>r. snd (bs' ! i) = Settled r))"
proof (induction W now cx order bs R arbitrary: bs' R' rule: finish_all.induct)
  case (2 W now cx i "is" bs R)
  show ?case
  proof (cases "i < length bs")
    case False
    with 2 show ?thesis by auto
  next
    case i: True
    obtain c b where c: "bs ! i = (c, b)" by fastforce
    show ?thesis
    proof (cases b)
      case (Settled r)
      have "finish_all W now cx is bs R = (bs', R')"
        using 2(4) i c Settled by simp
      from 2(1) [OF i c [symmetric] Settled this] c Settled show ?thesis
        by (auto simp: nth_Cons split: if_splits)
    next
      case (Waiting t cap)
      obtain r R1 where r: "finish_call W now cx c t cap R = (r, R1)" by fastforce
      have "finish_all W now cx is (bs[i := (c, Settled r)]) R1 = (bs', R')"
        using 2(4) i c Waiting r by simp
      from 2(2) [OF i c [symmetric] Waiting r [symmetric] this]
      have ih: "map fst bs' = map fst (bs[i := (c, Settled r)])" "registry_ok R1 \<longrightarrow> registry_ok R'"
        "\<forall>j < length bs. \<forall>x. snd (bs[i := (c, Settled r)] ! j) = Settled x \<longrightarrow> snd (bs' ! j) = Settled x"
        "\<forall>j < length bs. j \<in> set is \<longrightarrow> (\<exists>x. snd (bs' ! j) = Settled x)" by auto
      have "map fst (bs[i := (c, Settled r)]) = map fst bs"
        using i c by (metis fst_conv list_update_id map_update)
      moreover have "snd (bs' ! j) = Settled x" if "j < length bs" "snd (bs ! j) = Settled x" for j x
      proof -
        have "j \<noteq> i" using that(2) c Waiting by auto
        then show ?thesis using ih(3) that by simp
      qed
      moreover have "snd (bs' ! i) = Settled r" using ih(3) i by simp
      ultimately show ?thesis using ih(1,2,4) finish_call_frame [OF r] by auto
    qed
  qed
qed simp

section \<open>Properties\<close>


definition demo_tool :: tool where
  "demo_tool = \<lparr>tl_name = ''read_file'', tl_description = [], tl_schema = [], tl_toolset = None,
     tl_available = None, tl_always = False,
     tl_cache = Some \<lparr>cf_key = None, cf_ttl = None\<rparr>, tl_max_result = None, tl_caps = None\<rparr>"

definition demo_registry :: registry where
  "demo_registry = \<lparr>rg_tools = [(''read_file'', \<lparr>te_tool = demo_tool, te_plugin = None\<rparr>)],
     rg_cache = [], rg_backends = False\<rparr>"

definition demo_file_call :: tool_call where
  "demo_file_call = \<lparr>tk_id = ''1'', tk_name = ''read_file'', tk_args = ''{}''\<rparr>"

lemma demo_registry_ok: "registry_ok demo_registry"
  by (simp add: registry_ok_def demo_registry_def demo_tool_def)


text \<open>
  a parallel batch answers every call, in the order of the calls whatever order they finish in;
  a call its gates refuse gets exactly that refusal, and the cache stays within its thousand
  entries.
\<close>
theorem tools_batch_total:
  assumes "registry_ok R" "{..<length calls} \<subseteq> set order"
    and "execute_parallel W start later cx allowed F order calls R = (bs, R')"
  shows "map fst bs = calls \<and> registry_ok R'
     \<and> (\<forall>i < length calls. \<exists>r. snd (bs ! i) = Settled r
          \<and> (\<forall>x. gate_call (calls ! i) allowed F R = Inl x \<longrightarrow> r = x))"
proof -
  obtain bs1 R1 where b: "begin_all W start cx (per_call_budget (cx_budget cx) (length calls)) allowed F calls R = (bs1, R1)"
    and f: "finish_all W later cx order bs1 R1 = (bs, R')"
    using assms(3) by (auto simp: execute_parallel_def split: prod.splits)
  have len: "length bs1 = length calls" using begin_all_frame [OF b] by (metis length_map)
  note bf = begin_all_frame [OF b] and ff = finish_all_frame [OF f]
  have "\<exists>r. snd (bs ! i) = Settled r \<and> (\<forall>x. gate_call (calls ! i) allowed F R = Inl x \<longrightarrow> r = x)"
    if i: "i < length calls" for i
  proof -
    have "i \<in> set order" using assms(2) i by blast
    then obtain r where r: "snd (bs ! i) = Settled r" using ff i len by auto
    moreover have "r = x" if "gate_call (calls ! i) allowed F R = Inl x" for x
    proof -
      have "snd (bs1 ! i) = Settled x" using bf i that by blast
      then have "snd (bs ! i) = Settled x" using ff i len by simp
      with r show ?thesis by simp
    qed
    ultimately show ?thesis by blast
  qed
  then show ?thesis using bf ff assms(1) by auto
qed

theorem tools_batch_total_witness:
  "\<exists>bs R'. execute_parallel \<lparr>tw_filters = [], tw_dry = (\<lambda>_ _. refuse []), tw_dispatch = (\<lambda>_ _. Inl ''x''),
       tw_reduce = (\<lambda>_. None)\<rparr> 0 1
     \<lparr>cx_session = [], cx_personality = None, cx_budget = 10, cx_dry_run = False, cx_aborted = False\<rparr>
     None None [0] [demo_file_call] demo_registry = (bs, R') \<and> map fst bs = [demo_file_call]"
proof -
  let ?W = "\<lparr>tw_filters = [], tw_dry = (\<lambda>_ _. refuse []), tw_dispatch = (\<lambda>_ _. Inl ''x''),
       tw_reduce = (\<lambda>_. None)\<rparr>"
  let ?cx = "\<lparr>cx_session = [], cx_personality = None, cx_budget = 10, cx_dry_run = False, cx_aborted = False\<rparr>"
  obtain bs R' where e: "execute_parallel ?W 0 1 ?cx None None [0] [demo_file_call] demo_registry = (bs, R')"
    by fastforce
  have "{..<length [demo_file_call]} \<subseteq> set [0]" by auto
  from tools_batch_total [OF demo_registry_ok this e] have "map fst bs = [demo_file_call]" by (rule conjunct1)
  with e show ?thesis by (intro exI conjI)
qed

section \<open>Two divergences\<close>

text \<open>
  A cached result is returned as it was stored, not trimmed to the budget of the batch that finds
  it: here forty characters under a budget of ten.
\<close>

lemma cache_skips_the_trim:
  "\<exists>R cx r. registry_ok R \<and> cx_budget cx = 10 \<and>
     execute_parallel \<lparr>tw_filters = [], tw_dry = (\<lambda>_ _. refuse []), tw_dispatch = (\<lambda>_ _. Inl ''x''),
       tw_reduce = (\<lambda>_. None)\<rparr> 0 1 cx None None [0] [demo_file_call] R =
       ([(demo_file_call, Settled (ToolOk r None None))], R) \<and> length r = 40"
proof -
  let ?R = "demo_registry\<lparr>rg_cache := [(''read_file:::{}'',
     \<lparr>cc_result = ToolOk (replicate 40 (CHR ''x'')) None None, cc_expires = 9\<rparr>)]\<rparr>"
  let ?cx = "\<lparr>cx_session = [], cx_personality = None, cx_budget = 10, cx_dry_run = False, cx_aborted = False\<rparr>"
  let ?r = "replicate 40 (CHR ''x'')"
  have "registry_ok ?R"
    using demo_registry_ok by (simp add: registry_ok_def demo_registry_def max_cache_entries_def)
  moreover have "execute_parallel \<lparr>tw_filters = [], tw_dry = (\<lambda>_ _. refuse []), tw_dispatch = (\<lambda>_ _. Inl ''x''),
       tw_reduce = (\<lambda>_. None)\<rparr> 0 1 ?cx None None [0] [demo_file_call] ?R =
       ([(demo_file_call, Settled (ToolOk ?r None None))], ?R)"
    by (simp add: execute_parallel_def demo_file_call_def begin_call_def gate_call_def Let_def
        demo_registry_def demo_tool_def is_mcp_def passes_filter_def tool_available_def cache_get_def
        cache_key_def starts_with_def)
  moreover have "cx_budget ?cx = 10" "length ?r = 40" by simp_all
  ultimately show ?thesis by blast
qed

text \<open>
  An operator who lists a server by a name that is not verbatim: its tools pass the execution filter
  but are not in the personality's reach.
\<close>

lemma reach_misses_rewritten_server:
  "\<exists>server e. let name = mcp_tool_name server ''list'' in
     tl_name (te_tool e) = name
     \<and> passes_filter e (Some \<lparr>fo_servers = Some [server], fo_plugins = None, fo_tools = None, fo_exclude = None\<rparr>)
     \<and> \<not> reaches_tool \<lparr>pr_toolset = None, pr_servers = Some [server], pr_plugins = None\<rparr> (name, e)"
proof -
  let ?name = "mcp_tool_name ''my server'' ''list''"
  let ?e = "\<lparr>te_tool = demo_tool\<lparr>tl_name := ?name\<rparr>, te_plugin = None\<rparr>"
  have seg: "mcp_server_name ?name = Some (mcp_server_segment ''my server'')"
    using mcp_segment_reads [of "''my server''" "''list''"] .
  have mcp: "is_mcp ?name"
    using seg by (auto simp: is_mcp_def mcp_server_name_def split: if_splits)
  have "verbatim_server (mcp_server_segment ''my server'')" by (rule segment_verbatim)
  moreover have "\<not> verbatim_server ''my server''"
    by (simp add: verbatim_server_def name_char_def digit_def)
  ultimately have "mcp_server_segment ''my server'' \<noteq> ''my server''" by metis
  then have "\<not> reaches_tool \<lparr>pr_toolset = None, pr_servers = Some [''my server''], pr_plugins = None\<rparr> (?name, ?e)"
    using seg mcp by (simp add: reaches_tool_def)
  moreover have "passes_filter ?e (Some \<lparr>fo_servers = Some [''my server''], fo_plugins = None,
      fo_tools = None, fo_exclude = None\<rparr>)"
    using seg by (simp add: passes_filter_def Let_def lists_server_def names_server_def)
  ultimately show ?thesis by (intro exI [of _ "''my server''"] exI [of _ ?e]) (simp add: Let_def)
qed

end
