(* ===== verification/Pairing.thy ===== *)
theory Pairing
  imports Limiter
begin

text \<open>
  The pairing store (packages/safety/channel/src/pairing-store.ts) and the decline windows
  (decline-store.ts): one-time codes that let an unknown sender be approved by the owner, the
  lockout of an owner id after failed attempts, and one refusal per sender and day. The tables are
  lists of rows; the clock and the SHA-256 hash of the nonce are arguments. A claim of a decline
  slot is a \<open>sliding_window\<close> of one admission.
\<close>

section \<open>Tables\<close>

datatype code_status = Pending | Consumed | Expired

record code_row =
  pc_code :: string
  pc_sender :: string
  pc_platform :: string
  pc_issued :: int
  pc_status :: code_status

record attempt_row =
  pa_owner :: string
  pa_at :: int
  pa_succeeded :: bool

record allowed_row =
  al_sender :: string
  al_platform :: string
  al_at :: int
  al_by :: "string option"

record pairing_db =
  pd_codes :: "code_row list"
  pd_attempts :: "attempt_row list"
  pd_pauses :: "(string \<times> int) list"
  pd_allowed :: "allowed_row list"
  pd_declines :: "string \<times> string \<times> string \<Rightarrow> int option"

definition empty_pairing :: pairing_db where
  "empty_pairing = \<lparr>pd_codes = [], pd_attempts = [], pd_pauses = [], pd_allowed = [], pd_declines = (\<lambda>_. None)\<rparr>"

definition code_ttl :: int where "code_ttl = 3600000"
definition rate_window :: int where "rate_window = 600000"
definition lockout_window :: int where "lockout_window = 600000"
definition lockout_threshold :: nat where "lockout_threshold = 5"
definition lockout_duration :: int where "lockout_duration = 86400000"
definition global_threshold :: nat where "global_threshold = 20"

section \<open>Codes\<close>

definition code_alphabet :: string where
  "code_alphabet = ''ABCDEFGHIJKLMNOPQRSTUVWXYZ0123456789''"

definition make_code :: "nat list \<Rightarrow> string" where
  "make_code hash =
     map (\<lambda>i. code_alphabet ! ((if i < length hash then hash ! i else 0) mod length code_alphabet)) [0..<8]"

definition expire_codes :: "int \<Rightarrow> pairing_db \<Rightarrow> pairing_db" where
  "expire_codes cutoff d =
     d\<lparr>pd_codes := map (\<lambda>r. if pc_status r = Pending \<and> pc_issued r < cutoff
        then r\<lparr>pc_status := Expired\<rparr> else r) (pd_codes d)\<rparr>"

datatype pairing_error = CodeTaken string

text \<open>\<open>None\<close> when rate limited; a code that is already in the table violates its primary key.\<close>

definition generate_code ::
  "int \<Rightarrow> nat list \<Rightarrow> string \<Rightarrow> string \<Rightarrow> pairing_db \<Rightarrow> (pairing_error, string option) result \<times> pairing_db" where
  "generate_code now hash sender platform d =
     (let d1 = expire_codes (now - code_ttl) d;
          recent = filter (\<lambda>r. pc_sender r = sender \<and> pc_platform r = platform \<and> pc_status r = Pending
             \<and> pc_issued r \<ge> now - rate_window) (pd_codes d1);
          code = make_code hash
      in if recent \<noteq> [] then (Inr None, d1)
         else if \<exists>r \<in> set (pd_codes d1). pc_code r = code then (Inl (CodeTaken code), d1)
         else (Inr (Some code),
               d1\<lparr>pd_codes := pd_codes d1 @ [\<lparr>pc_code = code, pc_sender = sender,
                 pc_platform = platform, pc_issued = now, pc_status = Pending\<rparr>]\<rparr>))"

section \<open>Consuming a code\<close>

datatype refusal = NotFound | AlreadyConsumed | CodeExpired | SenderMismatch | OwnerPaused

definition failures_since :: "int \<Rightarrow> string option \<Rightarrow> pairing_db \<Rightarrow> nat" where
  "failures_since start owner d =
     length (filter (\<lambda>a. \<not> pa_succeeded a \<and> pa_at a \<ge> start
        \<and> (case owner of None \<Rightarrow> True | Some x \<Rightarrow> pa_owner a = x)) (pd_attempts d))"

definition pause_owner :: "int \<Rightarrow> string \<Rightarrow> pairing_db \<Rightarrow> pairing_db" where
  "pause_owner now owner d = d\<lparr>pd_pauses := AList.update owner (now + lockout_duration) (pd_pauses d)\<rparr>"

definition record_failed_attempt :: "int \<Rightarrow> string \<Rightarrow> pairing_db \<Rightarrow> pairing_db" where
  "record_failed_attempt now owner d =
     (let d1 = d\<lparr>pd_attempts := pd_attempts d @ [\<lparr>pa_owner = owner, pa_at = now, pa_succeeded = False\<rparr>]\<rparr>;
          start = now - lockout_window
      in if failures_since start None d1 \<ge> global_threshold then pause_owner now owner d1
         else if failures_since start (Some owner) d1 \<ge> lockout_threshold then pause_owner now owner d1
         else d1)"

definition note_failure :: "int \<Rightarrow> string option \<Rightarrow> pairing_db \<Rightarrow> pairing_db" where
  "note_failure now owner d = (case owner of None \<Rightarrow> d | Some x \<Rightarrow> record_failed_attempt now x d)"

definition owner_paused :: "int \<Rightarrow> string option \<Rightarrow> pairing_db \<Rightarrow> bool" where
  "owner_paused now owner d =
     (case owner of
        None \<Rightarrow> False
      | Some x \<Rightarrow> (case map_of (pd_pauses d) x of None \<Rightarrow> False | Some until \<Rightarrow> until > now))"

definition find_code :: "string \<Rightarrow> pairing_db \<Rightarrow> code_row option" where
  "find_code code d = find (\<lambda>r. pc_code r = code) (pd_codes d)"

text \<open>The conditional \<open>UPDATE\<close>, with the number of rows it changed.\<close>

definition take_code :: "string \<Rightarrow> (code_row \<Rightarrow> bool) \<Rightarrow> pairing_db \<Rightarrow> nat \<times> pairing_db" where
  "take_code code P d =
     (let hit = (\<lambda>r. pc_code r = code \<and> pc_status r = Pending \<and> P r)
      in (length (filter hit (pd_codes d)),
          d\<lparr>pd_codes := map (\<lambda>r. if hit r then r\<lparr>pc_status := Consumed\<rparr> else r) (pd_codes d)\<rparr>))"

definition consume_code ::
  "int \<Rightarrow> string \<Rightarrow> string \<Rightarrow> string \<Rightarrow> string option \<Rightarrow> pairing_db \<Rightarrow> (refusal, unit) result \<times> pairing_db" where
  "consume_code now code sender platform owner d =
     (let cutoff = now - code_ttl
      in if owner_paused now owner d then (Inl OwnerPaused, d)
         else
           (let (r, d1) =
              (case find_code code d of
                 None \<Rightarrow> (Inl NotFound, d)
               | Some row \<Rightarrow>
                   if pc_status row = Consumed then (Inl AlreadyConsumed, d)
                   else if pc_status row = Expired \<or> pc_issued row < cutoff then (Inl CodeExpired, d)
                   else if pc_sender row \<noteq> sender \<or> pc_platform row \<noteq> platform then (Inl SenderMismatch, d)
                   else
                     (case take_code code (\<lambda>r. pc_sender r = sender \<and> pc_platform r = platform
                             \<and> pc_issued r > cutoff) d of
                        (changes, d1) \<Rightarrow>
                          if changes = 1 then (Inr (), d1)
                          else
                            ((case find_code code d1 of
                                None \<Rightarrow> Inl NotFound
                              | Some u \<Rightarrow> Inl (if pc_status u = Consumed then AlreadyConsumed else CodeExpired)), d1)))
            in case r of
                 Inl e \<Rightarrow> (Inl e, note_failure now owner d1)
               | Inr x \<Rightarrow> (Inr x, d1)))"

text \<open>\<open>INSERT OR IGNORE\<close>.\<close>

definition allow_sender :: "allowed_row \<Rightarrow> pairing_db \<Rightarrow> pairing_db" where
  "allow_sender x d =
     (if \<exists>y \<in> set (pd_allowed d). al_sender y = al_sender x \<and> al_platform y = al_platform x then d
      else d\<lparr>pd_allowed := pd_allowed d @ [x]\<rparr>)"

definition consume_and_allow ::
  "int \<Rightarrow> string \<Rightarrow> string option \<Rightarrow> pairing_db \<Rightarrow> (refusal, string \<times> string) result \<times> pairing_db" where
  "consume_and_allow now code owner d =
     (let cutoff = now - code_ttl; fail = (\<lambda>e. (Inl e, note_failure now owner d))
      in if owner_paused now owner d then (Inl OwnerPaused, d)
         else
           (case find_code code d of
              None \<Rightarrow> fail NotFound
            | Some row \<Rightarrow>
                if pc_status row = Consumed then fail AlreadyConsumed
                else if pc_status row = Expired \<or> pc_issued row < cutoff then fail CodeExpired
                else
                  (case take_code code (\<lambda>r. pc_issued r > cutoff) d of
                     (changes, d1) \<Rightarrow>
                       if changes \<noteq> 1 then (Inl AlreadyConsumed, note_failure now owner d1)
                       else (Inr (pc_sender row, pc_platform row),
                             allow_sender \<lparr>al_sender = pc_sender row, al_platform = pc_platform row,
                               al_at = now, al_by = owner\<rparr> d1))))"

definition get_approved_senders :: "string \<Rightarrow> pairing_db \<Rightarrow> string list" where
  "get_approved_senders platform d =
     map al_sender (filter (\<lambda>x. al_platform x = platform) (pd_allowed d))"

definition clear_owner_pause :: "string \<Rightarrow> pairing_db \<Rightarrow> pairing_db" where
  "clear_owner_pause owner d =
     d\<lparr>pd_pauses := AList.delete owner (pd_pauses d),
       pd_attempts := filter (\<lambda>a. pa_owner a \<noteq> owner) (pd_attempts d)\<rparr>"

definition revoke_approval :: "string \<Rightarrow> string \<Rightarrow> pairing_db \<Rightarrow> bool \<times> pairing_db" where
  "revoke_approval sender platform d =
     (let gone = (\<lambda>x. al_sender x = sender \<and> al_platform x = platform)
      in (filter gone (pd_allowed d) \<noteq> [], d\<lparr>pd_allowed := filter (\<lambda>x. \<not> gone x) (pd_allowed d)\<rparr>))"

section \<open>Decline windows\<close>

definition decline_window :: int where "decline_window = 86400000"

definition claim_decline_slot ::
  "(string \<times> string \<times> string) \<times> int \<Rightarrow> pairing_db \<Rightarrow> bool \<times> pairing_db" where
  "claim_decline_slot = (\<lambda>(key, now) d.
     (let cutoff = now - decline_window;
          changes = (case pd_declines d key of None \<Rightarrow> True | Some t \<Rightarrow> t \<le> cutoff)
      in if \<not> changes then (False, d)
         else (True, d\<lparr>pd_declines := (\<lambda>k. case (if k = key then Some now else pd_declines d k) of
                 None \<Rightarrow> None
               | Some t \<Rightarrow> if t < cutoff then None else Some t)\<rparr>)))"

definition declined_at :: "string \<times> string \<times> string \<Rightarrow> pairing_db \<Rightarrow> int list" where
  "declined_at key d = (case pd_declines d key of None \<Rightarrow> [] | Some t \<Rightarrow> [t])"

interpretation decline: exact_window claim_decline_slot "\<lambda>e. fst e = key" "\<lambda>_. True" snd
    "declined_at key" decline_window 1 for key
proof (unfold_locales, goal_cases)
  case (4 e s ok s')
  obtain k now where e: "e = (k, now)" by fastforce
  have "declined_at key s' = declined_at key s \<or> declined_at key s' = evict (now - decline_window - 1) (declined_at key s)"
    using 4 e
    by (auto simp: claim_decline_slot_def declined_at_def evict_def Let_def split: option.splits if_splits)
  then show ?case
    using e by (auto intro: exI [of _ "now - decline_window - 1"])
qed (auto simp: claim_decline_slot_def declined_at_def evict_def decline_window_def Let_def
    split: option.splits if_splits)

section \<open>Invariant\<close>

datatype pairing_op =
    OpGenerate int "nat list" string string
  | OpConsume int string string string "string option"
  | OpAllow int string "string option"
  | OpClear string
  | OpRevoke string string
  | OpDecline "string \<times> string \<times> string" int

fun pairing_do :: "pairing_op \<Rightarrow> pairing_db \<Rightarrow> (unit, pairing_db) result" where
  "pairing_do (OpGenerate now hash sender platform) d = Inr (snd (generate_code now hash sender platform d))"
| "pairing_do (OpConsume now code sender platform owner) d =
     Inr (snd (consume_code now code sender platform owner d))"
| "pairing_do (OpAllow now code owner) d = Inr (snd (consume_and_allow now code owner d))"
| "pairing_do (OpClear owner) d = Inr (clear_owner_pause owner d)"
| "pairing_do (OpRevoke sender platform) d = Inr (snd (revoke_approval sender platform d))"
| "pairing_do (OpDecline key now) d = Inr (snd (claim_decline_slot (key, now) d))"

text \<open>
  How an operation may change a code: a row stays, a pending one may be spent or expire, a new one
  is pending under a code not in the table.
\<close>

definition codes_ok :: "pairing_db \<Rightarrow> bool" where
  "codes_ok d = distinct (map pc_code (pd_codes d))"

definition spent :: "string \<Rightarrow> string \<Rightarrow> pairing_db \<Rightarrow> bool" where
  "spent sender platform d =
     (\<exists>r \<in> set (pd_codes d). pc_status r = Consumed \<and> pc_sender r = sender \<and> pc_platform r = platform)"

definition approvals_ok :: "pairing_db \<Rightarrow> bool" where
  "approvals_ok d = (\<forall>x \<in> set (pd_allowed d). spent (al_sender x) (al_platform x) d)"

definition pairing_inv :: "pairing_db \<Rightarrow> bool" where
  "pairing_inv d = (codes_ok d \<and> approvals_ok d)"

definition spent_code :: "string \<Rightarrow> pairing_db \<Rightarrow> bool" where
  "spent_code code d = (\<exists>r \<in> set (pd_codes d). pc_code r = code \<and> pc_status r = Consumed)"

text \<open>Rows keep their code, sender, platform and time, and a spent row stays spent.\<close>

definition row_later :: "code_row \<Rightarrow> code_row \<Rightarrow> bool" where
  "row_later r r' =
     (pc_code r' = pc_code r \<and> pc_sender r' = pc_sender r \<and> pc_platform r' = pc_platform r
       \<and> (pc_status r = Consumed \<longrightarrow> pc_status r' = Consumed))"

definition codes_later :: "pairing_db \<Rightarrow> pairing_db \<Rightarrow> bool" where
  "codes_later d d' =
     (\<exists>f. (\<forall>r. row_later r (f r)) \<and> pd_codes d' = map f (pd_codes d))"

lemma codes_later_refl: "pd_codes d' = pd_codes d \<Longrightarrow> codes_later d d'"
  unfolding codes_later_def by (rule exI [of _ id]) (simp add: row_later_def)

lemma codes_later_keeps:
  assumes "codes_later d d'"
  shows "codes_ok d' = codes_ok d" "spent s p d \<Longrightarrow> spent s p d'" "spent_code c d \<Longrightarrow> spent_code c d'"
proof -
  obtain f where f: "\<And>r. row_later r (f r)" "pd_codes d' = map f (pd_codes d)"
    using assms by (auto simp: codes_later_def)
  have "map pc_code (pd_codes d') = map pc_code (pd_codes d)"
    using f by (auto simp: row_later_def)
  then show "codes_ok d' = codes_ok d" by (simp add: codes_ok_def)
  show "spent s p d \<Longrightarrow> spent s p d'" "spent_code c d \<Longrightarrow> spent_code c d'"
    using f by (auto simp: spent_def spent_code_def row_later_def)
qed

lemma note_failure_codes [simp]:
  "pd_codes (note_failure now owner d) = pd_codes d" "pd_allowed (note_failure now owner d) = pd_allowed d"
  by (auto simp: note_failure_def record_failed_attempt_def pause_owner_def Let_def split: option.splits)

lemma take_code_later:
  "take_code code P d = (n, d1) \<Longrightarrow> codes_later d d1 \<and> pd_allowed d1 = pd_allowed d"
  unfolding codes_later_def take_code_def Let_def
  by (auto simp: row_later_def intro!: exI [of _ "\<lambda>r. if pc_code r = code \<and> pc_status r = Pending \<and> P r
      then r\<lparr>pc_status := Consumed\<rparr> else r"])

lemma take_code_changes:
  assumes "codes_ok d" "find_code code d = Some row" "take_code code P d = (n, d1)"
  shows "n = (if pc_status row = Pending \<and> P row then 1 else 0)
     \<and> (pc_status row = Pending \<and> P row \<longrightarrow> spent (pc_sender row) (pc_platform row) d1 \<and> spent_code code d1)"
proof -
  have row: "row \<in> set (pd_codes d)" "pc_code row = code"
    using assms(2) find_SomeD by (fastforce simp: find_code_def)+
  have one: "filter (\<lambda>r. pc_code r = code) (pd_codes d) = [row]"
  proof -
    have "distinct (map pc_code xs) \<Longrightarrow> row \<in> set xs \<Longrightarrow> filter (\<lambda>r. pc_code r = code) xs = [row]" for xs
      using row(2) by (induction xs) (auto simp: filter_empty_conv image_iff)
    with assms(1) row(1) show ?thesis by (simp add: codes_ok_def)
  qed
  have "n = length (filter (\<lambda>r. pc_status r = Pending \<and> P r) (filter (\<lambda>r. pc_code r = code) (pd_codes d)))"
    using assms(3) by (auto simp: take_code_def Let_def conj_ac intro: arg_cong [where f = length] filter_cong)
  then have n: "n = (if pc_status row = Pending \<and> P row then 1 else 0)" using one by simp
  moreover have "spent (pc_sender row) (pc_platform row) d1 \<and> spent_code code d1"
    if "pc_status row = Pending \<and> P row"
  proof -
    have "pd_codes d1 = map (\<lambda>r. if pc_code r = code \<and> pc_status r = Pending \<and> P r
        then r\<lparr>pc_status := Consumed\<rparr> else r) (pd_codes d)"
      using assms(3) by (auto simp: take_code_def Let_def)
    then have "row\<lparr>pc_status := Consumed\<rparr> \<in> set (pd_codes d1)"
      using row that by (auto simp: image_iff intro!: bexI [of _ row])
    then show ?thesis
      using row(2) unfolding spent_def spent_code_def
      by (intro conjI bexI [of _ "row\<lparr>pc_status := Consumed\<rparr>"]) simp_all
  qed
  ultimately show ?thesis by blast
qed

lemma consume_code_frame:
  assumes "codes_ok d"
  shows "codes_later d (snd (consume_code now code sender platform owner d))
     \<and> pd_allowed (snd (consume_code now code sender platform owner d)) = pd_allowed d"
  using take_code_later [of code _ d]
  by (auto simp: consume_code_def Let_def codes_later_refl split: option.splits prod.splits)
     (auto simp: codes_later_def)

text \<open>A successful approval comes from a pending code of its sender, and spends it.\<close>

lemma consume_and_allow_ok:
  assumes "codes_ok d" "consume_and_allow now code owner d = (Inr (sender, platform), d')"
  shows "spent_code code d' \<and> spent sender platform d' \<and> codes_later d d'
     \<and> (\<exists>row. find_code code d = Some row \<and> pc_status row = Pending \<and> pc_sender row = sender
          \<and> pc_platform row = platform \<and> now - code_ttl < pc_issued row)
     \<and> (\<forall>x \<in> set (pd_allowed d'). x \<in> set (pd_allowed d) \<or> al_sender x = sender \<and> al_platform x = platform)"
proof -
  obtain row n d1 where row: "find_code code d = Some row"
    and t: "take_code code (\<lambda>r. pc_issued r > now - code_ttl) d = (n, d1)" and n: "n = 1"
    and s: "sender = pc_sender row" "platform = pc_platform row"
    and d': "d' = allow_sender \<lparr>al_sender = sender, al_platform = platform, al_at = now, al_by = owner\<rparr> d1"
  proof -
    have np: "\<not> owner_paused now owner d"
      using assms(2) by (auto simp: consume_and_allow_def Let_def)
    obtain row where row: "find_code code d = Some row"
      using assms(2) np by (cases "find_code code d") (simp_all add: consume_and_allow_def Let_def)
    have st: "pc_status row \<noteq> Consumed \<and> pc_status row \<noteq> Expired \<and> \<not> pc_issued row < now - code_ttl"
      using assms(2) np row by (auto simp: consume_and_allow_def Let_def split: if_splits)
    obtain n d1 where t: "take_code code (\<lambda>r. pc_issued r > now - code_ttl) d = (n, d1)" by fastforce
    have "n = 1 \<and> sender = pc_sender row \<and> platform = pc_platform row
       \<and> d' = allow_sender \<lparr>al_sender = sender, al_platform = platform, al_at = now, al_by = owner\<rparr> d1"
      using assms(2) np row st t by (auto simp: consume_and_allow_def Let_def split: if_splits)
    with row t that show ?thesis by blast
  qed
  note ch = take_code_changes [OF assms(1) row t] and la = take_code_later [OF t]
  have "pd_codes d' = pd_codes d1" using d' by (simp add: allow_sender_def)
  then have same: "spent a b d' = spent a b d1" "spent_code c d' = spent_code c d1" "codes_later d d' = codes_later d d1"
    for a b c by (simp_all add: spent_def spent_code_def codes_later_def)
  have fresh: "pc_status row = Pending \<and> now - code_ttl < pc_issued row"
    using conjunct1 [OF ch] n by (metis zero_neq_one)
  then have "spent_code code d1 \<and> spent sender platform d1"
    using conjunct2 [OF ch] s by simp
  moreover have "x \<in> set (pd_allowed d) \<or> al_sender x = sender \<and> al_platform x = platform"
    if "x \<in> set (pd_allowed d')" for x
    using that la unfolding d' by (fastforce simp: allow_sender_def split: if_splits)
  ultimately show ?thesis
    using fresh row s la same by blast
qed

lemma consume_and_allow_refused:
  assumes "codes_ok d" "consume_and_allow now code owner d = (Inl e, d')"
  shows "codes_later d d' \<and> pd_allowed d' = pd_allowed d"
  using assms(2) take_code_later [of code "\<lambda>r. pc_issued r > now - code_ttl" d]
  by (auto simp: consume_and_allow_def Let_def codes_later_refl split: option.splits if_splits prod.splits)
     (auto simp: codes_later_def)

lemma approvals_later:
  "approvals_ok d \<Longrightarrow> codes_later d d' \<Longrightarrow> set (pd_allowed d') \<subseteq> set (pd_allowed d) \<Longrightarrow> approvals_ok d'"
  using codes_later_keeps(2) unfolding approvals_ok_def by blast

text \<open>The rows the operations leave: those of before, later, and perhaps one new pending code.\<close>

lemma generate_frame:
  assumes "codes_ok d"
  shows "codes_ok (snd (generate_code now hash sender platform d))
     \<and> pd_allowed (snd (generate_code now hash sender platform d)) = pd_allowed d
     \<and> (\<forall>s p. spent s p d \<longrightarrow> spent s p (snd (generate_code now hash sender platform d)))
     \<and> (\<forall>c. spent_code c d \<longrightarrow> spent_code c (snd (generate_code now hash sender platform d)))"
proof -
  let ?d1 = "expire_codes (now - code_ttl) d"
  have later: "codes_later d ?d1"
    unfolding codes_later_def expire_codes_def
    by (auto simp: row_later_def intro!: exI [of _ "\<lambda>r. if pc_status r = Pending \<and> pc_issued r < now - code_ttl
        then r\<lparr>pc_status := Expired\<rparr> else r"])
  show ?thesis
    using codes_later_keeps [OF later] assms
    by (auto simp: generate_code_def Let_def codes_ok_def spent_def spent_code_def image_iff)
      (auto simp: expire_codes_def)
qed

lemma pairing_keeps:
  assumes "pairing_inv d" "pairing_do op d = Inr d'"
  shows "pairing_inv d' \<and> (spent_code c d \<longrightarrow> spent_code c d')"
proof (cases op)
  case (OpGenerate now hash sender platform)
  with assms generate_frame [of d now hash sender platform] show ?thesis
    by (auto simp: pairing_inv_def approvals_ok_def)
next
  case (OpConsume now code sender platform owner)
  with assms consume_code_frame [of d now code sender platform owner] show ?thesis
    using codes_later_keeps [of d d'] approvals_later [of d d'] by (auto simp: pairing_inv_def)
next
  case (OpAllow now code owner)
  then have d': "d' = snd (consume_and_allow now code owner d)" using assms(2) by simp
  show ?thesis
  proof (cases "consume_and_allow now code owner d")
    case (Pair r d2)
    show ?thesis
    proof (cases r)
      case (Inl e)
      with Pair consume_and_allow_refused [of d now code owner e d2] assms(1) d' show ?thesis
        using codes_later_keeps [of d d'] approvals_later [of d d'] by (auto simp: pairing_inv_def)
    next
      case (Inr sp)
      obtain sender platform where sp: "sp = (sender, platform)" by fastforce
      have ok: "codes_ok d" "approvals_ok d" using assms(1) by (simp_all add: pairing_inv_def)
      note a = consume_and_allow_ok [OF ok(1), of now code owner sender platform d2]
      have "codes_later d d'" and sp': "spent sender platform d'"
        and al: "\<forall>x \<in> set (pd_allowed d'). x \<in> set (pd_allowed d) \<or> al_sender x = sender \<and> al_platform x = platform"
        using a Pair Inr sp d' by auto
      note keep = codes_later_keeps [OF this(1)]
      have "approvals_ok d'"
        using ok(2) al sp' keep(2) unfolding approvals_ok_def by blast
      then show ?thesis using keep ok(1) by (simp add: pairing_inv_def)
    qed
  qed
next
  case (OpDecline key now)
  with assms show ?thesis
    by (auto simp: claim_decline_slot_def Let_def pairing_inv_def codes_ok_def approvals_ok_def spent_def
        spent_code_def)
qed (use assms in \<open>auto simp: clear_owner_pause_def revoke_approval_def Let_def pairing_inv_def codes_ok_def
  approvals_ok_def spent_def spent_code_def\<close>)

interpretation pairing: inv_machine pairing_do pairing_inv
  by unfold_locales (use pairing_keeps in blast)

interpretation pairing_spent: inv_machine pairing_do "\<lambda>d. pairing_inv d \<and> spent_code c d" for c
  by unfold_locales (use pairing_keeps in blast)

definition pairing_after :: "pairing_op list \<Rightarrow> pairing_db \<Rightarrow> pairing_db" where
  "pairing_after ops d = run_live pairing_do ops d"

lemma pairing_after_inv: "pairing_inv (pairing_after ops empty_pairing)"
  unfolding pairing_after_def
  by (rule pairing.live_good) (simp add: pairing_inv_def codes_ok_def approvals_ok_def empty_pairing_def)

lemma spent_refused:
  assumes "codes_ok d" "spent_code code d"
  shows "fst (consume_and_allow now code owner d) \<in> {Inl AlreadyConsumed, Inl OwnerPaused}"
proof -
  obtain r where r: "r \<in> set (pd_codes d)" "pc_code r = code" "pc_status r = Consumed"
    using assms(2) by (auto simp: spent_code_def)
  then have "find_code code d = Some r"
    unfolding find_code_def using find_key_iff [of pc_code "pd_codes d" code r] assms(1)
    by (simp add: codes_ok_def)
  then show ?thesis using r by (simp add: consume_and_allow_def Let_def)
qed

section \<open>Properties\<close>

text \<open>
  C33: whatever is generated, consumed, cleared and revoked, an approved sender holds a spent code that
  was issued to that very sender on that platform.
\<close>
theorem pairing_approved_by_code:
  assumes "sender \<in> set (get_approved_senders platform (pairing_after ops empty_pairing))"
  shows "\<exists>r \<in> set (pd_codes (pairing_after ops empty_pairing)).
     pc_status r = Consumed \<and> pc_sender r = sender \<and> pc_platform r = platform"
proof -
  obtain x where "x \<in> set (pd_allowed (pairing_after ops empty_pairing))"
    "al_sender x = sender" "al_platform x = platform"
    using assms by (auto simp: get_approved_senders_def)
  then show ?thesis
    using pairing_after_inv [of ops] by (auto simp: pairing_inv_def approvals_ok_def spent_def)
qed

definition demo_pairing :: "pairing_op list" where
  "demo_pairing = [OpGenerate 0 [1, 2, 3, 4, 5, 6, 7, 8] ''u1'' ''telegram'',
     OpAllow 1000 ''BCDEFGHI'' (Some ''owner'')]"

theorem pairing_approved_by_code_witness:
  "\<exists>r \<in> set (pd_codes (pairing_after demo_pairing empty_pairing)). pc_status r = Consumed \<and> pc_sender r = ''u1'' \<and> pc_platform r = ''telegram''"
proof -
  have "''u1'' \<in> set (get_approved_senders ''telegram'' (pairing_after demo_pairing empty_pairing))"
    by code_simp
  then show ?thesis by (rule pairing_approved_by_code)
qed

text \<open>
  a code works once: approval takes a pending code issued less than an hour before, and after it
  every later attempt at that code, whatever happened in between, is refused as consumed (or because
  the owner id is paused).
\<close>
theorem pairing_code_once:
  assumes "consume_and_allow now code owner (pairing_after ops empty_pairing) = (Inr (sender, platform), d)"
  shows "(\<exists>row. find_code code (pairing_after ops empty_pairing) = Some row \<and> pc_status row = Pending
        \<and> pc_sender row = sender \<and> pc_platform row = platform \<and> now < pc_issued row + 3600000)
     \<and> fst (consume_and_allow later code owner2 (pairing_after ops2 d)) \<in> {Inl AlreadyConsumed, Inl OwnerPaused}"
proof -
  let ?d0 = "pairing_after ops empty_pairing"
  have inv0: "pairing_inv ?d0" by (rule pairing_after_inv)
  then have ok: "codes_ok ?d0" by (simp add: pairing_inv_def)
  note a = consume_and_allow_ok [OF ok assms]
  have "pairing_do (OpAllow now code owner) ?d0 = Inr d" using assms by simp
  then have "pairing_inv d" using pairing_keeps [OF inv0] by blast
  with a have "pairing_inv (pairing_after ops2 d) \<and> spent_code code (pairing_after ops2 d)"
    unfolding pairing_after_def by (intro pairing_spent.live_good) simp
  then have "fst (consume_and_allow later code owner2 (pairing_after ops2 d)) \<in> {Inl AlreadyConsumed, Inl OwnerPaused}"
    using spent_refused by (simp add: pairing_inv_def)
  with a show ?thesis by (auto simp: code_ttl_def)
qed

theorem pairing_code_once_witness:
  "\<exists>d. consume_and_allow 1000 ''BCDEFGHI'' None (pairing_after [hd demo_pairing] empty_pairing) = (Inr (''u1'', ''telegram''), d)
     \<and> fst (consume_and_allow 2000 ''BCDEFGHI'' None (pairing_after [] d)) \<in> {Inl AlreadyConsumed, Inl OwnerPaused}"
proof -
  have "fst (consume_and_allow 1000 ''BCDEFGHI'' None (pairing_after [hd demo_pairing] empty_pairing)) =
      Inr (''u1'', ''telegram'')" by code_simp
  then obtain d where d: "consume_and_allow 1000 ''BCDEFGHI'' None (pairing_after [hd demo_pairing] empty_pairing) =
      (Inr (''u1'', ''telegram''), d)" by (metis prod.collapse)
  from pairing_code_once [OF d, of 2000 None "[]"] d show ?thesis by blast
qed

text \<open>
  A pause holds: nothing but clearing it, or an attempt after its end, changes when it ends.
\<close>

fun before_end :: "string \<Rightarrow> int \<Rightarrow> pairing_op \<Rightarrow> bool" where
  "before_end x t (OpConsume now _ _ _ owner) = (owner = Some x \<longrightarrow> now < t)"
| "before_end x t (OpAllow now _ owner) = (owner = Some x \<longrightarrow> now < t)"
| "before_end x t (OpClear owner) = (owner \<noteq> x)"
| "before_end _ _ _ = True"

definition paused_until :: "string \<Rightarrow> int \<Rightarrow> pairing_db \<Rightarrow> bool" where
  "paused_until x t d = (map_of (pd_pauses d) x = Some t)"

lemma note_failure_pause:
  "owner \<noteq> Some x \<Longrightarrow> paused_until x t (note_failure now owner d) = paused_until x t d"
  by (auto simp: paused_until_def note_failure_def record_failed_attempt_def pause_owner_def Let_def
      split: option.splits)

lemma take_code_pause: "take_code code P d = (n, d1) \<Longrightarrow> paused_until x t d1 = paused_until x t d"
  by (auto simp: take_code_def Let_def paused_until_def)

lemma paused_refuses:
  assumes "paused_until x t d" "now < t"
  shows "consume_and_allow now code (Some x) d = (Inl OwnerPaused, d)"
    "consume_code now code sender platform (Some x) d = (Inl OwnerPaused, d)"
  using assms by (simp_all add: paused_until_def consume_and_allow_def consume_code_def owner_paused_def Let_def)

lemma pause_holds:
  assumes "paused_until x t d" "before_end x t op" "pairing_do op d = Inr d'"
  shows "paused_until x t d'"
proof (cases op)
  case (OpConsume now code sender platform owner)
  show ?thesis
  proof (cases "owner = Some x")
    case True
    with OpConsume assms show ?thesis using paused_refuses [of x t d now] by auto
  next
    case False
    with OpConsume assms show ?thesis
      by (auto simp: consume_code_def Let_def note_failure_pause take_code_pause
          split: option.splits prod.splits if_splits)
  qed
next
  case (OpAllow now code owner)
  show ?thesis
  proof (cases "owner = Some x")
    case True
    with OpAllow assms show ?thesis using paused_refuses [of x t d now] by auto
  next
    case False
    have "paused_until x t (allow_sender r d1) = paused_until x t d1" for r d1
      by (simp add: allow_sender_def paused_until_def)
    with False OpAllow assms show ?thesis
      by (auto simp: consume_and_allow_def Let_def note_failure_pause take_code_pause
          split: option.splits prod.splits if_splits)
  qed
qed (use assms in \<open>auto simp: paused_until_def generate_code_def expire_codes_def claim_decline_slot_def
  clear_owner_pause_def revoke_approval_def delete_conv Let_def split: if_splits option.splits\<close>)

lemma pause_holds_live:
  "paused_until x t d \<Longrightarrow> list_all (before_end x t) ops \<Longrightarrow> paused_until x t (pairing_after ops d)"
  unfolding pairing_after_def run_live_def
proof (induction ops arbitrary: d)
  case (Cons op ops)
  obtain d1 where d1: "pairing_do op d = Inr d1" by (cases op) simp_all
  with Cons.prems have "paused_until x t d1" by (auto intro: pause_holds)
  with Cons d1 show ?case by simp
qed simp

text \<open>
  C34: the fifth refused attempt of an owner id within ten minutes pauses it for a day: whatever else
  happens in between short of clearing the pause, no code works for that id before the day is over.
\<close>
theorem pairing_lockout:
  assumes "consume_and_allow now code (Some x) d = (Inl e, d')" "e \<noteq> OwnerPaused"
    "4 \<le> failures_since (now - 600000) (Some x) d"
    "list_all (before_end x (now + 86400000)) ops" "later < now + 86400000"
  shows "consume_and_allow later code2 (Some x) (pairing_after ops d') = (Inl OwnerPaused, pairing_after ops d')"
proof -
  have "\<exists>d1. d' = record_failed_attempt now x d1 \<and> pd_attempts d1 = pd_attempts d"
    using assms(1,2)
    by (auto simp: consume_and_allow_def note_failure_def take_code_def Let_def
        split: option.splits if_splits prod.splits)
  then obtain d1 where d': "d' = record_failed_attempt now x d1" "pd_attempts d1 = pd_attempts d" by blast
  have "5 \<le> failures_since (now - 600000) (Some x)
      (d1\<lparr>pd_attempts := pd_attempts d1 @ [\<lparr>pa_owner = x, pa_at = now, pa_succeeded = False\<rparr>]\<rparr>)"
    using assms(3) d'(2) by (simp add: failures_since_def)
  then have "paused_until x (now + 86400000) d'"
    unfolding d'(1) record_failed_attempt_def Let_def
    by (simp add: lockout_window_def lockout_threshold_def lockout_duration_def pause_owner_def paused_until_def)
  then have "paused_until x (now + 86400000) (pairing_after ops d')"
    using pause_holds_live assms(4) by blast
  then show ?thesis using paused_refuses(1) assms(5) by blast
qed

definition demo_guesses :: pairing_db where
  "demo_guesses = pairing_after (map (\<lambda>i. OpAllow i ''GUESS'' (Some ''owner'')) [1, 2, 3, 4]) empty_pairing"

theorem pairing_lockout_witness:
  "fst (consume_and_allow 5 ''GUESS'' (Some ''owner'') demo_guesses) = Inl NotFound
     \<and> fst (consume_and_allow 80000000 ''BCDEFGHI'' (Some ''owner'')
         (pairing_after [hd demo_pairing] (snd (consume_and_allow 5 ''GUESS'' (Some ''owner'') demo_guesses))))
       = Inl OwnerPaused"
proof -
  have 1: "fst (consume_and_allow 5 ''GUESS'' (Some ''owner'') demo_guesses) = Inl NotFound" by code_simp
  then have 2: "consume_and_allow 5 ''GUESS'' (Some ''owner'') demo_guesses =
      (Inl NotFound, snd (consume_and_allow 5 ''GUESS'' (Some ''owner'') demo_guesses))" by (simp add: prod_eq_iff)
  have "4 \<le> failures_since (5 - 600000) (Some ''owner'') demo_guesses" by code_simp
  from pairing_lockout [OF 2 _ this, of "[hd demo_pairing]" 80000000] 1
  show ?thesis by (simp add: demo_pairing_def)
qed

text \<open>
  while the clock does not run backwards, a sender is declined exactly when no decline of that platform, bot
  and sender was claimed in the day before: one refusal per sender and day, whoever else is declined in between.
\<close>
theorem decline_once_a_day:
  assumes "sorted (map snd (es @ [(key, now)]))"
  shows "fst (claim_decline_slot (key, now) (state_after claim_decline_slot es empty_pairing)) \<longleftrightarrow>
     in_window 86400000 now (admitted claim_decline_slot (\<lambda>e. fst e = key) snd es empty_pairing) = []"
  using decline.admits_iff [of key empty_pairing es "(key, now)"] assms
  by (simp add: declined_at_def empty_pairing_def decline_window_def)

theorem decline_once_a_day_witness:
  "\<not> fst (claim_decline_slot ((''telegram'', ''bot'', ''u1''), 9)
      (state_after claim_decline_slot [((''telegram'', ''bot'', ''u1''), 3), ((''telegram'', ''bot'', ''u2''), 4)] empty_pairing))"
proof -
  have "in_window 86400000 9 (admitted claim_decline_slot (\<lambda>e. fst e = (''telegram'', ''bot'', ''u1'')) snd
      [((''telegram'', ''bot'', ''u1''), 3), ((''telegram'', ''bot'', ''u2''), 4)] empty_pairing) = [3]" by code_simp
  then show ?thesis
    using decline_once_a_day [of "[((''telegram'', ''bot'', ''u1''), 3), ((''telegram'', ''bot'', ''u2''), 4)]"
      "(''telegram'', ''bot'', ''u1'')" 9] by simp
qed

section \<open>Boundary cases\<close>

text \<open>
  A code exactly one hour old is neither expired for the check nor fresh for the update: approving it is
  refused as consumed while its row stays pending. And the limit of one code in ten minutes counts pending
  codes only: a sender whose code was spent gets the next one at once.
\<close>

lemma hour_old_code_called_consumed:
  "(case consume_and_allow 3600000 ''BCDEFGHI'' None (pairing_after [hd demo_pairing] empty_pairing) of
      (r, d) \<Rightarrow> r = Inl AlreadyConsumed \<and> map pc_status (pd_codes d) = [Pending])"
  by code_simp

lemma second_code_after_consuming:
  "fst (generate_code 1001 [0, 0, 0, 0, 0, 0, 0, 0] ''u1'' ''telegram'' (pairing_after demo_pairing empty_pairing))
     = Inr (Some ''AAAAAAAA'')"
  by code_simp

end
