(* ===== verification/ChannelFilter.thy ===== *)
theory ChannelFilter
  imports Pairing
begin

text \<open>
  The inbound channel filter (packages/safety/channel/src/channel-filter.ts): whether a message
  reaches the agent, is dropped, or is answered with a pairing code or a refusal, and what of its
  quoted text and channel history the agent sees. The pairing database of \<open>Pairing\<close> is threaded
  through; the clock and the hash of the code's nonce are arguments.
\<close>

section \<open>Messages and configuration\<close>

datatype dm_policy = DmPairing | DmAllowlist | DmQueue | DmReject | DmSilentDrop | DmDecline

datatype visibility = VisAll | VisAllowlist | VisAllowlistQuote

record channel_config =
  cc_enabled :: "bool option"
  cc_owner :: "string option"
  cc_recipients :: "string list option"
  cc_dm_policy :: "dm_policy option"
  cc_visibility :: "visibility option"
  cc_decline_message :: "string option"

record prior_entry =
  pe_user :: "string option"
  pe_text :: string

record inbound =
  im_platform :: string
  im_user :: "string option"
  im_alternates :: "string list option"
  im_text :: string
  im_reply_to :: "string option"
  im_reply_to_user :: "string option"
  im_dm :: bool
  im_shared :: bool
  im_mention :: bool
  im_prior :: "string option"
  im_prior_entries :: "prior_entry list option"

datatype filter_action = Allow | Drop | PairingReply | DeclineReply

record filter_result =
  fr_action :: filter_action
  fr_reply :: "string option"
  fr_text :: "string option"
  fr_prior :: "string option"

definition only :: "filter_action \<Rightarrow> filter_result" where
  "only a = \<lparr>fr_action = a, fr_reply = None, fr_text = None, fr_prior = None\<rparr>"

definition reply_with :: "filter_action \<Rightarrow> string \<Rightarrow> filter_result" where
  "reply_with a s = (only a)\<lparr>fr_reply := Some s\<rparr>"

definition default_decline :: string where
  "default_decline = ''Sorry, I can only reply to people who have been approved.''"

section \<open>The allowlist\<close>

definition matches_glob :: "string \<Rightarrow> string \<Rightarrow> bool" where
  "matches_glob pat v =
     (if CHR ''*'' \<notin> set pat then pat = v
      else ends_with v (if starts_with pat ''*'' then drop 1 pat else pat))"

definition is_in_allowlist :: "string list \<Rightarrow> string \<Rightarrow> bool" where
  "is_in_allowlist allow sender = list_ex (\<lambda>p. matches_glob p sender) allow"

definition sender_ids :: "inbound \<Rightarrow> string list" where
  "sender_ids m =
     (case im_user m of None \<Rightarrow> '''' | Some u \<Rightarrow> u) # (case im_alternates m of None \<Rightarrow> [] | Some us \<Rightarrow> us)"

definition any_sender_in_allowlist :: "string list \<Rightarrow> inbound \<Rightarrow> bool" where
  "any_sender_in_allowlist allow m = list_ex (is_in_allowlist allow) (sender_ids m)"

text \<open>The effective allowlist: the owner, unless it is the empty string, then the recipients.\<close>

definition effective_allowlist :: "channel_config \<Rightarrow> string list" where
  "effective_allowlist c =
     (case cc_owner c of None \<Rightarrow> [] | Some owner \<Rightarrow> if owner = [] then [] else [owner])
      @ (case cc_recipients c of None \<Rightarrow> [] | Some xs \<Rightarrow> xs)"

definition is_sender_allowed :: "inbound \<Rightarrow> channel_config option \<Rightarrow> bool" where
  "is_sender_allowed m config =
     (case config of
        None \<Rightarrow> True
      | Some c \<Rightarrow>
          if cc_enabled c = Some False then True
          else if effective_allowlist c = [] then False
          else any_sender_in_allowlist (effective_allowlist c) m)"

section \<open>Quoted text and history\<close>

text \<open>
  \<open>text.replace(/^>.*\n?/gm, '')\<close>: at the start of a line an angle bracket drops the rest of the
  line and its newline. A carriage return also ends a line, and stays.
\<close>

datatype line_at = LineStart | InLine | InQuote

fun strip_quoted :: "line_at \<Rightarrow> string \<Rightarrow> string" where
  "strip_quoted _ [] = []"
| "strip_quoted LineStart (c # cs) =
     (if c = CHR ''>'' then strip_quoted InQuote cs
      else c # strip_quoted (if of_char c \<in> {10, 13 :: nat} then LineStart else InLine) cs)"
| "strip_quoted InLine (c # cs) =
     c # strip_quoted (if of_char c \<in> {10, 13 :: nat} then LineStart else InLine) cs"
| "strip_quoted InQuote (c # cs) =
     (if of_char c = (10 :: nat) then strip_quoted LineStart cs
      else if of_char c = (13 :: nat) then c # strip_quoted LineStart cs
      else strip_quoted InQuote cs)"

definition newline :: string where "newline = [char_of (10 :: nat)]"

definition stripped_text :: "string \<Rightarrow> string" where
  "stripped_text s =
     ''[quoted content from non-allowlisted sender removed]'' @ newline @ js_trim (strip_quoted LineStart s)"

definition keeps_entry :: "string list \<Rightarrow> prior_entry \<Rightarrow> bool" where
  "keeps_entry allow e = (case pe_user e of None \<Rightarrow> False | Some u \<Rightarrow> is_in_allowlist allow u)"

text \<open>\<open>None\<close> when every line survives.\<close>

definition filter_prior_context :: "prior_entry list option \<Rightarrow> string list \<Rightarrow> string option" where
  "filter_prior_context entries allow =
     (case entries of
        None \<Rightarrow> Some ''''
      | Some es \<Rightarrow>
          (let kept = filter (keeps_entry allow) es
           in if kept = [] then Some ''''
              else if length kept = length es then None
              else Some (''[channel history '' @ em_dash @ '' lines from non-allowlisted senders removed]''
                     @ newline @ join_with newline (map pe_text kept))))"

section \<open>The check\<close>

definition is_owner :: "channel_config \<Rightarrow> inbound \<Rightarrow> bool" where
  "is_owner c m = (case cc_owner c of None \<Rightarrow> False | Some owner \<Rightarrow> owner \<in> set (sender_ids m))"

definition dm_refusal ::
  "int \<Rightarrow> nat list \<Rightarrow> channel_config \<Rightarrow> inbound \<Rightarrow> pairing_db option
     \<Rightarrow> (pairing_error, filter_result) result \<times> pairing_db option" where
  "dm_refusal now hash c m db =
     (case (case cc_dm_policy c of None \<Rightarrow> DmPairing | Some p \<Rightarrow> p) of
        DmDecline \<Rightarrow>
          (Inr (if im_shared m then only Drop
                else reply_with DeclineReply
                  (case cc_decline_message c of None \<Rightarrow> default_decline | Some t \<Rightarrow> t)), db)
      | DmPairing \<Rightarrow>
          (case db of
             None \<Rightarrow> (Inr (only Drop), None)
           | Some d \<Rightarrow>
               (case generate_code now hash (case im_user m of None \<Rightarrow> '''' | Some u \<Rightarrow> u) (im_platform m) d of
                  (Inl e, d') \<Rightarrow> (Inl e, Some d')
                | (Inr None, d') \<Rightarrow> (Inr (only Drop), Some d')
                | (Inr (Some code), d') \<Rightarrow>
                    (Inr (reply_with PairingReply
                       (''To talk with this agent, ask the owner to run: /allow '' @ code)), Some d')))
      | _ \<Rightarrow> (Inr (only Drop), db))"

definition visible_context :: "string list \<Rightarrow> inbound \<Rightarrow> filter_result" where
  "visible_context allow m =
     \<lparr>fr_action = Allow, fr_reply = None,
       fr_text =
         (case (im_reply_to m, im_reply_to_user m) of
            (Some _, Some u) \<Rightarrow> if is_in_allowlist allow u then None else Some (stripped_text (im_text m))
          | _ \<Rightarrow> None),
       fr_prior =
         (case im_prior m of None \<Rightarrow> None | Some _ \<Rightarrow> filter_prior_context (im_prior_entries m) allow)\<rparr>"

definition check_message ::
  "int \<Rightarrow> nat list \<Rightarrow> inbound \<Rightarrow> channel_config option \<Rightarrow> pairing_db option
     \<Rightarrow> (pairing_error, filter_result) result \<times> pairing_db option" where
  "check_message now hash m config db =
     (case config of
        None \<Rightarrow> (Inr (only Allow), db)
      | Some c \<Rightarrow>
          if cc_enabled c = Some False then (Inr (only Allow), db)
          else
            (let allow = effective_allowlist c;
                 allowed = (if allow = [] then False else any_sender_in_allowlist allow m)
             in if \<not> allowed then
                  (if \<not> im_dm m then (Inr (only Drop), db) else dm_refusal now hash c m db)
                else if \<not> im_dm m \<and> \<not> im_mention m \<and> \<not> is_owner c m then (Inr (only Drop), db)
                else if (case cc_visibility c of None \<Rightarrow> VisAll | Some v \<Rightarrow> v) = VisAll
                  then (Inr (only Allow), db)
                else (Inr (visible_context allow m), db)))"

section \<open>Lemmas\<close>

lemma only_simps [simp]:
  "fr_action (only a) = a" "fr_reply (only a) = None" "fr_text (only a) = None" "fr_prior (only a) = None"
  "fr_action (reply_with a s) = a" "fr_reply (reply_with a s) = Some s"
  by (simp_all add: only_def reply_with_def)

lemma visible_action [simp]: "fr_action (visible_context allow m) = Allow"
  by (simp add: visible_context_def)

lemma dm_refusal_drops:
  "fst (dm_refusal now hash c m db) = Inr r \<Longrightarrow> fr_action r \<noteq> Allow"
  by (auto simp: dm_refusal_def split: dm_policy.splits option.splits prod.splits sum.splits if_splits)

lemma dm_refusal_reply:
  assumes "dm_refusal now hash c m db = (Inr r, db')" "fr_action r = DeclineReply"
  shows "\<not> im_shared m \<and> db' = db"
  using assms
  by (auto simp: dm_refusal_def split: dm_policy.split_asm option.split_asm prod.split_asm sum.split_asm if_split_asm)

lemma dm_refusal_code:
  assumes "dm_refusal now hash c m db = (Inr r, db')" "fr_reply r = Some text" "fr_action r \<noteq> DeclineReply"
  shows "\<exists>d code d'. db = Some d \<and> db' = Some d'
     \<and> generate_code now hash (hd (sender_ids m)) (im_platform m) d = (Inr (Some code), d')
     \<and> r = reply_with PairingReply (''To talk with this agent, ask the owner to run: /allow '' @ code)"
  using assms
  by (auto simp: dm_refusal_def sender_ids_def
      split: dm_policy.split_asm option.split_asm prod.split_asm sum.split_asm if_split_asm)

lemma generate_code_row:
  assumes "generate_code now hash sender platform d = (Inr (Some code), d')"
  shows "\<exists>row \<in> set (pd_codes d'). pc_code row = code \<and> pc_sender row = sender
     \<and> pc_platform row = platform \<and> pc_status row = Pending \<and> pc_issued row = now"
  using assms by (auto simp: generate_code_def Let_def split: if_splits)

lemma fst_InrD: "fst p = Inr r \<Longrightarrow> p = (Inr r, snd p)"
  by (simp add: prod_eq_iff)

lemma keeps_all:
  "length (filter P xs) = length xs \<longleftrightarrow> (\<forall>x \<in> set xs. P x)"
  by (metis filter_True length_filter_less less_irrefl)

section \<open>Properties\<close>

text \<open>
  a message reaches the agent exactly when its sender is allowed and, where the filter is
  on, it is a direct message, mentions the bot, or comes from the owner; an admitted message touches
  nothing in the pairing database.
\<close>
theorem channel_allow_exact:
  "(\<exists>r. check_message now hash m config db = (Inr r, db) \<and> fr_action r = Allow)
     = (is_sender_allowed m config
        \<and> (case config of
             None \<Rightarrow> True
           | Some c \<Rightarrow> cc_enabled c = Some False \<or> im_dm m \<or> im_mention m \<or> is_owner c m))"
  using dm_refusal_drops
  by (cases config; simp add: check_message_def is_sender_allowed_def Let_def) (metis fst_conv)+

text \<open>
  C31: the filter answers only an unapproved sender in a direct message, never a group: a refusal only under
  the decline policy and never where several people may read it, a pairing reply only with a code now
  pending in the database for that very sender.
\<close>
theorem channel_reply_private:
  assumes "check_message now hash m config db = (Inr r, db')" "fr_reply r = Some text"
  shows "im_dm m \<and> \<not> is_sender_allowed m config
     \<and> (fr_action r = DeclineReply \<and> \<not> im_shared m \<and> db' = db
        \<or> fr_action r = PairingReply
          \<and> (\<exists>d code row. db' = Some d \<and> row \<in> set (pd_codes d)
               \<and> text = ''To talk with this agent, ask the owner to run: /allow '' @ code
               \<and> row = \<lparr>pc_code = code, pc_sender = hd (sender_ids m), pc_platform = im_platform m,
                   pc_issued = now, pc_status = Pending\<rparr>))"
proof -
  obtain c where c: "config = Some c"
    using assms by (cases config) (auto simp: check_message_def)
  have na: "\<not> is_sender_allowed m config" and dm: "im_dm m" and ref: "dm_refusal now hash c m db = (Inr r, db')"
  proof -
    note cm = assms(1) [unfolded c check_message_def option.case Let_def]
    have en: "cc_enabled c \<noteq> Some False" using cm assms(2) by auto
    have out: "\<not> (if effective_allowlist c = [] then False else any_sender_in_allowlist (effective_allowlist c) m)"
      using cm en assms(2) by (auto simp: visible_context_def split: if_split_asm)
    show dm: "im_dm m"
    proof (rule ccontr)
      assume "\<not> im_dm m"
      then have "r = only Drop" using cm en out by (simp only: if_True if_False simp_thms prod.inject sum.inject)
      then show False using assms(2) by simp
    qed
    show "dm_refusal now hash c m db = (Inr r, db')"
      using cm en out dm by (simp only: if_True if_False simp_thms)
    show "\<not> is_sender_allowed m config"
      using en out by (simp only: c is_sender_allowed_def option.case if_False simp_thms)
  qed
  show ?thesis
  proof (cases "fr_action r = DeclineReply")
    case True
    with dm_refusal_reply [OF ref] na dm show ?thesis by blast
  next
    case False
    then obtain d code d' where db: "db = Some d" "db' = Some d'"
      and g: "generate_code now hash (hd (sender_ids m)) (im_platform m) d = (Inr (Some code), d')"
      and r: "r = reply_with PairingReply (''To talk with this agent, ask the owner to run: /allow '' @ code)"
      using dm_refusal_code [OF ref assms(2)] by blast
    obtain row where row: "row \<in> set (pd_codes d')" "pc_code row = code" "pc_sender row = hd (sender_ids m)"
      "pc_platform row = im_platform m" "pc_status row = Pending" "pc_issued row = now"
      using generate_code_row [OF g] by blast
    have "row = \<lparr>pc_code = code, pc_sender = hd (sender_ids m), pc_platform = im_platform m,
        pc_issued = now, pc_status = Pending\<rparr>"
      using row(2-) by (cases row) simp
    with row(1) have ex: "\<exists>d code row. Some d' = Some d \<and> row \<in> set (pd_codes d)
        \<and> text = ''To talk with this agent, ask the owner to run: /allow '' @ code
        \<and> row = \<lparr>pc_code = code, pc_sender = hd (sender_ids m), pc_platform = im_platform m,
            pc_issued = now, pc_status = Pending\<rparr>"
      using r assms(2) by auto
    then show ?thesis using r na dm unfolding db(2) by simp
  qed
qed

definition demo_dm :: inbound where
  "demo_dm = \<lparr>im_platform = ''telegram'', im_user = Some ''u1'', im_alternates = None, im_text = ''hi'',
     im_reply_to = None, im_reply_to_user = None, im_dm = True, im_shared = False, im_mention = False,
     im_prior = None, im_prior_entries = None\<rparr>"

definition demo_config :: channel_config where
  "demo_config = \<lparr>cc_enabled = None, cc_owner = Some ''boss'', cc_recipients = Some [''*@acme.org''],
     cc_dm_policy = Some DmDecline, cc_visibility = Some VisAllowlist, cc_decline_message = None\<rparr>"

theorem channel_reply_private_witness:
  "im_dm demo_dm \<and> \<not> is_sender_allowed demo_dm (Some demo_config)"
proof -
  have "fst (check_message 0 [] demo_dm (Some demo_config) None) = Inr (reply_with DeclineReply default_decline)"
    by code_simp
  from channel_reply_private [OF fst_InrD [OF this], of default_decline] show ?thesis by simp
qed

text \<open>The lines of a text, each with its newline.\<close>

fun line_split :: "string \<Rightarrow> string list" where
  "line_split [] = []"
| "line_split (c # cs) =
     (if of_char c = (10 :: nat) then [c] # line_split cs
      else (case line_split cs of [] \<Rightarrow> [[c]] | l # ls \<Rightarrow> (c # l) # ls))"

definition quoted_line :: "string \<Rightarrow> bool" where
  "quoted_line l = (take 1 l = ''>'')"

lemma strip_by_lines:
  assumes "\<forall>c \<in> set s. of_char c \<noteq> (13 :: nat)"
  shows "strip_quoted LineStart s = concat (filter (\<lambda>l. \<not> quoted_line l) (line_split s))
     \<and> strip_quoted InLine s =
         (case line_split s of [] \<Rightarrow> [] | l # ls \<Rightarrow> l @ concat (filter (\<lambda>l. \<not> quoted_line l) ls))
     \<and> strip_quoted InQuote s =
         (case line_split s of [] \<Rightarrow> [] | l # ls \<Rightarrow> concat (filter (\<lambda>l. \<not> quoted_line l) ls))"
  using assms by (induction s) (auto simp: quoted_line_def split: list.splits)

text \<open>
  when the agent is given a message with the quotation of an outsider removed, what is left of its text is
  its lines that do not start with an angle bracket, each as it was, trimmed at the ends.
\<close>
theorem channel_quotes_removed:
  assumes "check_message now hash m config db = (Inr r, db')" "fr_text r = Some text"
    "\<forall>c \<in> set (im_text m). of_char c \<noteq> (13 :: nat)"
  shows "(\<exists>u. im_reply_to_user m = Some u \<and> \<not> is_in_allowlist (effective_allowlist (the config)) u)
     \<and> text = ''[quoted content from non-allowlisted sender removed]'' @ newline
          @ js_trim (concat (filter (\<lambda>l. take 1 l \<noteq> ''>'') (line_split (im_text m))))"
proof -
  obtain c where c: "config = Some c"
    using assms by (cases config) (auto simp: check_message_def)
  have "r = visible_context (effective_allowlist c) m"
    using assms(1,2) c
    by (auto simp: check_message_def dm_refusal_def Let_def
        split: if_splits dm_policy.splits option.splits prod.splits sum.splits)
       (auto simp: reply_with_def)
  then show ?thesis
    using assms(2,3) c strip_by_lines [of "im_text m"]
    by (auto simp: visible_context_def stripped_text_def quoted_line_def split: option.splits if_splits)
qed

definition demo_quote :: inbound where
  "demo_quote = demo_dm\<lparr>im_user := Some ''boss'', im_reply_to := Some ''7'', im_reply_to_user := Some ''u1'',
     im_text := ''>'' @ ''secret'' @ newline @ ''sum it up''\<rparr>"

theorem channel_quotes_removed_witness:
  "stripped_text (im_text demo_quote) = ''[quoted content from non-allowlisted sender removed]'' @ newline @ ''sum it up''"
proof -
  have *: "fst (check_message 0 [] demo_quote (Some demo_config) None)
      = Inr ((only Allow)\<lparr>fr_text := Some (stripped_text (im_text demo_quote))\<rparr>)"
    by code_simp
  have "\<forall>c \<in> set (im_text demo_quote). of_char c \<noteq> (13 :: nat)" by code_simp
  from channel_quotes_removed [OF fst_InrD [OF *] _ this] have
    "stripped_text (im_text demo_quote) = ''[quoted content from non-allowlisted sender removed]'' @ newline
          @ js_trim (concat (filter (\<lambda>l. take 1 l \<noteq> ''>'') (line_split (im_text demo_quote))))"
    by simp
  also have "js_trim (concat (filter (\<lambda>l. take 1 l \<noteq> ''>'') (line_split (im_text demo_quote)))) = ''sum it up''"
    by code_simp
  finally show ?thesis .
qed

text \<open>
  What the agent reads of the channel history: the adapter's own lines when the filter left them alone, else
  the lines named here, none for the empty string.
\<close>

definition history_lines :: "inbound \<Rightarrow> prior_entry list" where
  "history_lines m = (case im_prior_entries m of None \<Rightarrow> [] | Some es \<Rightarrow> es)"

text \<open>
  C32: under an allowlist view every line of channel history an admitted message brings is one whose author is
  on the allowlist: the history passes untouched only when all its lines are attributed to allowed senders,
  otherwise it is replaced by those lines in their order, or by nothing, and an unattributed history never passes.
\<close>
theorem channel_history_attributed:
  assumes "check_message now hash m (Some c) db = (Inr r, db')" "fr_action r = Allow"
    "cc_enabled c \<noteq> Some False" "cc_visibility c \<noteq> None" "cc_visibility c \<noteq> Some VisAll" "im_prior m = Some h"
  shows "let kept = filter (\<lambda>e. \<exists>u. pe_user e = Some u \<and> is_in_allowlist (effective_allowlist c) u) (history_lines m)
     in case fr_prior r of
          None \<Rightarrow> kept = history_lines m \<and> kept \<noteq> []
        | Some s \<Rightarrow> if kept = [] then s = '''' else kept \<noteq> history_lines m
            \<and> s = ''[channel history '' @ em_dash @ '' lines from non-allowlisted senders removed]'' @ newline
                @ join_with newline (map pe_text kept)"
proof -
  have r: "r = visible_context (effective_allowlist c) m"
    using assms(1-5) dm_refusal_drops [of now hash c m db r]
    by (auto simp: check_message_def Let_def split: if_splits option.splits visibility.splits)
  have keeps: "keeps_entry a = (\<lambda>e. \<exists>u. pe_user e = Some u \<and> is_in_allowlist a u)" for a
    by (auto simp: keeps_entry_def split: option.splits)
  have same: "length (filter P xs) = length xs \<longleftrightarrow> filter P xs = xs" for P and xs :: "prior_entry list"
    by (metis filter_id_conv keeps_all)
  show ?thesis
    using assms(6) r same
    by (auto simp: visible_context_def filter_prior_context_def history_lines_def keeps Let_def
        split: option.splits if_splits)
qed

definition demo_history :: inbound where
  "demo_history = demo_dm\<lparr>im_user := Some ''boss'', im_prior := Some ''a,b'',
     im_prior_entries := Some [\<lparr>pe_user = Some ''x@acme.org'', pe_text = ''a''\<rparr>, \<lparr>pe_user = None, pe_text = ''b''\<rparr>]\<rparr>"

theorem channel_history_attributed_witness:
  "fr_prior (visible_context (effective_allowlist demo_config) demo_history) =
     Some (''[channel history '' @ em_dash @ '' lines from non-allowlisted senders removed]'' @ newline @ ''a'')"
proof -
  let ?r = "visible_context (effective_allowlist demo_config) demo_history"
  have *: "fst (check_message 0 [] demo_history (Some demo_config) None) = Inr ?r"
    by code_simp
  have "fr_prior ?r \<noteq> None" by code_simp
  moreover have "filter (\<lambda>e. \<exists>u. pe_user e = Some u \<and> is_in_allowlist (effective_allowlist demo_config) u)
      (history_lines demo_history) = [\<lparr>pe_user = Some ''x@acme.org'', pe_text = ''a''\<rparr>]"
    by (simp add: history_lines_def demo_history_def demo_dm_def demo_config_def effective_allowlist_def
        is_in_allowlist_def matches_glob_def ends_with_def starts_with_def)
  ultimately show ?thesis
    using channel_history_attributed [OF fst_InrD [OF *], of "''a,b''"]
    by (auto simp: demo_config_def demo_history_def split: option.splits)
qed

end
