(* ===== verification/Contracts.thy ===== *)
theory Contracts
  imports Prelude
begin

text \<open>
  The contract of a claim that is won by one claimant at a time: a conditional write on a row of a table
  several processes share. A won claim finds the slot free and leaves it held, and a held slot stays held
  until it is released. Delivery claims, notices, the queue of jobs and the rows of the inbound spool are
  such slots; what follows for any interleaving of claimants is proved here.
\<close>

fun wins :: "('e \<Rightarrow> 's \<Rightarrow> bool \<times> 's) \<Rightarrow> ('e \<Rightarrow> bool) \<Rightarrow> 'e list \<Rightarrow> 's \<Rightarrow> nat" where
  "wins act claims [] s = 0"
| "wins act claims (e # es) s =
     (case act e s of (ok, s') \<Rightarrow> (if claims e \<and> ok then 1 else 0) + wins act claims es s')"

locale claim_slot =
  fixes act :: "'e \<Rightarrow> 's \<Rightarrow> bool \<times> 's"
    and claims frees :: "'e \<Rightarrow> bool"
    and held good :: "'s \<Rightarrow> bool"
  assumes good_act: "good s \<Longrightarrow> good (snd (act e s))"
    and won: "good s \<Longrightarrow> claims e \<Longrightarrow> act e s = (True, s') \<Longrightarrow> \<not> held s \<and> held s'"
    and kept: "good s \<Longrightarrow> held s \<Longrightarrow> \<not> frees e \<Longrightarrow> held (snd (act e s))"
begin

lemma wins_bound:
  "good s \<Longrightarrow> wins act claims es s + (if held s then 1 else 0) \<le> 1 + length (filter frees es)"
proof (induction es arbitrary: s)
  case (Cons e es)
  obtain ok s' where e: "act e s = (ok, s')" by fastforce
  have "\<not> held s' \<Longrightarrow> held s \<Longrightarrow> frees e" using kept [of s e] Cons.prems e by auto
  moreover have "good s'" using good_act [of s e] Cons.prems e by simp
  ultimately show ?case using Cons.IH [of s'] won [of s e s'] Cons.prems e by (auto split: if_splits)
qed simp

lemma wins_le: "good s \<Longrightarrow> wins act claims es s \<le> 1 + length (filter frees es)"
  using wins_bound [of s es] by linarith

text \<open>Between two releases a slot is won at most once.\<close>

lemma won_once:
  assumes "good s" "list_all (\<lambda>e. \<not> frees e) es"
  shows "wins act claims es s \<le> 1" "held s \<Longrightarrow> wins act claims es s = 0"
proof -
  have "filter frees es = []" using assms by (auto simp: filter_empty_conv list_all_iff)
  with wins_bound [of s es] assms show "wins act claims es s \<le> 1" "held s \<Longrightarrow> wins act claims es s = 0"
    by (auto split: if_splits)
qed

end

section \<open>Machines that report\<close>

text \<open>
  A machine whose events report notes, and a predicate on the notes so far and the state that every event
  keeps: what the notes say of the past and what the state remembers of it are proved together.
\<close>

fun noted_run :: "('e \<Rightarrow> 's \<Rightarrow> 'n list \<times> 's) \<Rightarrow> 'e list \<Rightarrow> 's \<Rightarrow> 'n list \<times> 's" where
  "noted_run act [] s = ([], s)"
| "noted_run act (e # es) s = (case act e s of (ns, s1) \<Rightarrow> case noted_run act es s1 of (ms, s2) \<Rightarrow> (ns @ ms, s2))"

locale noted_machine =
  fixes act :: "'e \<Rightarrow> 's \<Rightarrow> 'n list \<times> 's"
    and good :: "'n list \<Rightarrow> 's \<Rightarrow> bool"
  assumes act_good: "good ns s \<Longrightarrow> act e s = (us, s') \<Longrightarrow> good (ns @ us) s'"
begin

lemma run_good: "good ns s \<Longrightarrow> noted_run act es s = (us, s') \<Longrightarrow> good (ns @ us) s'"
proof (induction es arbitrary: ns s us s')
  case (Cons e es)
  obtain vs t where t: "act e s = (vs, t)" by fastforce
  obtain ws where u: "noted_run act es t = (ws, s')" and us: "us = vs @ ws"
    using Cons.prems(2) t by (auto split: prod.splits)
  show ?case using Cons.IH [OF act_good [OF Cons.prems(1) t] u] us by simp
qed simp

end

end
