(* ===== verification/JobStore.thy ===== *)
theory JobStore
  imports Numbers Contracts
begin

text \<open>
  The store of background jobs (extensions/job-store/src/index.ts): its four tables as lists of rows in
  rowid order, and every method of \<open>SQLiteJobStore\<close>. The clock and the drawn id are arguments; a
  JSON payload is its list of printed fields, the tool narrowing its JSON text. A transaction that throws leaves
  the store as it was.
\<close>

section \<open>Tables\<close>

datatype job_status = Queued | Running | Blocked | Done | Failed | Aborted | Stale | Expired

definition active :: "job_status \<Rightarrow> bool" where
  "active st = (st \<in> {Queued, Running, Blocked})"

definition terminal :: "job_status \<Rightarrow> bool" where
  "terminal st = (st \<in> {Done, Failed, Aborted, Stale, Expired})"

record job =
  j_id :: string
  j_owner :: string
  j_parent_key :: string
  j_root_key :: string
  j_child_key :: string
  j_personality :: "string option"
  j_depth :: int
  j_status :: job_status
  j_label :: "string option"
  j_prompt :: string
  j_summary :: "string option"
  j_error :: "string option"
  j_spend :: rat
  j_max_cost :: "rat option"
  j_cancel :: bool
  j_heartbeat :: "int option"
  j_created :: int
  j_started :: "int option"
  j_finished :: "int option"
  j_delivered :: "int option"
  j_platform :: "string option"
  j_bot :: "string option"
  j_chat :: "string option"
  j_thread :: "string option"
  j_remote_peer :: "string option"
  j_remote_job :: "string option"
  j_runner :: "string option"
  j_blocked_since :: "int option"
  j_blocked_request :: "string option"
  j_deliver_parent :: bool
  j_user :: "string option"
  j_narrowing :: "string option"
  j_audience :: "string option"
  j_tainted :: bool

datatype event_type =
    EvQueued | EvClaimed | EvRunning | EvCancel | EvBlocked | EvResumed | EvRecovered | EvSteer
  | EvStatus job_status | EvOther string

record job_event =
  je_id :: nat
  je_job :: string
  je_seq :: nat
  je_type :: event_type
  je_payload :: "(string \<times> string) list"
  je_at :: int

record notice =
  nt_request :: string
  nt_job :: string
  nt_at :: int

datatype steer_state = Pending | Read | Unread
datatype steer_source = Cli | Gateway | Web | Tool

fun source_name :: "steer_source \<Rightarrow> string" where
  "source_name Cli = ''cli''"
| "source_name Gateway = ''gateway''"
| "source_name Web = ''web''"
| "source_name Tool = ''tool''"

record steer =
  sr_id :: nat
  sr_job :: string
  sr_text :: string
  sr_state :: steer_state
  sr_source :: steer_source
  sr_user :: "string option"
  sr_at :: int
  sr_read_at :: "int option"

record job_store =
  js_jobs :: "job list"
  js_events :: "job_event list"
  js_notices :: "notice list"
  js_steers :: "steer list"

definition empty_jobs :: job_store where
  "empty_jobs = \<lparr>js_jobs = [], js_events = [], js_notices = [], js_steers = []\<rparr>"

definition get_job :: "job_store \<Rightarrow> string \<Rightarrow> job option" where
  "get_job s i = find (\<lambda>j. j_id j = i) (js_jobs s)"

text \<open>\<open>UPDATE jobs SET ... WHERE id = ? AND P\<close>, and whether it changed a row.\<close>

definition upd_job :: "string \<Rightarrow> (job \<Rightarrow> bool) \<Rightarrow> (job \<Rightarrow> job) \<Rightarrow> job_store \<Rightarrow> job_store" where
  "upd_job i P f s = s\<lparr>js_jobs := map (\<lambda>j. if j_id j = i \<and> P j then f j else j) (js_jobs s)\<rparr>"

definition hits :: "string \<Rightarrow> (job \<Rightarrow> bool) \<Rightarrow> job_store \<Rightarrow> bool" where
  "hits i P s = list_ex (\<lambda>j. j_id j = i \<and> P j) (js_jobs s)"

text \<open>An \<open>INTEGER PRIMARY KEY\<close> draws one more than the largest in use.\<close>

definition next_id :: "nat list \<Rightarrow> nat" where
  "next_id xs = foldr max xs 0 + 1"

definition log_event ::
  "int \<Rightarrow> string \<Rightarrow> event_type \<Rightarrow> (string \<times> string) list \<Rightarrow> job_store \<Rightarrow> job_store" where
  "log_event now i ty payload s =
     s\<lparr>js_events := js_events s @
        [\<lparr>je_id = next_id (map je_id (js_events s)), je_job = i,
          je_seq = next_id (map je_seq (filter (\<lambda>e. je_job e = i) (js_events s))),
          je_type = ty, je_payload = payload, je_at = now\<rparr>]\<rparr>"

datatype job_error =
    JobIdTaken string
  | JobNotFound string
  | NotFinishable string job_status
  | EventJobMissing string

text \<open>\<open>appendEvent\<close>: the foreign key of an event is a job.\<close>

definition append_event ::
  "int \<Rightarrow> string \<Rightarrow> event_type \<Rightarrow> (string \<times> string) list \<Rightarrow> job_store \<Rightarrow> (job_error, job_store) result" where
  "append_event now i ty payload s =
     (if get_job s i = None then Inl (EventJobMissing i) else Inr (log_event now i ty payload s))"

definition sweep_steers :: "string \<Rightarrow> job_store \<Rightarrow> job_store" where
  "sweep_steers i s =
     s\<lparr>js_steers := map (\<lambda>r. if sr_job r = i \<and> sr_state r = Pending then r\<lparr>sr_state := Unread\<rparr> else r) (js_steers s)\<rparr>"

definition record_terminal :: "int \<Rightarrow> string \<Rightarrow> job_status \<Rightarrow> job_store \<Rightarrow> job_store" where
  "record_terminal now i st s = sweep_steers i (log_event now i (EvStatus st) [] s)"

section \<open>Queueing and claiming\<close>

record job_input =
  ji_owner :: string
  ji_parent_key :: string
  ji_root_key :: string
  ji_child_key :: string
  ji_personality :: "string option"
  ji_depth :: int
  ji_label :: "string option"
  ji_prompt :: string
  ji_max_cost :: "rat option"
  ji_runner :: "string option"
  ji_deliver_parent :: "bool option"
  ji_platform :: "string option"
  ji_bot :: "string option"
  ji_chat :: "string option"
  ji_thread :: "string option"
  ji_user :: "string option"
  ji_narrowing :: "string option"
  ji_audience :: "string option"
  ji_remote_peer :: "string option"
  ji_remote_job :: "string option"

definition new_job :: "int \<Rightarrow> string \<Rightarrow> job_input \<Rightarrow> job" where
  "new_job now i inp =
     \<lparr>j_id = i, j_owner = ji_owner inp, j_parent_key = ji_parent_key inp, j_root_key = ji_root_key inp,
      j_child_key = ji_child_key inp, j_personality = ji_personality inp, j_depth = ji_depth inp,
      j_status = Queued, j_label = ji_label inp, j_prompt = ji_prompt inp, j_summary = None, j_error = None,
      j_spend = 0, j_max_cost = ji_max_cost inp, j_cancel = False, j_heartbeat = None, j_created = now,
      j_started = None, j_finished = None, j_delivered = None, j_platform = ji_platform inp,
      j_bot = ji_bot inp, j_chat = ji_chat inp, j_thread = ji_thread inp,
      j_remote_peer = ji_remote_peer inp, j_remote_job = ji_remote_job inp, j_runner = ji_runner inp,
      j_blocked_since = None, j_blocked_request = None,
      j_deliver_parent = (case ji_deliver_parent inp of None \<Rightarrow> False | Some b \<Rightarrow> b), j_user = ji_user inp,
      j_narrowing = ji_narrowing inp, j_audience = ji_audience inp, j_tainted = False\<rparr>"

definition create_job :: "int \<Rightarrow> string \<Rightarrow> job_input \<Rightarrow> job_store \<Rightarrow> (job_error, job_store) result" where
  "create_job now i inp s =
     (if get_job s i \<noteq> None then Inl (JobIdTaken i)
      else Inr (log_event now i EvQueued [] (s\<lparr>js_jobs := js_jobs s @ [new_job now i inp]\<rparr>)))"

definition claim_next_queued :: "int \<Rightarrow> string \<Rightarrow> string option \<Rightarrow> job_store \<Rightarrow> string option \<times> job_store" where
  "claim_next_queued now owner adopt s =
     (let label = (case adopt of None \<Rightarrow> owner | Some l \<Rightarrow> l);
          rows = sort_key j_created
            (filter (\<lambda>j. j_status j = Queued \<and> (j_owner j = owner \<or> j_owner j = label)) (js_jobs s))
      in case rows of
           [] \<Rightarrow> (None, s)
         | j # _ \<Rightarrow>
             (if \<not> hits (j_id j) (\<lambda>r. j_status r = Queued) s then (None, s)
              else (Some (j_id j),
                    log_event now (j_id j) EvRunning []
                      (log_event now (j_id j) EvClaimed []
                        (upd_job (j_id j) (\<lambda>r. j_status r = Queued)
                          (\<lambda>r. r\<lparr>j_status := Running, j_owner := owner, j_started := Some now,
                                j_heartbeat := Some now\<rparr>) s)))))"

text \<open>Rows read once, then each moved where the guard still holds, with what is logged for it.\<close>

fun sweep ::
  "(job \<Rightarrow> bool) \<Rightarrow> (job \<Rightarrow> job) \<Rightarrow> (string \<Rightarrow> job_store \<Rightarrow> job_store) \<Rightarrow> string list \<Rightarrow> job_store \<Rightarrow> string list \<times> job_store" where
  "sweep P f after [] s = ([], s)"
| "sweep P f after (i # is) s =
     (if hits i P s
      then (case sweep P f after is (after i (upd_job i P f s)) of (moved, s') \<Rightarrow> (i # moved, s'))
      else sweep P f after is s)"

definition ids_where :: "(job \<Rightarrow> bool) \<Rightarrow> job_store \<Rightarrow> string list" where
  "ids_where P s = map j_id (filter P (js_jobs s))"

definition release_queued :: "int \<Rightarrow> string \<Rightarrow> string \<Rightarrow> job_store \<Rightarrow> nat \<times> job_store" where
  "release_queued now owner label s =
     (let P = (\<lambda>j. j_status j = Queued \<and> j_owner j = owner);
          (moved, s') = sweep P (\<lambda>j. j\<lparr>j_owner := label\<rparr>)
            (\<lambda>i. log_event now i EvQueued [(''releasedBy'', owner), (''releasedAs'', label)]) (ids_where P s) s
      in (length moved, s'))"

section \<open>Running\<close>

definition heartbeat :: "int \<Rightarrow> string \<Rightarrow> job_store \<Rightarrow> job_store" where
  "heartbeat now i s = upd_job i (\<lambda>j. j_status j = Running) (\<lambda>j. j\<lparr>j_heartbeat := Some now\<rparr>) s"

definition update_spend :: "string \<Rightarrow> rat \<Rightarrow> job_store \<Rightarrow> job_store" where
  "update_spend i usd s = upd_job i (\<lambda>_. True) (\<lambda>j. j\<lparr>j_spend := usd\<rparr>) s"

definition request_cancel :: "int \<Rightarrow> string \<Rightarrow> job_store \<Rightarrow> (job_error, job_store) result" where
  "request_cancel now i s = append_event now i EvCancel [] (upd_job i (\<lambda>_. True) (\<lambda>j. j\<lparr>j_cancel := True\<rparr>) s)"

definition mark_blocked :: "int \<Rightarrow> string \<Rightarrow> string \<Rightarrow> job_store \<Rightarrow> job_store" where
  "mark_blocked now i request s =
     (let P = (\<lambda>j. j_status j = Running);
          s1 = upd_job i P (\<lambda>j. j\<lparr>j_status := Blocked, j_blocked_since := Some now,
                 j_blocked_request := Some request\<rparr>) s
      in if hits i P s then log_event now i EvBlocked [(''requestId'', request)] s1 else s1)"

definition resume_from_blocked :: "int \<Rightarrow> string \<Rightarrow> job_store \<Rightarrow> job_store" where
  "resume_from_blocked now i s =
     (let P = (\<lambda>j. j_status j = Blocked);
          s1 = upd_job i P (\<lambda>j. j\<lparr>j_status := Running, j_blocked_since := None,
                 j_blocked_request := None, j_heartbeat := Some now\<rparr>) s
      in if hits i P s then log_event now i EvResumed [] s1 else s1)"

datatype job_outcome = OkDone | OkFailed | OkAborted

fun outcome_status :: "job_outcome \<Rightarrow> job_status" where
  "outcome_status OkDone = Done"
| "outcome_status OkFailed = Failed"
| "outcome_status OkAborted = Aborted"

definition finish_job ::
  "int \<Rightarrow> string \<Rightarrow> job_outcome \<Rightarrow> string option \<Rightarrow> string option \<Rightarrow> bool \<Rightarrow> job_store \<Rightarrow> (job_error, job_store) result" where
  "finish_job now i out summary err tainted s =
     (case get_job s i of
        None \<Rightarrow> Inl (JobNotFound i)
      | Some row \<Rightarrow>
          if j_status row \<notin> {Running, Stale, Blocked} then Inl (NotFinishable i (j_status row))
          else
            (let s1 = upd_job i (\<lambda>_. True)
                   (\<lambda>j. j\<lparr>j_status := outcome_status out, j_summary := summary, j_error := err,
                         j_finished := Some now, j_blocked_since := None, j_blocked_request := None,
                         j_tainted := (j_tainted j \<or> tainted)\<rparr>) s;
                 s2 = (if j_status row = Stale then log_event now i EvRecovered [] s1 else s1)
             in Inr (record_terminal now i (outcome_status out) s2)))"

definition bump_running_heartbeats :: "rat option \<Rightarrow> job_store \<Rightarrow> nat \<times> job_store" where
  "bump_running_heartbeats pause s =
     (case pause of
        None \<Rightarrow> (0, s)
      | Some p \<Rightarrow>
          (let off = js_round p; P = (\<lambda>j. j_status j = Running \<and> j_heartbeat j \<noteq> None)
           in if off \<le> 0 then (0, s)
              else (length (filter P (js_jobs s)),
                    s\<lparr>js_jobs := map (\<lambda>j. if P j then j\<lparr>j_heartbeat := map_option (\<lambda>t. t + off) (j_heartbeat j)\<rparr> else j)
                        (js_jobs s)\<rparr>)))"

definition reclaim_stale :: "int \<Rightarrow> int \<Rightarrow> job_store \<Rightarrow> job list \<times> job_store" where
  "reclaim_stale now stale_ms s =
     (let threshold = now - stale_ms;
          rows = ids_where (\<lambda>j. j_status j = Running \<and> (case j_heartbeat j of None \<Rightarrow> False | Some t \<Rightarrow> t \<le> threshold)) s;
          (moved, s') = sweep (\<lambda>j. j_status j = Running)
            (\<lambda>j. j\<lparr>j_status := Stale, j_error := Some (''stalled '' @ em_dash @ '' no heartbeat'')\<rparr>)
            (\<lambda>i. record_terminal now i Stale) rows s
      in (List.map_filter (get_job s') moved, s'))"

definition expire_queued :: "int \<Rightarrow> int \<Rightarrow> job_store \<Rightarrow> job list \<times> job_store" where
  "expire_queued now ttl_ms s =
     (let threshold = now - ttl_ms;
          rows = ids_where (\<lambda>j. j_status j = Queued \<and> j_created j \<le> threshold) s;
          (moved, s') = sweep (\<lambda>j. j_status j = Queued)
            (\<lambda>j. j\<lparr>j_status := Expired, j_error := Some (''queued too long '' @ em_dash
               @ '' no executor claimed it (process may have died before claiming)'')\<rparr>)
            (\<lambda>i. record_terminal now i Expired) rows s
      in (List.map_filter (get_job s') moved, s'))"

section \<open>Steers\<close>

definition steer_max_pending :: nat where "steer_max_pending = 32"
definition steer_max_chars :: nat where "steer_max_chars = 4000"

datatype steer_refusal = SteerNotFound | SteerRemote | SteerFinished job_status | SteerTooLong | SteerFull

definition pending_steers :: "string \<Rightarrow> job_store \<Rightarrow> steer list" where
  "pending_steers i s = filter (\<lambda>r. sr_job r = i \<and> sr_state r = Pending) (js_steers s)"

definition add_steer ::
  "int \<Rightarrow> string \<Rightarrow> string \<Rightarrow> steer_source \<Rightarrow> string option \<Rightarrow> job_store \<Rightarrow> (steer_refusal, steer) result \<times> job_store" where
  "add_steer now i text src user s =
     (case get_job s i of
        None \<Rightarrow> (Inl SteerNotFound, s)
      | Some j \<Rightarrow>
          if j_remote_job j \<noteq> None then (Inl SteerRemote, s)
          else if \<not> active (j_status j) then (Inl (SteerFinished (j_status j)), s)
          else if length text > steer_max_chars then (Inl SteerTooLong, s)
          else if length (pending_steers i s) \<ge> steer_max_pending then (Inl SteerFull, s)
          else
            (let r = \<lparr>sr_id = next_id (map sr_id (js_steers s)), sr_job = i, sr_text = text,
                   sr_state = Pending, sr_source = src, sr_user = user, sr_at = now, sr_read_at = None\<rparr>
             in (Inr r, log_event now i EvSteer
                   [(''steerId'', show_nat (sr_id r)), (''chars'', show_nat (length text)), (''source'', source_name src)]
                   (s\<lparr>js_steers := js_steers s @ [r]\<rparr>))))"

definition list_pending_steers :: "string \<Rightarrow> nat \<Rightarrow> job_store \<Rightarrow> steer list" where
  "list_pending_steers i after s = sort_key sr_id (filter (\<lambda>r. sr_id r > after) (pending_steers i s))"

definition mark_steers_read :: "int \<Rightarrow> string \<Rightarrow> nat list \<Rightarrow> job_store \<Rightarrow> job_store" where
  "mark_steers_read now i ids s =
     s\<lparr>js_steers := map (\<lambda>r. if sr_job r = i \<and> sr_id r \<in> set ids \<and> sr_state r = Pending
         then r\<lparr>sr_state := Read, sr_read_at := Some now\<rparr> else r) (js_steers s)\<rparr>"

definition list_steers :: "string \<Rightarrow> job_store \<Rightarrow> steer list" where
  "list_steers i s = sort_key sr_id (filter (\<lambda>r. sr_job r = i) (js_steers s))"


section \<open>Delivery and notices\<close>

definition claim_delivery :: "int \<Rightarrow> string \<Rightarrow> job_store \<Rightarrow> bool \<times> job_store" where
  "claim_delivery now i s =
     (hits i (\<lambda>j. j_delivered j = None) s,
      upd_job i (\<lambda>j. j_delivered j = None) (\<lambda>j. j\<lparr>j_delivered := Some now\<rparr>) s)"

definition release_delivery :: "string \<Rightarrow> job_store \<Rightarrow> job_store" where
  "release_delivery i s = upd_job i (\<lambda>_. True) (\<lambda>j. j\<lparr>j_delivered := None\<rparr>) s"

text \<open>\<open>INSERT OR IGNORE\<close>: the primary key is the request.\<close>

definition claim_notice :: "int \<Rightarrow> string \<Rightarrow> string \<Rightarrow> job_store \<Rightarrow> bool \<times> job_store" where
  "claim_notice now req i s =
     (if req \<in> nt_request ` set (js_notices s) then (False, s)
      else (True, s\<lparr>js_notices := js_notices s @ [\<lparr>nt_request = req, nt_job = i, nt_at = now\<rparr>]\<rparr>))"

definition release_notice :: "string \<Rightarrow> job_store \<Rightarrow> job_store" where
  "release_notice req s = s\<lparr>js_notices := filter (\<lambda>n. nt_request n \<noteq> req) (js_notices s)\<rparr>"

definition settled_at :: "job \<Rightarrow> int" where
  "settled_at j = (case j_finished j of None \<Rightarrow> j_created j | Some t \<Rightarrow> t)"

definition prune_terminal :: "int \<Rightarrow> job_store \<Rightarrow> nat \<times> job_store" where
  "prune_terminal cutoff s =
     (let old = (\<lambda>j. terminal (j_status j) \<and> settled_at j < cutoff);
          gone = j_id ` set (filter old (js_jobs s));
          jobs = filter (\<lambda>j. \<not> old j) (js_jobs s)
      in (length (filter old (js_jobs s)),
          \<lparr>js_jobs = jobs,
           js_events = filter (\<lambda>e. je_job e \<notin> gone) (js_events s),
           js_notices = filter (\<lambda>n. nt_job n \<notin> gone) (js_notices s),
           js_steers = filter (\<lambda>r. sr_job r \<in> j_id ` set jobs) (js_steers s)\<rparr>))"

section \<open>Reads\<close>

text \<open>A limit is floored, and a negative one is zero.\<close>

definition page_limit :: "rat \<Rightarrow> nat" where
  "page_limit r = nat (floor r)"

definition get_events ::
  "string \<Rightarrow> int option \<Rightarrow> int option \<Rightarrow> rat option \<Rightarrow> job_store \<Rightarrow> job_event list" where
  "get_events i before after limit s =
     (let rows = sort_key je_seq (filter (\<lambda>e. je_job e = i
            \<and> (case before of None \<Rightarrow> True | Some b \<Rightarrow> int (je_seq e) < b)
            \<and> (case after of None \<Rightarrow> True | Some a \<Rightarrow> int (je_seq e) > a)) (js_events s))
      in case limit of
           None \<Rightarrow> rows
         | Some l \<Rightarrow>
             (if after \<noteq> None then take (page_limit l) rows
              else drop (length rows - page_limit l) rows))"

text \<open>\<open>ORDER BY created_at DESC, rowid DESC\<close>.\<close>

definition newest_first :: "job list \<Rightarrow> job list" where
  "newest_first js = rev (sort_key j_created js)"

definition list_by_origin ::
  "string \<Rightarrow> string \<Rightarrow> string \<Rightarrow> string option \<Rightarrow> rat option \<Rightarrow> job_store \<Rightarrow> job list" where
  "list_by_origin platform bot_key chat thread limit s =
     take (case limit of None \<Rightarrow> 50 | Some l \<Rightarrow> page_limit l)
       (newest_first (filter (\<lambda>j. j_platform j = Some platform \<and> j_bot j = Some bot_key
          \<and> j_chat j = Some chat \<and> j_thread j = thread) (js_jobs s)))"

definition list_by_root :: "string \<Rightarrow> job_store \<Rightarrow> job list" where
  "list_by_root key s = newest_first (filter (\<lambda>j. j_root_key j = key) (js_jobs s))"

definition count_active_by_root :: "string \<Rightarrow> job_store \<Rightarrow> nat" where
  "count_active_by_root key s = length (filter (\<lambda>j. j_root_key j = key \<and> active (j_status j)) (js_jobs s))"

definition count_active_by_personality :: "string \<Rightarrow> job_store \<Rightarrow> nat" where
  "count_active_by_personality p s =
     length (filter (\<lambda>j. j_personality j = Some p \<and> active (j_status j)) (js_jobs s))"

definition count_active :: "job_store \<Rightarrow> nat" where
  "count_active s = length (filter (\<lambda>j. active (j_status j)) (js_jobs s))"

definition list_running_remote :: "job_store \<Rightarrow> job list" where
  "list_running_remote s =
     sort_key j_created (filter (\<lambda>j. j_status j = Running \<and> j_remote_job j \<noteq> None) (js_jobs s))"

definition aborted_by_shutdown :: string where
  "aborted_by_shutdown = ''interrupted: its runtime shut down (a restart or a configuration change)''"

definition announceable :: "job \<Rightarrow> bool" where
  "announceable j = (j_status j = Done \<or> j_status j = Failed
     \<or> j_status j = Aborted \<and> j_error j = Some aborted_by_shutdown)"

definition list_undelivered :: "string list \<Rightarrow> job_store \<Rightarrow> job list" where
  "list_undelivered bots s =
     (if bots = [] then []
      else sort_key settled_at
        (filter (\<lambda>j. announceable j \<and> j_delivered j = None
           \<and> (case j_bot j of None \<Rightarrow> False | Some b \<Rightarrow> b \<in> set bots)
           \<and> j_platform j \<noteq> None \<and> j_chat j \<noteq> None) (js_jobs s)))"

section \<open>The store as a machine\<close>

datatype job_op =
    Create string job_input
  | ClaimNext string "string option"
  | ReleaseQueued string string
  | Heartbeat string
  | UpdateSpend string rat
  | RequestCancel string
  | MarkBlocked string string
  | Resume string
  | Finish string job_outcome "string option" "string option" bool
  | AddSteer string string steer_source "string option"
  | MarkRead string "nat list"
  | BumpHeartbeats "rat option"
  | ReclaimStale int
  | ExpireQueued int
  | ClaimDelivery string
  | ReleaseDelivery string
  | ClaimNotice string string
  | ReleaseNotice string
  | PruneTerminal int
  | AppendEvent string event_type "(string \<times> string) list"

datatype job_reply =
    NoReply
  | Claimed "string option"
  | Count nat
  | Moved "job list"
  | Steered "(steer_refusal, steer) result"
  | Won bool

definition replying :: "('a \<Rightarrow> job_reply) \<Rightarrow> 'a \<times> job_store \<Rightarrow> (job_error, job_reply \<times> job_store) result" where
  "replying r x = Inr (r (fst x), snd x)"

definition quietly :: "(job_error, job_store) result \<Rightarrow> (job_error, job_reply \<times> job_store) result" where
  "quietly m = ebind m (\<lambda>s. Inr (NoReply, s))"

fun job_do :: "int \<times> job_op \<Rightarrow> job_store \<Rightarrow> (job_error, job_reply \<times> job_store) result" where
  "job_do (now, Create i inp) s = quietly (create_job now i inp s)"
| "job_do (now, ClaimNext owner adopt) s = replying Claimed (claim_next_queued now owner adopt s)"
| "job_do (now, ReleaseQueued owner label) s = replying Count (release_queued now owner label s)"
| "job_do (now, Heartbeat i) s = quietly (Inr (heartbeat now i s))"
| "job_do (now, UpdateSpend i usd) s = quietly (Inr (update_spend i usd s))"
| "job_do (now, RequestCancel i) s = quietly (request_cancel now i s)"
| "job_do (now, MarkBlocked i req) s = quietly (Inr (mark_blocked now i req s))"
| "job_do (now, Resume i) s = quietly (Inr (resume_from_blocked now i s))"
| "job_do (now, Finish i out summary err tainted) s = quietly (finish_job now i out summary err tainted s)"
| "job_do (now, AddSteer i txt src user) s = replying Steered (add_steer now i txt src user s)"
| "job_do (now, MarkRead i ids) s = quietly (Inr (mark_steers_read now i ids s))"
| "job_do (now, BumpHeartbeats p) s = replying Count (bump_running_heartbeats p s)"
| "job_do (now, ReclaimStale ms) s = replying Moved (reclaim_stale now ms s)"
| "job_do (now, ExpireQueued ms) s = replying Moved (expire_queued now ms s)"
| "job_do (now, ClaimDelivery i) s = replying Won (claim_delivery now i s)"
| "job_do (now, ReleaseDelivery i) s = quietly (Inr (release_delivery i s))"
| "job_do (now, ClaimNotice req i) s = replying Won (claim_notice now req i s)"
| "job_do (now, ReleaseNotice req) s = quietly (Inr (release_notice req s))"
| "job_do (now, PruneTerminal cutoff) s = replying Count (prune_terminal cutoff s)"
| "job_do (now, AppendEvent i ty payload) s = quietly (append_event now i ty payload s)"

definition job_step :: "int \<times> job_op \<Rightarrow> job_store \<Rightarrow> (job_error, job_store) result" where
  "job_step x s = ebind (job_do x s) (\<lambda>(r, s'). Inr s')"

text \<open>One call of a process among several, and whether its reply was the one asked about.\<close>

definition job_call :: "(job_reply \<Rightarrow> bool) \<Rightarrow> int \<times> job_op \<Rightarrow> job_store \<Rightarrow> bool \<times> job_store" where
  "job_call P x s = (case job_do x s of Inl _ \<Rightarrow> (False, s) | Inr (r, s') \<Rightarrow> (P r, s'))"

lemma job_step_eq [simp]: "job_step x s = Inr s' \<longleftrightarrow> (\<exists>r. job_do x s = Inr (r, s'))"
  by (auto simp: job_step_def ebind_eq_Inr)

lemma replying_eq [simp]: "replying r x = Inr (q, s') \<longleftrightarrow> q = r (fst x) \<and> s' = snd x"
  by (auto simp: replying_def)

lemma quietly_eq [simp]: "quietly m = Inr (q, s') \<longleftrightarrow> q = NoReply \<and> m = Inr s'"
  by (auto simp: quietly_def ebind_eq_Inr)

end
