(* ===== verification/JobLaws.thy ===== *)
theory JobLaws
  imports JobStore
begin

text \<open>
  The laws of the job store: its invariant over every sequence of calls, the life cycle of a job as a step
  relation the calls refine, and what \<open>Contracts\<close> gives for the claims processes race for.
\<close>

section \<open>The invariant\<close>

text \<open>
  Ids are unique; a job's events are numbered from 1 without a gap and belong to a job that exists; a job
  waits on a request exactly while it is blocked; a pending steer waits for a job that is still active, and
  no job has more than the cap of them; steer ids grow.
\<close>

definition events_of :: "string \<Rightarrow> job_store \<Rightarrow> job_event list" where
  "events_of i s = filter (\<lambda>e. je_job e = i) (js_events s)"

definition numbered :: "nat list \<Rightarrow> bool" where
  "numbered xs \<longleftrightarrow> xs = [1..<Suc (length xs)]"

definition parked :: "job \<Rightarrow> bool" where
  "parked j \<longleftrightarrow> (j_blocked_request j \<noteq> None) = (j_status j = Blocked)"

definition active_ids :: "job_store \<Rightarrow> string set" where
  "active_ids s = {j_id j | j. j \<in> set (js_jobs s) \<and> active (j_status j)}"

definition job_inv_but :: "string set \<Rightarrow> job_store \<Rightarrow> bool" where
  "job_inv_but X s \<longleftrightarrow> distinct (map j_id (js_jobs s))
     \<and> je_job ` set (js_events s) \<subseteq> j_id ` set (js_jobs s)
     \<and> (\<forall>i. numbered (map je_seq (events_of i s)))
     \<and> (\<forall>j \<in> set (js_jobs s). parked j)
     \<and> (\<forall>r \<in> set (js_steers s). sr_state r = Pending \<longrightarrow> sr_job r \<in> active_ids s \<union> X)
     \<and> (\<forall>i. length (pending_steers i s) \<le> steer_max_pending)
     \<and> sorted_wrt (<) (map sr_id (js_steers s))"

abbreviation job_inv :: "job_store \<Rightarrow> bool" where
  "job_inv \<equiv> job_inv_but {}"

lemma upd_job_fields [simp]:
  "js_events (upd_job i P f s) = js_events s"
  "js_notices (upd_job i P f s) = js_notices s"
  "js_steers (upd_job i P f s) = js_steers s"
  "events_of k (upd_job i P f s) = events_of k s"
  "pending_steers k (upd_job i P f s) = pending_steers k s"
  by (simp_all add: upd_job_def events_of_def pending_steers_def)

lemma log_event_fields [simp]:
  "js_jobs (log_event now i ty p s) = js_jobs s"
  "js_notices (log_event now i ty p s) = js_notices s"
  "js_steers (log_event now i ty p s) = js_steers s"
  "pending_steers k (log_event now i ty p s) = pending_steers k s"
  "active_ids (log_event now i ty p s) = active_ids s"
  by (simp_all add: log_event_def active_ids_def pending_steers_def)

lemma sweep_steers_fields [simp]:
  "js_jobs (sweep_steers i s) = js_jobs s"
  "js_events (sweep_steers i s) = js_events s"
  "js_notices (sweep_steers i s) = js_notices s"
  "events_of k (sweep_steers i s) = events_of k s"
  "active_ids (sweep_steers i s) = active_ids s"
  by (simp_all add: sweep_steers_def events_of_def active_ids_def)

lemma upd_job_jobs:
  "js_jobs (upd_job i P f s) = map (\<lambda>j. if j_id j = i \<and> P j then f j else j) (js_jobs s)"
  by (simp add: upd_job_def)

lemma get_job_Some: "get_job s i = Some j \<Longrightarrow> j \<in> set (js_jobs s) \<and> j_id j = i"
  unfolding get_job_def by (rule find_SomeD)

lemma get_job_None: "get_job s i = None \<longleftrightarrow> i \<notin> j_id ` set (js_jobs s)"
  by (auto simp: get_job_def find_None_iff)

lemma numbered_Nil [simp]: "numbered []"
  by (simp add: numbered_def)

lemma next_id_numbered: "numbered xs \<Longrightarrow> next_id xs = Suc (length xs)"
proof -
  have "foldr max [1..<Suc n] m = max n m" for n m :: nat
    by (induction n arbitrary: m) (auto simp: max_def)
  then show "numbered xs \<Longrightarrow> next_id xs = Suc (length xs)"
    unfolding numbered_def next_id_def by (metis Suc_eq_plus1 max_0R)
qed

lemma numbered_snoc: "numbered xs \<Longrightarrow> numbered (xs @ [next_id xs])"
  using next_id_numbered [of xs] by (simp add: numbered_def)

lemma next_id_above: "x \<in> set xs \<Longrightarrow> x < next_id xs"
  unfolding next_id_def by (induction xs) (auto simp: less_Suc_eq_le le_max_iff_disj)

lemma log_event_inv:
  assumes "job_inv_but X s" "i \<in> j_id ` set (js_jobs s)"
  shows "job_inv_but X (log_event now i ty p s)"
proof -
  have ev: "events_of k (log_event now i ty p s) = (if k = i then events_of i s @
      [\<lparr>je_id = next_id (map je_id (js_events s)), je_job = i, je_seq = next_id (map je_seq (events_of i s)),
        je_type = ty, je_payload = p, je_at = now\<rparr>] else events_of k s)" for k
    by (simp add: log_event_def events_of_def)
  have "numbered (map je_seq (events_of k (log_event now i ty p s)))" for k
    using assms(1) numbered_snoc [of "map je_seq (events_of k s)"] unfolding ev by (auto simp: job_inv_but_def)
  moreover have "je_job ` set (js_events (log_event now i ty p s)) \<subseteq> j_id ` set (js_jobs s)"
    using assms by (auto simp: job_inv_but_def log_event_def)
  ultimately show ?thesis using assms(1) by (simp add: job_inv_but_def)
qed

text \<open>An update keeps the invariant when what it blocks it also names a request for.\<close>

lemma upd_job_inv:
  assumes inv: "job_inv_but X s"
    and ids: "\<And>j. j_id (f j) = j_id j"
    and blk: "\<And>j. P j \<Longrightarrow> parked j \<Longrightarrow> parked (f j)"
    and act: "\<And>j. j_id j = i \<Longrightarrow> P j \<Longrightarrow> active (j_status j) \<Longrightarrow> active (j_status (f j)) \<or> i \<in> X"
  shows "job_inv_but X (upd_job i P f s)"
proof -
  let ?g = "\<lambda>j. if j_id j = i \<and> P j then f j else j"
  have idm: "map j_id (map ?g (js_jobs s)) = map j_id (js_jobs s)" using ids by (simp add: comp_def if_distrib)
  have ids': "j_id ` set (js_jobs (upd_job i P f s)) = j_id ` set (js_jobs s)"
    using idm by (metis upd_job_jobs image_set)
  have acts: "active_ids s \<subseteq> active_ids (upd_job i P f s) \<union> X"
  proof (rule subsetI)
    fix k assume "k \<in> active_ids s"
    then obtain j where j: "j \<in> set (js_jobs s)" "active (j_status j)" "k = j_id j"
      by (auto simp: active_ids_def)
    have "?g j \<in> set (js_jobs (upd_job i P f s))" "j_id (?g j) = k"
      using j ids by (auto simp: upd_job_jobs)
    moreover have "active (j_status (?g j)) \<or> k \<in> X" using j act [of j] by auto
    ultimately show "k \<in> active_ids (upd_job i P f s) \<union> X"
      unfolding active_ids_def by blast
  qed
  have "distinct (map j_id (js_jobs (upd_job i P f s)))"
    using inv idm by (simp only: job_inv_but_def upd_job_jobs)
  moreover have "\<forall>j \<in> set (js_jobs (upd_job i P f s)). parked j"
    using inv blk by (auto simp: job_inv_but_def upd_job_jobs)
  ultimately show ?thesis using inv acts unfolding job_inv_but_def ids'
    by (simp add: subset_iff) blast
qed

lemma job_inv_mono: "job_inv_but X s \<Longrightarrow> X \<subseteq> Y \<Longrightarrow> job_inv_but Y s"
  unfolding job_inv_but_def by blast

lemma pending_sweep:
  "pending_steers k (sweep_steers i s) = (if k = i then [] else pending_steers k s)"
proof -
  have "filter (\<lambda>r. sr_job r = k \<and> sr_state r = Pending)
      (map (\<lambda>r. if sr_job r = i \<and> sr_state r = Pending then r\<lparr>sr_state := Unread\<rparr> else r) rs)
    = (if k = i then [] else filter (\<lambda>r. sr_job r = k \<and> sr_state r = Pending) rs)" for rs :: "steer list"
    by (induction rs) auto
  then show ?thesis by (simp add: pending_steers_def sweep_steers_def)
qed

lemma sweep_steers_inv:
  assumes "job_inv_but (insert i X) s"
  shows "job_inv_but X (sweep_steers i s)"
proof -
  have "map sr_id (js_steers (sweep_steers i s)) = map sr_id (js_steers s)"
    by (simp add: sweep_steers_def)
  moreover have "\<forall>r \<in> set (js_steers (sweep_steers i s)). sr_state r = Pending
      \<longrightarrow> sr_job r \<in> active_ids s \<union> X"
    using assms by (auto simp: job_inv_but_def sweep_steers_def split: if_splits)
  moreover have "length (pending_steers k (sweep_steers i s)) \<le> steer_max_pending" for k
    using assms by (simp add: pending_sweep job_inv_but_def)
  ultimately show ?thesis using assms by (simp add: job_inv_but_def)
qed


lemma parked_keep [simp]:
  "parked (j\<lparr>j_owner := ow\<rparr>) = parked j" "parked (j\<lparr>j_heartbeat := hb\<rparr>) = parked j"
  "parked (j\<lparr>j_spend := sp\<rparr>) = parked j" "parked (j\<lparr>j_cancel := ca\<rparr>) = parked j"
  "parked (j\<lparr>j_delivered := de\<rparr>) = parked j" "parked (j\<lparr>j_error := er\<rparr>) = parked j"
  by (simp_all add: parked_def)

lemma hits_id: "hits i P s \<Longrightarrow> i \<in> j_id ` set (js_jobs s)"
  by (auto simp: hits_def list_ex_iff)

lemma upd_job_ids:
  "(\<And>j. j_id (f j) = j_id j) \<Longrightarrow> j_id ` set (js_jobs (upd_job i P f s)) = j_id ` set (js_jobs s)"
  unfolding upd_job_jobs set_map image_image by (rule image_cong) auto

lemma record_terminal_inv:
  assumes "job_inv_but {i} s" "i \<in> j_id ` set (js_jobs s)"
  shows "job_inv (record_terminal now i st s)"
  unfolding record_terminal_def by (intro sweep_steers_inv log_event_inv) (use assms in simp_all)

lemma record_terminal_jobs [simp]: "js_jobs (record_terminal now i st s) = js_jobs s"
  by (simp add: record_terminal_def)

text \<open>A sweep keeps what one of its moves keeps.\<close>

lemma sweep_keeps:
  assumes "\<And>i s. R s \<Longrightarrow> hits i P s \<Longrightarrow> R (after i (upd_job i P f s))" "R s"
  shows "R (snd (sweep P f after is s))"
  using assms(2)
proof (induction "is" arbitrary: s)
  case (Cons i "is")
  show ?case
  proof (cases "hits i P s")
    case True
    then have "R (snd (sweep P f after is (after i (upd_job i P f s))))"
      by (intro Cons.IH assms(1) Cons.prems)
    with True show ?thesis by (simp add: case_prod_unfold)
  qed (simp add: Cons)
qed simp

lemma new_job_inv:
  assumes "job_inv s" "i \<notin> j_id ` set (js_jobs s)" "j_id j = i" "parked j"
  shows "job_inv (s\<lparr>js_jobs := js_jobs s @ [j]\<rparr>)"
  using assms by (auto simp: job_inv_but_def active_ids_def events_of_def pending_steers_def)


section \<open>Every call keeps it\<close>

named_theorems job_keeps \<open>an operation of the store keeps the invariant\<close>

lemma create_job_keeps [job_keeps]: "job_inv s \<Longrightarrow> create_job now i inp s = Inr s' \<Longrightarrow> job_inv s'"
  by (auto simp: create_job_def get_job_None new_job_def parked_def split: if_splits
      intro!: log_event_inv new_job_inv)

lemma claim_next_keeps [job_keeps]: "job_inv s \<Longrightarrow> job_inv (snd (claim_next_queued now ow ad s))"
  by (auto simp: claim_next_queued_def Let_def active_def parked_def upd_job_ids
      split: list.splits intro!: log_event_inv upd_job_inv dest: hits_id)

lemma release_queued_keeps [job_keeps]: "job_inv s \<Longrightarrow> job_inv (snd (release_queued now ow lb s))"
proof -
  assume s: "job_inv s"
  let ?P = "\<lambda>j. j_status j = Queued \<and> j_owner j = ow"
  let ?f = "j_owner_update (\<lambda>_. lb)"
  let ?a = "\<lambda>i. log_event now i EvQueued [(''releasedBy'', ow), (''releasedAs'', lb)]"
  have "job_inv (snd (sweep ?P ?f ?a (ids_where ?P s) s))"
    by (rule sweep_keeps [where R = job_inv]; (rule s)?)
      (auto intro!: log_event_inv upd_job_inv simp: upd_job_ids dest: hits_id)
  then show ?thesis by (simp add: release_queued_def Let_def case_prod_unfold)
qed

lemma plain_updates_keep [job_keeps]:
  "job_inv s \<Longrightarrow> job_inv (heartbeat now i s)"
  "job_inv s \<Longrightarrow> job_inv (update_spend i usd s)"
  "job_inv s \<Longrightarrow> job_inv (release_delivery i s)"
  "job_inv s \<Longrightarrow> job_inv (snd (claim_delivery now i s))"
  unfolding heartbeat_def update_spend_def release_delivery_def claim_delivery_def
  by (simp_all add: upd_job_inv)

lemma append_event_keeps [job_keeps]: "job_inv s \<Longrightarrow> append_event now i ty p s = Inr s' \<Longrightarrow> job_inv s'"
  by (auto simp: append_event_def get_job_None intro: log_event_inv split: if_splits)

lemma request_cancel_keeps [job_keeps]: "job_inv s \<Longrightarrow> request_cancel now i s = Inr s' \<Longrightarrow> job_inv s'"
  unfolding request_cancel_def by (erule append_event_keeps [rotated]) (simp add: upd_job_inv)

lemma blocking_keeps [job_keeps]:
  "job_inv s \<Longrightarrow> job_inv (mark_blocked now i req s)"
  "job_inv s \<Longrightarrow> job_inv (resume_from_blocked now i s)"
  unfolding mark_blocked_def resume_from_blocked_def Let_def
  by (auto intro!: log_event_inv upd_job_inv simp: upd_job_ids parked_def active_def dest: hits_id)

lemma outcome_not_blocked: "outcome_status out \<noteq> Blocked"
  by (cases out) simp_all

lemma finish_job_keeps [job_keeps]:
  assumes "job_inv s" "finish_job now i out su er ta s = Inr s'"
  shows "job_inv s'"
proof -
  let ?f = "\<lambda>j. j\<lparr>j_status := outcome_status out, j_summary := su, j_error := er, j_finished := Some now,
    j_blocked_since := None, j_blocked_request := None, j_tainted := (j_tainted j \<or> ta)\<rparr>"
  from assms(2) obtain row where row: "get_job s i = Some row"
    and s': "s' = record_terminal now i (outcome_status out)
      (if j_status row = Stale then log_event now i EvRecovered [] (upd_job i (\<lambda>_. True) ?f s)
       else upd_job i (\<lambda>_. True) ?f s)"
    by (auto simp: finish_job_def Let_def split: option.splits if_splits)
  have "i \<in> j_id ` set (js_jobs s)" using get_job_Some [OF row] by auto
  moreover have "job_inv_but {i} (upd_job i (\<lambda>_. True) ?f s)"
    by (rule upd_job_inv) (use assms(1) in \<open>auto simp: parked_def outcome_not_blocked intro: job_inv_mono\<close>)
  ultimately show ?thesis unfolding s'
    by (intro record_terminal_inv) (auto simp: upd_job_ids intro!: log_event_inv)
qed

lemma dead_sweeps_keep [job_keeps]:
  "job_inv s \<Longrightarrow> job_inv (snd (reclaim_stale now ms s))"
  "job_inv s \<Longrightarrow> job_inv (snd (expire_queued now ms s))"
proof -
  have sw: "job_inv (snd (sweep (\<lambda>j. j_status j = a) (\<lambda>j. j\<lparr>j_status := b, j_error := er\<rparr>)
      (\<lambda>i. record_terminal now i b) is s))"
    if "job_inv s" "a \<noteq> Blocked" "b \<noteq> Blocked" for a b er "is"
  proof (rule sweep_keeps [where R = job_inv])
    fix i s assume "job_inv s" "hits i (\<lambda>j. j_status j = a) s"
    then show "job_inv (record_terminal now i b
        (upd_job i (\<lambda>j. j_status j = a) (\<lambda>j. j\<lparr>j_status := b, j_error := er\<rparr>) s))"
      using that(2,3)
      by (intro record_terminal_inv upd_job_inv)
        (auto simp: upd_job_ids parked_def intro: job_inv_mono dest: hits_id)
  qed (rule that(1))
  show "job_inv s \<Longrightarrow> job_inv (snd (reclaim_stale now ms s))"
    "job_inv s \<Longrightarrow> job_inv (snd (expire_queued now ms s))"
    using sw by (simp_all add: reclaim_stale_def expire_queued_def Let_def case_prod_unfold)
qed


lemma add_steer_keeps [job_keeps]: "job_inv s \<Longrightarrow> job_inv (snd (add_steer now i txt src user s))"
proof -
  assume s: "job_inv s"
  let ?r = "\<lparr>sr_id = next_id (map sr_id (js_steers s)), sr_job = i, sr_text = txt,
    sr_state = Pending, sr_source = src, sr_user = user, sr_at = now, sr_read_at = None\<rparr>"
  let ?s = "s\<lparr>js_steers := js_steers s @ [?r]\<rparr>"
  have grown: "job_inv ?s" if "get_job s i = Some j" "active (j_status j)" "length (pending_steers i s) < steer_max_pending" for j
  proof -
    have "pending_steers k ?s = pending_steers k s @ (if k = i then [?r] else [])" for k
      by (simp add: pending_steers_def)
    moreover have "i \<in> active_ids s" using that get_job_Some by (fastforce simp: active_ids_def)
    moreover have "sorted_wrt (<) (map sr_id (js_steers s) @ [next_id (map sr_id (js_steers s))])"
      using s by (simp add: job_inv_but_def sorted_wrt_append next_id_above del: set_map)
    ultimately show ?thesis using s that(3)
      by (auto simp: job_inv_but_def active_ids_def events_of_def)
  qed
  show ?thesis
  proof (cases "\<exists>r. fst (add_steer now i txt src user s) = Inr r")
    case True
    then obtain j where j: "get_job s i = Some j" "active (j_status j)" "length (pending_steers i s) < steer_max_pending"
      and e: "snd (add_steer now i txt src user s) = log_event now i EvSteer
        [(''steerId'', show_nat (sr_id ?r)), (''chars'', show_nat (length txt)), (''source'', source_name src)] ?s"
      by (auto simp: add_steer_def Let_def split: option.splits if_splits)
    have "i \<in> j_id ` set (js_jobs s)" using get_job_Some [OF j(1)] by auto
    then show ?thesis unfolding e by (intro log_event_inv grown [OF j]) simp
  next
    case False
    then have "snd (add_steer now i txt src user s) = s"
      by (auto simp: add_steer_def Let_def split: option.splits if_splits)
    then show ?thesis using s by simp
  qed
qed

lemma mark_steers_read_keeps [job_keeps]: "job_inv s \<Longrightarrow> job_inv (mark_steers_read now i ids s)"
proof -
  assume s: "job_inv s"
  let ?g = "\<lambda>r. if sr_job r = i \<and> sr_id r \<in> set ids \<and> sr_state r = Pending
    then r\<lparr>sr_state := Read, sr_read_at := Some now\<rparr> else r"
  have "length (filter (\<lambda>r. sr_job r = k \<and> sr_state r = Pending) (map ?g rs))
      \<le> length (filter (\<lambda>r. sr_job r = k \<and> sr_state r = Pending) rs)" for k and rs :: "steer list"
    by (induction rs) auto
  then have "length (pending_steers k (mark_steers_read now i ids s)) \<le> length (pending_steers k s)" for k
    by (simp add: pending_steers_def mark_steers_read_def)
  moreover have "length (pending_steers k s) \<le> steer_max_pending" for k
    using s by (simp add: job_inv_but_def)
  ultimately have "length (pending_steers k (mark_steers_read now i ids s)) \<le> steer_max_pending" for k
    using le_trans by blast
  moreover have "map sr_id (map ?g (js_steers s)) = map sr_id (js_steers s)" by simp
  ultimately show ?thesis using s
    by (auto simp: job_inv_but_def mark_steers_read_def events_of_def active_ids_def
        simp del: map_map split: if_splits)
qed

text \<open>The invariant reads of a job its id, its status and its parked request.\<close>

lemma job_inv_same:
  assumes s: "job_inv_but X s"
    and g: "\<And>j. j_id (g j) = j_id j" "\<And>j. j_status (g j) = j_status j"
      "\<And>j. j_blocked_request (g j) = j_blocked_request j"
  shows "job_inv_but X (s\<lparr>js_jobs := map g (js_jobs s)\<rparr>)"
proof -
  have "map j_id (map g (js_jobs s)) = map j_id (js_jobs s)" using g(1) by simp
  moreover have "j_id ` set (map g (js_jobs s)) = j_id ` set (js_jobs s)"
    unfolding set_map image_image g(1) ..
  moreover have "active_ids (s\<lparr>js_jobs := map g (js_jobs s)\<rparr>) = active_ids s"
  proof -
    have acts: "active_ids s = j_id ` {j \<in> set (js_jobs s). active (j_status j)}" for s
      by (auto simp: active_ids_def)
    have "{j \<in> g ` S. active (j_status j)} = g ` {j \<in> S. active (j_status j)}" for S
      using g(2) by auto
    then show ?thesis by (simp add: acts image_image g(1))
  qed
  moreover have "list_all parked (map g (js_jobs s)) = list_all parked (js_jobs s)"
    using g by (simp add: list_all_iff parked_def)
  ultimately show ?thesis using s
    by (simp add: job_inv_but_def events_of_def pending_steers_def list_all_iff del: map_map set_map)
qed

lemma bump_keeps [job_keeps]: "job_inv s \<Longrightarrow> job_inv (snd (bump_running_heartbeats p s))"
  by (auto simp: bump_running_heartbeats_def Let_def intro!: job_inv_same split: option.split)

lemma notices_keep [job_keeps]:
  "job_inv s \<Longrightarrow> job_inv (snd (claim_notice now req i s))"
  "job_inv s \<Longrightarrow> job_inv (release_notice req s)"
  by (simp_all add: claim_notice_def release_notice_def job_inv_but_def events_of_def
      active_ids_def pending_steers_def)

lemma prune_keeps [job_keeps]: "job_inv s \<Longrightarrow> job_inv (snd (prune_terminal cutoff s))"
proof -
  assume s: "job_inv s"
  let ?old = "\<lambda>j. terminal (j_status j) \<and> settled_at j < cutoff"
  let ?gone = "j_id ` set (filter ?old (js_jobs s))"
  let ?jobs = "filter (\<lambda>j. \<not> ?old j) (js_jobs s)"
  let ?t = "snd (prune_terminal cutoff s)"
  have t: "js_jobs ?t = ?jobs" "js_events ?t = filter (\<lambda>e. je_job e \<notin> ?gone) (js_events s)"
    "js_steers ?t = filter (\<lambda>r. sr_job r \<in> j_id ` set ?jobs) (js_steers s)"
    by (simp_all add: prune_terminal_def Let_def)
  have d: "distinct (map j_id ?jobs)" using s by (simp add: job_inv_but_def distinct_map_filter)
  have ev: "je_job ` set (js_events ?t) \<subseteq> j_id ` set ?jobs"
  proof (rule image_subsetI)
    fix e assume e: "e \<in> set (js_events ?t)"
    then have "je_job e \<in> j_id ` set (js_jobs s)" "je_job e \<notin> ?gone"
      using s unfolding t by (auto simp: job_inv_but_def)
    then show "je_job e \<in> j_id ` set ?jobs" by auto
  qed
  have "events_of k ?t = (if k \<in> ?gone then [] else events_of k s)" for k
    unfolding events_of_def t by (auto simp: filter_empty_conv intro!: filter_cong)
  then have num: "numbered (map je_seq (events_of k ?t))" for k
    using s by (simp add: job_inv_but_def)
  have act: "active_ids ?t = active_ids s"
    unfolding active_ids_def t by (auto simp: active_def terminal_def)
  have few: "length (pending_steers k ?t) \<le> steer_max_pending" for k
  proof -
    have "length (pending_steers k ?t) \<le> length (pending_steers k s)"
      unfolding pending_steers_def t by (rule length_filter_twice)
    also have "\<dots> \<le> steer_max_pending" using s by (simp add: job_inv_but_def)
    finally show ?thesis .
  qed
  have "sorted_wrt (<) (map sr_id (js_steers ?t))"
    using s unfolding t by (simp add: job_inv_but_def sorted_wrt_map sorted_wrt_filter)
  with d ev num few s show ?thesis unfolding job_inv_but_def act by (auto simp: t)
qed

lemma job_do_keeps: "job_inv s \<Longrightarrow> job_do x s = Inr (r, s') \<Longrightarrow> job_inv s'"
  by (cases "(x, s)" rule: job_do.cases) (auto intro: job_keeps)

interpretation jobs: inv_machine job_step job_inv
  by unfold_locales (auto intro: job_do_keeps)

lemma empty_jobs_inv: "job_inv empty_jobs"
  by (simp add: job_inv_but_def empty_jobs_def events_of_def pending_steers_def)

text \<open>The store after any sequence of calls, failed ones included.\<close>

definition job_store_after :: "(int \<times> job_op) list \<Rightarrow> job_store" where
  "job_store_after ops = run_live job_step ops empty_jobs"

lemma reached_inv: "job_inv (job_store_after ops)"
  unfolding job_store_after_def by (rule jobs.live_good [OF empty_jobs_inv])

end
