(* ===== verification/JobLife.thy ===== *)
theory JobLife
  imports JobLaws
begin

text \<open>
  The life cycle of a job as a step relation every call refines, what races between processes can win, and the
  order of claims, steers and event pages.
\<close>

section \<open>The life cycle\<close>

inductive job_edge :: "job_status \<Rightarrow> job_status \<Rightarrow> bool" where
  claimed: "job_edge Queued Running"
| expired: "job_edge Queued Expired"
| blocked: "job_edge Running Blocked"
| resumed: "job_edge Blocked Running"
| stalled: "job_edge Running Stale"
| ended: "st \<in> {Running, Blocked, Stale} \<Longrightarrow> job_edge st (outcome_status out)"

inductive_cases job_edgeE: "job_edge a b"

inductive_simps job_edge_final:
  "job_edge Done b" "job_edge Failed b" "job_edge Aborted b" "job_edge Expired b"

definition final :: "job_status \<Rightarrow> bool" where
  "final st = (st \<in> {Done, Failed, Aborted, Expired})"

lemma final_stays: "job_edge\<^sup>*\<^sup>* a b \<Longrightarrow> final a \<Longrightarrow> b = a"
  by (induction rule: converse_rtranclp_induct) (auto simp: final_def job_edge_final)

lemma outcome_not_queued: "outcome_status out \<noteq> Queued" "Queued \<noteq> outcome_status out"
  by (cases out; simp)+

lemma queued_unreachable: "job_edge\<^sup>*\<^sup>* a b \<Longrightarrow> b = Queued \<Longrightarrow> a = Queued"
proof (induction rule: rtranclp_induct)
  case (step b c)
  have "c \<noteq> Queued" using step.hyps(2) outcome_not_queued by (auto elim!: job_edgeE)
  with step.prems show ?case by simp
qed simp

definition job_grows :: "job \<Rightarrow> job \<Rightarrow> bool" where
  "job_grows j j' \<longleftrightarrow> j_id j' = j_id j \<and> j_delivered j' = j_delivered j \<and> job_edge\<^sup>*\<^sup>* (j_status j) (j_status j')"

definition evolves :: "job_store \<Rightarrow> job_store \<Rightarrow> bool" where
  "evolves s s' = list_all2 job_grows (js_jobs s) (js_jobs s')"

lemma evolves_refl [simp]: "js_jobs s' = js_jobs s \<Longrightarrow> evolves s s'"
  by (simp add: evolves_def list_all2_refl job_grows_def)

lemma evolves_trans: "evolves s t \<Longrightarrow> evolves t u \<Longrightarrow> evolves s u"
  unfolding evolves_def
  by (erule list_all2_trans [rotated 1], assumption) (auto simp: job_grows_def)

lemma evolves_upd:
  "(\<And>j. j \<in> set (js_jobs s) \<Longrightarrow> j_id j = i \<Longrightarrow> P j \<Longrightarrow> job_grows j (f j)) \<Longrightarrow> evolves s (upd_job i P f s)"
  by (auto simp: evolves_def upd_job_jobs list_all2_map2 job_grows_def intro!: list.rel_refl_strong)

lemma evolves_jobs: "js_jobs t = js_jobs u \<Longrightarrow> evolves s t = evolves s u"
  by (simp add: evolves_def)

lemma evolves_sweep:
  assumes "\<And>i s. js_jobs (after i s) = js_jobs s" "\<And>j. P j \<Longrightarrow> job_grows j (f j)"
  shows "evolves s (snd (sweep P f after is s))"
proof (rule sweep_keeps [where R = "evolves s"])
  fix i t assume "evolves s t"
  moreover have "evolves t (after i (upd_job i P f t))"
    using evolves_upd [of t i P f] assms by (simp add: evolves_def)
  ultimately show "evolves s (after i (upd_job i P f t))" by (rule evolves_trans)
qed simp

lemma edge1 [intro]: "job_edge a b \<Longrightarrow> job_edge\<^sup>*\<^sup>* a b"
  by blast

text \<open>Calls that neither add nor remove a job nor touch its delivery.\<close>

fun plain_op :: "job_op \<Rightarrow> bool" where
  "plain_op (Create i inp) = False"
| "plain_op (PruneTerminal c) = False"
| "plain_op (ClaimDelivery i) = False"
| "plain_op (ReleaseDelivery i) = False"
| "plain_op op = True"

lemma evolves_claim: "evolves s (snd (claim_next_queued now ow ad s))"
  by (auto simp: claim_next_queued_def Let_def evolves_jobs [OF log_event_fields(1)] job_grows_def
      intro!: evolves_upd job_edge.intros split: list.splits)

lemma evolves_release: "evolves s (snd (release_queued now ow lb s))"
  by (auto simp: release_queued_def Let_def case_prod_unfold job_grows_def intro!: evolves_sweep)

lemma evolves_dead:
  "evolves s (snd (reclaim_stale now ms s))" "evolves s (snd (expire_queued now ms s))"
  by (auto simp: reclaim_stale_def expire_queued_def Let_def case_prod_unfold job_grows_def
      intro!: evolves_sweep job_edge.intros)

lemma evolves_finish:
  assumes "job_inv s" "finish_job now i out su er ta s = Inr s'"
  shows "evolves s s'"
proof -
  from assms(2) obtain row f where row: "get_job s i = Some row" "j_status row \<in> {Running, Stale, Blocked}"
    and s': "js_jobs s' = js_jobs (upd_job i (\<lambda>_. True) f s)"
    and f: "\<And>j. j_status (f j) = outcome_status out" "\<And>j. j_id (f j) = j_id j" "\<And>j. j_delivered (f j) = j_delivered j"
    by (auto simp: finish_job_def Let_def split: option.splits if_splits)
  have "j = row" if "j \<in> set (js_jobs s)" "j_id j = i" for j
    using that get_job_Some [OF row(1)] assms(1) by (auto simp: job_inv_but_def distinct_map inj_on_def)
  then have "evolves s (upd_job i (\<lambda>_. True) f s)"
    using row(2) f by (auto simp: job_grows_def intro!: evolves_upd job_edge.intros)
  then show ?thesis using s' by (simp add: evolves_def)
qed

lemma evolves_same_jobs:
  "js_jobs (snd (add_steer now i txt src user s)) = js_jobs s"
  "js_jobs (snd (claim_notice now req i s)) = js_jobs s"
  by (auto simp: add_steer_def claim_notice_def Let_def split: option.splits)

lemma evolves_bump: "evolves s (snd (bump_running_heartbeats p s))"
  by (auto simp: bump_running_heartbeats_def Let_def evolves_def list_all2_map2 job_grows_def
      intro!: list.rel_refl_strong split: option.split)

lemma evolves_updates:
  "evolves s (heartbeat now i s)" "evolves s (update_spend i usd s)"
  "evolves s (mark_blocked now i req s)" "evolves s (resume_from_blocked now i s)"
  unfolding heartbeat_def update_spend_def mark_blocked_def resume_from_blocked_def Let_def
  by (auto simp: job_grows_def evolves_jobs [OF log_event_fields(1)] intro!: evolves_upd job_edge.intros)

lemma evolves_cancel: "request_cancel now i s = Inr s' \<Longrightarrow> evolves s s'"
  by (auto simp: request_cancel_def append_event_def job_grows_def evolves_jobs [OF log_event_fields(1)]
      intro!: evolves_upd split: if_splits)

lemma plain_evolves:
  "job_inv s \<Longrightarrow> plain_op (snd x) \<Longrightarrow> job_do x s = Inr (r, s') \<Longrightarrow> evolves s s'"
  by (cases "(x, s)" rule: job_do.cases)
    (auto simp: evolves_claim evolves_release evolves_dead evolves_same_jobs evolves_bump evolves_updates
      mark_steers_read_def release_notice_def append_event_def
      intro: evolves_finish evolves_cancel split: if_splits)


lemma evolves_hits:
  assumes "evolves s s'" "hits i Q s'" "\<And>j j'. job_grows j j' \<Longrightarrow> Q j' \<Longrightarrow> Q j"
  shows "hits i Q s"
proof -
  have "list_all2 job_grows xs ys \<Longrightarrow> \<exists>y \<in> set ys. j_id y = i \<and> Q y \<Longrightarrow> \<exists>x \<in> set xs. j_id x = i \<and> Q x" for xs ys
    by (induction rule: list_all2_induct) (use assms(3) in \<open>auto simp: job_grows_def\<close>)
  then show ?thesis using assms(1,2) unfolding evolves_def hits_def list_ex_iff by blast
qed

section \<open>What processes race for\<close>

definition undelivered :: "string \<Rightarrow> job_store \<Rightarrow> bool" where
  "undelivered i = hits i (\<lambda>j. j_delivered j = None)"

definition queued :: "string \<Rightarrow> job_store \<Rightarrow> bool" where
  "queued i = hits i (\<lambda>j. j_status j = Queued)"

fun creates :: "string \<Rightarrow> int \<times> job_op \<Rightarrow> bool" where
  "creates i (now, Create k inp) = (k = i)"
| "creates i x = False"

fun delivery_claim :: "string \<Rightarrow> int \<times> job_op \<Rightarrow> bool" where
  "delivery_claim i (now, ClaimDelivery k) = (k = i)"
| "delivery_claim i x = False"

fun delivery_release :: "string \<Rightarrow> int \<times> job_op \<Rightarrow> bool" where
  "delivery_release i (now, ReleaseDelivery k) = (k = i)"
| "delivery_release i x = False"

fun queue_claim :: "int \<times> job_op \<Rightarrow> bool" where
  "queue_claim (now, ClaimNext owner adopt) = True"
| "queue_claim x = False"

fun notice_claim :: "string \<Rightarrow> int \<times> job_op \<Rightarrow> bool" where
  "notice_claim req (now, ClaimNotice q i) = (q = req)"
| "notice_claim req x = False"

fun notice_release :: "string \<Rightarrow> int \<times> job_op \<Rightarrow> bool" where
  "notice_release req (now, ReleaseNotice q) = (q = req)"
| "notice_release req (now, PruneTerminal c) = True"
| "notice_release req x = False"

lemma job_call_eq: "job_call P x s = (case job_do x s of Inl _ \<Rightarrow> (False, s) | Inr (r, s') \<Rightarrow> (P r, s'))"
  by (rule job_call_def)

lemma job_call_keeps: "job_inv s \<Longrightarrow> job_inv (snd (job_call P x s))"
  by (auto simp: job_call_def intro: job_do_keeps split: sum.split)

lemma call_True: "job_call P x s = (True, s') \<longleftrightarrow> (\<exists>r. job_do x s = Inr (r, s') \<and> P r)"
  by (auto simp: job_call_def split: sum.splits)

lemma call_state: "\<exists>r. job_do x s = Inr (r, s') \<Longrightarrow> snd (job_call P x s) = s'"
  by (auto simp: job_call_def)

text \<open>No call but the ones that free a slot opens it again.\<close>

lemma hits_upd_other: "k \<noteq> i \<Longrightarrow> (\<And>j. j_id (f j) = j_id j) \<Longrightarrow> hits i Q (upd_job k P f s) = hits i Q s"
  by (induction "js_jobs s") (auto simp: hits_def upd_job_jobs list_ex_iff)

lemma plain_kept:
  assumes "job_inv s" "hits i Q (snd (job_call P x s))" "plain_op (snd x)"
    and "\<And>j j'. job_grows j j' \<Longrightarrow> Q j' \<Longrightarrow> Q j"
  shows "hits i Q s"
  using assms by (auto simp: job_call_def split: sum.splits dest: plain_evolves intro: evolves_hits)

lemma hits_create: "create_job now k inp s = Inr s' \<Longrightarrow> hits i Q s' \<Longrightarrow> hits i Q s \<or> k = i"
  by (auto simp: create_job_def hits_def new_job_def split: if_splits)

lemma hits_prune: "hits i Q (snd (prune_terminal c s)) \<Longrightarrow> hits i Q s"
  by (auto simp: prune_terminal_def hits_def list_ex_iff Let_def)

lemma hits_upd:
  assumes "hits i Q (upd_job k P f s)" "\<And>j. j_id (f j) = j_id j" "k = i \<Longrightarrow> (\<And>j. Q (f j) \<Longrightarrow> Q j)"
  shows "hits i Q s"
  using assms by (auto simp: hits_def list_ex_iff upd_job_jobs split: if_splits)

lemma other_opE:
  assumes "\<not> plain_op (snd x)"
  obtains now i inp where "x = (now, Create i inp)" | now c where "x = (now, PruneTerminal c)"
    | now i where "x = (now, ClaimDelivery i)" | now i where "x = (now, ReleaseDelivery i)"
proof (cases x)
  case (Pair now op)
  with assms that show thesis by (cases op) auto
qed

lemma reopened:
  assumes inv: "job_inv s" and h: "hits i Q (snd (job_call P x s))"
    and Q: "\<And>j j'. job_grows j j' \<Longrightarrow> Q j' \<Longrightarrow> Q j" "\<And>j t. Q (j\<lparr>j_delivered := Some t\<rparr>) \<Longrightarrow> Q j"
      "\<not> delivery_release i x \<or> (\<forall>j. Q (j\<lparr>j_delivered := None\<rparr>) \<longrightarrow> Q j)"
  shows "hits i Q s \<or> creates i x"
proof (cases "plain_op (snd x)")
  case True
  then show ?thesis using plain_kept [OF inv h] Q(1) by blast
next
  case False
  then show ?thesis
  proof (cases rule: other_opE)
    case (1 now k inp)
    then have "creates i x \<or> k \<noteq> i" by auto
    moreover have "create_job now k inp s = Inr s' \<Longrightarrow> hits i Q s' \<Longrightarrow> hits i Q s \<or> k = i" for s'
      by (rule hits_create)
    ultimately show ?thesis using h 1
      by (auto simp: job_call_def quietly_def ebind_def split: sum.splits)
  next
    case (2 now c)
    then show ?thesis using h hits_prune [of i Q c s] by (simp add: job_call_def replying_def)
  next
    case (3 now k)
    then have "hits i Q (upd_job k (\<lambda>j. j_delivered j = None) (\<lambda>j. j\<lparr>j_delivered := Some now\<rparr>) s)"
      using h by (simp add: job_call_def replying_def claim_delivery_def)
    then show ?thesis by (auto dest!: hits_upd intro: Q(2))
  next
    case (4 now k)
    then have "hits i Q (upd_job k (\<lambda>_. True) (\<lambda>j. j\<lparr>j_delivered := None\<rparr>) s)"
      using h by (simp add: job_call_def quietly_def release_delivery_def)
    then show ?thesis using Q(3) 4 by (auto dest!: hits_upd)
  qed
qed

lemma delivery_kept:
  assumes "job_inv s" "\<not> undelivered i s" "\<not> (creates i x \<or> delivery_release i x)"
  shows "\<not> undelivered i (snd (job_call P x s))"
proof
  assume "undelivered i (snd (job_call P x s))"
  then have "hits i (\<lambda>j. j_delivered j = None) (snd (job_call P x s))" by (simp add: undelivered_def)
  then have "hits i (\<lambda>j. j_delivered j = None) s \<or> creates i x"
    by (rule reopened [OF assms(1)]) (use assms(3) in \<open>auto simp: job_grows_def\<close>)
  then show False using assms by (simp add: undelivered_def)
qed

lemma queued_kept:
  assumes "job_inv s" "\<not> queued i s" "\<not> creates i x"
  shows "\<not> queued i (snd (job_call P x s))"
proof
  assume "queued i (snd (job_call P x s))"
  then have "hits i (\<lambda>j. j_status j = Queued) (snd (job_call P x s))" by (simp add: queued_def)
  then have "hits i (\<lambda>j. j_status j = Queued) s \<or> creates i x"
    by (rule reopened [OF assms(1)]) (auto simp: job_grows_def dest: queued_unreachable)
  then show False using assms by (simp add: queued_def)
qed

interpretation delivery: claim_slot
  "job_call (\<lambda>r. r = Won True)" "delivery_claim i" "\<lambda>x. creates i x \<or> delivery_release i x"
  "\<lambda>s. \<not> undelivered i s" job_inv for i
proof
  fix s s' x
  assume "delivery_claim i x" "job_call (\<lambda>r. r = Won True) x s = (True, s')"
  then show "\<not> \<not> undelivered i s \<and> \<not> undelivered i s'"
    by (cases "(i, x)" rule: delivery_claim.cases)
      (auto simp: call_True claim_delivery_def undelivered_def hits_def list_ex_iff upd_job_jobs)
qed (fact job_call_keeps, fact delivery_kept)

lemma claim_next_wins:
  assumes "claim_next_queued now ow ad s = (Some i, s')"
  shows "queued i s" "\<not> queued i s'"
proof -
  from assms obtain s1 where "s' = log_event now i EvRunning [] (log_event now i EvClaimed [] s1)"
    and s1: "s1 = upd_job i (\<lambda>r. j_status r = Queued)
      (\<lambda>r. r\<lparr>j_status := Running, j_owner := ow, j_started := Some now, j_heartbeat := Some now\<rparr>) s"
    and "queued i s"
    by (auto simp: claim_next_queued_def queued_def Let_def split: list.splits if_splits)
  then show "queued i s" "\<not> queued i s'"
    by (auto simp: queued_def hits_def list_ex_iff upd_job_jobs)
qed

interpretation queue_slot: claim_slot
  "job_call (\<lambda>r. r = Claimed (Some i))" queue_claim "creates i" "\<lambda>s. \<not> queued i s" job_inv for i
proof
  fix s s' x
  assume "queue_claim x" "job_call (\<lambda>r. r = Claimed (Some i)) x s = (True, s')"
  then obtain now ow ad where "claim_next_queued now ow ad s = (Some i, s')"
    by (cases x rule: queue_claim.cases) (auto simp: call_True, metis prod.collapse)
  then show "\<not> \<not> queued i s \<and> \<not> queued i s'" by (simp add: claim_next_wins)
qed (fact job_call_keeps, fact queued_kept)

definition noticed :: "string \<Rightarrow> job_store \<Rightarrow> bool" where
  "noticed req s = (req \<in> nt_request ` set (js_notices s))"

lemma notices_upd_log [simp]:
  "create_job now i inp s = Inr s' \<Longrightarrow> js_notices s' = js_notices s"
  "js_notices (snd (claim_next_queued now ow ad s)) = js_notices s"
  "append_event now i ty p s = Inr s' \<Longrightarrow> js_notices s' = js_notices s"
  "request_cancel now i s = Inr s' \<Longrightarrow> js_notices s' = js_notices s"
  "js_notices (mark_blocked now i req s) = js_notices s"
  "js_notices (resume_from_blocked now i s) = js_notices s"
  "finish_job now i out su er ta s = Inr s' \<Longrightarrow> js_notices s' = js_notices s"
  "js_notices (snd (add_steer now i txt src user s)) = js_notices s"
  "js_notices (snd (bump_running_heartbeats pz s)) = js_notices s"
  by (auto simp: create_job_def claim_next_queued_def append_event_def request_cancel_def mark_blocked_def
      resume_from_blocked_def finish_job_def record_terminal_def add_steer_def bump_running_heartbeats_def Let_def
      split: if_splits list.splits option.splits)

lemma notices_sweep:
  "(\<And>i s. js_notices (after i s) = js_notices s) \<Longrightarrow> js_notices (snd (sweep P f after is s)) = js_notices s"
  by (rule sweep_keeps [where R = "\<lambda>t. js_notices t = js_notices s"]) simp_all

lemma notices_sweeps [simp]:
  "js_notices (snd (release_queued now ow lb s)) = js_notices s"
  "js_notices (snd (reclaim_stale now ms s)) = js_notices s"
  "js_notices (snd (expire_queued now ms s)) = js_notices s"
  by (simp_all add: release_queued_def reclaim_stale_def expire_queued_def Let_def case_prod_unfold
      notices_sweep record_terminal_def)

lemma notice_kept:
  "noticed req s \<Longrightarrow> \<not> notice_release req x \<Longrightarrow> noticed req (snd (job_call P x s))"
  by (cases "(x, s)" rule: job_do.cases)
    (auto simp: noticed_def job_call_def quietly_def replying_def ebind_def heartbeat_def update_spend_def
      mark_steers_read_def claim_delivery_def release_delivery_def claim_notice_def release_notice_def
      image_iff split: sum.split)

interpretation notice_slot: claim_slot
  "job_call (\<lambda>r. r = Won True)" "notice_claim req" "notice_release req" "noticed req" job_inv for req
proof
  fix s s' x
  assume "notice_claim req x" "job_call (\<lambda>r. r = Won True) x s = (True, s')"
  then show "\<not> noticed req s \<and> noticed req s'"
    by (cases "(req, x)" rule: notice_claim.cases)
      (auto simp: call_True claim_notice_def noticed_def split: if_splits)
qed (simp_all add: job_call_keeps notice_kept)


text \<open>
  C18: However the calls of several processes interleave, the delivery of a job is won once per time it was
  created or released, a question's notice once per time it was released or pruned, and a queued job is handed
  to one claimant per time it was created.
\<close>

theorem job_claims_won_once:
  "wins (job_call (\<lambda>r. r = Won True)) (delivery_claim i) calls (job_store_after ops)
     \<le> 1 + length (filter (\<lambda>x. creates i x \<or> delivery_release i x) calls)
   \<and> wins (job_call (\<lambda>r. r = Won True)) (notice_claim req) calls (job_store_after ops)
     \<le> 1 + length (filter (notice_release req) calls)
   \<and> wins (job_call (\<lambda>r. r = Claimed (Some i))) queue_claim calls (job_store_after ops)
     \<le> 1 + length (filter (creates i) calls)"
  using reached_inv [of ops]
  by (intro conjI delivery.wins_le notice_slot.wins_le queue_slot.wins_le)

text \<open>One step of the life cycle, and the job between two points of a history.\<close>

lemma get_job_evolves:
  assumes "evolves s s'" "get_job s' i = Some j'"
  shows "\<exists>j. get_job s i = Some j \<and> job_grows j j'"
proof -
  have "list_all2 job_grows xs ys \<Longrightarrow> find (\<lambda>j. j_id j = i) ys = Some j' \<Longrightarrow>
      \<exists>j. find (\<lambda>j. j_id j = i) xs = Some j \<and> job_grows j j'" for xs ys
    by (induction rule: list_all2_induct) (auto simp: job_grows_def split: if_splits)
  then show ?thesis using assms by (simp add: evolves_def get_job_def)
qed

lemma find_distinct_filter:
  "distinct (map j_id js) \<Longrightarrow> find (\<lambda>j. j_id j = i) (filter P js) = Some j \<Longrightarrow> find (\<lambda>j. j_id j = i) js = Some j"
proof (induction js)
  case (Cons k js)
  then show ?case by (auto split: if_splits dest!: find_SomeD)
qed simp

lemma get_job_upd:
  assumes "\<And>j. j_id (f j) = j_id j"
  shows "get_job (upd_job k P f s) i = map_option (\<lambda>j. if j_id j = k \<and> P j then f j else j) (get_job s i)"
  unfolding get_job_def upd_job_jobs by (rule find_map_other) (simp add: assms)

lemma status_upd:
  assumes "get_job s' i = Some j'" "s' = upd_job k P f s"
    and "\<And>j. j_id (f j) = j_id j" "\<And>j. j_status (f j) = j_status j"
  shows "\<exists>j. get_job s i = Some j \<and> job_edge\<^sup>*\<^sup>* (j_status j) (j_status j')"
proof -
  from assms obtain j where "get_job s i = Some j" "j_status j' = j_status j"
    by (auto simp: get_job_upd)
  then show ?thesis by auto
qed

lemma step_along:
  assumes "job_inv s" "job_step x s = Inr s'" "\<not> creates i x" "get_job s' i = Some j'"
  shows "\<exists>j. get_job s i = Some j \<and> job_edge\<^sup>*\<^sup>* (j_status j) (j_status j')"
proof -
  from assms(2) obtain r where r: "job_do x s = Inr (r, s')" by auto
  show ?thesis
  proof (cases "plain_op (snd x)")
    case True
    then show ?thesis
      using get_job_evolves [OF plain_evolves [OF assms(1) _ r] assms(4)] by (auto simp: job_grows_def)
  next
    case False
    then show ?thesis
    proof (cases rule: other_opE)
      case (1 now k inp)
      then show ?thesis using r assms
        by (auto simp: create_job_def get_job_def find_append new_job_def split: if_splits option.splits)
    next
      case (2 now c)
      then have "get_job s i = Some j'"
        using r assms(1,4) find_distinct_filter [of "js_jobs s" i _ j']
        by (auto simp: get_job_def prune_terminal_def Let_def job_inv_but_def)
      then show ?thesis by blast
    next
      case (3 now k)
      then have "s' = upd_job k (\<lambda>j. j_delivered j = None) (\<lambda>j. j\<lparr>j_delivered := Some now\<rparr>) s"
        using r by (simp add: claim_delivery_def)
      from status_upd [OF assms(4) this] show ?thesis by simp
    next
      case (4 now k)
      then have "s' = upd_job k (\<lambda>_. True) (\<lambda>j. j\<lparr>j_delivered := None\<rparr>) s"
        using r by (simp add: release_delivery_def)
      from status_upd [OF assms(4) this] show ?thesis by simp
    qed
  qed
qed



definition job_demo_input :: job_input where
  "job_demo_input = \<lparr>ji_owner = ''gw'', ji_parent_key = ''p'', ji_root_key = ''r'', ji_child_key = ''c'',
     ji_personality = None, ji_depth = 1, ji_label = None, ji_prompt = ''go'', ji_max_cost = None,
     ji_runner = None, ji_deliver_parent = None, ji_platform = None, ji_bot = None, ji_chat = None,
     ji_thread = None, ji_user = None, ji_narrowing = None, ji_audience = None, ji_remote_peer = None,
     ji_remote_job = None\<rparr>"

lemmas job_eval = job_store_after_def run_live_def job_step_def quietly_def replying_def create_job_def
  get_job_def upd_job_def hits_def claim_next_queued_def log_event_def next_id_def finish_job_def record_terminal_def
  sweep_steers_def add_steer_def pending_steers_def active_def steer_max_chars_def steer_max_pending_def
  new_job_def job_demo_input_def empty_jobs_def Let_def

definition job_demo_ops :: "(int \<times> job_op) list" where
  "job_demo_ops = [(1, Create ''a'' job_demo_input), (2, ClaimNext ''gw'' None), (3, AddSteer ''a'' ''hurry'' Cli None)]"


section \<open>Steers\<close>



text \<open>
  A run that polls the pending steers past the last one it saw misses none: the id a new steer draws is
  above every id in use, so whatever row of the store its cursor stands on, the next poll returns what it
  would have returned before and then the new steer.
\<close>

theorem job_steer_polled:
  assumes "add_steer now i txt src user (job_store_after ops) = (Inr r, s')"
    and "seen = 0 \<or> seen \<in> sr_id ` set (js_steers (job_store_after ops))"
  shows "list_pending_steers i seen s' = list_pending_steers i seen (job_store_after ops) @ [r]"
proof -
  let ?s = "job_store_after ops"
  have srt: "sorted_wrt (<) (map sr_id (js_steers ?s))" using reached_inv by (simp add: job_inv_but_def)
  from assms(1) have r: "sr_id r = next_id (map sr_id (js_steers ?s))" "sr_job r = i" "sr_state r = Pending"
    and s': "pending_steers i s' = pending_steers i ?s @ [r]"
    by (auto simp: add_steer_def Let_def pending_steers_def split: option.splits if_splits)
  have top: "q \<in> set (js_steers ?s) \<Longrightarrow> sr_id q < sr_id r" for q
    unfolding r(1) by (rule next_id_above) simp
  then have "seen < sr_id r" using assms(2) by (auto simp: r(1) next_id_def)
  moreover have "sorted_wrt (<) (map sr_id (pending_steers i ?s))"
    using srt by (simp add: pending_steers_def sorted_wrt_map sorted_wrt_filter)
  then have st: "sorted (map sr_id (filter (\<lambda>q. sr_id q > seen) (pending_steers i ?s)))"
    unfolding sorted_map sorted_wrt_map by (intro sorted_wrt_filter) (erule sorted_wrt_mono_rel [rotated], simp)
  moreover have "sorted (map sr_id (filter (\<lambda>q. sr_id q > seen) (pending_steers i ?s) @ [r]))"
    using st top by (auto simp: sorted_append pending_steers_def intro: less_imp_le)
  ultimately show ?thesis
    by (simp add: list_pending_steers_def s' sort_key_id_if_sorted)
qed

theorem job_steer_polled_witness:
  "\<exists>r s'. add_steer 4 ''a'' ''stop'' Web None (job_store_after job_demo_ops) = (Inr r, s')
     \<and> list_pending_steers ''a'' 1 s' = list_pending_steers ''a'' 1 (job_store_after job_demo_ops) @ [r]"
proof -
  obtain r s' where e: "add_steer 4 ''a'' ''stop'' Web None (job_store_after job_demo_ops) = (Inr r, s')"
    by (simp add: job_eval job_demo_ops_def)
  have "1 \<in> sr_id ` set (js_steers (job_store_after job_demo_ops))" by (simp add: job_eval job_demo_ops_def)
  then show ?thesis using job_steer_polled [OF e] e by blast
qed

section \<open>Finishing\<close>

lemma get_job_log [simp]:
  "get_job (log_event now k ty p s) i = get_job s i"
  "get_job (sweep_steers k s) i = get_job s i"
  by (simp_all add: get_job_def)

lemma events_log:
  "map je_type (events_of i (log_event now k ty p s)) = map je_type (events_of i s) @ (if k = i then [ty] else [])"
  by (simp add: events_of_def log_event_def)

text \<open>
  finish throws exactly for a job that does not exist and for one that is not running, stale or blocked;
  otherwise the job is left with the outcome, its summary and error, waiting on no request, tainted if it was or
  the run was, no steer of it is pending, and its trail gains the outcome, after a recovery when it was stale.
\<close>

theorem job_finish_exact:
  "case get_job s i of
     None \<Rightarrow> finish_job now i out su er ta s = Inl (JobNotFound i)
   | Some j \<Rightarrow>
       if j_status j \<in> {Running, Stale, Blocked}
       then \<exists>s'. finish_job now i out su er ta s = Inr s'
          \<and> get_job s' i = Some (j\<lparr>j_status := outcome_status out, j_summary := su, j_error := er,
                j_finished := Some now, j_blocked_since := None, j_blocked_request := None,
                j_tainted := (j_tainted j \<or> ta)\<rparr>)
          \<and> pending_steers i s' = []
          \<and> map je_type (events_of i s') = map je_type (events_of i s)
              @ (if j_status j = Stale then [EvRecovered] else []) @ [EvStatus (outcome_status out)]
       else finish_job now i out su er ta s = Inl (NotFinishable i (j_status j))"
proof (cases "get_job s i")
  case (Some j)
  let ?f = "\<lambda>j. j\<lparr>j_status := outcome_status out, j_summary := su, j_error := er, j_finished := Some now,
    j_blocked_since := None, j_blocked_request := None, j_tainted := (j_tainted j \<or> ta)\<rparr>"
  have "get_job (upd_job i (\<lambda>_. True) ?f s) i = Some (?f j)"
    using get_job_Some [OF Some] by (simp add: get_job_upd Some)
  moreover have "finish_job now i out su er ta s = Inr (record_terminal now i (outcome_status out)
      (if j_status j = Stale then log_event now i EvRecovered [] (upd_job i (\<lambda>_. True) ?f s)
       else upd_job i (\<lambda>_. True) ?f s))" if "j_status j \<in> {Running, Stale, Blocked}"
    using that by (simp add: finish_job_def Some Let_def)
  moreover have "finish_job now i out su er ta s = Inl (NotFinishable i (j_status j))"
    if "j_status j \<notin> {Running, Stale, Blocked}"
    using that by (simp add: finish_job_def Some)
  ultimately show ?thesis
    by (simp add: Some record_terminal_def pending_sweep events_log)
qed (simp add: finish_job_def)

section \<open>The queue\<close>

definition eligible :: "string \<Rightarrow> string option \<Rightarrow> job_store \<Rightarrow> job list" where
  "eligible owner adopt s = sort_key j_created (filter (\<lambda>j. j_status j = Queued
     \<and> (j_owner j = owner \<or> j_owner j = (case adopt of None \<Rightarrow> owner | Some l \<Rightarrow> l))) (js_jobs s))"

text \<open>A claimant that claims until it is given nothing, or \<open>n\<close> times.\<close>

fun claim_many :: "nat \<Rightarrow> int \<Rightarrow> string \<Rightarrow> string option \<Rightarrow> job_store \<Rightarrow> string list \<times> job_store" where
  "claim_many 0 now owner adopt s = ([], s)"
| "claim_many (Suc n) now owner adopt s =
     (case claim_next_queued now owner adopt s of
        (None, s') \<Rightarrow> ([], s')
      | (Some i, s') \<Rightarrow> (case claim_many n now owner adopt s' of (is, s'') \<Rightarrow> (i # is, s'')))"

lemma claim_next_eligible:
  assumes "job_inv s"
  shows "fst (claim_next_queued now owner adopt s) =
      (case eligible owner adopt s of [] \<Rightarrow> None | j # _ \<Rightarrow> Some (j_id j))"
    and "eligible owner adopt (snd (claim_next_queued now owner adopt s)) = tl (eligible owner adopt s)"
proof -
  let ?E = "\<lambda>j. j_status j = Queued
     \<and> (j_owner j = owner \<or> j_owner j = (case adopt of None \<Rightarrow> owner | Some l \<Rightarrow> l))"
  have el: "eligible owner adopt s = sort_key j_created (filter ?E (js_jobs s))" for s
    by (simp add: eligible_def)
  have d: "distinct (map j_id (js_jobs s))" using assms by (simp add: job_inv_but_def)
  have both: "fst (claim_next_queued now owner adopt s) =
        (case eligible owner adopt s of [] \<Rightarrow> None | j # _ \<Rightarrow> Some (j_id j))
      \<and> eligible owner adopt (snd (claim_next_queued now owner adopt s)) = tl (eligible owner adopt s)"
  proof (cases "eligible owner adopt s")
    case Nil
    then show ?thesis by (simp add: claim_next_queued_def eligible_def Let_def)
  next
    case (Cons j rest)
    have "j \<in> set (sort_key j_created (filter ?E (js_jobs s)))" using Cons el by simp
    then have j: "j \<in> set (js_jobs s)" "?E j" by simp_all
    then have h: "hits (j_id j) (\<lambda>r. j_status r = Queued) s" by (auto simp: hits_def list_ex_iff)
    let ?f = "\<lambda>r. r\<lparr>j_status := Running, j_owner := owner, j_started := Some now, j_heartbeat := Some now\<rparr>"
    let ?t = "upd_job (j_id j) (\<lambda>r. j_status r = Queued) ?f s"
    have c: "claim_next_queued now owner adopt s = (Some (j_id j),
        log_event now (j_id j) EvRunning [] (log_event now (j_id j) EvClaimed [] ?t))"
      using Cons h by (simp add: claim_next_queued_def eligible_def Let_def)
    have "filter ?E (map (\<lambda>r. if j_id r = k \<and> j_status r = Queued then ?f r else r) js)
        = filter (\<lambda>r. j_id r \<noteq> k) (filter ?E js)" for k and js :: "job list"
      by (induction js) auto
    then have "eligible owner adopt ?t = filter (\<lambda>r. j_id r \<noteq> j_id j) (eligible owner adopt s)"
      by (simp add: el upd_job_jobs filter_sort)
    also have "\<dots> = rest"
    proof -
      have "distinct (map j_id (eligible owner adopt s))" using d
        by (simp add: el distinct_map distinct_map_filter inj_on_def)
      then show ?thesis unfolding Cons by (auto simp: filter_id_conv image_iff)
    qed
    finally have "eligible owner adopt ?t = rest" .
    then show ?thesis using c Cons by (simp add: eligible_def)
  qed
  show "fst (claim_next_queued now owner adopt s) =
      (case eligible owner adopt s of [] \<Rightarrow> None | j # _ \<Rightarrow> Some (j_id j))"
    by (rule conjunct1 [OF both])
  show "eligible owner adopt (snd (claim_next_queued now owner adopt s)) = tl (eligible owner adopt s)"
    by (rule conjunct2 [OF both])
qed

text \<open>
  The queue is first in, first out: a worker that keeps claiming is handed the queued jobs that are its own
  or carry the label it adopts, oldest first and in the order of insertion within a millisecond, each once, and
  nothing else; it is refused exactly when none is left.
\<close>

theorem job_claims_fifo:
  "fst (claim_many n now owner adopt (job_store_after ops))
     = take n (map j_id (eligible owner adopt (job_store_after ops)))
   \<and> eligible owner adopt (snd (claim_many n now owner adopt (job_store_after ops)))
     = drop n (eligible owner adopt (job_store_after ops))"
proof -
  have "job_inv s \<Longrightarrow> fst (claim_many n now owner adopt s) = take n (map j_id (eligible owner adopt s))
      \<and> eligible owner adopt (snd (claim_many n now owner adopt s)) = drop n (eligible owner adopt s)" for s
  proof (induction n arbitrary: s)
    case (Suc n)
    obtain c s' where c: "claim_next_queued now owner adopt s = (c, s')" by fastforce
    have s': "job_inv s'" using claim_next_keeps [OF Suc.prems, where now = now and ow = owner and ad = adopt] c by simp
    show ?case using Suc.IH [OF s'] claim_next_eligible [OF Suc.prems, where now = now and owner = owner and adopt = adopt] c
      by (cases "eligible owner adopt s") (auto simp: case_prod_unfold)
  qed simp
  then show ?thesis using reached_inv by blast
qed

section \<open>Pages of events\<close>

text \<open>A reader that asks for the next page after the last event it has, \<open>n\<close> times.\<close>

fun event_pages :: "nat \<Rightarrow> string \<Rightarrow> int \<Rightarrow> rat \<Rightarrow> job_store \<Rightarrow> job_event list" where
  "event_pages 0 i cursor limit s = []"
| "event_pages (Suc n) i cursor limit s =
     (case get_events i None (Some cursor) (Some limit) s of
        [] \<Rightarrow> []
      | es \<Rightarrow> es @ event_pages n i (int (je_seq (last es))) limit s)"

lemma numbered_snoc_iff: "numbered (xs @ [x]) \<longleftrightarrow> numbered xs \<and> x = Suc (length xs)"
  by (auto simp: numbered_def)

lemma numbered_nth: "numbered xs \<Longrightarrow> n < length xs \<Longrightarrow> xs ! n = Suc n"
  by (induction xs rule: rev_induct) (auto simp: numbered_snoc_iff nth_append less_Suc_eq)

lemma numbered_page:
  assumes "numbered xs" "take l (drop k xs) \<noteq> []"
  shows "last (take l (drop k xs)) = k + length (take l (drop k xs))"
proof -
  let ?p = "take l (drop k xs)"
  obtain n where n: "length ?p = Suc n" using assms(2) by (cases ?p) auto
  then have "n < l" "k + n < length xs" by auto
  then have "?p ! n = xs ! (k + n)" by simp
  then have "last ?p = xs ! (k + n)" using n assms(2) by (metis diff_Suc_1 last_conv_nth)
  also have "\<dots> = Suc (k + n)" by (rule numbered_nth) fact+
  finally show ?thesis using n by simp
qed

lemma events_sorted:
  assumes "job_inv s"
  shows "get_events i None None None s = events_of i s"
    and "get_events i None (Some (int k)) limit s =
      (case limit of None \<Rightarrow> drop k (events_of i s) | Some l \<Rightarrow> take (page_limit l) (drop k (events_of i s)))"
proof -
  have num: "map je_seq (events_of i s) = [1..<Suc (length (events_of i s))]"
    using assms by (simp only: job_inv_but_def numbered_def length_map)
  then have srt: "sorted (map je_seq (events_of i s))" by (simp only: sorted_upt)
  then show "get_events i None None None s = events_of i s"
    by (simp add: get_events_def events_of_def sort_key_id_if_sorted)
  have "numbered (map je_seq es) \<Longrightarrow> filter (\<lambda>e. je_seq e > k) es = drop k es" for es :: "job_event list"
    by (induction es rule: rev_induct) (simp_all add: numbered_snoc_iff)
  then have "filter (\<lambda>e. je_seq e > k) (events_of i s) = drop k (events_of i s)"
    using assms by (simp only: job_inv_but_def)
  then have "filter (\<lambda>e. je_job e = i \<and> k < je_seq e) (js_events s) = drop k (events_of i s)"
    by (simp add: events_of_def conj_commute)
  moreover have "sort_key je_seq (drop k (events_of i s)) = drop k (events_of i s)"
    using srt by (simp add: sort_key_id_if_sorted drop_map [symmetric] sorted_wrt_drop)
  ultimately show "get_events i None (Some (int k)) limit s =
      (case limit of None \<Rightarrow> drop k (events_of i s) | Some l \<Rightarrow> take (page_limit l) (drop k (events_of i s)))"
    by (simp add: get_events_def Let_def split: option.split)
qed

text \<open>
  Paging forward through the trail of a job with a limit of at least one reads every event exactly once and
  in order: n pages are the first n times the floored limit of them.
\<close>

theorem job_events_paged:
  assumes "page_limit limit > 0"
  shows "event_pages n i 0 limit (job_store_after ops)
    = take (n * page_limit limit) (get_events i None None None (job_store_after ops))"
proof -
  let ?s = "job_store_after ops"
  let ?l = "page_limit limit"
  note ev = events_sorted [OF reached_inv]
  have num: "numbered (map je_seq (events_of i ?s))"
    using reached_inv by (simp only: job_inv_but_def)
  have "event_pages n i (int k) limit ?s = take (n * ?l) (drop k (events_of i ?s))" for k
  proof (induction n arbitrary: k)
    case (Suc n)
    let ?es = "take ?l (drop k (events_of i ?s))"
    show ?case
    proof (cases "?es = []")
      case True
      then show ?thesis using assms by (simp add: ev(2))
    next
      case False
      let ?m = "k + length ?es"
      have get: "get_events i None (Some (int k)) (Some limit) ?s = ?es" by (simp add: ev(2))
      have "je_seq (last ?es) = last (take ?l (drop k (map je_seq (events_of i ?s))))"
        using False by (simp only: last_map take_map drop_map not_False_eq_True)
      also have "\<dots> = ?m" using False by (subst numbered_page [OF num]) (simp_all add: take_map drop_map)
      finally have "je_seq (last ?es) = ?m" .
      moreover have "event_pages (Suc n) i (int k) limit ?s = ?es @ event_pages n i (int (je_seq (last ?es))) limit ?s"
        unfolding event_pages.simps get using False by (cases ?es) (simp_all only: list.case not_True_eq_False simp_thms)
      ultimately have "event_pages (Suc n) i (int k) limit ?s = ?es @ event_pages n i (int ?m) limit ?s"
        by (simp only:)
      also have "\<dots> = ?es @ take (n * ?l) (drop ?m (events_of i ?s))" by (simp only: Suc.IH)
      also have "\<dots> = take (Suc n * ?l) (drop k (events_of i ?s))"
        by (cases "?l \<le> length (drop k (events_of i ?s))") (simp_all add: take_add min_def add.commute)
      finally show ?thesis .
    qed
  qed simp
  from this [of 0] show ?thesis by (simp add: ev(1))
qed


theorem job_events_paged_witness:
  "event_pages 2 ''a'' 0 (5 / 2) (job_store_after job_demo_ops)
    = take (2 * page_limit (5 / 2)) (get_events ''a'' None None None (job_store_after job_demo_ops))"
  by (rule job_events_paged) (simp add: page_limit_def)

end
