(* ===== verification/InboundSpool.thy ===== *)
theory InboundSpool
  imports Contracts
begin

text \<open>
  The durable inbound spool (extensions/inbound-spool/src/index.ts): the rows of its table in rowid order and
  every method of \<open>SQLiteInboundSpool\<close>. The clock and the drawn id are arguments.
\<close>

section \<open>Rows\<close>

datatype spool_status = Received | Processing | Closed | Dead | Interrupted

datatype spool_kind = Inbound | WakeReview

record spool_row =
  sp_id :: string
  sp_platform :: string
  sp_bot :: string
  sp_chat :: string
  sp_thread :: "string option"
  sp_message :: string
  sp_lane :: string
  sp_payload :: string
  sp_status :: spool_status
  sp_attempts :: nat
  sp_error :: "string option"
  sp_received :: int
  sp_updated :: int
  sp_claimed :: "string option"
  sp_tool :: "int option"
  sp_kind :: spool_kind
  sp_job :: "string option"
  sp_into :: "string option"

type_synonym spool = "spool_row list"

record spool_accept =
  ac_platform :: string
  ac_bot :: string
  ac_chat :: string
  ac_thread :: "string option"
  ac_message :: string
  ac_lane :: string
  ac_payload :: string
  ac_claimed :: "string option"
  ac_kind :: "spool_kind option"
  ac_job :: "string option"

definition spool_key :: "spool_row \<Rightarrow> string \<times> string \<times> string \<times> string" where
  "spool_key r = (sp_platform r, sp_bot r, sp_chat r, sp_message r)"

definition get_row :: "spool \<Rightarrow> string \<Rightarrow> spool_row option" where
  "get_row s i = find (\<lambda>r. sp_id r = i) s"

definition upd_rows :: "(spool_row \<Rightarrow> bool) \<Rightarrow> (spool_row \<Rightarrow> spool_row) \<Rightarrow> spool \<Rightarrow> spool" where
  "upd_rows P f s = map (\<lambda>r. if P r then f r else r) s"

definition some_row :: "(spool_row \<Rightarrow> bool) \<Rightarrow> spool \<Rightarrow> bool" where
  "some_row P s = list_ex P s"

definition owed :: "spool_row \<Rightarrow> bool" where
  "owed r = (sp_status r = Received \<or> sp_status r = Processing)"

definition accept_row :: "int \<Rightarrow> string \<Rightarrow> spool_accept \<Rightarrow> spool_row" where
  "accept_row now i a =
     \<lparr>sp_id = i, sp_platform = ac_platform a, sp_bot = ac_bot a, sp_chat = ac_chat a,
      sp_thread = (if ac_thread a = Some [] then None else ac_thread a), sp_message = ac_message a,
      sp_lane = ac_lane a, sp_payload = ac_payload a, sp_status = Received, sp_attempts = 0, sp_error = None,
      sp_received = now, sp_updated = now, sp_claimed = ac_claimed a, sp_tool = None,
      sp_kind = (case ac_kind a of None \<Rightarrow> Inbound | Some k \<Rightarrow> k), sp_job = ac_job a, sp_into = None\<rparr>"

text \<open>\<open>INSERT OR IGNORE\<close>: the id and the four-part key are unique.\<close>

definition accept :: "int \<Rightarrow> string \<Rightarrow> spool_accept \<Rightarrow> spool \<Rightarrow> (string \<times> bool) \<times> spool" where
  "accept now i a s =
     (let r = accept_row now i a in
      if some_row (\<lambda>q. sp_id q = i \<or> spool_key q = spool_key r) s
      then ((case find (\<lambda>q. spool_key q = spool_key r) s of None \<Rightarrow> i | Some q \<Rightarrow> sp_id q, False), s)
      else ((i, True), s @ [r]))"

definition cascade_absorbed ::
  "string \<Rightarrow> spool_status list \<Rightarrow> spool_status \<Rightarrow> string option \<Rightarrow> int \<Rightarrow> spool \<Rightarrow> spool" where
  "cascade_absorbed primary sources target err now s =
     upd_rows (\<lambda>r. sp_into r = Some primary \<and> sp_status r \<in> set sources)
       (\<lambda>r. r\<lparr>sp_status := target, sp_claimed := None,
             sp_error := (case err of None \<Rightarrow> sp_error r | Some e \<Rightarrow> Some e), sp_updated := now,
             sp_payload := (if target = Closed then ''{}'' else sp_payload r)\<rparr>) s"

section \<open>Running a row\<close>

definition mark_processing :: "int \<Rightarrow> string \<Rightarrow> string \<Rightarrow> spool \<Rightarrow> bool \<times> spool" where
  "mark_processing now i owner s =
     (let P = (\<lambda>r. sp_id r = i \<and> sp_status r = Received)
      in (some_row P s, upd_rows P (\<lambda>r. r\<lparr>sp_status := Processing, sp_attempts := Suc (sp_attempts r),
            sp_claimed := Some owner, sp_updated := now\<rparr>) s))"

definition mark_done :: "int \<Rightarrow> string \<Rightarrow> spool \<Rightarrow> spool" where
  "mark_done now i s =
     cascade_absorbed i [Received, Interrupted] Closed None now
       (upd_rows (\<lambda>r. sp_id r = i \<and> owed r) (\<lambda>r. r\<lparr>sp_status := Closed, sp_payload := ''{}'', sp_updated := now\<rparr>) s)"

datatype spool_fail = FailReceived | FailDead | FailInterrupted

fun fail_status :: "spool_fail \<Rightarrow> spool_status" where
  "fail_status FailReceived = Received"
| "fail_status FailDead = Dead"
| "fail_status FailInterrupted = Interrupted"

definition fail_outcome_of :: "nat \<Rightarrow> spool_row option \<Rightarrow> spool_fail" where
  "fail_outcome_of cap row =
     (case row of
        None \<Rightarrow> FailReceived
      | Some r \<Rightarrow>
          if sp_attempts r \<ge> cap then FailDead
          else if sp_tool r \<noteq> None then FailInterrupted else FailReceived)"

definition mark_failed :: "int \<Rightarrow> string \<Rightarrow> string \<Rightarrow> nat \<Rightarrow> spool \<Rightarrow> spool_fail \<times> spool" where
  "mark_failed now i err cap s =
     (let out = fail_outcome_of cap (get_row s i);
          s1 = upd_rows (\<lambda>r. sp_id r = i \<and> owed r)
            (\<lambda>r. r\<lparr>sp_status := fail_status out, sp_error := Some err, sp_updated := now,
                  sp_claimed := (if out = FailInterrupted then None else sp_claimed r)\<rparr>) s
      in (out, if out = FailReceived then s1
               else cascade_absorbed i [Received] (fail_status out)
                      (Some (''absorbed into '' @ i @ '': '' @ err)) now s1))"

definition mark_tool_started :: "int \<Rightarrow> string \<Rightarrow> spool \<Rightarrow> spool" where
  "mark_tool_started now i s =
     upd_rows (\<lambda>r. sp_id r = i \<and> sp_status r = Processing \<and> sp_tool r = None)
       (\<lambda>r. r\<lparr>sp_tool := Some now, sp_updated := now\<rparr>) s"

definition mark_interrupted :: "int \<Rightarrow> string \<Rightarrow> string \<Rightarrow> spool \<Rightarrow> bool \<times> spool" where
  "mark_interrupted now i reason s =
     (let P = (\<lambda>r. sp_id r = i \<and> owed r)
      in if \<not> some_row P s then (False, s)
         else (True, cascade_absorbed i [Received] Interrupted (Some (''absorbed into '' @ i)) now
           (upd_rows P (\<lambda>r. r\<lparr>sp_status := Interrupted, sp_claimed := None, sp_error := Some reason,
              sp_updated := now\<rparr>) s)))"

definition release_on_shutdown :: "int \<Rightarrow> string \<Rightarrow> spool \<Rightarrow> spool" where
  "release_on_shutdown now i s =
     upd_rows (\<lambda>r. sp_id r = i \<and> sp_status r = Processing)
       (\<lambda>r. r\<lparr>sp_status := Received, sp_claimed := None, sp_updated := now,
             sp_attempts := (if sp_attempts r > 0 then sp_attempts r - 1 else 0)\<rparr>) s"

section \<open>Absorbed steers\<close>

definition mark_absorbed :: "int \<Rightarrow> string \<Rightarrow> string \<Rightarrow> spool \<Rightarrow> bool \<times> spool" where
  "mark_absorbed now i into s =
     (let P = (\<lambda>r. sp_id r = i \<and> sp_status r = Received)
      in if i = into \<or> \<not> some_row (\<lambda>p. sp_id p = into \<and> owed p) s \<or> \<not> some_row P s then (False, s)
         else (True,
           upd_rows (\<lambda>r. sp_into r = Some i) (\<lambda>r. r\<lparr>sp_into := Some into, sp_updated := now\<rparr>)
             (upd_rows P (\<lambda>r. r\<lparr>sp_into := Some into, sp_updated := now\<rparr>) s)))"

definition list_absorbed :: "string \<Rightarrow> spool \<Rightarrow> spool_row list" where
  "list_absorbed i s = sort_key sp_received
     (filter (\<lambda>r. sp_into r = Some i \<and> (sp_status r = Received \<or> sp_status r = Interrupted)) s)"

definition unlink_absorbed :: "int \<Rightarrow> string \<Rightarrow> spool \<Rightarrow> bool \<times> spool" where
  "unlink_absorbed now i s =
     (let P = (\<lambda>r. sp_id r = i \<and> sp_status r = Received \<and> sp_into r \<noteq> None)
      in (some_row P s, upd_rows P (\<lambda>r. r\<lparr>sp_into := None, sp_updated := now\<rparr>) s))"

section \<open>Interrupted rows\<close>

text \<open>\<open>ORDER BY updated_at DESC, rowid DESC\<close>.\<close>

definition latest_first :: "spool \<Rightarrow> spool_row list" where
  "latest_first s = rev (sort_key sp_updated s)"

definition find_interrupted :: "string \<Rightarrow> int \<Rightarrow> spool \<Rightarrow> spool_row option" where
  "find_interrupted lane since s =
     (case latest_first (filter (\<lambda>r. sp_lane r = lane \<and> sp_status r = Interrupted \<and> sp_updated r \<ge> since
             \<and> sp_into r = None) s) of
        [] \<Rightarrow> None
      | r # _ \<Rightarrow> Some r)"

datatype spool_error = RetryKeyTaken string

definition retry_row :: "int \<Rightarrow> string \<Rightarrow> string \<Rightarrow> string option \<Rightarrow> spool_row \<Rightarrow> spool_row" where
  "retry_row now fresh owner payload old =
     \<lparr>sp_id = fresh, sp_platform = sp_platform old, sp_bot = sp_bot old, sp_chat = sp_chat old,
      sp_thread = sp_thread old, sp_message = ''retry:'' @ sp_id old, sp_lane = sp_lane old,
      sp_payload = (case payload of None \<Rightarrow> sp_payload old | Some p \<Rightarrow> p), sp_status = Received,
      sp_attempts = 0, sp_error = None, sp_received = now, sp_updated = now, sp_claimed = Some owner,
      sp_tool = None, sp_kind = sp_kind old, sp_job = sp_job old, sp_into = None\<rparr>"

text \<open>The insert is plain: a second row of the same key or id throws, and the transaction is undone.\<close>

definition retry_interrupted ::
  "int \<Rightarrow> string \<Rightarrow> string \<Rightarrow> string \<Rightarrow> string option \<Rightarrow> spool \<Rightarrow> (spool_error, string option \<times> spool) result" where
  "retry_interrupted now fresh i owner payload s =
     (case find (\<lambda>r. sp_id r = i \<and> sp_status r = Interrupted) s of
        None \<Rightarrow> Inr (None, s)
      | Some old \<Rightarrow>
          (let s1 = cascade_absorbed i [Interrupted] Closed (Some ''retried'') now
                 (upd_rows (\<lambda>r. sp_id r = i)
                    (\<lambda>r. r\<lparr>sp_status := Closed, sp_payload := ''{}'', sp_error := Some ''retried'', sp_updated := now\<rparr>) s);
               new = retry_row now fresh owner payload old
           in if some_row (\<lambda>q. sp_id q = fresh \<or> spool_key q = spool_key new) s1 then Inl (RetryKeyTaken i)
              else Inr (Some fresh, s1 @ [new])))"

definition max_dead_list :: nat where "max_dead_list = 500"

text \<open>\<open>limit\<close> clamped to 1--500; one that is no integer is 50.\<close>

definition list_limit :: "int option \<Rightarrow> nat" where
  "list_limit limit = (case limit of None \<Rightarrow> 50 | Some n \<Rightarrow> min max_dead_list (nat (max 1 n)))"

definition list_with :: "spool_status \<Rightarrow> int option \<Rightarrow> spool \<Rightarrow> spool_row list" where
  "list_with st limit s = take (list_limit limit) (latest_first (filter (\<lambda>r. sp_status r = st) s))"

definition list_interrupted :: "int option \<Rightarrow> spool \<Rightarrow> spool_row list" where
  "list_interrupted = list_with Interrupted"

definition list_dead :: "int option \<Rightarrow> spool \<Rightarrow> spool_row list" where
  "list_dead = list_with Dead"

section \<open>Replay and recovery\<close>

definition mark_dead :: "int \<Rightarrow> string \<Rightarrow> string \<Rightarrow> spool \<Rightarrow> bool \<times> spool" where
  "mark_dead now i err s =
     (let P = (\<lambda>r. sp_id r = i \<and> sp_status r = Received \<and> sp_claimed r = None)
      in if \<not> some_row P s then (False, s)
         else (True, cascade_absorbed i [Received] Dead (Some (''absorbed into '' @ i @ '': '' @ err)) now
           (upd_rows P (\<lambda>r. r\<lparr>sp_status := Dead, sp_error := Some err, sp_updated := now\<rparr>) s)))"

definition carried :: "spool \<Rightarrow> spool_row \<Rightarrow> bool" where
  "carried s r = (case sp_into r of
     None \<Rightarrow> False
   | Some p \<Rightarrow> some_row (\<lambda>q. sp_id q = p \<and> (owed q \<or> sp_status q = Interrupted)) s)"

definition replayable :: "string list \<Rightarrow> spool \<Rightarrow> spool_row \<Rightarrow> bool" where
  "replayable bots s r =
     (sp_status r = Received \<and> sp_claimed r = None \<and> sp_bot r \<in> set bots \<and> \<not> carried s r)"

text \<open>\<open>ORDER BY lane_key, received_at, rowid\<close>; lane keys compare byte by byte.\<close>

fun bytes_le :: "string \<Rightarrow> string \<Rightarrow> bool" where
  "bytes_le [] ys = True"
| "bytes_le (x # xs) [] = False"
| "bytes_le (x # xs) (y # ys) =
     (if (of_char x :: nat) = of_char y then bytes_le xs ys else (of_char x :: nat) < of_char y)"

definition before_row :: "spool_row \<Rightarrow> spool_row \<Rightarrow> bool" where
  "before_row a b = (if sp_lane a = sp_lane b then sp_received a \<le> sp_received b else bytes_le (sp_lane a) (sp_lane b))"

fun insert_row :: "spool_row \<Rightarrow> spool_row list \<Rightarrow> spool_row list" where
  "insert_row r [] = [r]"
| "insert_row r (q # qs) = (if before_row r q then r # q # qs else q # insert_row r qs)"

definition list_replayable :: "string list \<Rightarrow> spool \<Rightarrow> spool_row list" where
  "list_replayable bots s = (if bots = [] then [] else foldr insert_row (filter (replayable bots s) s) [])"

definition claim :: "int \<Rightarrow> string \<Rightarrow> string \<Rightarrow> spool \<Rightarrow> bool \<times> spool" where
  "claim now i owner s =
     (let P = (\<lambda>r. sp_id r = i \<and> sp_status r = Received \<and> sp_claimed r = None)
      in (some_row P s, upd_rows P (\<lambda>r. r\<lparr>sp_claimed := Some owner, sp_updated := now\<rparr>) s))"

definition recover_orphans :: "int \<Rightarrow> string \<Rightarrow> spool \<Rightarrow> nat \<times> spool" where
  "recover_orphans now owner s =
     (let P = (\<lambda>r. sp_status r = Processing \<and> sp_claimed r \<noteq> Some owner);
          s1 = upd_rows P (\<lambda>r. r\<lparr>sp_status := Received, sp_claimed := None, sp_updated := now\<rparr>) s
      in (length (filter P s),
          upd_rows (\<lambda>r. sp_status r = Received \<and> sp_claimed r \<noteq> None \<and> sp_claimed r \<noteq> Some owner)
            (\<lambda>r. r\<lparr>sp_claimed := None, sp_updated := now\<rparr>) s1))"

section \<open>The operator\<close>

definition parked_row :: "spool_row \<Rightarrow> bool" where
  "parked_row r = (sp_status r = Dead \<or> sp_status r = Interrupted)"

definition requeue :: "int \<Rightarrow> string \<Rightarrow> spool \<Rightarrow> bool \<times> spool" where
  "requeue now i s =
     (let P = (\<lambda>r. sp_id r = i \<and> parked_row r)
      in if \<not> some_row P s then (False, s)
         else (True,
           upd_rows (\<lambda>r. sp_into r = Some i \<and> parked_row r)
             (\<lambda>r. r\<lparr>sp_status := Received, sp_attempts := 0, sp_claimed := None, sp_updated := now\<rparr>)
             (upd_rows P (\<lambda>r. r\<lparr>sp_status := Received, sp_attempts := 0, sp_claimed := None, sp_tool := None,
                sp_into := None, sp_updated := now\<rparr>) s)))"

definition discard :: "int \<Rightarrow> string \<Rightarrow> spool \<Rightarrow> bool \<times> spool" where
  "discard now i s =
     (let P = (\<lambda>r. sp_id r = i \<and> parked_row r)
      in if \<not> some_row P s then (False, s)
         else (True, cascade_absorbed i [Dead, Interrupted] Closed (Some ''discarded'') now
           (upd_rows P (\<lambda>r. r\<lparr>sp_status := Closed, sp_error := Some ''discarded'', sp_payload := ''{}'',
              sp_updated := now\<rparr>) s)))"

definition prune_done :: "int \<Rightarrow> spool \<Rightarrow> nat \<times> spool" where
  "prune_done cutoff s =
     (let P = (\<lambda>r. sp_status r = Closed \<and> sp_updated r < cutoff)
      in (length (filter P s), filter (\<lambda>r. \<not> P r) s))"

definition prune_dead :: "int \<Rightarrow> spool \<Rightarrow> nat \<times> spool" where
  "prune_dead cutoff s =
     (let P = (\<lambda>r. parked_row r \<and> sp_updated r < cutoff)
      in (length (filter P s), filter (\<lambda>r. \<not> P r) s))"

definition list_orphaned :: "string list \<Rightarrow> spool \<Rightarrow> spool_row list" where
  "list_orphaned bots s =
     take max_dead_list (sort_key sp_received (filter (\<lambda>r. sp_status r = Received \<and> sp_bot r \<notin> set bots) s))"

definition spool_stats :: "spool \<Rightarrow> spool_status \<Rightarrow> nat" where
  "spool_stats s st = length (filter (\<lambda>r. sp_status r = st) s)"

definition oldest_received_at :: "spool \<Rightarrow> int option" where
  "oldest_received_at s =
     (case filter (\<lambda>r. sp_status r = Received) s of
        [] \<Rightarrow> None
      | r # rs \<Rightarrow> Some (foldr (\<lambda>q t. min (sp_received q) t) rs (sp_received r)))"

end
