(* ===== verification/GatewaySpool.thy ===== *)
theory GatewaySpool
  imports InboundSpool
begin

text \<open>
  How the gateway drives the spool (extensions/gateway/src/index.ts): admission, the turns queued on the lanes,
  steers folded into a running turn, the end of a turn, the replay of what a dead process left, and boots. The
  spool and the delivery claims of jobs are durable; everything else dies with the process. What a message is
  (a command, a turn, a steer), what a turn does and what the other stores answer are arguments of the events.
  Database writes succeed, and a drawn id is new. A message the in-memory window has seen is one that is not
  spoolable and a duplicate; a message accepted ahead of its handling is accepted when it is handled.
\<close>

section \<open>State\<close>

record turn_state =
  ts_id :: "string option"
  ts_answered :: bool
  ts_absorbed :: "string list"
  ts_tool :: bool
  ts_review :: bool

text \<open>A running turn: its bookkeeping, and the rows of the steers in its sink that no seam has read.\<close>

type_synonym running = "turn_state \<times> string list"

record gateway =
  gw_spool :: spool
  gw_announced :: "string list"
  gw_owner :: string
  gw_cap :: nat
  gw_closing :: bool
  gw_replaying :: bool
  gw_recovered :: bool
  gw_waiting :: "(string \<times> string \<times> bool) list"
  gw_admitting :: "(string \<times> string \<times> string) list"
  gw_turns :: "(string \<times> running) list"
  gw_ids :: "string list"

definition gw_start :: "string \<Rightarrow> nat \<Rightarrow> gateway" where
  "gw_start owner cap =
     \<lparr>gw_spool = [], gw_announced = [], gw_owner = owner, gw_cap = cap, gw_closing = False, gw_replaying = False,
      gw_recovered = False, gw_waiting = [], gw_admitting = [], gw_turns = [], gw_ids = []\<rparr>"

text \<open>What an event reports: a turn that began for a row, with its attempt counted or not, and a refund.\<close>

datatype turn_note = Ran string bool | Refunded string

definition on_spool :: "(spool \<Rightarrow> spool) \<Rightarrow> gateway \<Rightarrow> gateway" where
  "on_spool f g = g\<lparr>gw_spool := f (gw_spool g)\<rparr>"

definition close_spool :: "int \<Rightarrow> string \<Rightarrow> gateway \<Rightarrow> gateway" where
  "close_spool now i = on_spool (mark_done now i)"

text \<open>A completion's plain notice: once somebody owns its delivery, the row closes.\<close>

definition review_fallback :: "int \<Rightarrow> string \<Rightarrow> bool \<Rightarrow> gateway \<Rightarrow> gateway" where
  "review_fallback now i delivered g = (if delivered then on_spool (mark_done now i) g else g)"

section \<open>Admission\<close>

text \<open>
  \<open>acceptInbound\<close>: whether the message goes on, and the row it goes on with, when it has one, and whether this
  process runs it.
\<close>

definition accept_inbound ::
  "int \<Rightarrow> string \<Rightarrow> spool_accept \<Rightarrow> bool \<Rightarrow> bool \<Rightarrow> bool \<Rightarrow> gateway \<Rightarrow> (bool \<times> (string \<times> bool) option) \<times> gateway" where
  "accept_inbound now i a spoolable duplicate no_dedup g =
     (if \<not> spoolable then ((\<not> duplicate, None), g)
      else
        (let claimed = (\<not> gw_replaying g) in
         case accept now i (a\<lparr>ac_claimed := (if claimed then Some (gw_owner g) else None)\<rparr>) (gw_spool g) of
           ((j, fresh), s) \<Rightarrow>
             if \<not> fresh then ((no_dedup, None), g)
             else
               (let g1 = g\<lparr>gw_spool := s\<rparr>
                in if duplicate then ((False, None), close_spool now j g1)
                   else ((True, Some (j, claimed)), g1))))"

datatype route = Consumed | OwnTurn | Steered

definition enqueue_turn :: "string \<Rightarrow> string \<Rightarrow> bool \<Rightarrow> gateway \<Rightarrow> gateway" where
  "enqueue_turn lane i review g = g\<lparr>gw_waiting := gw_waiting g @ [(lane, i, review)]\<rparr>"

definition link_absorbed :: "int \<Rightarrow> string \<Rightarrow> turn_state \<Rightarrow> gateway \<Rightarrow> bool \<times> gateway" where
  "link_absorbed now i t g =
     (case ts_id t of
        None \<Rightarrow> (False, g)
      | Some p \<Rightarrow>
          if ts_review t then (False, g)
          else (case mark_absorbed now i p (gw_spool g) of (ok, s) \<Rightarrow> (ok, g\<lparr>gw_spool := s\<rparr>)))"

definition set_turn :: "string \<Rightarrow> running \<Rightarrow> gateway \<Rightarrow> gateway" where
  "set_turn lane t g = g\<lparr>gw_turns := AList.update lane t (gw_turns g)\<rparr>"

definition push_steer :: "int \<Rightarrow> string \<Rightarrow> string \<Rightarrow> turn_state \<Rightarrow> string list \<Rightarrow> gateway \<Rightarrow> gateway" where
  "push_steer now lane i t sink g =
     (case link_absorbed now i t g of (linked, g1) \<Rightarrow>
        set_turn lane (if linked then t else t\<lparr>ts_absorbed := ts_absorbed t @ [i]\<rparr>, sink @ [i]) g1)"

text \<open>
  The rest of \<open>handleMessage\<close> for a message that has row \<open>i\<close>: consumed, it closes the row; a steer the running
  turn's sink took shares that turn's row; anything else is a turn of its own.
\<close>

definition dispatch_row :: "int \<Rightarrow> string \<Rightarrow> string \<Rightarrow> route \<Rightarrow> gateway \<Rightarrow> gateway" where
  "dispatch_row now lane i r g =
     (case r of
        Consumed \<Rightarrow> close_spool now i g
      | OwnTurn \<Rightarrow> enqueue_turn lane i False g
      | Steered \<Rightarrow>
          (case map_of (gw_turns g) lane of
             None \<Rightarrow> enqueue_turn lane i False g
           | Some (t, sink) \<Rightarrow> push_steer now lane i t sink g))"

definition handle_message ::
  "int \<Rightarrow> string \<Rightarrow> spool_accept \<Rightarrow> bool \<Rightarrow> bool \<Rightarrow> bool \<Rightarrow> route \<Rightarrow> gateway \<Rightarrow> gateway" where
  "handle_message now i a spoolable duplicate no_dedup r g =
     (if gw_closing g then g
      else
        (case accept_inbound now i a spoolable duplicate no_dedup g of
           ((goes_on, row), g1) \<Rightarrow>
             (case row of
                Some (j, claimed) \<Rightarrow> if goes_on \<and> claimed then dispatch_row now (ac_lane a) j r g1 else g1
              | None \<Rightarrow> g1)))"

text \<open>
  \<open>settleInterrupted\<close> for a message in a lane that holds an interrupted row: \<open>retry\<close> closes it and runs its
  payload under a fresh row; anything else discards it.
\<close>

definition retry_row_of :: "int \<Rightarrow> string \<Rightarrow> string \<Rightarrow> string \<Rightarrow> route \<Rightarrow> gateway \<Rightarrow> gateway" where
  "retry_row_of now fresh i payload r g =
     (case get_row (gw_spool g) i of
        None \<Rightarrow> g
      | Some old \<Rightarrow>
          (case retry_interrupted now fresh i (gw_owner g) (Some payload) (gw_spool g) of
             Inl e \<Rightarrow> g
           | Inr (None, s) \<Rightarrow> g
           | Inr (Some j, s) \<Rightarrow>
               (let g1 = g\<lparr>gw_spool := s\<rparr>
                in if gw_closing g then g1 else dispatch_row now (sp_lane old) j r g1)))"

definition claim_wake :: "string \<Rightarrow> gateway \<Rightarrow> bool \<times> gateway" where
  "claim_wake job g =
     (if job \<in> set (gw_announced g) then (False, g) else (True, g\<lparr>gw_announced := job # gw_announced g\<rparr>))"

text \<open>
  \<open>admitWakeReview\<close>, up to the row and from the delivery claim on. A row that was there already is run by whoever
  wins its claim.
\<close>

definition admit_review :: "int \<Rightarrow> string \<Rightarrow> string \<Rightarrow> spool_accept \<Rightarrow> gateway \<Rightarrow> gateway" where
  "admit_review now i job a g =
     (case accept now i (a\<lparr>ac_message := ''wake:'' @ job, ac_claimed := Some (gw_owner g),
              ac_kind := Some WakeReview, ac_job := Some job\<rparr>) (gw_spool g) of
        ((j, fresh), s) \<Rightarrow>
          if fresh then g\<lparr>gw_spool := s, gw_admitting := gw_admitting g @ [(ac_lane a, j, job)]\<rparr>
          else
            (case claim now j (gw_owner g) s of
               (True, s1) \<Rightarrow> g\<lparr>gw_spool := s1, gw_admitting := gw_admitting g @ [(ac_lane a, j, job)]\<rparr>
             | (False, s1) \<Rightarrow> snd (claim_wake job (g\<lparr>gw_spool := s1\<rparr>))))"

definition finish_admission :: "int \<Rightarrow> gateway \<Rightarrow> gateway" where
  "finish_admission now g =
     (case gw_admitting g of
        [] \<Rightarrow> g
      | (lane, i, job) # rest \<Rightarrow>
          (case claim_wake job (g\<lparr>gw_admitting := rest\<rparr>) of
             (True, g1) \<Rightarrow> enqueue_turn lane i True g1
           | (False, g1) \<Rightarrow> close_spool now i g1))"

section \<open>Turns\<close>

definition settle_unstarted :: "int \<Rightarrow> string \<Rightarrow> bool \<Rightarrow> bool \<Rightarrow> gateway \<Rightarrow> gateway" where
  "settle_unstarted now i review delivered g =
     (if gw_closing g then g
      else if review then review_fallback now i delivered g
      else close_spool now i g)"

fun take_lane :: "string \<Rightarrow> (string \<times> string \<times> bool) list \<Rightarrow> ((string \<times> bool) \<times> (string \<times> string \<times> bool) list) option" where
  "take_lane lane [] = None"
| "take_lane lane ((l, i, v) # ws) =
     (if l = lane then Some ((i, v), ws)
      else map_option (\<lambda>(x, rest). (x, (l, i, v) # rest)) (take_lane lane ws))"

datatype slot = OverCap | NoSlot | Slot

text \<open>The task of \<open>enqueueTurn\<close> at the front of its lane.\<close>

definition start_turn :: "int \<Rightarrow> string \<Rightarrow> slot \<Rightarrow> bool \<Rightarrow> gateway \<Rightarrow> turn_note list \<times> gateway" where
  "start_turn now lane sl delivered g =
     (case take_lane lane (gw_waiting g) of
        None \<Rightarrow> ([], g)
      | Some ((i, review), rest) \<Rightarrow>
          if map_of (gw_turns g) lane \<noteq> None then ([], g)
          else
            (let g1 = g\<lparr>gw_waiting := rest\<rparr>
             in case sl of
                  OverCap \<Rightarrow> ([], if review then settle_unstarted now i review delivered g1 else close_spool now i g1)
                | NoSlot \<Rightarrow> ([], settle_unstarted now i review delivered g1)
                | Slot \<Rightarrow>
                    (case mark_processing now i (gw_owner g) (gw_spool g1) of (ok, s) \<Rightarrow>
                       ([Ran i ok],
                        set_turn lane (\<lparr>ts_id = (if ok then Some i else None), ts_answered = False, ts_absorbed = [],
                            ts_tool = False, ts_review = review\<rparr>, []) (g1\<lparr>gw_spool := s\<rparr>)))))"

text \<open>A lane aborted by its user: everything queued behind the running task is dropped.\<close>

fun drop_waiting :: "int \<Rightarrow> bool \<Rightarrow> (string \<times> string \<times> bool) list \<Rightarrow> gateway \<Rightarrow> gateway" where
  "drop_waiting now delivered [] g = g"
| "drop_waiting now delivered ((l, i, review) # ws) g =
     drop_waiting now delivered ws (settle_unstarted now i review delivered g)"

definition abort_waiting :: "int \<Rightarrow> string \<Rightarrow> bool \<Rightarrow> gateway \<Rightarrow> gateway" where
  "abort_waiting now lane delivered g =
     drop_waiting now delivered (filter (\<lambda>w. fst w = lane) (gw_waiting g))
       (g\<lparr>gw_waiting := filter (\<lambda>w. fst w \<noteq> lane) (gw_waiting g)\<rparr>)"

definition tool_start :: "int \<Rightarrow> string \<Rightarrow> gateway \<Rightarrow> gateway" where
  "tool_start now lane g =
     (case map_of (gw_turns g) lane of
        None \<Rightarrow> g
      | Some (t, sink) \<Rightarrow>
          if ts_tool t then g
          else
            (let g1 = set_turn lane (t\<lparr>ts_tool := True\<rparr>, sink) g
             in case ts_id t of None \<Rightarrow> g1 | Some i \<Rightarrow> on_spool (mark_tool_started now i) g1))"

definition mark_answered :: "string \<Rightarrow> gateway \<Rightarrow> gateway" where
  "mark_answered lane g =
     (case map_of (gw_turns g) lane of
        None \<Rightarrow> g
      | Some (t, sink) \<Rightarrow> set_turn lane (t\<lparr>ts_answered := True\<rparr>, sink) g)"

text \<open>A seam of the loop read everything in the sink.\<close>

definition read_steers :: "string \<Rightarrow> gateway \<Rightarrow> gateway" where
  "read_steers lane g =
     (case map_of (gw_turns g) lane of None \<Rightarrow> g | Some (t, sink) \<Rightarrow> set_turn lane (t, []) g)"

definition unlink_steer :: "int \<Rightarrow> string \<Rightarrow> turn_state \<Rightarrow> gateway \<Rightarrow> turn_state \<times> gateway" where
  "unlink_steer now i t g =
     (t\<lparr>ts_absorbed := filter (\<lambda>j. j \<noteq> i) (ts_absorbed t)\<rparr>, on_spool (\<lambda>s. snd (unlink_absorbed now i s)) g)"

text \<open>Steers no seam read run as turns of their own, with rows of their own.\<close>

fun requeue_unread :: "int \<Rightarrow> string \<Rightarrow> string list \<Rightarrow> turn_state \<Rightarrow> gateway \<Rightarrow> turn_state \<times> gateway" where
  "requeue_unread now lane [] t g = (t, g)"
| "requeue_unread now lane (i # is) t g =
     (case unlink_steer now i t g of (t1, g1) \<Rightarrow> requeue_unread now lane is t1 (enqueue_turn lane i False g1))"

fun settle_unread :: "int \<Rightarrow> string list \<Rightarrow> bool \<Rightarrow> turn_state \<Rightarrow> gateway \<Rightarrow> turn_state \<times> gateway" where
  "settle_unread now [] answered t g = (t, g)"
| "settle_unread now (i # is) answered t g =
     (case (if gw_closing g \<and> answered then unlink_steer now i t g else (t, g)) of (t1, g1) \<Rightarrow>
        settle_unread now is answered t1 g1)"

text \<open>The terminal event of the loop: the sink is unhooked before the tail.\<close>

definition unhook_sink :: "int \<Rightarrow> string \<Rightarrow> bool \<Rightarrow> gateway \<Rightarrow> gateway" where
  "unhook_sink now lane aborted g =
     (case map_of (gw_turns g) lane of
        None \<Rightarrow> g
      | Some (t, sink) \<Rightarrow>
          if aborted \<or> gw_closing g then g
          else (case requeue_unread now lane sink t g of (t1, g1) \<Rightarrow> set_turn lane (t1, []) g1))"

definition finish_spool_turn ::
  "int \<Rightarrow> turn_state \<Rightarrow> bool \<Rightarrow> string option \<Rightarrow> bool \<Rightarrow> gateway \<Rightarrow> turn_note list \<times> gateway" where
  "finish_spool_turn now t aborted err delivered g =
     (let shutdown = (gw_closing g \<and> aborted \<and> \<not> ts_answered t);
          (notes, g1) =
            (case ts_id t of
               None \<Rightarrow> ([], g)
             | Some i \<Rightarrow>
                 if ts_review t then
                   (if ts_answered t then ([], on_spool (mark_done now i) g)
                    else if shutdown \<and> \<not> ts_tool t then ([Refunded i], on_spool (release_on_shutdown now i) g)
                    else ([], review_fallback now i delivered g))
                 else if shutdown \<and> \<not> ts_tool t then ([Refunded i], on_spool (release_on_shutdown now i) g)
                 else if shutdown then
                   ([], on_spool (\<lambda>s. snd (mark_interrupted now i ''interrupted by shutdown after a tool started'' s)) g)
                 else
                   (case err of
                      Some e \<Rightarrow> if \<not> ts_answered t then ([], on_spool (\<lambda>s. snd (mark_failed now i e (gw_cap g) s)) g)
                                else ([], on_spool (mark_done now i) g)
                    | None \<Rightarrow> ([], on_spool (mark_done now i) g)))
      in (notes, if shutdown then g1 else fold (close_spool now) (ts_absorbed t) g1))"

text \<open>The end of \<open>runTurn\<close> on a lane, and the settlement of its row.\<close>

definition end_turn :: "int \<Rightarrow> string \<Rightarrow> bool \<Rightarrow> string option \<Rightarrow> bool \<Rightarrow> gateway \<Rightarrow> turn_note list \<times> gateway" where
  "end_turn now lane aborted err delivered g =
     (case map_of (gw_turns g) lane of
        None \<Rightarrow> ([], g)
      | Some (t, sink) \<Rightarrow>
          (let g0 = g\<lparr>gw_turns := AList.delete lane (gw_turns g)\<rparr>;
               (t1, g1) = (if \<not> aborted \<and> \<not> gw_closing g \<and> (err = None \<or> ts_answered t)
                 then requeue_unread now lane sink t g0 else settle_unread now sink (ts_answered t) t g0)
           in finish_spool_turn now t1 aborted err delivered g1))"

section \<open>Boot and replay\<close>

text \<open>A new process over the same files.\<close>

definition boot :: "string \<Rightarrow> gateway \<Rightarrow> gateway" where
  "boot owner g = g\<lparr>gw_owner := owner, gw_closing := False, gw_replaying := False, gw_recovered := False,
     gw_waiting := [], gw_admitting := [], gw_turns := []\<rparr>"

definition begin_replay :: "int \<Rightarrow> gateway \<Rightarrow> gateway" where
  "begin_replay now g =
     (if gw_closing g \<or> gw_replaying g then g
      else
        (let g1 = (if gw_recovered g then g
                   else on_spool (\<lambda>s. snd (recover_orphans now (gw_owner g) s)) (g\<lparr>gw_recovered := True\<rparr>))
         in g1\<lparr>gw_replaying := True\<rparr>))"

text \<open>What the replay of a row finds: an adapter, an age, an answer in the ledger, a readable payload.\<close>

record replay_case =
  rc_adapter :: bool
  rc_stale :: bool
  rc_obligation :: bool
  rc_bot :: bool
  rc_readable :: bool
  rc_text :: bool
  rc_delivered :: bool
  rc_route :: route

definition dead_letter :: "int \<Rightarrow> string \<Rightarrow> string \<Rightarrow> nat \<Rightarrow> gateway \<Rightarrow> gateway" where
  "dead_letter now i reason cap g =
     on_spool (\<lambda>s. snd (mark_failed now i reason cap (snd (mark_processing now i (gw_owner g) s)))) g"

definition replay_wake_review :: "int \<Rightarrow> spool_row \<Rightarrow> replay_case \<Rightarrow> gateway \<Rightarrow> gateway" where
  "replay_wake_review now row c g =
     (if sp_tool row \<noteq> None \<or> rc_stale c \<or> sp_attempts row \<ge> gw_cap g \<or> \<not> rc_bot c \<or> \<not> rc_readable c then
        (if rc_readable c \<and> rc_text c then review_fallback now (sp_id row) (rc_delivered c) g
         else dead_letter now (sp_id row) ''unreadable payload'' 0 g)
      else enqueue_turn (sp_lane row) (sp_id row) True g)"

definition replay_row :: "int \<Rightarrow> spool_row \<Rightarrow> replay_case \<Rightarrow> gateway \<Rightarrow> gateway" where
  "replay_row now row c g =
     (if rc_stale c \<and> sp_kind row \<noteq> WakeReview then
        on_spool (\<lambda>s. snd (mark_dead now (sp_id row) ''stale'' s)) g
      else if \<not> rc_adapter c then g
      else
        (case claim now (sp_id row) (gw_owner g) (gw_spool g) of
           (False, s) \<Rightarrow> g\<lparr>gw_spool := s\<rparr>
         | (True, s) \<Rightarrow>
             (let g1 = g\<lparr>gw_spool := s\<rparr>; i = sp_id row
              in if rc_obligation c then close_spool now i g1
                 else if sp_kind row = WakeReview then replay_wake_review now row c g1
                 else if sp_tool row \<noteq> None then
                   on_spool (\<lambda>s. snd (mark_interrupted now i ''interrupted after a tool started'' s)) g1
                 else if sp_attempts row \<ge> gw_cap g then
                   dead_letter now i (''the turn ended the process '' @ show_nat (sp_attempts row)
                     @ '' time(s) without finishing'') (gw_cap g) g1
                 else if \<not> rc_readable c then dead_letter now i ''unreadable payload'' 0 g1
                 else if gw_closing g then g1
                 else dispatch_row now (sp_lane row) i (rc_route c) g1)))"

text \<open>One row of the replay's list; the list and the claim are one event.\<close>

definition replay_listed :: "int \<Rightarrow> string list \<Rightarrow> string \<Rightarrow> replay_case \<Rightarrow> gateway \<Rightarrow> gateway" where
  "replay_listed now bots i c g =
     (if \<not> gw_replaying g then g
      else
        (case find (\<lambda>r. sp_id r = i) (list_replayable bots (gw_spool g)) of
           None \<Rightarrow> g
         | Some row \<Rightarrow> replay_row now row c g))"

section \<open>Events\<close>

datatype gw_event =
    Message string spool_accept bool bool bool route
  | Retry string string string route
  | Discard string
  | Admit string string spool_accept
  | FinishAdmission
  | StartTurn string slot bool
  | AbortLane string bool
  | ToolStart string
  | Answered string
  | ReadSteers string
  | Unhook string bool
  | EndTurn string bool "string option" bool
  | Shutdown
  | Boot string
  | BeginReplay
  | ReplayRow "string list" string replay_case
  | EndReplay
  | Requeue string
  | PruneDone int
  | PruneDead int

fun drawn_id :: "gw_event \<Rightarrow> string option" where
  "drawn_id (Message i a sp du nd r) = Some i"
| "drawn_id (Retry fresh i payload r) = Some fresh"
| "drawn_id (Admit i job a) = Some i"
| "drawn_id e = None"

fun gw_act :: "int \<Rightarrow> gw_event \<Rightarrow> gateway \<Rightarrow> turn_note list \<times> gateway" where
  "gw_act now (Message i a sp du nd r) g = ([], handle_message now i a sp du nd r g)"
| "gw_act now (Retry fresh i payload r) g = ([], retry_row_of now fresh i payload r g)"
| "gw_act now (Discard i) g = ([], on_spool (\<lambda>s. snd (discard now i s)) g)"
| "gw_act now (Admit i job a) g = ([], admit_review now i job a g)"
| "gw_act now FinishAdmission g = ([], finish_admission now g)"
| "gw_act now (StartTurn lane sl delivered) g = start_turn now lane sl delivered g"
| "gw_act now (AbortLane lane delivered) g = ([], abort_waiting now lane delivered g)"
| "gw_act now (ToolStart lane) g = ([], tool_start now lane g)"
| "gw_act now (Answered lane) g = ([], mark_answered lane g)"
| "gw_act now (ReadSteers lane) g = ([], read_steers lane g)"
| "gw_act now (Unhook lane aborted) g = ([], unhook_sink now lane aborted g)"
| "gw_act now (EndTurn lane aborted err delivered) g = end_turn now lane aborted err delivered g"
| "gw_act now Shutdown g = ([], g\<lparr>gw_closing := True\<rparr>)"
| "gw_act now (Boot owner) g = ([], boot owner g)"
| "gw_act now BeginReplay g = ([], begin_replay now g)"
| "gw_act now (ReplayRow bots i c) g = ([], replay_listed now bots i c g)"
| "gw_act now EndReplay g = ([], g\<lparr>gw_replaying := False\<rparr>)"
| "gw_act now (Requeue i) g = ([], on_spool (\<lambda>s. snd (requeue now i s)) g)"
| "gw_act now (PruneDone c) g = ([], on_spool (\<lambda>s. snd (prune_done c s)) g)"
| "gw_act now (PruneDead c) g = ([], on_spool (\<lambda>s. snd (prune_dead c s)) g)"

text \<open>\<open>randomUUID\<close> repeats no id: an event that draws a used one does not happen.\<close>

definition draws_used :: "gw_event \<Rightarrow> gateway \<Rightarrow> bool" where
  "draws_used e g = (case drawn_id e of None \<Rightarrow> False | Some i \<Rightarrow> i \<in> set (gw_ids g))"

definition note_draws :: "gw_event \<Rightarrow> gateway \<Rightarrow> gateway" where
  "note_draws e g = (case drawn_id e of None \<Rightarrow> g | Some i \<Rightarrow> g\<lparr>gw_ids := i # gw_ids g\<rparr>)"

definition gw_do :: "int \<times> gw_event \<Rightarrow> gateway \<Rightarrow> turn_note list \<times> gateway" where
  "gw_do x g =
     (if draws_used (snd x) g then ([], g) else gw_act (fst x) (snd x) (note_draws (snd x) g))"

fun gw_run :: "(int \<times> gw_event) list \<Rightarrow> gateway \<Rightarrow> turn_note list \<times> gateway" where
  "gw_run [] g = ([], g)"
| "gw_run (x # xs) g = (case gw_do x g of (ns, g1) \<Rightarrow> case gw_run xs g1 of (ms, g2) \<Rightarrow> (ns @ ms, g2))"

end
