(* ===== verification/GatewaySafe.thy ===== *)
theory GatewaySafe
  imports GatewaySpool
begin

text \<open>
  What the gateway's use of the spool guarantees, over every sequence of events, crashes at any point included:
  a row is in one place of the process at a time, a row whose turn started a tool is not run again, and no row is
  run more often than the cap of attempts and the refunds allow.
\<close>

section \<open>Rows under updates\<close>

lemma get_row_upd [simp]:
  assumes "\<And>r. sp_id (f r) = sp_id r"
  shows "get_row (upd_rows P f s) i = map_option (\<lambda>r. if P r then f r else r) (get_row s i)"
  unfolding get_row_def upd_rows_def by (rule find_map_other) (simp add: assms)

lemma ids_upd [simp]: "(\<And>r. sp_id (f r) = sp_id r) \<Longrightarrow> map sp_id (upd_rows P f s) = map sp_id s"
  unfolding upd_rows_def by (simp add: if_distrib cong: if_cong)

lemma get_row_Some: "get_row s i = Some r \<Longrightarrow> r \<in> set s \<and> sp_id r = i"
  unfolding get_row_def by (rule find_SomeD)

lemma get_row_iff: "distinct (map sp_id s) \<Longrightarrow> get_row s i = Some r \<longleftrightarrow> r \<in> set s \<and> sp_id r = i"
  unfolding get_row_def by (rule find_key_iff)

lemma get_row_append: "get_row (s @ [r]) i = (case get_row s i of None \<Rightarrow> if sp_id r = i then Some r else None | Some q \<Rightarrow> Some q)"
  by (simp add: get_row_def find_append split: option.split)

lemma get_row_filter:
  assumes "distinct (map sp_id s)"
  shows "get_row (filter P s) i = (case get_row s i of None \<Rightarrow> None | Some r \<Rightarrow> if P r then Some r else None)"
  using assms unfolding get_row_def by (induction s) (auto simp: find_None_iff image_iff dest!: find_SomeD split: option.split)

lemma some_row_get:
  "distinct (map sp_id s) \<Longrightarrow> some_row (\<lambda>r. sp_id r = i \<and> P r) s \<longleftrightarrow> (\<exists>r. get_row s i = Some r \<and> P r)"
  unfolding some_row_def list_ex_iff by (auto simp: get_row_iff)

text \<open>What an operation may do to a row without its claim, its tool start or its attempts being touched.\<close>

definition row_quiet :: "spool_row \<Rightarrow> spool_row \<Rightarrow> bool" where
  "row_quiet r q \<longleftrightarrow> spool_key q = spool_key r \<and> sp_tool q = sp_tool r \<and> sp_attempts q = sp_attempts r
     \<and> sp_kind q = sp_kind r \<and> (owed q \<longrightarrow> sp_status q = sp_status r \<and> sp_claimed q = sp_claimed r)"

definition quiet_at :: "string \<Rightarrow> spool \<Rightarrow> spool \<Rightarrow> bool" where
  "quiet_at i s t \<longleftrightarrow> (\<forall>q. get_row t i = Some q \<longrightarrow> (\<exists>r. get_row s i = Some r \<and> row_quiet r q))"

named_theorems quiet \<open>operations that touch no claim, tool start or attempt of a row\<close>

lemma row_quiet_refl [simp]: "row_quiet r r"
  by (simp add: row_quiet_def)

lemma row_quiet_trans: "row_quiet r q \<Longrightarrow> row_quiet q p \<Longrightarrow> row_quiet r p"
  by (auto simp: row_quiet_def owed_def)

lemma quiet_refl [simp]: "quiet_at i s s"
  by (simp add: quiet_at_def)

lemma quiet_trans: "quiet_at i s t \<Longrightarrow> quiet_at i t u \<Longrightarrow> quiet_at i s u"
  unfolding quiet_at_def by (meson row_quiet_trans)

lemma quiet_upd:
  assumes "\<And>r. sp_id (f r) = sp_id r" "\<And>r. sp_id r = i \<Longrightarrow> P r \<Longrightarrow> row_quiet r (f r)"
  shows "quiet_at i s (upd_rows P f s)"
  using assms get_row_Some by (fastforce simp: quiet_at_def)

lemma quiet_filter: "distinct (map sp_id s) \<Longrightarrow> quiet_at i s (filter P s)"
  by (auto simp: quiet_at_def get_row_filter split: option.splits if_splits)

lemma quiet_cascade [quiet]:
  "target \<noteq> Received \<Longrightarrow> target \<noteq> Processing \<Longrightarrow> quiet_at i s (cascade_absorbed p src target err now s)"
  unfolding cascade_absorbed_def
  by (rule quiet_upd) (auto simp: row_quiet_def owed_def spool_key_def split: option.split)

lemma quiet_mark_done [quiet]: "quiet_at i s (mark_done now k s)"
  unfolding mark_done_def
  by (rule quiet_trans [OF quiet_upd quiet_cascade]) (auto simp: row_quiet_def owed_def spool_key_def)

lemma quiet_mark_failed [quiet]: "i \<noteq> k \<Longrightarrow> quiet_at i s (snd (mark_failed now k err cap s))"
  unfolding mark_failed_def Let_def snd_conv
  by (cases "fail_outcome_of cap (get_row s k)")
    (auto intro!: quiet_upd quiet_trans [OF quiet_upd quiet_cascade] simp: row_quiet_def)

lemma quiet_mark_interrupted [quiet]: "i \<noteq> k \<Longrightarrow> quiet_at i s (snd (mark_interrupted now k err s))"
  unfolding mark_interrupted_def Let_def
  by (auto intro!: quiet_trans [OF quiet_upd quiet_cascade])

lemma quiet_mark_dead [quiet]: "i \<noteq> k \<Longrightarrow> quiet_at i s (snd (mark_dead now k err s))"
  unfolding mark_dead_def Let_def
  by (auto intro!: quiet_trans [OF quiet_upd quiet_cascade])

lemma quiet_mark_absorbed [quiet]: "quiet_at i s (snd (mark_absorbed now k p s))"
  unfolding mark_absorbed_def Let_def
  by (auto intro!: quiet_trans [OF quiet_upd quiet_upd] simp: row_quiet_def owed_def spool_key_def)

lemma quiet_unlink [quiet]: "quiet_at i s (snd (unlink_absorbed now k s))"
  unfolding unlink_absorbed_def Let_def
  by (auto intro!: quiet_upd simp: row_quiet_def owed_def spool_key_def)

lemma quiet_discard [quiet]: "quiet_at i s (snd (discard now k s))"
  unfolding discard_def Let_def
  by (auto intro!: quiet_trans [OF quiet_upd quiet_cascade] simp: row_quiet_def owed_def spool_key_def)

lemma quiet_claims [quiet]:
  "i \<noteq> k \<Longrightarrow> quiet_at i s (snd (claim now k owner s))"
  "i \<noteq> k \<Longrightarrow> quiet_at i s (snd (mark_processing now k owner s))"
  "i \<noteq> k \<Longrightarrow> quiet_at i s (mark_tool_started now k s)"
  "i \<noteq> k \<Longrightarrow> quiet_at i s (release_on_shutdown now k s)"
  unfolding claim_def mark_processing_def mark_tool_started_def release_on_shutdown_def Let_def
  by (auto intro!: quiet_upd)

text \<open>No operation but the inserts and prunes changes which ids have a row.\<close>

named_theorems same_ids \<open>operations that keep the ids of the rows\<close>

lemma ids_cascade [same_ids]: "map sp_id (cascade_absorbed p src target err now s) = map sp_id s"
  by (simp add: cascade_absorbed_def)

lemma ids_ops [same_ids]:
  "map sp_id (mark_done now k s) = map sp_id s"
  "map sp_id (snd (mark_failed now k err cap s)) = map sp_id s"
  "map sp_id (snd (mark_interrupted now k err s)) = map sp_id s"
  "map sp_id (snd (mark_dead now k err s)) = map sp_id s"
  "map sp_id (snd (mark_absorbed now k p s)) = map sp_id s"
  "map sp_id (snd (unlink_absorbed now k s)) = map sp_id s"
  "map sp_id (snd (discard now k s)) = map sp_id s"
  "map sp_id (snd (claim now k owner s)) = map sp_id s"
  "map sp_id (snd (mark_processing now k owner s)) = map sp_id s"
  "map sp_id (mark_tool_started now k s) = map sp_id s"
  "map sp_id (release_on_shutdown now k s) = map sp_id s"
  "map sp_id (snd (recover_orphans now owner s)) = map sp_id s"
  "map sp_id (snd (requeue now k s)) = map sp_id s"
  by (simp_all add: mark_done_def mark_failed_def mark_interrupted_def mark_dead_def mark_absorbed_def
      unlink_absorbed_def discard_def claim_def mark_processing_def mark_tool_started_def
      release_on_shutdown_def recover_orphans_def requeue_def Let_def ids_cascade)


section \<open>Where a row is in the process\<close>

definition held :: "string \<Rightarrow> running \<Rightarrow> nat" where
  "held i t = count_list (snd t) i"

definition carries :: "string \<Rightarrow> running \<Rightarrow> nat" where
  "carries i t = (if ts_id (fst t) = Some i then 1 else 0)"

text \<open>How often a row waits for a turn: queued, being admitted, or unread in a sink.\<close>

definition idle :: "string \<Rightarrow> gateway \<Rightarrow> nat" where
  "idle i g = count_list (map (fst \<circ> snd) (gw_waiting g)) i + count_list (map (fst \<circ> snd) (gw_admitting g)) i
     + sum_list (map (held i \<circ> snd) (gw_turns g))"

definition live :: "string \<Rightarrow> gateway \<Rightarrow> nat" where
  "live i g = sum_list (map (carries i \<circ> snd) (gw_turns g))"

lemma sum_update:
  fixes h :: "'b \<Rightarrow> nat"
  shows "sum_list (map (h \<circ> snd) (AList.update k v m)) + (case map_of m k of None \<Rightarrow> 0 | Some w \<Rightarrow> h w)
    = sum_list (map (h \<circ> snd) m) + h v"
  by (induction m) auto

lemma sum_delete:
  fixes h :: "'b \<Rightarrow> nat"
  assumes "distinct (map fst m)"
  shows "sum_list (map (h \<circ> snd) (AList.delete k m)) + (case map_of m k of None \<Rightarrow> 0 | Some w \<Rightarrow> h w)
    = sum_list (map (h \<circ> snd) m)"
  using assms
proof (induction m)
  case (Cons a m)
  have "k \<notin> fst ` set m \<Longrightarrow> AList.delete k m = m"
    by (force simp: AList.delete_eq filter_id_conv)
  with Cons show ?case by (cases a) (auto simp: map_of_eq_None_iff split: option.splits)
qed simp

lemma idle_set_turn:
  "idle i (set_turn lane t g) + (case map_of (gw_turns g) lane of None \<Rightarrow> 0 | Some w \<Rightarrow> held i w) = idle i g + held i t"
  "live i (set_turn lane t g) + (case map_of (gw_turns g) lane of None \<Rightarrow> 0 | Some w \<Rightarrow> carries i w) = live i g + carries i t"
  using sum_update [of "held i" lane t "gw_turns g"] sum_update [of "carries i" lane t "gw_turns g"]
  by (simp_all add: idle_def live_def set_turn_def)

lemma count_list_append [simp]: "count_list (xs @ ys) x = count_list xs x + count_list ys x"
  by (induction xs) auto

lemma idle_enqueue [simp]:
  "idle i (enqueue_turn lane k v g) = idle i g + (if k = i then 1 else 0)"
  "live i (enqueue_turn lane k v g) = live i g"
  by (simp_all add: idle_def live_def enqueue_turn_def)

lemma idle_spool [simp]:
  "idle i (g\<lparr>gw_spool := s\<rparr>) = idle i g" "live i (g\<lparr>gw_spool := s\<rparr>) = live i g"
  "idle i (g\<lparr>gw_announced := a\<rparr>) = idle i g" "live i (g\<lparr>gw_announced := a\<rparr>) = live i g"
  "idle i (g\<lparr>gw_recovered := b\<rparr>) = idle i g" "live i (g\<lparr>gw_recovered := b\<rparr>) = live i g"
  "idle i (g\<lparr>gw_replaying := b\<rparr>) = idle i g" "live i (g\<lparr>gw_replaying := b\<rparr>) = live i g"
  "idle i (g\<lparr>gw_closing := b\<rparr>) = idle i g" "live i (g\<lparr>gw_closing := b\<rparr>) = live i g"
  "idle i (g\<lparr>gw_ids := d\<rparr>) = idle i g" "live i (g\<lparr>gw_ids := d\<rparr>) = live i g"
  "idle i (on_spool f g) = idle i g" "live i (on_spool f g) = live i g"
  by (simp_all add: idle_def live_def on_spool_def)

lemma set_turn_fields [simp]:
  "gw_spool (set_turn lane t g) = gw_spool g" "gw_ids (set_turn lane t g) = gw_ids g"
  "gw_owner (set_turn lane t g) = gw_owner g" "gw_cap (set_turn lane t g) = gw_cap g"
  "gw_closing (set_turn lane t g) = gw_closing g"
  "gw_turns (set_turn lane t g) = AList.update lane t (gw_turns g)"
  by (simp_all add: set_turn_def)

lemma enqueue_fields [simp]:
  "gw_spool (enqueue_turn lane k v g) = gw_spool g" "gw_ids (enqueue_turn lane k v g) = gw_ids g"
  "gw_owner (enqueue_turn lane k v g) = gw_owner g" "gw_cap (enqueue_turn lane k v g) = gw_cap g"
  "gw_closing (enqueue_turn lane k v g) = gw_closing g" "gw_turns (enqueue_turn lane k v g) = gw_turns g"
  by (simp_all add: enqueue_turn_def)

lemma on_spool_fields [simp]:
  "gw_spool (on_spool f g) = f (gw_spool g)" "gw_ids (on_spool f g) = gw_ids g"
  "gw_owner (on_spool f g) = gw_owner g" "gw_cap (on_spool f g) = gw_cap g"
  "gw_closing (on_spool f g) = gw_closing g" "gw_turns (on_spool f g) = gw_turns g"
  by (simp_all add: on_spool_def)

section \<open>The invariant\<close>

definition max_runs :: "gateway \<Rightarrow> nat" where
  "max_runs g = max 1 (gw_cap g)"

text \<open>A row is in one place of the process, its id was drawn, and while it is there and owed this process holds its claim.\<close>

definition placed :: "gateway \<Rightarrow> string \<Rightarrow> bool" where
  "placed g i \<longleftrightarrow> idle i g + live i g \<le> 1 \<and> (idle i g + live i g > 0 \<longrightarrow> i \<in> set (gw_ids g))
     \<and> (\<forall>r. get_row (gw_spool g) i = Some r \<longrightarrow> i \<in> set (gw_ids g)
          \<and> (idle i g + live i g > 0 \<and> owed r \<longrightarrow> sp_claimed r = Some (gw_owner g)))"

text \<open>A row that waits for a turn has started no tool, and an attempt is left to it.\<close>

definition fit :: "gateway \<Rightarrow> string \<Rightarrow> bool" where
  "fit g i \<longleftrightarrow> (\<forall>r. get_row (gw_spool g) i = Some r \<and> idle i g > 0 \<longrightarrow>
     sp_tool r = None \<and> (sp_status r = Received \<longrightarrow> sp_attempts r < max_runs g))"

definition gw_ok :: "gateway \<Rightarrow> bool" where
  "gw_ok g \<longleftrightarrow> distinct (map sp_id (gw_spool g)) \<and> distinct (map fst (gw_turns g))"

text \<open>A step that moves no new row into the process and touches the rows that stay there only quietly.\<close>

definition held_at :: "string \<Rightarrow> spool \<Rightarrow> spool \<Rightarrow> bool" where
  "held_at i s t \<longleftrightarrow> (\<forall>q. get_row t i = Some q \<and> owed q \<longrightarrow>
     (\<exists>r. get_row s i = Some r \<and> owed r \<and> sp_claimed q = sp_claimed r))"

definition calm_at :: "string \<Rightarrow> gateway \<Rightarrow> gateway \<Rightarrow> bool" where
  "calm_at i g h \<longleftrightarrow> idle i h \<le> idle i g \<and> idle i h + live i h \<le> idle i g + live i g
     \<and> gw_owner h = gw_owner g \<and> gw_cap h = gw_cap g \<and> set (gw_ids g) \<subseteq> set (gw_ids h)
     \<and> (get_row (gw_spool h) i \<noteq> None \<longrightarrow> get_row (gw_spool g) i \<noteq> None)
     \<and> (idle i h + live i h > 0 \<longrightarrow> held_at i (gw_spool g) (gw_spool h))
     \<and> (idle i h > 0 \<longrightarrow> quiet_at i (gw_spool g) (gw_spool h))"

lemma quiet_held: "quiet_at i s t \<Longrightarrow> held_at i s t"
  by (force simp: quiet_at_def held_at_def row_quiet_def owed_def)

lemma held_trans: "held_at i s t \<Longrightarrow> held_at i t u \<Longrightarrow> held_at i s u"
  unfolding held_at_def by (metis (no_types, lifting))

lemma calm_placed:
  assumes p: "placed g i" and c: "calm_at i g h"
  shows "placed h i"
proof -
  have le: "idle i h + live i h \<le> idle i g + live i g" using c by (simp add: calm_at_def)
  have "i \<in> set (gw_ids h)" if "get_row (gw_spool h) i \<noteq> None \<or> idle i h + live i h > 0"
    using that p c le by (auto simp: placed_def calm_at_def)
  moreover have "sp_claimed q = Some (gw_owner h)"
    if q: "get_row (gw_spool h) i = Some q" "idle i h + live i h > 0" "owed q" for q
  proof -
    obtain r where r: "get_row (gw_spool g) i = Some r" "owed r" "sp_claimed q = sp_claimed r"
      using q c by (auto simp: calm_at_def held_at_def)
    moreover have "sp_claimed r = Some (gw_owner g)"
      using p r(1,2) q(2) le by (auto simp: placed_def)
    ultimately show ?thesis using c by (simp add: calm_at_def)
  qed
  ultimately show ?thesis using p le by (auto simp: placed_def)
qed

lemma calm_fit: "fit g i \<Longrightarrow> calm_at i g h \<Longrightarrow> fit h i"
  by (fastforce simp: fit_def calm_at_def quiet_at_def row_quiet_def max_runs_def owed_def)

lemma calm_trans:
  assumes gh: "calm_at i g h" and hk: "calm_at i h k"
  shows "calm_at i g k"
proof -
  have le: "idle i k \<le> idle i h" "idle i k + live i k \<le> idle i h + live i h"
    using hk by (simp_all only: calm_at_def)
  have hk': "idle i k + live i k > 0 \<Longrightarrow> held_at i (gw_spool h) (gw_spool k)"
    "idle i k > 0 \<Longrightarrow> quiet_at i (gw_spool h) (gw_spool k)"
    using hk by (simp_all only: calm_at_def simp_thms)
  have gh': "idle i h + live i h > 0 \<Longrightarrow> held_at i (gw_spool g) (gw_spool h)"
    "idle i h > 0 \<Longrightarrow> quiet_at i (gw_spool g) (gw_spool h)"
    using gh by (simp_all only: calm_at_def simp_thms)
  have "held_at i (gw_spool g) (gw_spool k)" if "idle i k + live i k > 0"
    by (rule held_trans [OF gh'(1) hk'(1)]) (use that le in linarith)+
  moreover have "quiet_at i (gw_spool g) (gw_spool k)" if "idle i k > 0"
    by (rule quiet_trans [OF gh'(2) hk'(2)]) (use that le in linarith)+
  moreover have "idle i k \<le> idle i g" "idle i k + live i k \<le> idle i g + live i g"
    using le gh by (simp_all only: calm_at_def) linarith+
  ultimately show ?thesis using gh hk unfolding calm_at_def by (metis subset_trans)
qed

lemma calm_refl [simp]: "calm_at i g g"
  by (simp add: calm_at_def held_at_def)

definition gw_inv :: "gateway \<Rightarrow> bool" where
  "gw_inv g \<longleftrightarrow> gw_ok g \<and> (\<forall>k. placed g k)"

lemma calm_inv: "gw_inv g \<Longrightarrow> gw_ok h \<Longrightarrow> (\<And>i. calm_at i g h) \<Longrightarrow> gw_inv h"
  unfolding gw_inv_def using calm_placed by blast

lemma get_row_None_iff: "get_row s i = None \<longleftrightarrow> i \<notin> sp_id ` set s"
  by (auto simp: get_row_def find_None_iff)

text \<open>A step on the spool that is quiet but, at most, at a row that is nowhere in the process.\<close>

lemma calm_on_spool:
  assumes "map sp_id (f (gw_spool g)) = map sp_id (gw_spool g)"
    and "idle i g + live i g = 0 \<or> quiet_at i (gw_spool g) (f (gw_spool g))"
  shows "calm_at i g (on_spool f g)"
proof -
  have "get_row (f (gw_spool g)) i \<noteq> None \<longrightarrow> get_row (gw_spool g) i \<noteq> None"
    using arg_cong [OF assms(1), of set] by (simp add: get_row_None_iff)
  then show ?thesis using assms(2) by (auto simp: calm_at_def intro: quiet_held)
qed

lemma ok_on_spool: "map sp_id (f (gw_spool g)) = map sp_id (gw_spool g) \<Longrightarrow> gw_ok g \<Longrightarrow> gw_ok (on_spool f g)"
  by (simp add: gw_ok_def)

named_theorems calm \<open>steps that are calm at every row\<close>
named_theorems ok \<open>steps that keep the keys of the tables apart\<close>

lemma calm_close [calm]: "calm_at i g (close_spool now k g)"
  unfolding close_spool_def by (rule calm_on_spool) (simp_all add: same_ids quiet)

lemma ok_close [ok]: "gw_ok g \<Longrightarrow> gw_ok (close_spool now k g)"
  unfolding close_spool_def by (rule ok_on_spool) (simp_all add: same_ids)

lemma calm_fallback [calm]: "calm_at i g (review_fallback now k d g)"
  using calm_close [of i g now k] by (simp add: review_fallback_def close_spool_def)

lemma ok_fallback [ok]: "gw_ok g \<Longrightarrow> gw_ok (review_fallback now k d g)"
  using ok_close [of g now k] by (simp add: review_fallback_def close_spool_def)

lemma calm_settle_unstarted [calm]: "calm_at i g (settle_unstarted now k v d g)"
  by (simp add: settle_unstarted_def calm)

lemma ok_settle_unstarted [ok]: "gw_ok g \<Longrightarrow> gw_ok (settle_unstarted now k v d g)"
  by (simp add: settle_unstarted_def ok)

lemma calm_drop [calm]: "calm_at i g (drop_waiting now d ws g)"
  by (induction now d ws g rule: drop_waiting.induct) (auto intro: calm_trans calm)

lemma ok_drop [ok]: "gw_ok g \<Longrightarrow> gw_ok (drop_waiting now d ws g)"
  by (induction now d ws g rule: drop_waiting.induct) (auto intro: ok)

lemma count_map_filter: "count_list (map f (filter P xs)) y \<le> count_list (map f xs) y"
  by (induction xs) auto

lemma calm_abort [calm]: "calm_at i g (abort_waiting now lane d g)"
  unfolding abort_waiting_def
  by (rule calm_trans [OF _ calm_drop])
    (simp add: calm_at_def idle_def live_def held_at_def add_mono count_map_filter)

lemma ok_abort [ok]: "gw_ok g \<Longrightarrow> gw_ok (abort_waiting now lane d g)"
  unfolding abort_waiting_def by (rule ok_drop) (simp add: gw_ok_def)

lemma calm_link [calm]: "calm_at i g (snd (link_absorbed now k t g))"
proof -
  have "calm_at i g (on_spool (\<lambda>s. snd (mark_absorbed now k p s)) g)" for p
    by (rule calm_on_spool) (simp_all add: same_ids quiet)
  then show ?thesis by (auto simp: link_absorbed_def on_spool_def case_prod_unfold split: option.split)
qed

lemma ok_link [ok]: "gw_ok g \<Longrightarrow> gw_ok (snd (link_absorbed now k t g))"
  by (auto simp: link_absorbed_def gw_ok_def case_prod_unfold same_ids split: option.split)

lemma link_turns [simp]: "gw_turns (snd (link_absorbed now k t g)) = gw_turns g"
  by (auto simp: link_absorbed_def case_prod_unfold split: option.split)

lemma ok_set_turn [ok]: "gw_ok g \<Longrightarrow> gw_ok (set_turn lane t g)"
  by (simp add: gw_ok_def distinct_update)

lemma calm_set_turn:
  assumes "map_of (gw_turns g) lane = Some t" "ts_id (fst t') = ts_id (fst t)" "count_list (snd t') i \<le> count_list (snd t) i"
  shows "calm_at i g (set_turn lane t' g)"
  using assms idle_set_turn [of i lane t' g]
  by (auto simp: calm_at_def held_at_def held_def carries_def)

lemma calm_answered [calm]: "calm_at i g (mark_answered lane g)"
  by (auto simp: mark_answered_def intro: calm_set_turn split: option.split)

lemma ok_answered [ok]: "gw_ok g \<Longrightarrow> gw_ok (mark_answered lane g)"
  by (auto simp: mark_answered_def intro: ok split: option.split)

lemma calm_read [calm]: "calm_at i g (read_steers lane g)"
  by (auto simp: read_steers_def intro: calm_set_turn split: option.split)

lemma ok_read [ok]: "gw_ok g \<Longrightarrow> gw_ok (read_steers lane g)"
  by (auto simp: read_steers_def intro: ok split: option.split)


section \<open>The end of a turn\<close>

lemma unread_facts:
  assumes "requeue_unread now lane is t g = (t1, g1)"
  shows "idle i g1 = idle i g + count_list is i \<and> live i g1 = live i g \<and> quiet_at i (gw_spool g) (gw_spool g1)"
    and "gw_owner g1 = gw_owner g \<and> gw_cap g1 = gw_cap g \<and> gw_ids g1 = gw_ids g \<and> gw_turns g1 = gw_turns g
      \<and> gw_closing g1 = gw_closing g \<and> map sp_id (gw_spool g1) = map sp_id (gw_spool g) \<and> ts_id t1 = ts_id t"
  using assms
  by (induction now lane "is" t g rule: requeue_unread.induct)
    (auto simp: unlink_steer_def same_ids intro: quiet_trans [OF quiet_unlink])

lemma unread_settled:
  assumes "settle_unread now is answered t g = (t1, g1)"
  shows "calm_at i g g1 \<and> live i g1 = live i g" and "ts_id t1 = ts_id t"
    and "map sp_id (gw_spool g1) = map sp_id (gw_spool g) \<and> gw_turns g1 = gw_turns g"
proof -
  have unlink: "calm_at i g (on_spool (\<lambda>s. snd (unlink_absorbed now k s)) g)" for now k g
    by (rule calm_on_spool) (simp_all add: same_ids quiet)
  have "calm_at i g g1 \<and> live i g1 = live i g \<and> ts_id t1 = ts_id t
      \<and> map sp_id (gw_spool g1) = map sp_id (gw_spool g) \<and> gw_turns g1 = gw_turns g"
    using assms
  proof (induction now "is" answered t g rule: settle_unread.induct)
    case (2 now k ks answered t g)
    then show ?case
      by (cases "gw_closing g \<and> answered")
        (auto simp: unlink_steer_def same_ids dest: calm_trans [OF unlink])
  qed simp
  then show "calm_at i g g1 \<and> live i g1 = live i g" and "ts_id t1 = ts_id t"
    and "map sp_id (gw_spool g1) = map sp_id (gw_spool g) \<and> gw_turns g1 = gw_turns g"
    by blast+
qed

lemma calm_unhook [calm]: "calm_at i g (unhook_sink now lane aborted g)"
proof (cases "map_of (gw_turns g) lane")
  case (Some w)
  obtain t sink where w: "w = (t, sink)" by fastforce
  obtain t1 g1 where u: "requeue_unread now lane sink t g = (t1, g1)" by fastforce
  note f = unread_facts(1) [OF u, of i] unread_facts(2) [OF u]
  have "sp_id ` set (gw_spool g1) = sp_id ` set (gw_spool g)" using f(2) by (metis image_set)
  then have "calm_at i g (set_turn lane (t1, []) g1)"
    using Some w f idle_set_turn [of i lane "(t1, [])" g1]
    by (auto simp: calm_at_def held_def carries_def get_row_None_iff intro: quiet_held)
  then show ?thesis by (simp add: unhook_sink_def Some w u)
qed (simp add: unhook_sink_def)

lemma ok_unhook [ok]: "gw_ok g \<Longrightarrow> gw_ok (unhook_sink now lane aborted g)"
proof (cases "map_of (gw_turns g) lane")
  case (Some w)
  assume "gw_ok g"
  obtain t sink where w: "w = (t, sink)" by fastforce
  obtain t1 g1 where u: "requeue_unread now lane sink t g = (t1, g1)" by fastforce
  have "gw_ok g1" using \<open>gw_ok g\<close> unread_facts(2) [OF u] by (simp add: gw_ok_def)
  then show ?thesis using \<open>gw_ok g\<close> by (simp add: unhook_sink_def Some w u ok_set_turn)
qed (simp add: unhook_sink_def)

lemma calm_fold_close [calm]: "calm_at i g (fold (close_spool now) ks g)"
proof (induction ks arbitrary: g)
  case (Cons k ks)
  show ?case using calm_trans [OF calm_close Cons.IH] by simp
qed simp

lemma ok_fold_close [ok]: "gw_ok g \<Longrightarrow> gw_ok (fold (close_spool now) ks g)"
  by (induction ks arbitrary: g) (auto intro: ok_close)

lemma close_fields [simp]:
  "idle i (fold (close_spool now) ks g) = idle i g" "live i (fold (close_spool now) ks g) = live i g"
  by (induction ks arbitrary: g) (simp_all add: close_spool_def)

text \<open>The settlement of a row that has left the process, at every row.\<close>

lemma calm_finish:
  assumes "\<And>k. ts_id t = Some k \<Longrightarrow> idle k g + live k g = 0"
  shows "calm_at i g (snd (finish_spool_turn now t aborted err d g))"
proof -
  let ?r = "\<lambda>k. on_spool (release_on_shutdown now k) g"
  have sp: "calm_at i g (on_spool (release_on_shutdown now k) g)"
    "calm_at i g (on_spool (\<lambda>s. snd (mark_interrupted now k e s)) g)"
    "calm_at i g (on_spool (\<lambda>s. snd (mark_failed now k e cap s)) g)"
    "calm_at i g (on_spool (mark_done now k) g)" if "ts_id t = Some k" for k e cap
    using assms [OF that] by (cases "i = k"; auto intro!: calm_on_spool simp: same_ids quiet)+
  obtain ns h where h: "finish_spool_turn now t aborted err d g = (ns, h)" by fastforce
  show ?thesis
  proof (cases "ts_id t")
    case None
    then show ?thesis by (simp add: finish_spool_turn_def Let_def calm)
  next
    case (Some k)
    then show ?thesis using sp [OF Some]
      by (auto simp: finish_spool_turn_def Let_def calm intro: calm_trans [OF _ calm_fold_close] split: option.split)
  qed
qed

lemma ok_finish: "gw_ok g \<Longrightarrow> gw_ok (snd (finish_spool_turn now t aborted err d g))"
  by (auto simp: finish_spool_turn_def Let_def same_ids intro!: ok ok_on_spool split: option.split)

lemma calm_end_turn:
  assumes "gw_inv g"
  shows "calm_at i g (snd (end_turn now lane aborted err d g))"
proof (cases "map_of (gw_turns g) lane")
  case (Some w)
  obtain t sink where w: "w = (t, sink)" by fastforce
  let ?g0 = "g\<lparr>gw_turns := AList.delete lane (gw_turns g)\<rparr>"
  have lanes: "distinct (map fst (gw_turns g))" using assms by (simp add: gw_inv_def gw_ok_def)
  have gone: "idle k ?g0 + count_list sink k = idle k g" "live k ?g0 + carries k (t, sink) = live k g" for k
    using sum_delete [OF lanes, of "held k" lane] sum_delete [OF lanes, of "carries k" lane] Some w
    by (simp_all add: idle_def live_def held_def)
  obtain t1 g1 where u: "(if \<not> aborted \<and> \<not> gw_closing g \<and> (err = None \<or> ts_answered t)
      then requeue_unread now lane sink t ?g0 else settle_unread now sink (ts_answered t) t ?g0) = (t1, g1)"
    by fastforce
  have g1: "calm_at j g g1 \<and> live j g1 + carries j (t, sink) = live j g \<and> ts_id t1 = ts_id t" for j
  proof (cases "\<not> aborted \<and> \<not> gw_closing g \<and> (err = None \<or> ts_answered t)")
    case True
    then have r: "requeue_unread now lane sink t ?g0 = (t1, g1)" using u by simp
    note f = unread_facts(1) [OF r, of j] unread_facts(2) [OF r]
    have "map sp_id (gw_spool g1) = map sp_id (gw_spool g)" using f(2) by simp
    then have "sp_id ` set (gw_spool g1) = sp_id ` set (gw_spool g)" by (simp only: image_set)
    then show ?thesis using f gone [of j]
      by (auto simp: calm_at_def get_row_None_iff intro: quiet_held)
  next
    case False
    then have r: "settle_unread now sink (ts_answered t) t ?g0 = (t1, g1)" using u by (simp only: if_False)
    note f = unread_settled(1) [OF r, of j] unread_settled(2) [OF r]
    have "calm_at j g ?g0" using gone [of j] by (auto simp: calm_at_def held_at_def)
    then show ?thesis using f gone [of j] calm_trans by auto
  qed
  have "idle k g1 + live k g1 = 0" if "ts_id t1 = Some k" for k
  proof -
    have "carries k (t, sink) = 1" using that g1 by (simp add: carries_def)
    moreover have "idle k g + live k g \<le> 1" using assms by (simp add: gw_inv_def placed_def)
    moreover have "idle k g1 + live k g1 + carries k (t, sink) \<le> idle k g + live k g"
      using g1 [of k] unfolding calm_at_def by linarith
    ultimately show ?thesis by linarith
  qed
  from calm_finish [OF this] have "calm_at i g1 (snd (finish_spool_turn now t1 aborted err d g1))" .
  then show ?thesis using g1 [of i] Some w u by (auto simp: end_turn_def Let_def intro: calm_trans)
qed (simp add: end_turn_def)


lemma ok_end_turn: "gw_ok g \<Longrightarrow> gw_ok (snd (end_turn now lane aborted err d g))"
proof (cases "map_of (gw_turns g) lane")
  case (Some w)
  assume g: "gw_ok g"
  obtain t sink where w: "w = (t, sink)" by fastforce
  let ?g0 = "g\<lparr>gw_turns := AList.delete lane (gw_turns g)\<rparr>"
  have g0: "gw_ok ?g0" using g by (simp add: gw_ok_def distinct_delete)
  obtain t1 g1 where u: "(if \<not> aborted \<and> \<not> gw_closing g \<and> (err = None \<or> ts_answered t)
      then requeue_unread now lane sink t ?g0 else settle_unread now sink (ts_answered t) t ?g0) = (t1, g1)"
    by fastforce
  have "map sp_id (gw_spool g1) = map sp_id (gw_spool ?g0)" "gw_turns g1 = gw_turns ?g0"
    using u unread_facts(2) [of now lane sink t ?g0 t1 g1] unread_settled(3) [of now sink _ t ?g0 t1 g1]
    by (auto split: if_splits)
  then have "gw_ok g1" using g0 by (simp add: gw_ok_def)
  then show ?thesis using Some w u by (auto simp: end_turn_def Let_def intro: ok_finish)
qed (simp add: end_turn_def)

section \<open>The beginning of a turn\<close>

lemma take_lane_count:
  "take_lane lane ws = Some ((k, v), rest) \<Longrightarrow>
    count_list (map (fst \<circ> snd) ws) i = count_list (map (fst \<circ> snd) rest) i + (if k = i then 1 else 0)"
  by (induction lane ws arbitrary: k v rest rule: take_lane.induct) (auto split: if_splits)

lemma carries_live: "map_of (gw_turns g) lane = Some w \<Longrightarrow> carries i w \<le> live i g"
  unfolding live_def by (rule member_le_sum_list; force dest: map_of_SomeD)

lemma calm_tool_start:
  assumes "gw_inv g"
  shows "calm_at i g (tool_start now lane g)"
proof (cases "map_of (gw_turns g) lane")
  case (Some w)
  obtain t sink where w: "w = (t, sink)" by fastforce
  let ?g1 = "set_turn lane (t\<lparr>ts_tool := True\<rparr>, sink) g"
  have c1: "calm_at i g ?g1" using Some w by (auto intro: calm_set_turn)
  show ?thesis
  proof (cases "ts_id t")
    case None
    then show ?thesis using c1 by (simp add: tool_start_def Some w)
  next
    case (Some k)
    have "calm_at i ?g1 (on_spool (mark_tool_started now k) ?g1)"
    proof (cases "i = k")
      case True
      have "carries k w \<le> live k g" by (rule carries_live) fact
      moreover have "carries k w = 1" using Some w by (simp add: carries_def)
      moreover have "idle k g + live k g \<le> 1" using assms by (simp add: gw_inv_def placed_def)
      ultimately have "idle k g = 0" by linarith
      then have "idle k ?g1 = 0" using c1 True by (simp add: calm_at_def)
      moreover have "held_at k s (mark_tool_started now k s)" for s
        by (force simp: held_at_def mark_tool_started_def owed_def)
      ultimately show ?thesis using True arg_cong [OF ids_ops(10) [of now k "gw_spool g"], of set]
        by (auto simp: calm_at_def get_row_None_iff)
    qed (auto intro!: calm_on_spool simp: same_ids quiet)
    then show ?thesis using c1 \<open>map_of (gw_turns g) lane = Some w\<close> w Some
      by (auto simp: tool_start_def Let_def intro: calm_trans)
  qed
qed (simp add: tool_start_def)

lemma ok_tool_start [ok]: "gw_ok g \<Longrightarrow> gw_ok (tool_start now lane g)"
  by (auto simp: tool_start_def Let_def same_ids intro!: ok ok_on_spool split: option.split)

lemma calm_start_turn:
  assumes inv: "gw_inv g"
  shows "calm_at i g (snd (start_turn now lane sl d g))"
proof (cases "take_lane lane (gw_waiting g)")
  case (Some x)
  then obtain k v rest where t: "take_lane lane (gw_waiting g) = Some ((k, v), rest)" by (cases x) force
  let ?g1 = "g\<lparr>gw_waiting := rest\<rparr>"
  have less: "idle j g = idle j ?g1 + (if k = j then 1 else 0)" "live j ?g1 = live j g" for j
    using take_lane_count [OF t, of j] by (auto simp: idle_def live_def)
  have c1: "calm_at i g ?g1" using less [of i] by (auto simp: calm_at_def held_at_def)
  show ?thesis
  proof (cases "sl = Slot \<and> map_of (gw_turns g) lane = None")
    case False
    then show ?thesis using t c1 calm_trans [OF c1]
      by (cases sl) (auto simp: start_turn_def Let_def intro: calm)
  next
    case True
    let ?s = "snd (mark_processing now k (gw_owner g) (gw_spool g))"
    obtain b where b: "fst (mark_processing now k (gw_owner g) (gw_spool g)) = b" by blast
    let ?w = "(\<lparr>ts_id = (if b then Some k else None), ts_answered = False, ts_absorbed = [], ts_tool = False,
      ts_review = v\<rparr>, [] :: string list)"
    let ?h = "set_turn lane ?w (?g1\<lparr>gw_spool := ?s\<rparr>)"
    have h: "snd (start_turn now lane sl d g) = ?h"
      using t True b by (auto simp: start_turn_def Let_def case_prod_unfold)
    have cnt: "idle i ?h = idle i ?g1" "live i ?h \<le> live i g + (if k = i then 1 else 0)"
      using idle_set_turn [of i lane ?w "?g1\<lparr>gw_spool := ?s\<rparr>"] True less [of i]
      by (auto simp: held_def carries_def)
    have rows: "sp_id ` set ?s = sp_id ` set (gw_spool g)"
      using arg_cong [OF ids_ops(9) [of now k "gw_owner g" "gw_spool g"], of set] by simp
    have held: "held_at k (gw_spool g) ?s"
    proof -
      have "sp_claimed r = Some (gw_owner g)" if "get_row (gw_spool g) k = Some r" "owed r" for r
        using inv that less [of k] by (auto simp: gw_inv_def placed_def)
      then show ?thesis by (force simp: held_at_def mark_processing_def Let_def owed_def)
    qed
    have one: "idle k g + live k g \<le> 1" using inv by (simp add: gw_inv_def placed_def)
    show ?thesis
    proof (cases "i = k")
      case True
      then show ?thesis unfolding h using cnt less [of k] one held rows
        by (auto simp: calm_at_def get_row_None_iff)
    next
      case False
      then have "quiet_at i (gw_spool g) ?s" by (intro quiet_claims) simp
      then show ?thesis unfolding h using cnt less [of i] False rows
        by (auto simp: calm_at_def get_row_None_iff intro: quiet_held)
    qed
  qed
qed (simp add: start_turn_def)

lemma ok_start_turn: "gw_ok g \<Longrightarrow> gw_ok (snd (start_turn now lane sl d g))"
proof -
  assume g: "gw_ok g"
  then have w: "gw_ok (g\<lparr>gw_waiting := ws\<rparr>)" for ws by (simp add: gw_ok_def)
  then have p: "gw_ok (g\<lparr>gw_waiting := ws, gw_spool := snd (mark_processing now k ow (gw_spool g))\<rparr>)" for ws k ow
    using g by (simp add: gw_ok_def same_ids)
  show ?thesis using g w p
    by (auto simp: start_turn_def Let_def case_prod_unfold intro!: ok split: option.split slot.split)
qed

section \<open>Boots\<close>

lemma calm_begin_replay:
  assumes inv: "gw_inv g"
  shows "calm_at i g (begin_replay now g)"
proof -
  have "quiet_at i (gw_spool g) (snd (recover_orphans now (gw_owner g) (gw_spool g)))" if "idle i g + live i g > 0"
  proof -
    have "sp_claimed r = Some (gw_owner g)" if "get_row (gw_spool g) i = Some r" "owed r" for r
      using inv that \<open>idle i g + live i g > 0\<close> by (auto simp: gw_inv_def placed_def)
    then have "q = r" if "get_row (snd (recover_orphans now (gw_owner g) (gw_spool g))) i = Some q"
      "get_row (gw_spool g) i = Some r" for q r
      using that by (auto simp: recover_orphans_def Let_def owed_def)
    moreover have "get_row (gw_spool g) i \<noteq> None"
      if "get_row (snd (recover_orphans now (gw_owner g) (gw_spool g))) i = Some q" for q
      using that by (auto simp: recover_orphans_def Let_def)
    ultimately show ?thesis unfolding quiet_at_def using row_quiet_refl by blast
  qed
  then have "calm_at i g (on_spool (\<lambda>s. snd (recover_orphans now (gw_owner g) s)) g)"
    by (intro calm_on_spool) (simp add: same_ids, metis not_gr0)
  then show ?thesis by (auto simp: begin_replay_def Let_def calm_at_def held_at_def)
qed

lemma ok_begin_replay [ok]: "gw_ok g \<Longrightarrow> gw_ok (begin_replay now g)"
  by (auto simp: begin_replay_def Let_def gw_ok_def same_ids)

lemma boot_inv: "gw_inv g \<Longrightarrow> gw_inv (boot owner g)"
  by (auto simp: gw_inv_def gw_ok_def placed_def boot_def idle_def live_def)

lemma boot_fit: "fit (boot owner g) i"
  by (simp add: fit_def boot_def idle_def)


section \<open>Rows entering the process\<close>

definition ready :: "gateway \<Rightarrow> string \<Rightarrow> bool" where
  "ready g k \<longleftrightarrow> idle k g + live k g = 0 \<and> k \<in> set (gw_ids g)
     \<and> (\<forall>r. get_row (gw_spool g) k = Some r \<longrightarrow> owed r \<longrightarrow> sp_claimed r = Some (gw_owner g))"

definition runnable :: "gateway \<Rightarrow> string \<Rightarrow> bool" where
  "runnable g k \<longleftrightarrow> (\<forall>r. get_row (gw_spool g) k = Some r \<longrightarrow>
     sp_tool r = None \<and> (sp_status r = Received \<longrightarrow> sp_attempts r < max_runs g))"

lemma ready_placed: "ready g k \<Longrightarrow> placed g k"
  by (auto simp: ready_def placed_def)

lemma enqueue_other: "i \<noteq> k \<Longrightarrow> calm_at i g (enqueue_turn lane k v g)"
  by (simp add: calm_at_def quiet_held)

lemma enqueue_self: "ready g k \<Longrightarrow> placed (enqueue_turn lane k v g) k"
  by (auto simp: ready_def placed_def)

lemma enqueue_fit: "runnable g k \<Longrightarrow> fit (enqueue_turn lane k v g) k"
  by (auto simp: runnable_def fit_def max_runs_def)

lemma ok_enqueue [ok]: "gw_ok g \<Longrightarrow> gw_ok (enqueue_turn lane k v g)"
  by (simp add: gw_ok_def)

lemma idle_link [simp]:
  "idle i (snd (link_absorbed now k t g)) = idle i g" "live i (snd (link_absorbed now k t g)) = live i g"
  by (auto simp: link_absorbed_def case_prod_unfold split: option.split)

lemma quiet_link: "quiet_at i (gw_spool g) (gw_spool (snd (link_absorbed now k t g)))"
  by (auto simp: link_absorbed_def case_prod_unfold quiet split: option.split)

lemma link_fields [simp]:
  "gw_ids (snd (link_absorbed now k t g)) = gw_ids g" "gw_owner (snd (link_absorbed now k t g)) = gw_owner g"
  "gw_cap (snd (link_absorbed now k t g)) = gw_cap g"
  by (auto simp: link_absorbed_def case_prod_unfold split: option.split)

lemma dispatch_push:
  "dispatch_row now lane k Steered g = (case map_of (gw_turns g) lane of
     None \<Rightarrow> enqueue_turn lane k False g | Some (t, sink) \<Rightarrow> push_steer now lane k t sink g)"
  by (simp add: dispatch_row_def)

lemma push_counts:
  assumes "map_of (gw_turns g) lane = Some (t, sink)"
  shows "idle i (push_steer now lane k t sink g) = idle i g + (if k = i then 1 else 0)"
    and "live i (push_steer now lane k t sink g) = live i g"
  using assms idle_set_turn [of i lane "(if fst (link_absorbed now k t g) then t
      else t\<lparr>ts_absorbed := ts_absorbed t @ [k]\<rparr>, sink @ [k])" "snd (link_absorbed now k t g)"]
  by (auto simp: push_steer_def case_prod_unfold held_def carries_def split: if_splits)

lemma push_fields [simp]:
  "gw_spool (push_steer now lane k t sink g) = gw_spool (snd (link_absorbed now k t g))"
  "gw_ids (push_steer now lane k t sink g) = gw_ids g" "gw_owner (push_steer now lane k t sink g) = gw_owner g"
  "gw_cap (push_steer now lane k t sink g) = gw_cap g"
  by (simp_all add: push_steer_def case_prod_unfold)

lemma link_rows: "sp_id ` set (gw_spool (snd (link_absorbed now k t g))) = sp_id ` set (gw_spool g)"
proof -
  have "map sp_id (gw_spool (snd (link_absorbed now k t g))) = map sp_id (gw_spool g)"
    by (auto simp: link_absorbed_def case_prod_unfold same_ids split: option.split)
  then show ?thesis by (simp only: image_set)
qed

lemma dispatch_other: "i \<noteq> k \<Longrightarrow> calm_at i g (dispatch_row now lane k r g)"
proof (cases r)
  case Consumed
  then show ?thesis by (simp add: dispatch_row_def calm)
next
  case OwnTurn
  then show "i \<noteq> k \<Longrightarrow> ?thesis" by (simp add: dispatch_row_def enqueue_other)
next
  case Steered
  assume ik: "i \<noteq> k"
  show ?thesis
  proof (cases "map_of (gw_turns g) lane")
    case None
    then show ?thesis using ik Steered by (simp add: dispatch_push enqueue_other)
  next
    case (Some w)
    obtain t sink where w: "w = (t, sink)" by fastforce
    have "quiet_at i (gw_spool g) (gw_spool (snd (link_absorbed now k t g)))" by (rule quiet_link)
    then show ?thesis using ik Steered Some w push_counts [of g lane t sink i now k] link_rows [of now k t g]
      by (auto simp: dispatch_push calm_at_def get_row_None_iff intro: quiet_held)
  qed
qed

lemma ok_dispatch: "gw_ok g \<Longrightarrow> gw_ok (dispatch_row now lane k r g)"
proof (cases r)
  case Steered
  assume "gw_ok g"
  then have "gw_ok (push_steer now lane k t sink g)" for t sink
    using ok_link [of g now k t] by (auto simp: push_steer_def case_prod_unfold intro!: ok_set_turn)
  then show ?thesis using \<open>gw_ok g\<close> Steered by (auto simp: dispatch_push ok split: option.split)
qed (auto simp: dispatch_row_def ok)

lemma dispatch_self:
  assumes "ready g k"
  shows "placed (dispatch_row now lane k r g) k" "runnable g k \<Longrightarrow> fit (dispatch_row now lane k r g) k"
proof -
  have "placed (dispatch_row now lane k r g) k \<and> (runnable g k \<longrightarrow> fit (dispatch_row now lane k r g) k)"
  proof (cases r)
    case Consumed
    have "idle k (close_spool now k g) = 0" using assms by (simp add: ready_def close_spool_def)
    then show ?thesis using Consumed calm_placed [OF ready_placed [OF assms] calm_close [of k g now k]]
      by (simp add: dispatch_row_def fit_def)
  next
    case OwnTurn
    then show ?thesis using assms by (simp add: dispatch_row_def enqueue_self enqueue_fit)
  next
    case Steered
    show ?thesis
    proof (cases "map_of (gw_turns g) lane")
      case None
      then show ?thesis using assms Steered by (simp add: dispatch_push enqueue_self enqueue_fit)
    next
      case (Some w)
      obtain t sink where w: "w = (t, sink)" by fastforce
      let ?s = "gw_spool (snd (link_absorbed now k t g))"
      have q: "\<exists>r. get_row (gw_spool g) k = Some r \<and> row_quiet r p" if "get_row ?s k = Some p" for p
        using quiet_link [of k g now k t] that by (simp add: quiet_at_def)
      have "owed p \<longrightarrow> sp_claimed p = Some (gw_owner g)" if "get_row ?s k = Some p" for p
        using q [OF that] assms by (auto simp: ready_def row_quiet_def owed_def)
      moreover have "sp_tool p = None \<and> (sp_status p = Received \<longrightarrow> sp_attempts p < max_runs g)"
        if "get_row ?s k = Some p" "runnable g k" for p
        using q [OF that(1)] that(2) by (auto simp: runnable_def row_quiet_def owed_def)
      ultimately show ?thesis using assms Steered Some w push_counts [of g lane t sink k now k]
        by (auto simp: dispatch_push placed_def fit_def ready_def max_runs_def)
    qed
  qed
  then show "placed (dispatch_row now lane k r g) k" "runnable g k \<Longrightarrow> fit (dispatch_row now lane k r g) k"
    by blast+
qed


text \<open>What holds after a step: at every row but \<open>k\<close> it was calm, and \<open>k\<close> is placed.\<close>

definition steps :: "string \<Rightarrow> gateway \<Rightarrow> gateway \<Rightarrow> bool" where
  "steps k g h \<longleftrightarrow> (\<forall>i. i \<noteq> k \<longrightarrow> calm_at i g h) \<and> placed h k \<and> (gw_ok g \<longrightarrow> gw_ok h)"

lemma steps_inv:
  assumes "gw_inv g" "steps k g h"
  shows "gw_inv h"
proof -
  have "placed h j" for j
    using assms calm_placed [of g j h] by (cases "j = k") (simp_all add: steps_def gw_inv_def)
  then show ?thesis using assms by (simp add: steps_def gw_inv_def)
qed

lemma steps_fit:
  assumes "steps k g h" "fit g i" "i = k \<Longrightarrow> fit h i"
  shows "fit h i"
  using assms calm_fit [of g i h] by (cases "i = k") (simp_all add: steps_def)

lemma steps_before:
  assumes g: "\<And>i. calm_at i g h" "gw_ok g \<Longrightarrow> gw_ok h" and m: "steps k h m"
  shows "steps k g m"
proof -
  have "calm_at i g m" if "i \<noteq> k" for i
    by (rule calm_trans [OF g(1)]) (use m that in \<open>simp add: steps_def\<close>)
  then show ?thesis using m g(2) unfolding steps_def by simp
qed

lemma steps_calm: "placed g k \<Longrightarrow> (\<And>i. calm_at i g h) \<Longrightarrow> (gw_ok g \<Longrightarrow> gw_ok h) \<Longrightarrow> steps k g h"
  by (simp add: steps_def calm_placed [of g k h])

lemma steps_trans:
  assumes g: "steps k g h" and m: "\<And>i. i \<noteq> k \<Longrightarrow> calm_at i h m" "gw_ok h \<Longrightarrow> gw_ok m" "placed m k"
  shows "steps k g m"
proof -
  have "calm_at i g m" if "i \<noteq> k" for i
    by (rule calm_trans [OF _ m(1) [OF that]]) (use g that in \<open>simp add: steps_def\<close>)
  then show ?thesis using g m(2,3) unfolding steps_def by blast
qed

lemma steps_dispatch:
  assumes "steps k g h" "ready h k"
  shows "steps k g (dispatch_row now lane k r h)"
  by (rule steps_trans [OF assms(1)]) (use assms in \<open>auto intro: dispatch_other ok_dispatch dispatch_self\<close>)

lemma steps_enqueue:
  assumes "steps k g h" "ready h k"
  shows "steps k g (enqueue_turn lane k v h)"
  by (rule steps_trans [OF assms(1)]) (use assms in \<open>auto intro: enqueue_other ok_enqueue enqueue_self\<close>)

lemma steps_close: "steps k g h \<Longrightarrow> steps k g (close_spool now j h)"
  by (rule steps_trans, assumption) (auto simp: steps_def intro: calm ok calm_placed)

section \<open>New rows\<close>

definition new_id :: "gateway \<Rightarrow> string \<Rightarrow> bool" where
  "new_id g k \<longleftrightarrow> k \<in> set (gw_ids g) \<and> idle k g + live k g = 0 \<and> get_row (gw_spool g) k = None"

lemma added_row:
  assumes "new_id g k" "sp_id r = k"
  shows "steps k g (g\<lparr>gw_spool := gw_spool g @ [r]\<rparr>)"
    and "sp_claimed r = Some (gw_owner g) \<Longrightarrow> ready (g\<lparr>gw_spool := gw_spool g @ [r]\<rparr>) k"
    and "sp_tool r = None \<Longrightarrow> sp_attempts r = 0 \<Longrightarrow> runnable (g\<lparr>gw_spool := gw_spool g @ [r]\<rparr>) k"
proof -
  have row: "get_row (gw_spool g @ [r]) i = (if i = k then Some r else get_row (gw_spool g) i)" for i
    using assms by (auto simp: get_row_append new_id_def split: option.split)
  have "k \<notin> sp_id ` set (gw_spool g)" using assms(1) by (simp add: new_id_def get_row_None_iff)
  then show "steps k g (g\<lparr>gw_spool := gw_spool g @ [r]\<rparr>)"
    using assms by (auto simp: steps_def calm_at_def row quiet_at_def held_at_def placed_def new_id_def gw_ok_def)
  show "sp_claimed r = Some (gw_owner g) \<Longrightarrow> ready (g\<lparr>gw_spool := gw_spool g @ [r]\<rparr>) k"
    using assms by (simp add: ready_def row new_id_def)
  show "sp_tool r = None \<Longrightarrow> sp_attempts r = 0 \<Longrightarrow> runnable (g\<lparr>gw_spool := gw_spool g @ [r]\<rparr>) k"
    by (auto simp: runnable_def row max_runs_def)
qed

lemma new_placed: "new_id g k \<Longrightarrow> placed g k"
  by (simp add: new_id_def placed_def)

lemma new_fit: "new_id g k \<Longrightarrow> fit g k"
  by (simp add: new_id_def fit_def)

lemma accept_cases:
  assumes "get_row s k = None"
  obtains j where "accept now k a s = ((j, False), s)"
  | "accept now k a s = ((k, True), s @ [accept_row now k a])"
  by (cases "some_row (\<lambda>q. sp_id q = k \<or> spool_key q = spool_key (accept_row now k a)) s")
    (auto simp: accept_def Let_def intro: that)

lemma accept_row_fields [simp]:
  "sp_id (accept_row now k a) = k" "sp_tool (accept_row now k a) = None" "sp_attempts (accept_row now k a) = 0"
  "sp_claimed (accept_row now k a) = ac_claimed a" "sp_status (accept_row now k a) = Received"
  by (simp_all add: accept_row_def)

lemma message_step:
  assumes new: "new_id g k"
  shows "steps k g (handle_message now k a sp du nd r g)" "fit (handle_message now k a sp du nd r g) k"
proof -
  let ?c = "\<not> gw_replaying g"
  let ?a = "a\<lparr>ac_claimed := (if ?c then Some (gw_owner g) else None)\<rparr>"
  let ?h = "g\<lparr>gw_spool := gw_spool g @ [accept_row now k ?a]\<rparr>"
  note add = added_row [OF new, of "accept_row now k ?a"]
  have none: "get_row (gw_spool g) k = None" using new by (simp add: new_id_def)
  have stay: "steps k g g" by (rule steps_calm) (simp_all add: new_placed [OF new])
  have quietly: "idle k ?h = 0" using new by (simp add: new_id_def)
  have "steps k g (handle_message now k a sp du nd r g) \<and> fit (handle_message now k a sp du nd r g) k"
  proof (cases "gw_closing g \<or> \<not> sp")
    case True
    then show ?thesis using stay new_fit [OF new] by (auto simp: handle_message_def accept_inbound_def)
  next
    case False
    show ?thesis
    proof (cases rule: accept_cases [OF none, of now ?a])
      case (1 j)
      then show ?thesis using False stay new_fit [OF new]
        by (simp add: handle_message_def accept_inbound_def Let_def)
    next
      case 2
      consider "du" | "\<not> du" "\<not> ?c" | "\<not> du" "?c" by blast
      then show ?thesis
      proof cases
        case 1
        then have "handle_message now k a sp du nd r g = close_spool now k ?h"
          using False 2 by (simp add: handle_message_def accept_inbound_def Let_def)
        moreover have "fit (close_spool now k ?h) k" using quietly by (simp add: fit_def close_spool_def)
        moreover have "steps k g (close_spool now k ?h)" by (rule steps_close [OF add(1)]) simp
        ultimately show ?thesis by (simp only:)
      next
        case 2
        then have "handle_message now k a sp du nd r g = ?h"
          using False \<open>accept now k ?a (gw_spool g) = _\<close> by (simp add: handle_message_def accept_inbound_def Let_def)
        then show ?thesis using add(1) quietly by (simp add: fit_def)
      next
        case 3
        then have "handle_message now k a sp du nd r g = dispatch_row now (ac_lane a) k r ?h"
          using False \<open>accept now k ?a (gw_spool g) = _\<close> by (simp add: handle_message_def accept_inbound_def Let_def)
        moreover have "ready ?h k" "runnable ?h k" using add 3 by simp_all
        ultimately show ?thesis using add(1) by (simp add: steps_dispatch dispatch_self)
      qed
    qed
  qed
  then show "steps k g (handle_message now k a sp du nd r g)" "fit (handle_message now k a sp du nd r g) k"
    by blast+
qed

lemma retry_cases:
  assumes "retry_interrupted now fresh i ow pl s = Inr (Some j, s')"
  obtains s1 r where "s' = s1 @ [r]" "j = fresh" "sp_id r = fresh" "sp_claimed r = Some ow" "sp_tool r = None"
    "sp_attempts r = 0" "\<And>k. quiet_at k s s1" "map sp_id s1 = map sp_id s"
proof -
  from assms obtain old where f: "find (\<lambda>r. sp_id r = i \<and> sp_status r = Interrupted) s = Some old"
    by (auto simp: retry_interrupted_def split: option.splits)
  let ?s1 = "cascade_absorbed i [Interrupted] Closed (Some ''retried'') now
    (upd_rows (\<lambda>r. sp_id r = i)
      (\<lambda>r. r\<lparr>sp_status := Closed, sp_payload := ''{}'', sp_error := Some ''retried'', sp_updated := now\<rparr>) s)"
  have "quiet_at k s ?s1" for k
    by (rule quiet_trans [OF quiet_upd quiet_cascade]) (auto simp: row_quiet_def owed_def spool_key_def)
  moreover have "map sp_id ?s1 = map sp_id s" by (simp add: ids_cascade)
  moreover have "s' = ?s1 @ [retry_row now fresh ow pl old]" "j = fresh"
    using assms f by (auto simp: retry_interrupted_def Let_def split: if_splits)
  ultimately show thesis using that [of ?s1 "retry_row now fresh ow pl old"] by (simp add: retry_row_def)
qed

lemma calm_same_rows:
  assumes "\<And>i. quiet_at i (gw_spool g) s" "map sp_id s = map sp_id (gw_spool g)"
  shows "calm_at i g (g\<lparr>gw_spool := s\<rparr>)"
  using calm_on_spool [of "\<lambda>_. s" g i] assms by (simp add: on_spool_def)

lemma retry_step:
  assumes new: "new_id g k"
  shows "steps k g (retry_row_of now k i pl r g)" "fit (retry_row_of now k i pl r g) k"
proof -
  have stay: "steps k g g" by (rule steps_calm) (simp_all add: new_placed [OF new])
  have "steps k g (retry_row_of now k i pl r g) \<and> fit (retry_row_of now k i pl r g) k"
  proof (cases "\<exists>old j s. get_row (gw_spool g) i = Some old \<and>
      retry_interrupted now k i (gw_owner g) (Some pl) (gw_spool g) = Inr (Some j, s)")
    case False
    then have "retry_row_of now k i pl r g = g"
      by (auto simp: retry_row_of_def split: option.split sum.split)
    then show ?thesis using stay new_fit [OF new] by simp
  next
    case True
    then obtain old j s where o: "get_row (gw_spool g) i = Some old"
      and e: "retry_interrupted now k i (gw_owner g) (Some pl) (gw_spool g) = Inr (Some j, s)" by blast
    from e obtain s1 r1 where s: "s = s1 @ [r1]" "j = k" and r1: "sp_id r1 = k" "sp_claimed r1 = Some (gw_owner g)"
      "sp_tool r1 = None" "sp_attempts r1 = 0" and q: "\<And>i. quiet_at i (gw_spool g) s1" "map sp_id s1 = map sp_id (gw_spool g)"
      by (rule retry_cases) metis
    let ?g1 = "g\<lparr>gw_spool := s1\<rparr>"
    have "sp_id ` set s1 = sp_id ` set (gw_spool g)" using q(2) by (metis image_set)
    then have new1: "new_id ?g1 k" using new by (simp add: new_id_def get_row_None_iff)
    note add = added_row [OF new1 r1(1)]
    have g1: "calm_at i g ?g1" for i by (rule calm_same_rows [OF q])
    let ?h = "g\<lparr>gw_spool := s\<rparr>"
    have ok1: "gw_ok g \<Longrightarrow> gw_ok ?g1" using q(2) by (simp add: gw_ok_def)
    have "steps k ?g1 ?h" using add(1) by (simp add: s)
    then have st: "steps k g ?h" by (intro steps_before [of g ?g1 k ?h] g1 ok1)
    have h: "ready ?h k" "runnable ?h k" "idle k ?h = 0" using add(2,3) r1 new by (simp_all add: s new_id_def)
    have "retry_row_of now k i pl r g = (if gw_closing g then ?h else dispatch_row now (sp_lane old) k r ?h)"
      using o e s by (simp add: retry_row_of_def Let_def)
    moreover have "fit ?h k" using h(3) by (simp add: fit_def)
    ultimately show ?thesis using st h by (simp add: steps_dispatch dispatch_self)
  qed
  then show "steps k g (retry_row_of now k i pl r g)" "fit (retry_row_of now k i pl r g) k"
    by blast+
qed


section \<open>Admitting reviews\<close>

lemma claim_wake_fields [simp]:
  "gw_spool (snd (claim_wake job g)) = gw_spool g" "gw_ids (snd (claim_wake job g)) = gw_ids g"
  "gw_owner (snd (claim_wake job g)) = gw_owner g" "gw_cap (snd (claim_wake job g)) = gw_cap g"
  "gw_turns (snd (claim_wake job g)) = gw_turns g"
  "idle i (snd (claim_wake job g)) = idle i g" "live i (snd (claim_wake job g)) = live i g"
  by (simp_all add: claim_wake_def)

lemma calm_fields:
  assumes "gw_spool h = gw_spool g" "set (gw_ids g) \<subseteq> set (gw_ids h)" "gw_owner h = gw_owner g" "gw_cap h = gw_cap g"
    "idle i h \<le> idle i g" "idle i h + live i h \<le> idle i g + live i g"
  shows "calm_at i g h"
  using assms by (simp add: calm_at_def quiet_held)

lemma calm_finish_admission [calm]: "calm_at i g (finish_admission now g)"
proof (cases "gw_admitting g")
  case (Cons x rest)
  obtain lane k job where x: "x = (lane, k, job)" by (cases x) auto
  let ?g1 = "g\<lparr>gw_admitting := rest\<rparr>"
  obtain b g2 where c: "claim_wake job ?g1 = (b, g2)" by fastforce
  have g2: "idle i g2 + (if k = i then 1 else 0) = idle i g" "live i g2 = live i g" "gw_spool g2 = gw_spool g"
    "gw_ids g2 = gw_ids g" "gw_owner g2 = gw_owner g" "gw_cap g2 = gw_cap g"
    using Cons x c by (auto simp: claim_wake_def idle_def live_def split: if_splits)
  have "calm_at i g (enqueue_turn lane k True g2)" by (rule calm_fields) (use g2 in auto)
  moreover have "calm_at i g (close_spool now k g2)"
    by (rule calm_trans [OF calm_fields calm_close]) (use g2 in auto)
  ultimately show ?thesis using c by (cases b) (simp_all add: finish_admission_def Cons x)
qed (simp add: finish_admission_def)

lemma ok_finish_admission [ok]: "gw_ok g \<Longrightarrow> gw_ok (finish_admission now g)"
proof (cases "gw_admitting g")
  case (Cons x rest)
  assume g: "gw_ok g"
  obtain lane k job where x: "x = (lane, k, job)" by (cases x) auto
  obtain b g2 where c: "claim_wake job (g\<lparr>gw_admitting := rest\<rparr>) = (b, g2)" by fastforce
  have "gw_ok g2" using g arg_cong [OF c, of snd] claim_wake_fields(1,5) [of job "g\<lparr>gw_admitting := rest\<rparr>"]
    by (simp add: gw_ok_def)
  then show ?thesis using c by (cases b) (auto simp: finish_admission_def Cons x intro: ok)
qed (simp add: finish_admission_def)

lemma admit_waiting:
  assumes "steps k g h" "ready h k"
  shows "steps k g (h\<lparr>gw_admitting := gw_admitting h @ [(lane, k, job)]\<rparr>)"
proof -
  let ?m = "h\<lparr>gw_admitting := gw_admitting h @ [(lane, k, job)]\<rparr>"
  have counts: "idle i ?m = idle i h + (if k = i then 1 else 0)" "live i ?m = live i h" for i
    by (simp_all add: idle_def live_def)
  have "placed ?m k" using assms(2) counts by (auto simp: ready_def placed_def)
  moreover have "calm_at i h ?m" if "i \<noteq> k" for i by (rule calm_fields) (use counts that in auto)
  moreover have "gw_ok h \<Longrightarrow> gw_ok ?m" by (simp add: gw_ok_def)
  ultimately show ?thesis by (intro steps_trans [OF assms(1)])
qed

text \<open>Winning the claim of a row: it was unclaimed, so it was nowhere in the process.\<close>

lemma claimed_row:
  assumes inv: "gw_inv g" and c: "claim now k (gw_owner g) (gw_spool g) = (b, s)"
  shows "b \<Longrightarrow> steps k g (g\<lparr>gw_spool := s\<rparr>) \<and> ready (g\<lparr>gw_spool := s\<rparr>) k"
    and "\<not> b \<Longrightarrow> s = gw_spool g"
    and "b \<Longrightarrow> \<exists>r. get_row (gw_spool g) k = Some r \<and> sp_status r = Received
          \<and> get_row s k = Some (r\<lparr>sp_claimed := Some (gw_owner g), sp_updated := now\<rparr>)"
proof -
  let ?P = "\<lambda>r. sp_id r = k \<and> sp_status r = Received \<and> sp_claimed r = None"
  have d: "distinct (map sp_id (gw_spool g))" using inv by (simp add: gw_inv_def gw_ok_def)
  have s: "s = upd_rows ?P (\<lambda>r. r\<lparr>sp_claimed := Some (gw_owner g), sp_updated := now\<rparr>) (gw_spool g)"
    and b: "b = some_row ?P (gw_spool g)"
    using c by (auto simp: claim_def Let_def)
  show "\<not> b \<Longrightarrow> s = gw_spool g"
    unfolding s b upd_rows_def some_row_def by (auto simp: list_ex_iff intro!: map_idI)
  assume b
  then obtain r where r: "get_row (gw_spool g) k = Some r" "sp_status r = Received" "sp_claimed r = None"
    using b some_row_get [OF d, of k "\<lambda>r. sp_status r = Received \<and> sp_claimed r = None"] by auto
  have k: "sp_id r = k" using get_row_Some [OF r(1)] by simp
  then have s': "get_row s k = Some (r\<lparr>sp_claimed := Some (gw_owner g), sp_updated := now\<rparr>)"
    using r by (simp add: s)
  then show "\<exists>r. get_row (gw_spool g) k = Some r \<and> sp_status r = Received
      \<and> get_row s k = Some (r\<lparr>sp_claimed := Some (gw_owner g), sp_updated := now\<rparr>)" using r by blast
  have out: "idle k g + live k g = 0" and ids: "k \<in> set (gw_ids g)"
    using inv r by (auto simp: gw_inv_def placed_def owed_def)
  have "calm_at i g (on_spool (\<lambda>s. snd (claim now k (gw_owner g) s)) g)" for i
    using out by (cases "i = k") (auto intro!: calm_on_spool simp: same_ids quiet)
  then have "calm_at i g (g\<lparr>gw_spool := s\<rparr>)" for i using c by (simp add: on_spool_def)
  moreover have "ready (g\<lparr>gw_spool := s\<rparr>) k" using out ids s' by (simp add: ready_def)
  moreover have "gw_ok g \<Longrightarrow> gw_ok (g\<lparr>gw_spool := s\<rparr>)"
    using ids_ops(8) [of now k "gw_owner g" "gw_spool g"] c by (simp add: gw_ok_def)
  ultimately show "steps k g (g\<lparr>gw_spool := s\<rparr>) \<and> ready (g\<lparr>gw_spool := s\<rparr>) k"
    by (simp add: steps_def ready_placed)
qed


lemma admit_step:
  assumes inv: "gw_inv g" and new: "new_id g i"
  shows "\<exists>k. steps k g (admit_review now i job a g) \<and> (k = i \<or> get_row (gw_spool g) k \<noteq> None)
    \<and> (fit (admit_review now i job a g) k \<or> (\<exists>r. get_row (gw_spool g) k = Some r
        \<and> spool_key r = (ac_platform a, ac_bot a, ac_chat a, ''wake:'' @ job)))"
proof -
  let ?a = "a\<lparr>ac_message := ''wake:'' @ job, ac_claimed := Some (gw_owner g), ac_kind := Some WakeReview, ac_job := Some job\<rparr>"
  let ?r = "accept_row now i ?a"
  have none: "get_row (gw_spool g) i = None" using new by (simp add: new_id_def)
  have d: "distinct (map sp_id (gw_spool g))" using inv by (simp add: gw_inv_def gw_ok_def)
  have key: "spool_key ?r = (ac_platform a, ac_bot a, ac_chat a, ''wake:'' @ job)"
    by (simp add: spool_key_def accept_row_def)
  show ?thesis
  proof (cases "some_row (\<lambda>q. sp_id q = i \<or> spool_key q = spool_key ?r) (gw_spool g)")
    case False
    then have acc: "accept now i ?a (gw_spool g) = ((i, True), gw_spool g @ [?r])" by (simp add: accept_def Let_def)
    let ?h = "g\<lparr>gw_spool := gw_spool g @ [?r]\<rparr>"
    from acc have e: "admit_review now i job a g = ?h\<lparr>gw_admitting := gw_admitting ?h @ [(ac_lane a, i, job)]\<rparr>"
      by (simp add: admit_review_def)
    note add = added_row [OF new, of ?r]
    have "ready ?h i" "runnable ?h i" using add by simp_all
    then have "fit (admit_review now i job a g) i" unfolding e by (simp add: fit_def runnable_def max_runs_def)
    moreover have "steps i g (admit_review now i job a g)"
      unfolding e by (rule admit_waiting [OF _ \<open>ready ?h i\<close>], rule add(1), simp)
    ultimately show ?thesis by blast
  next
    case True
    then have "list_ex (\<lambda>q. spool_key q = spool_key ?r) (gw_spool g)"
      using none by (auto simp: some_row_def list_ex_iff get_row_def find_None_iff)
    then obtain q where q: "find (\<lambda>q. spool_key q = spool_key ?r) (gw_spool g) = Some q"
      by (cases "find (\<lambda>q. spool_key q = spool_key ?r) (gw_spool g)") (auto simp: find_None_iff list_ex_iff)
    let ?j = "sp_id q"
    have row: "get_row (gw_spool g) ?j = Some q" "spool_key q = spool_key ?r"
      using find_SomeD [OF q] d by (simp_all add: get_row_iff)
    have acc: "accept now i ?a (gw_spool g) = ((?j, False), gw_spool g)" using True q by (simp add: accept_def Let_def)
    obtain b s where c: "claim now ?j (gw_owner g) (gw_spool g) = (b, s)" by fastforce
    have "steps ?j g (admit_review now i job a g)"
    proof (cases b)
      case True
      then have "admit_review now i job a g = (g\<lparr>gw_spool := s\<rparr>)\<lparr>gw_admitting := gw_admitting (g\<lparr>gw_spool := s\<rparr>) @ [(ac_lane a, ?j, job)]\<rparr>"
        using acc c by (simp add: admit_review_def)
      then show ?thesis using claimed_row(1) [OF inv c True] by (simp only: admit_waiting)
    next
      case False
      then have s: "s = gw_spool g" by (rule claimed_row(2) [OF inv c])
      have e: "admit_review now i job a g = snd (claim_wake job g)" using acc c s False by (simp add: admit_review_def)
      have "placed g ?j" using inv by (simp add: gw_inv_def)
      then show ?thesis unfolding e by (rule steps_calm) (auto intro: calm_fields simp: gw_ok_def)
    qed
    then show ?thesis using row key by (metis (no_types, lifting) option.distinct(1))
  qed
qed

section \<open>Replaying a row\<close>

lemma steps_spool:
  assumes "steps k g h" "idle k h + live k h = 0" "\<And>i. i \<noteq> k \<Longrightarrow> quiet_at i (gw_spool h) (f (gw_spool h))"
    and "map sp_id (f (gw_spool h)) = map sp_id (gw_spool h)"
  shows "steps k g (on_spool f h)" "fit (on_spool f h) k"
proof -
  have c: "calm_at i h (on_spool f h)" for i
    using assms(2,3) by (cases "i = k") (auto intro!: calm_on_spool simp: assms(4))
  show "steps k g (on_spool f h)"
    by (rule steps_trans [OF assms(1) c]) (use assms in \<open>auto simp: steps_def intro: ok_on_spool calm_placed [OF _ c]\<close>)
  show "fit (on_spool f h) k" using assms(2) by (simp add: fit_def)
qed

lemma dead_letter_step:
  assumes "steps k g h" "idle k h + live k h = 0"
  shows "steps k g (dead_letter now k reason cap h)" "fit (dead_letter now k reason cap h) k"
  unfolding dead_letter_def using assms
  by (auto intro!: steps_spool simp: same_ids intro: quiet_trans [OF quiet_claims(2) quiet_mark_failed])

lemma replay_row_step:
  assumes inv: "gw_inv g" and row: "get_row (gw_spool g) k = Some row"
    and free: "sp_status row = Received" "sp_claimed row = None"
  shows "steps k g (replay_row now row c g)" "fit (replay_row now row c g) k"
proof -
  have k: "sp_id row = k" using get_row_Some [OF row] by simp
  have out: "idle k g + live k g = 0" using inv row free by (auto simp: gw_inv_def placed_def owed_def)
  have stay: "steps k g g" using inv by (intro steps_calm) (simp_all add: gw_inv_def)
  have zero: "fit g k" using out by (simp add: fit_def)
  obtain b s where cl: "claim now k (gw_owner g) (gw_spool g) = (b, s)" by fastforce
  let ?g1 = "g\<lparr>gw_spool := s\<rparr>"
  have "steps k g (replay_row now row c g) \<and> fit (replay_row now row c g) k"
  proof (cases "rc_stale c \<and> sp_kind row \<noteq> WakeReview")
    case True
    have "steps k g (on_spool (\<lambda>s. snd (mark_dead now k ''stale'' s)) g)
        \<and> fit (on_spool (\<lambda>s. snd (mark_dead now k ''stale'' s)) g) k"
      by (intro conjI steps_spool [OF stay out]) (simp_all add: same_ids quiet)
    then show ?thesis using True k by (simp add: replay_row_def)
  next
    case not_stale: False
    show ?thesis
    proof (cases "rc_adapter c \<and> b")
      case False
      then show ?thesis using not_stale stay zero cl k claimed_row(2) [OF inv cl] by (auto simp: replay_row_def)
    next
      case True
      have st: "steps k g ?g1" and rd: "ready ?g1 k" using claimed_row(1) [OF inv cl] True by simp_all
      have out1: "idle k ?g1 + live k ?g1 = 0" using out by simp
      have s': "get_row s k = Some (row\<lparr>sp_claimed := Some (gw_owner g), sp_updated := now\<rparr>)"
        using claimed_row(3) [OF inv cl] True row by auto
      have close: "steps k g (close_spool now k ?g1) \<and> fit (close_spool now k ?g1) k"
        using steps_close [OF st] out by (simp add: fit_def close_spool_def)
      have run: "runnable ?g1 k" if "sp_tool row = None" "sp_attempts row < gw_cap g"
        using that s' by (simp add: runnable_def max_runs_def)
      have wake: "steps k g (replay_wake_review now row c ?g1) \<and> fit (replay_wake_review now row c ?g1) k"
        using close st rd out1 run dead_letter_step [OF st out1] k
        by (auto simp: replay_wake_review_def review_fallback_def close_spool_def fit_def [of ?g1]
            intro!: steps_enqueue enqueue_fit)
      have interrupted: "steps k g (on_spool (\<lambda>s. snd (mark_interrupted now k e s)) ?g1)
          \<and> fit (on_spool (\<lambda>s. snd (mark_interrupted now k e s)) ?g1) k" for e
        by (intro conjI steps_spool [OF st out1]) (simp_all add: same_ids quiet)
      have dispatched: "steps k g (dispatch_row now (sp_lane row) k rt ?g1) \<and> fit (dispatch_row now (sp_lane row) k rt ?g1) k"
        if "sp_tool row = None" "sp_attempts row < gw_cap g" for rt
        using steps_dispatch [OF st rd] dispatch_self(2) [OF rd run [OF that]] by blast
      have "fit ?g1 k" using out by (simp add: fit_def)
      then show ?thesis using not_stale True cl k close wake interrupted dead_letter_step [OF st out1] dispatched st
        by (auto simp: replay_row_def Let_def)
    qed
  qed
  then show "steps k g (replay_row now row c g)" "fit (replay_row now row c g) k" by blast+
qed

lemma set_insert_row: "set (insert_row r rs) = insert r (set rs)"
  by (induction rs) auto

lemma set_list_replayable: "set (list_replayable bots s) \<subseteq> {r \<in> set s. replayable bots s r}"
proof -
  have "set (foldr insert_row rs []) = set rs" for rs by (induction rs) (simp_all add: set_insert_row)
  then show ?thesis by (auto simp: list_replayable_def)
qed

lemma listed_row:
  assumes "gw_ok g" "find (\<lambda>r. sp_id r = i) (list_replayable bots (gw_spool g)) = Some row"
  shows "get_row (gw_spool g) i = Some row" "sp_status row = Received" "sp_claimed row = None"
proof -
  have "row \<in> set (list_replayable bots (gw_spool g))" "sp_id row = i" using find_SomeD [OF assms(2)] by simp_all
  then have "row \<in> set (gw_spool g)" "replayable bots (gw_spool g) row"
    using set_list_replayable [of bots "gw_spool g"] by auto
  then show "get_row (gw_spool g) i = Some row" "sp_status row = Received" "sp_claimed row = None"
    using assms(1) \<open>sp_id row = i\<close> by (simp_all add: gw_ok_def get_row_iff replayable_def)
qed


section \<open>Histories\<close>

fun requeues :: "int \<times> gw_event \<Rightarrow> bool" where
  "requeues (now, Requeue i) = True"
| "requeues x = False"

text \<open>An admission of the review whose row has this key.\<close>

fun admits :: "string \<times> string \<times> string \<times> string \<Rightarrow> int \<times> gw_event \<Rightarrow> bool" where
  "admits k (now, Admit i job a) = (k = (ac_platform a, ac_bot a, ac_chat a, ''wake:'' @ job))"
| "admits k x = False"

lemma note_draws_fields [simp]:
  "gw_spool (note_draws e g) = gw_spool g" "gw_turns (note_draws e g) = gw_turns g"
  "gw_owner (note_draws e g) = gw_owner g" "gw_cap (note_draws e g) = gw_cap g"
  "idle i (note_draws e g) = idle i g" "live i (note_draws e g) = live i g"
  by (simp_all add: note_draws_def split: option.split)

lemma calm_note_draws: "calm_at i g (note_draws e g)"
  by (rule calm_fields) (auto simp: note_draws_def split: option.split)

lemma note_draws_inv: "gw_inv g \<Longrightarrow> gw_inv (note_draws e g)"
  by (rule calm_inv [OF _ _ calm_note_draws]) (simp_all add: gw_inv_def gw_ok_def)

lemma drawn_new:
  assumes "gw_inv g" "\<not> draws_used e g" "drawn_id e = Some k"
  shows "new_id (note_draws e g) k"
proof -
  have "k \<notin> set (gw_ids g)" using assms(2,3) by (simp add: draws_used_def)
  moreover have "placed g k" using assms(1) by (simp add: gw_inv_def)
  ultimately have "idle k g + live k g = 0" "get_row (gw_spool g) k = None"
    by (auto simp: placed_def)
  then show ?thesis using assms(3) by (simp add: new_id_def) (simp add: note_draws_def)
qed

lemma calm_prune: "gw_ok g \<Longrightarrow> calm_at i g (on_spool (filter P) g)"
  by (auto simp: calm_at_def gw_ok_def get_row_filter quiet_filter quiet_held split: option.split)

lemma prune_filters:
  "on_spool (\<lambda>s. snd (prune_done c s)) g = on_spool (filter (\<lambda>r. \<not> (sp_status r = Closed \<and> sp_updated r < c))) g"
  "on_spool (\<lambda>s. snd (prune_dead c s)) g = on_spool (filter (\<lambda>r. \<not> (parked_row r \<and> sp_updated r < c))) g"
  by (simp_all add: on_spool_def prune_done_def prune_dead_def Let_def)

lemma ok_prune: "gw_ok g \<Longrightarrow> gw_ok (on_spool (filter P) g)"
  by (simp add: gw_ok_def distinct_map_filter)

lemma calm_discard: "calm_at i g (on_spool (\<lambda>s. snd (discard now k s)) g)"
  by (rule calm_on_spool) (simp_all add: same_ids quiet)

lemma calm_flags:
  "calm_at i g (g\<lparr>gw_closing := b\<rparr>)" "calm_at i g (g\<lparr>gw_replaying := b\<rparr>)"
  by (rule calm_fields; simp)+

lemma replay_step:
  assumes "gw_inv g"
  shows "\<exists>k. steps k g (replay_listed now bots i c g) \<and> get_row (gw_spool g) k \<noteq> None
      \<and> fit (replay_listed now bots i c g) k
    \<or> (\<forall>j. calm_at j g (replay_listed now bots i c g)) \<and> gw_ok (replay_listed now bots i c g)"
proof (cases "gw_replaying g \<and> find (\<lambda>r. sp_id r = i) (list_replayable bots (gw_spool g)) \<noteq> None")
  case True
  then obtain row where r: "find (\<lambda>r. sp_id r = i) (list_replayable bots (gw_spool g)) = Some row" by blast
  have "gw_ok g" using assms by (simp add: gw_inv_def)
  then have row: "get_row (gw_spool g) i = Some row" "sp_status row = Received" "sp_claimed row = None"
    by (rule listed_row [OF _ r])+
  then have "steps i g (replay_row now row c g)" "fit (replay_row now row c g) i"
    by (rule replay_row_step [OF assms])+
  then show ?thesis using True r row(1) by (auto simp: replay_listed_def)
next
  case False
  then have "replay_listed now bots i c g = g" by (auto simp: replay_listed_def split: option.split)
  then show ?thesis using assms by (simp add: gw_inv_def)
qed

text \<open>A row that is there stays while another is admitted or replayed.\<close>

lemma stays_on:
  "map sp_id s = map sp_id t \<Longrightarrow> get_row t k \<noteq> None \<Longrightarrow> get_row s k \<noteq> None"
  unfolding get_row_None_iff by (metis image_set)

lemma dispatch_ids: "map sp_id (gw_spool (dispatch_row now lane k r g)) = map sp_id (gw_spool g)"
  by (cases r) (auto simp: dispatch_row_def close_spool_def push_steer_def link_absorbed_def case_prod_unfold same_ids
      split: option.split)

lemma replay_ids: "map sp_id (gw_spool (replay_row now row c g)) = map sp_id (gw_spool g)"
proof -
  obtain b s where cl: "claim now (sp_id row) (gw_owner g) (gw_spool g) = (b, s)" by fastforce
  have "map sp_id s = map sp_id (gw_spool g)"
    using ids_ops(8) [of now "sp_id row" "gw_owner g" "gw_spool g"] cl by simp
  then show ?thesis using cl
    by (cases b) (auto simp: replay_row_def Let_def dispatch_ids replay_wake_review_def review_fallback_def
        dead_letter_def close_spool_def same_ids)
qed

lemma replay_stays: "get_row (gw_spool g) k \<noteq> None \<Longrightarrow> get_row (gw_spool (replay_listed now bots i c g)) k \<noteq> None"
  using stays_on [OF replay_ids] by (auto simp: replay_listed_def split: option.split)

lemma admit_stays: "get_row (gw_spool g) k \<noteq> None \<Longrightarrow> get_row (gw_spool (admit_review now i job a g)) k \<noteq> None"
proof -
  assume k: "get_row (gw_spool g) k \<noteq> None"
  let ?a = "a\<lparr>ac_message := ''wake:'' @ job, ac_claimed := Some (gw_owner g), ac_kind := Some WakeReview, ac_job := Some job\<rparr>"
  obtain j f s where acc: "accept now i ?a (gw_spool g) = ((j, f), s)" by (cases "accept now i ?a (gw_spool g)") auto
  have s: "get_row s k \<noteq> None" using acc k
    by (auto simp: accept_def Let_def get_row_append split: if_splits option.splits)
  obtain b t where c: "claim now j (gw_owner g) s = (b, t)" by fastforce
  have "map sp_id t = map sp_id s" using ids_ops(8) [of now j "gw_owner g" s] c by simp
  then have "get_row t k \<noteq> None" using s by (rule stays_on)
  then show ?thesis using acc c s by (cases b) (auto simp: admit_review_def claim_wake_def)
qed

text \<open>What an event does at every row but one, and to the fitness of that one.\<close>

definition fares :: "gateway \<Rightarrow> int \<times> gw_event \<Rightarrow> gateway \<Rightarrow> bool" where
  "fares g x h \<longleftrightarrow> gw_inv h \<and> (\<forall>i. fit g i
     \<longrightarrow> (\<forall>r. get_row (gw_spool g) i = Some r \<longrightarrow> \<not> admits (spool_key r) x) \<longrightarrow> fit h i)
   \<and> (\<forall>i. drawn_id (snd x) \<noteq> Some i \<longrightarrow> get_row (gw_spool g) i = None \<or> get_row (gw_spool h) i = None
        \<longrightarrow> idle i h \<le> idle i g)
   \<and> set (gw_ids g) \<subseteq> set (gw_ids h) \<and> gw_cap h = gw_cap g"

lemma fares_calm:
  assumes "gw_inv g" "\<And>i. calm_at i g h" "gw_ok g \<Longrightarrow> gw_ok h"
  shows "fares g x h"
proof -
  have "gw_inv h" using calm_inv [OF assms(1) _ assms(2)] assms(1,3) by (simp add: gw_inv_def)
  moreover have "fit h i" if "fit g i" for i by (rule calm_fit [OF that assms(2)])
  moreover have "idle i h \<le> idle i g" "set (gw_ids g) \<subseteq> set (gw_ids h)" "gw_cap h = gw_cap g" for i
    using assms(2) [of i] by (simp_all add: calm_at_def)
  ultimately show ?thesis by (simp add: fares_def)
qed

lemma fares_steps:
  assumes "gw_inv g" "steps k g h" "fit h k \<or> (\<exists>r. get_row (gw_spool g) k = Some r \<and> admits (spool_key r) x)"
    and "drawn_id (snd x) = Some k \<or> get_row (gw_spool g) k \<noteq> None \<and> get_row (gw_spool h) k \<noteq> None"
  shows "fares g x h"
proof -
  have "fit h i" if "fit g i" "\<forall>r. get_row (gw_spool g) i = Some r \<longrightarrow> \<not> admits (spool_key r) x" for i
    by (rule steps_fit [OF assms(2) that(1)]) (use assms(3) that(2) in auto)
  moreover have "idle i h \<le> idle i g" if "drawn_id (snd x) \<noteq> Some i"
    "get_row (gw_spool g) i = None \<or> get_row (gw_spool h) i = None" for i
  proof -
    have "i \<noteq> k" using that assms(4) by auto
    then show ?thesis using assms(2) by (simp add: steps_def calm_at_def)
  qed
  moreover have "calm_at (CHR ''x'' # k) g h" using assms(2) by (simp add: steps_def)
  then have "set (gw_ids g) \<subseteq> set (gw_ids h)" "gw_cap h = gw_cap g" by (simp_all add: calm_at_def)
  ultimately show ?thesis using steps_inv [OF assms(1,2)] by (simp add: fares_def)
qed

lemma act_fares:
  assumes inv: "gw_inv g" and new: "\<And>k. drawn_id e = Some k \<Longrightarrow> new_id g k" and nr: "\<not> requeues (now, e)"
  shows "fares g (now, e) (snd (gw_act now e g))"
proof -
  note calmly = fares_calm [OF inv]
  have gok: "gw_ok g" using inv by (simp add: gw_inv_def)
  show ?thesis
  proof (cases e)
    case (Message k a sp du nd r)
    then have "new_id g k" using new by simp
    then have "fares g (now, e) (handle_message now k a sp du nd r g)"
      by (intro fares_steps [OF inv message_step(1)] disjI1 message_step(2)) (simp_all add: Message)
    then show ?thesis using Message by simp
  next
    case (Retry k i pl r)
    then have "new_id g k" using new by simp
    then have "fares g (now, e) (retry_row_of now k i pl r g)"
      by (intro fares_steps [OF inv retry_step(1)] disjI1 retry_step(2)) (simp_all add: Retry)
    then show ?thesis using Retry by simp
  next
    case (Admit i job a)
    then have "new_id g i" using new by simp
    then show ?thesis using admit_step [OF inv, of i now job a] admit_stays [of g _ now i job a] Admit
      by (auto intro: fares_steps [OF inv])
  next
    case (ReplayRow bots i c)
    then show ?thesis using replay_step [OF inv, of now bots i c] replay_stays [of g _ now bots i c] gok
      by (auto intro: fares_steps [OF inv] calmly)
  next
    case (Boot owner)
    then show ?thesis using boot_inv [OF inv] boot_fit by (simp add: fares_def) (simp add: boot_def idle_def)
  next
    case (Requeue i)
    then show ?thesis using nr by simp
  next
    case (EndTurn lane aborted err d)
    then show ?thesis by (auto intro!: calmly calm_end_turn [OF inv] ok_end_turn)
  next
    case (StartTurn lane sl d)
    then show ?thesis by (auto intro!: calmly calm_start_turn [OF inv] ok_start_turn)
  next
    case (ToolStart lane)
    then show ?thesis by (auto intro!: calmly calm_tool_start [OF inv] ok_tool_start)
  next
    case BeginReplay
    then show ?thesis by (auto intro!: calmly calm_begin_replay [OF inv] ok_begin_replay)
  next
    case (PruneDone c)
    then show ?thesis by (auto intro!: calmly calm_prune [OF gok] ok_prune simp: prune_filters)
  next
    case (PruneDead c)
    then show ?thesis by (auto intro!: calmly calm_prune [OF gok] ok_prune simp: prune_filters)
  next
    case (Discard i)
    then show ?thesis by (auto intro!: calmly calm_discard ok_on_spool simp: same_ids)
  next
    case Shutdown
    then show ?thesis by (auto intro!: calmly calm_flags simp: gw_ok_def)
  next
    case EndReplay
    then show ?thesis by (auto intro!: calmly calm_flags simp: gw_ok_def)
  qed (auto intro!: calmly calm ok)
qed

lemma do_fares:
  assumes "gw_inv g" "\<not> requeues x"
  shows "fares g x (snd (gw_do x g))"
proof -
  obtain now e where x: "x = (now, e)" by fastforce
  show ?thesis
  proof (cases "draws_used e g")
    case True
    then show ?thesis using assms by (simp add: gw_do_def x fares_def)
  next
    case False
    let ?g = "note_draws e g"
    have "fares ?g x (snd (gw_act now e ?g))"
      unfolding x by (rule act_fares [OF note_draws_inv [OF assms(1)] drawn_new [OF assms(1) False]]) (use assms x in auto)
    moreover have "fit ?g i" if "fit g i" for i using that by (simp add: fit_def max_runs_def)
    moreover have "set (gw_ids g) \<subseteq> set (gw_ids ?g)" by (auto simp: note_draws_def split: option.split)
    ultimately show ?thesis using False by (auto simp: gw_do_def x fares_def)
  qed
qed

end
