(* ===== verification/GatewayRuns.thy ===== *)
theory GatewayRuns
  imports GatewaySafe
begin

text \<open>
  How often the turn of a row runs: what no event but an operator's requeue undoes (a tool start, an attempt), and
  the properties of whole histories that follow.
\<close>

section \<open>What is not undone\<close>

definition row_firm :: "nat \<Rightarrow> spool_row \<Rightarrow> spool_row \<Rightarrow> bool" where
  "row_firm n r q \<longleftrightarrow> spool_key q = spool_key r \<and> (sp_tool r \<noteq> None \<longrightarrow> sp_tool q \<noteq> None)
     \<and> sp_attempts r \<le> sp_attempts q + n"

definition firm :: "nat \<Rightarrow> string \<Rightarrow> spool \<Rightarrow> spool \<Rightarrow> bool" where
  "firm n i s t \<longleftrightarrow> (\<forall>q. get_row t i = Some q \<longrightarrow> (\<exists>r. get_row s i = Some r \<and> row_firm n r q))"

named_theorems firm \<open>operations that undo no tool start and no attempt\<close>

lemma row_firm_refl [simp]: "row_firm n r r"
  by (simp add: row_firm_def)

lemma row_firm_trans: "row_firm n r q \<Longrightarrow> row_firm m q p \<Longrightarrow> row_firm (n + m) r p"
  by (auto simp: row_firm_def)

lemma firm_refl [simp]: "firm n i s s"
  by (simp add: firm_def)

lemma firm_comp: "firm n i s t \<Longrightarrow> firm m i t u \<Longrightarrow> firm (n + m) i s u"
  unfolding firm_def using row_firm_trans by blast

lemma firm_trans: "firm 0 i s t \<Longrightarrow> firm n i t u \<Longrightarrow> firm n i s u"
  using firm_comp [of 0] by simp

lemma firm_trans': "firm n i s t \<Longrightarrow> firm 0 i t u \<Longrightarrow> firm n i s u"
  using firm_comp [of n i s t 0] by simp

lemma firm_upd:
  assumes "\<And>r. sp_id (f r) = sp_id r" and "\<And>r. P r \<Longrightarrow> sp_id r = i \<Longrightarrow> row_firm n r (f r)"
  shows "firm n i s (upd_rows P f s)"
  using assms get_row_Some by (fastforce simp: firm_def)

lemma firm_cascade [firm]: "firm 0 i s (cascade_absorbed p src target err now s)"
  unfolding cascade_absorbed_def by (rule firm_upd) (auto simp: row_firm_def spool_key_def)

lemma firm_marks [firm]:
  "firm 0 i s (mark_done now k s)"
  "firm 0 i s (snd (mark_failed now k err cap s))"
  "firm 0 i s (snd (mark_interrupted now k err s))"
  "firm 0 i s (snd (mark_dead now k err s))"
  "firm 0 i s (snd (discard now k s))"
  unfolding mark_done_def mark_failed_def mark_interrupted_def mark_dead_def discard_def Let_def
  by (auto intro!: firm_trans [OF firm_upd firm_cascade] firm_upd simp: row_firm_def spool_key_def)

lemma firm_links [firm]:
  "firm 0 i s (snd (mark_absorbed now k p s))"
  "firm 0 i s (snd (unlink_absorbed now k s))"
  "firm 0 i s (snd (claim now k owner s))"
  "firm 0 i s (snd (mark_processing now k owner s))"
  "firm 0 i s (mark_tool_started now k s)"
  "firm 0 i s (snd (recover_orphans now owner s))"
  unfolding mark_absorbed_def unlink_absorbed_def claim_def mark_processing_def mark_tool_started_def
    recover_orphans_def Let_def
  by (auto intro!: firm_trans [OF firm_upd firm_upd] firm_upd simp: row_firm_def spool_key_def)

lemma firm_release: "firm (if i = k then 1 else 0) i s (release_on_shutdown now k s)"
  unfolding release_on_shutdown_def by (rule firm_upd) (auto simp: row_firm_def spool_key_def)

lemma firm_filter: "distinct (map sp_id s) \<Longrightarrow> firm 0 i s (filter P s)"
  by (auto simp: firm_def get_row_filter split: option.splits if_splits)

lemma firm_append: "i \<noteq> sp_id r \<Longrightarrow> firm 0 i s (s @ [r])"
  by (auto simp: firm_def get_row_append split: option.splits)

abbreviation firm_gw :: "nat \<Rightarrow> string \<Rightarrow> gateway \<Rightarrow> gateway \<Rightarrow> bool" where
  "firm_gw n i g h \<equiv> firm n i (gw_spool g) (gw_spool h)"

lemma firm_close [firm]: "firm_gw 0 i g (close_spool now k g)"
  by (simp add: close_spool_def firm)

lemma firm_fallback [firm]: "firm_gw 0 i g (review_fallback now k d g)"
  by (simp add: review_fallback_def firm)

lemma firm_unstarted [firm]: "firm_gw 0 i g (settle_unstarted now k v d g)"
  by (simp add: settle_unstarted_def firm)

lemma firm_drop [firm]: "firm_gw 0 i g (drop_waiting now d ws g)"
  by (induction now d ws g rule: drop_waiting.induct) (auto intro: firm_trans firm)

lemma firm_abort [firm]: "firm_gw 0 i g (abort_waiting now lane d g)"
  unfolding abort_waiting_def
  using firm_drop [of i "g\<lparr>gw_waiting := filter (\<lambda>w. fst w \<noteq> lane) (gw_waiting g)\<rparr>" now d] by simp

lemma firm_link [firm]: "firm_gw 0 i g (snd (link_absorbed now k t g))"
  by (auto simp: link_absorbed_def case_prod_unfold firm split: option.split)

lemma firm_dispatch [firm]: "firm_gw 0 i g (dispatch_row now lane k r g)"
  by (cases r) (auto simp: dispatch_push dispatch_row_def firm split: option.split)

lemma firm_unread [firm]: "firm_gw 0 i g (snd (requeue_unread now lane ks t g))"
  by (induction now lane ks t g rule: requeue_unread.induct)
    (auto simp: unlink_steer_def intro: firm_trans firm)

lemma firm_settle_unread [firm]: "firm_gw 0 i g (snd (settle_unread now ks answered t g))"
proof (induction now ks answered t g rule: settle_unread.induct)
  case (2 now k ks answered t g)
  then show ?case
    by (cases "gw_closing g \<and> answered") (auto simp: unlink_steer_def intro: firm_trans [OF firm_links(2)])
qed simp

lemma firm_fold_close [firm]: "firm_gw 0 i g (fold (close_spool now) ks g)"
  by (induction ks arbitrary: g) (auto intro: firm_trans firm_close)

section \<open>Counting runs and refunds\<close>

definition runs :: "string \<Rightarrow> turn_note list \<Rightarrow> nat" where
  "runs i ns = length (filter (\<lambda>n. n = Ran i True) ns)"

definition begins :: "string \<Rightarrow> turn_note list \<Rightarrow> nat" where
  "begins i ns = length (filter (\<lambda>n. \<exists>counted. n = Ran i counted) ns)"

definition refunds :: "string \<Rightarrow> turn_note list \<Rightarrow> nat" where
  "refunds i ns = length (filter (\<lambda>n. n = Refunded i) ns)"

lemma counts_Nil [simp]: "runs i [] = 0" "begins i [] = 0" "refunds i [] = 0"
  by (simp_all add: runs_def begins_def refunds_def)

lemma counts_append [simp]:
  "runs i (ns @ ms) = runs i ns + runs i ms" "begins i (ns @ ms) = begins i ns + begins i ms"
  "refunds i (ns @ ms) = refunds i ns + refunds i ms"
  by (simp_all add: runs_def begins_def refunds_def)

lemma firm_finish:
  "finish_spool_turn now t aborted err d g = (ns, h) \<Longrightarrow> firm_gw (refunds i ns) i g h \<and> begins i ns = 0 \<and> runs i ns = 0"
proof (cases "ts_id t")
  case None
  then show "finish_spool_turn now t aborted err d g = (ns, h) \<Longrightarrow> ?thesis"
    by (auto simp: finish_spool_turn_def Let_def firm split: if_splits)
next
  case (Some k)
  assume f: "finish_spool_turn now t aborted err d g = (ns, h)"
  have r: "firm (refunds i [Refunded k]) i s (release_on_shutdown now k s)" for s
    using firm_release [of i k s now] by (auto simp: refunds_def)
  have fc: "firm n i (gw_spool g) s \<Longrightarrow> s = gw_spool g1 \<Longrightarrow> firm_gw n i g (fold (close_spool now) ks g1)" for n s g1 ks
    using firm_trans' firm_fold_close by blast
  from f Some show ?thesis
    by (auto simp: finish_spool_turn_def Let_def r firm runs_def begins_def
        intro!: fc split: if_splits option.splits)
qed

lemma firm_end_turn:
  assumes "end_turn now lane aborted err d g = (ns, h)"
  shows "firm_gw (refunds i ns) i g h \<and> begins i ns = 0 \<and> runs i ns = 0"
proof (cases "map_of (gw_turns g) lane")
  case (Some w)
  obtain t sink where w: "w = (t, sink)" by fastforce
  let ?g0 = "g\<lparr>gw_turns := AList.delete lane (gw_turns g)\<rparr>"
  let ?m = "if \<not> aborted \<and> \<not> gw_closing g \<and> (err = None \<or> ts_answered t)
      then requeue_unread now lane sink t ?g0 else settle_unread now sink (ts_answered t) t ?g0"
  obtain t1 g1 where u: "?m = (t1, g1)" by fastforce
  have "firm_gw 0 i ?g0 (snd (requeue_unread now lane sink t ?g0))"
    "firm_gw 0 i ?g0 (snd (settle_unread now sink (ts_answered t) t ?g0))"
    by (rule firm)+
  then have "firm_gw 0 i g g1" using u by (auto split: if_splits)
  moreover have "finish_spool_turn now t1 aborted err d g1 = (ns, h)"
    using assms Some w u by (auto simp: end_turn_def Let_def)
  ultimately show ?thesis using firm_finish firm_trans by blast
qed (use assms in \<open>simp add: end_turn_def\<close>)


lemma firm_message:
  assumes "get_row (gw_spool g) k = None" "i \<noteq> k"
  shows "firm_gw 0 i g (handle_message now k a sp du nd r g)"
proof -
  have app: "firm 0 i (gw_spool g) (gw_spool g @ [accept_row now k b])" for b
    by (rule firm_append) (simp add: assms)
  have "firm_gw 0 i g (close_spool now k (g\<lparr>gw_spool := gw_spool g @ [accept_row now k b]\<rparr>))"
    "firm_gw 0 i g (dispatch_row now lane k r (g\<lparr>gw_spool := gw_spool g @ [accept_row now k b]\<rparr>))" for b lane
    using firm_trans [OF app [of b]] firm_close [of i "g\<lparr>gw_spool := gw_spool g @ [accept_row now k b]\<rparr>"]
      firm_dispatch [of i "g\<lparr>gw_spool := gw_spool g @ [accept_row now k b]\<rparr>"] by simp_all
  note cases = app this
  let ?a = "a\<lparr>ac_claimed := (if \<not> gw_replaying g then Some (gw_owner g) else None)\<rparr>"
  show ?thesis
  proof (cases rule: accept_cases [OF assms(1), of now ?a])
    case (1 j)
    then show ?thesis by (auto simp: handle_message_def accept_inbound_def Let_def)
  next
    case 2
    then show ?thesis using cases by (auto simp: handle_message_def accept_inbound_def Let_def)
  qed
qed

lemma firm_retry:
  assumes "i \<noteq> k"
  shows "firm_gw 0 i g (retry_row_of now k j pl r g)"
proof -
  have "firm 0 i (gw_spool g) s"
    if e: "retry_interrupted now k j ow p (gw_spool g) = Inr (Some m, s)" for m ow p s
  proof -
    from e obtain s1 r1 where "s = s1 @ [r1]" "sp_id r1 = k" "s1 = cascade_absorbed j [Interrupted] Closed (Some ''retried'') now
        (upd_rows (\<lambda>r. sp_id r = j)
          (\<lambda>r. r\<lparr>sp_status := Closed, sp_payload := ''{}'', sp_error := Some ''retried'', sp_updated := now\<rparr>) (gw_spool g))"
      by (auto simp: retry_interrupted_def retry_row_def Let_def split: option.splits if_splits)
    then show ?thesis using assms
      by (auto intro!: firm_trans [OF firm_trans [OF firm_upd firm_cascade] firm_append] simp: row_firm_def spool_key_def)
  qed
  then have "firm_gw 0 i g (if gw_closing g then g\<lparr>gw_spool := s\<rparr> else dispatch_row now lane m r (g\<lparr>gw_spool := s\<rparr>))"
    if "retry_interrupted now k j ow p (gw_spool g) = Inr (Some m, s)" for m ow p s lane
    using that firm_trans [OF _ firm_dispatch, of i "gw_spool g" "g\<lparr>gw_spool := s\<rparr>"] by auto
  then show ?thesis by (auto simp: retry_row_of_def Let_def split: option.split sum.split)
qed

lemma firm_admit:
  assumes "get_row (gw_spool g) k = None" "i \<noteq> k"
  shows "firm_gw 0 i g (admit_review now k job a g)"
proof -
  let ?a = "a\<lparr>ac_message := ''wake:'' @ job, ac_claimed := Some (gw_owner g), ac_kind := Some WakeReview, ac_job := Some job\<rparr>"
  have app: "firm 0 i (gw_spool g) (gw_spool g @ [accept_row now k ?a])" by (rule firm_append) (simp add: assms)
  show ?thesis
  proof (cases rule: accept_cases [OF assms(1), of now ?a])
    case (1 j)
    have "firm 0 i (gw_spool g) (snd (claim now j (gw_owner g) (gw_spool g)))" by (rule firm)
    then show ?thesis using 1 by (auto simp: admit_review_def split: prod.split bool.split)
  next
    case 2
    then show ?thesis using app by (simp add: admit_review_def)
  qed
qed

lemma firm_finish_admission [firm]: "firm_gw 0 i g (finish_admission now g)"
proof (cases "gw_admitting g")
  case (Cons x rest)
  obtain lane k job where x: "x = (lane, k, job)" by (cases x) auto
  obtain b g2 where c: "claim_wake job (g\<lparr>gw_admitting := rest\<rparr>) = (b, g2)" by fastforce
  have "gw_spool g2 = gw_spool g" using claim_wake_fields(1) [of job "g\<lparr>gw_admitting := rest\<rparr>"] c by simp
  then show ?thesis using c firm_close [of i g2 now k] by (cases b) (simp_all add: finish_admission_def Cons x)
qed (simp add: finish_admission_def)

lemma firm_on_spool: "firm 0 i (gw_spool h) (f (gw_spool h)) \<Longrightarrow> firm_gw 0 i g h \<Longrightarrow> firm_gw 0 i g (on_spool f h)"
  using firm_trans by simp

lemma firm_dead_letter [firm]: "firm_gw 0 i g (dead_letter now k reason cap g)"
  unfolding dead_letter_def by (auto intro: firm_trans firm)

lemma firm_replay [firm]: "firm_gw 0 i g (replay_listed now bots k c g)"
proof -
  have "firm_gw 0 i g (replay_row now row c g)" for row
  proof -
    obtain b s where cl: "claim now (sp_id row) (gw_owner g) (gw_spool g) = (b, s)" by fastforce
    have "firm 0 i (gw_spool g) s" using firm_links(3) [of i "gw_spool g" now "sp_id row" "gw_owner g"] cl by simp
    note g1 = this firm_trans [OF this]
    let ?g1 = "g\<lparr>gw_spool := s\<rparr>"
    have w: "firm_gw 0 i h (replay_wake_review now row c h)" for h
      by (auto simp: replay_wake_review_def intro: firm)
    have "firm_gw 0 i g (close_spool now k ?g1)" "firm_gw 0 i g (replay_wake_review now row c ?g1)"
      "firm_gw 0 i g (dead_letter now k e cap ?g1)" "firm_gw 0 i g (dispatch_row now lane k rt ?g1)"
      "firm 0 i (gw_spool g) (snd (mark_interrupted now k e s))" for k e cap lane rt
      using g1(2) firm_close [of i ?g1] w [of ?g1] firm_dead_letter [of i ?g1] firm_dispatch [of i ?g1]
        firm_marks(3) [of i s] by simp_all
    then show ?thesis using cl g1(1)
      by (cases b) (simp_all add: replay_row_def Let_def firm)
  qed
  then show ?thesis by (auto simp: replay_listed_def split: option.split)
qed

lemma firm_tool_start [firm]: "firm_gw 0 i g (tool_start now lane g)"
  by (auto simp: tool_start_def Let_def firm split: option.split)

lemma firm_unhook [firm]: "firm_gw 0 i g (unhook_sink now lane aborted g)"
  using firm_unread by (auto simp: unhook_sink_def case_prod_unfold split: option.split)

lemma firm_begin_replay [firm]: "firm_gw 0 i g (begin_replay now g)"
  by (simp add: begin_replay_def Let_def firm)

lemma firm_plain [firm]:
  "firm_gw 0 i g (mark_answered lane g)" "firm_gw 0 i g (read_steers lane g)" "firm_gw 0 i g (boot owner g)"
  by (auto simp: mark_answered_def read_steers_def boot_def split: option.split)

lemma start_turn_notes:
  assumes "gw_inv g" "start_turn now lane sl d g = (ns, h)"
  shows "firm_gw 0 i g h \<and> refunds i ns = 0 \<and> (begins i ns > 0 \<longrightarrow> idle i g > 0)
    \<and> (runs i ns = 0 \<or> runs i ns = 1 \<and> idle i g > 0 \<and> (\<exists>r q. get_row (gw_spool g) i = Some r
        \<and> sp_status r = Received \<and> get_row (gw_spool h) i = Some q \<and> sp_attempts q = Suc (sp_attempts r)))"
proof (cases "sl = Slot \<and> map_of (gw_turns g) lane = None \<and> take_lane lane (gw_waiting g) \<noteq> None")
  case True
  then obtain k v rest where t: "take_lane lane (gw_waiting g) = Some ((k, v), rest)" by force
  obtain b s where m: "mark_processing now k (gw_owner g) (gw_spool g) = (b, s)" by fastforce
  have ns: "ns = [Ran k b]" and hs: "gw_spool h = s"
    using assms(2) True t m by (auto simp: start_turn_def Let_def)
  have k: "idle k g > 0" using take_lane_count [OF t, of k] by (simp add: idle_def)
  have d: "distinct (map sp_id (gw_spool g))" using assms(1) by (simp add: gw_inv_def gw_ok_def)
  have "\<exists>r q. get_row (gw_spool g) k = Some r \<and> sp_status r = Received \<and> get_row s k = Some q
      \<and> sp_attempts q = Suc (sp_attempts r)" if b
  proof -
    from m that obtain r where "get_row (gw_spool g) k = Some r" "sp_status r = Received"
      using some_row_get [OF d, of k "\<lambda>r. sp_status r = Received"] by (auto simp: mark_processing_def Let_def)
    moreover have "sp_id r = k" using get_row_Some calculation(1) by blast
    ultimately show ?thesis using m by (auto simp: mark_processing_def Let_def)
  qed
  moreover have "firm 0 i (gw_spool g) s"
    using firm_links(4) [of i "gw_spool g" now k "gw_owner g"] m by simp
  ultimately show ?thesis using k unfolding ns hs
    by (cases b; cases "k = i") (auto simp: runs_def begins_def refunds_def)
next
  case False
  then have "ns = [] \<and> firm_gw 0 i g h" using assms(2)
    firm_unstarted [of i "g\<lparr>gw_waiting := ws\<rparr>" for ws] firm_close [of i "g\<lparr>gw_waiting := ws\<rparr>" for ws]
    by (auto simp: start_turn_def Let_def split: option.splits slot.splits if_splits)
  then show ?thesis by simp
qed

text \<open>An event at a row it did not draw.\<close>

lemma act_firm:
  assumes inv: "gw_inv g" and new: "\<And>k. drawn_id e = Some k \<Longrightarrow> new_id g k" and nr: "\<not> requeues (now, e)"
    and e: "gw_act now e g = (ns, h)" and i: "drawn_id e \<noteq> Some i"
  shows "firm_gw (refunds i ns) i g h \<and> (begins i ns > 0 \<longrightarrow> idle i g > 0)
    \<and> (runs i ns = 0 \<or> runs i ns = 1 \<and> idle i g > 0 \<and> refunds i ns = 0 \<and> (\<exists>r q. get_row (gw_spool g) i = Some r
        \<and> sp_status r = Received \<and> get_row (gw_spool h) i = Some q \<and> sp_attempts q = Suc (sp_attempts r)))"
proof -
  have d: "distinct (map sp_id (gw_spool g))" using inv by (simp add: gw_inv_def gw_ok_def)
  have none: "get_row (gw_spool g) k = None" if "drawn_id e = Some k" for k
    using new [OF that] by (simp add: new_id_def)
  have prune: "firm_gw 0 i g (on_spool (filter P) g)" for P using firm_filter [OF d] by simp
  show ?thesis
  proof (cases e)
    case (StartTurn lane sl dl)
    then show ?thesis using start_turn_notes [OF inv, of now lane sl dl ns h i] e by auto
  next
    case (EndTurn lane aborted err dl)
    then show ?thesis using firm_end_turn [of now lane aborted err dl g ns h i] e by simp
  next
    case (Message k a sp du nd r)
    then show ?thesis using firm_message [OF none, of k i now a sp du nd r] i e by auto
  next
    case (Retry k j pl r)
    then show ?thesis using firm_retry [of i k g now j pl r] i e by auto
  next
    case (Admit k job a)
    then show ?thesis using firm_admit [OF none, of k i now job a] i e by auto
  next
    case (PruneDone c)
    then have "ns = []" "h = on_spool (\<lambda>s. snd (prune_done c s)) g" using e by simp_all
    then show ?thesis by (simp only: prune_filters prune counts_Nil) simp
  next
    case (PruneDead c)
    then have "ns = []" "h = on_spool (\<lambda>s. snd (prune_dead c s)) g" using e by simp_all
    then show ?thesis by (simp only: prune_filters prune counts_Nil) simp
  qed (use e nr in \<open>auto simp: firm\<close>)
qed


section \<open>Whole histories\<close>

lemma gw_run_append:
  "gw_run (xs @ ys) g = (case gw_run xs g of (ns, h) \<Rightarrow> case gw_run ys h of (ms, k) \<Rightarrow> (ns @ ms, k))"
  by (induction xs arbitrary: g) (auto simp: case_prod_unfold)

lemma start_inv: "gw_inv (gw_start w cap)"
  by (simp add: gw_inv_def gw_ok_def placed_def gw_start_def idle_def live_def get_row_def)

lemma start_fit: "fit (gw_start w cap) i"
  by (simp add: fit_def gw_start_def get_row_def)

lemma do_inv: "gw_inv g \<Longrightarrow> \<not> requeues x \<Longrightarrow> gw_inv (snd (gw_do x g))"
  using do_fares by (simp add: fares_def)

lemma run_inv: "gw_inv g \<Longrightarrow> list_all (\<lambda>x. \<not> requeues x) xs \<Longrightarrow> gw_inv (snd (gw_run xs g))"
  by (induction xs arbitrary: g) (auto simp: case_prod_unfold do_inv)

lemma do_firm:
  assumes inv: "gw_inv g" and nr: "\<not> requeues x" and d: "gw_do x g = (ns, h)"
    and i: "i \<in> set (gw_ids g) \<or> drawn_id (snd x) \<noteq> Some i"
  shows "firm_gw (refunds i ns) i g h \<and> (begins i ns > 0 \<longrightarrow> idle i g > 0)
    \<and> (runs i ns = 0 \<or> runs i ns = 1 \<and> idle i g > 0 \<and> refunds i ns = 0 \<and> (\<exists>r q. get_row (gw_spool g) i = Some r
        \<and> sp_status r = Received \<and> get_row (gw_spool h) i = Some q \<and> sp_attempts q = Suc (sp_attempts r)))"
proof -
  obtain now e where x: "x = (now, e)" by fastforce
  show ?thesis
  proof (cases "draws_used e g")
    case True
    then show ?thesis using d x by (auto simp: gw_do_def)
  next
    case False
    have act: "gw_act now e (note_draws e g) = (ns, h)" using d False x by (simp add: gw_do_def)
    have "drawn_id e \<noteq> Some i" using False i x by (auto simp: draws_used_def)
    from act_firm [OF note_draws_inv [OF inv] drawn_new [OF inv False] nr [unfolded x] act this]
    show ?thesis by simp
  qed
qed


lemma run_snoc: "gw_run (xs @ [x]) g = (ns, h) \<Longrightarrow> \<exists>ms m us. gw_run xs g = (ms, m) \<and> gw_do x m = (us, h) \<and> ns = ms @ us"
  by (auto simp: gw_run_append split: prod.splits)

lemma run_cap: "gw_run xs (gw_start w cap) = (ns, g) \<Longrightarrow> list_all (\<lambda>x. \<not> requeues x) xs \<Longrightarrow> gw_cap g = cap"
proof (induction xs arbitrary: ns g rule: rev_induct)
  case Nil
  then show ?case by (auto simp: gw_start_def)
next
  case (snoc x xs)
  obtain ms m us where m: "gw_run xs (gw_start w cap) = (ms, m)" and x: "gw_do x m = (us, g)"
    using run_snoc [OF snoc.prems(1)] by blast
  have "gw_inv m" using run_inv [OF start_inv, of xs w cap] snoc.prems(2) m by (simp add: list_all_iff)
  then show ?case using do_fares [of m x] snoc.IH [OF m] snoc.prems(2) x by (simp add: fares_def)
qed

text \<open>A row that waits is fit to run, as long as no review with its key is admitted.\<close>

lemma run_fit:
  assumes "gw_run xs (gw_start w cap) = (ns, g)" "get_row (gw_spool g) i = Some r"
    and "list_all (\<lambda>x. \<not> requeues x \<and> \<not> admits (spool_key r) x) xs"
  shows "fit g i"
  using assms
proof (induction xs arbitrary: ns g r rule: rev_induct)
  case Nil
  then show ?case using start_fit by auto
next
  case (snoc x xs)
  obtain ms m us where m: "gw_run xs (gw_start w cap) = (ms, m)" and x: "gw_do x m = (us, g)"
    using run_snoc [OF snoc.prems(1)] by blast
  have inv: "gw_inv m" using run_inv [OF start_inv, of xs w cap] snoc.prems(3) m by (simp add: list_all_iff)
  have fares: "fares m x g" using do_fares [OF inv, of x] snoc.prems(3) x by simp
  show ?case
  proof (cases "get_row (gw_spool m) i")
    case None
    then have "fit m i" by (simp add: fit_def)
    then show ?thesis using fares None by (simp add: fares_def)
  next
    case (Some p)
    have "i \<in> set (gw_ids m)" using inv Some by (simp add: gw_inv_def placed_def)
    then have "firm_gw (refunds i us) i m g" using do_firm [OF inv _ x disjI1] snoc.prems(3) by simp
    then have key: "spool_key r = spool_key p" using snoc.prems(2) Some by (auto simp: firm_def row_firm_def)
    then have "fit m i" using snoc.IH [OF m Some] snoc.prems(3) by simp
    then show ?thesis using fares Some key snoc.prems(3) by (simp add: fares_def)
  qed
qed

text \<open>A message, and a replay that finds nothing amiss.\<close>

definition a_mail :: spool_accept where
  "a_mail = \<lparr>ac_platform = ''t'', ac_bot = ''b'', ac_chat = ''c'', ac_thread = None, ac_message = ''m1'',
     ac_lane = ''l'', ac_payload = ''{}'', ac_claimed = None, ac_kind = None, ac_job = None\<rparr>"

definition plain_replay :: replay_case where
  "plain_replay = \<lparr>rc_adapter = True, rc_stale = False, rc_obligation = False, rc_bot = True, rc_readable = True,
     rc_text = True, rc_delivered = True, rc_route = OwnTurn\<rparr>"

definition tool_history :: "(int \<times> gw_event) list" where
  "tool_history = [(1, Message ''r'' a_mail True False False OwnTurn), (2, StartTurn ''l'' Slot True), (3, ToolStart ''l'')]"

definition crash_history :: "(int \<times> gw_event) list" where
  "crash_history = [(4, Boot ''p2''), (5, BeginReplay), (6, ReplayRow [''b''] ''r'' plain_replay), (7, StartTurn ''l'' Slot True)]"




lemma drawing_begins_nothing: "gw_do x g = (us, h) \<Longrightarrow> drawn_id (snd x) \<noteq> None \<Longrightarrow> us = []"
  by (cases "snd x") (auto simp: gw_do_def split: if_splits)

lemma run_unseen:
  assumes "gw_run xs (gw_start w cap) = (ns, g)" "i \<notin> set (gw_ids g)" "list_all (\<lambda>x. \<not> requeues x) xs"
  shows "runs i ns = 0"
  using assms
proof (induction xs arbitrary: ns g rule: rev_induct)
  case (snoc x xs)
  obtain ms m us where m: "gw_run xs (gw_start w cap) = (ms, m)" and x: "gw_do x m = (us, g)" and ns: "ns = ms @ us"
    using run_snoc [OF snoc.prems(1)] by blast
  have inv: "gw_inv m" using run_inv [OF start_inv, of xs w cap] snoc.prems(3) m by (simp add: list_all_iff)
  have i: "i \<notin> set (gw_ids m)" using do_fares [OF inv, of x] snoc.prems x by (auto simp: fares_def)
  then have "idle i m = 0" using inv by (auto simp: gw_inv_def placed_def)
  then have "runs i us = 0" using do_firm [OF inv _ x, of i] drawing_begins_nothing [OF x] snoc.prems(3) by fastforce
  then show ?case using snoc.IH [OF m i] snoc.prems(3) ns by simp
qed simp

lemma run_budget:
  assumes "gw_run xs (gw_start w cap) = (ns, g)" "get_row (gw_spool g) i = Some r"
    and "list_all (\<lambda>x. \<not> requeues x \<and> \<not> admits (spool_key r) x) xs"
  shows "runs i ns + (max 1 cap - sp_attempts r) \<le> max 1 cap + refunds i ns \<and> gw_cap g = cap"
  using assms
proof (induction xs arbitrary: ns g r rule: rev_induct)
  case Nil
  then show ?case by (auto simp: gw_start_def get_row_def)
next
  case (snoc x xs)
  obtain ms m us where m: "gw_run xs (gw_start w cap) = (ms, m)" and x: "gw_do x m = (us, g)" and ns: "ns = ms @ us"
    using run_snoc [OF snoc.prems(1)] by blast
  have inv: "gw_inv m" using run_inv [OF start_inv, of xs w cap] snoc.prems(3) m by (simp add: list_all_iff)
  have cap: "gw_cap m = cap" "gw_cap g = cap" using run_cap [OF m] run_cap [OF snoc.prems(1)] snoc.prems(3)
    by (simp_all add: list_all_iff)
  show ?case
  proof (cases "get_row (gw_spool m) i")
    case None
    then have new: "i \<notin> set (gw_ids m)"
      using do_firm [OF inv _ x, of i] snoc.prems(2,3) by (auto simp: firm_def)
    then have "drawn_id (snd x) = Some i"
      using do_firm [OF inv _ x, of i] snoc.prems(2,3) None by (auto simp: firm_def)
    then have "runs i ns = 0"
      using run_unseen [OF m new] drawing_begins_nothing [OF x] snoc.prems(3) ns by (simp add: list_all_iff)
    then show ?thesis using cap by simp
  next
    case (Some p)
    have "i \<in> set (gw_ids m)" using inv Some by (simp add: gw_inv_def placed_def)
    note do = do_firm [OF inv _ x disjI1 [OF this]]
    have key: "row_firm (refunds i us) p r" using do snoc.prems(2,3) Some by (auto simp: firm_def)
    have ih: "runs i ms + (max 1 cap - sp_attempts p) \<le> max 1 cap + refunds i ms"
      using snoc.IH [OF m Some] key snoc.prems(3) by (simp add: row_firm_def)
    show ?thesis
    proof (cases "runs i us = 0")
      case True
      then show ?thesis using ih key ns cap by (simp add: row_firm_def) linarith
    next
      case False
      then have one: "runs i us = 1" "idle i m > 0" "sp_status p = Received" "sp_attempts r = Suc (sp_attempts p)"
        using do snoc.prems(2,3) Some by auto
      have "fit m i" using run_fit [OF m Some] key snoc.prems(3) by (simp add: row_firm_def)
      then have "sp_attempts p < max 1 cap" using one Some cap by (simp add: fit_def max_runs_def)
      then show ?thesis using ih one ns cap by simp
    qed
  qed
qed




text \<open>The message is the review of job \<open>j\<close>, and its first process dies before it owns the delivery.\<close>

definition review_history :: "(int \<times> gw_event) list" where
  "review_history =
     [(1, Admit ''r'' ''j'' a_mail), (2, Boot ''p2''), (3, BeginReplay), (4, ReplayRow [''b''] ''r'' plain_replay),
      (5, StartTurn ''l'' Slot True), (6, ToolStart ''l''), (7, Boot ''p3''), (8, BeginReplay)]"

text \<open>
  A review's turn can run again after it started a tool: when the boot sweep admits a review whose row is
  there already, it claims and queues the row without the checks the replay makes, so a review whose turn
  started a tool and whose job's delivery nobody claimed begins again; the replay of the same row would not.
\<close>

theorem review_readmitted_reruns:
  "begins ''r'' (fst (gw_run review_history (gw_start ''p1'' 3))) = 1
   \<and> begins ''r'' (fst (gw_run [(9, Admit ''x'' ''j'' a_mail), (10, FinishAdmission), (11, StartTurn ''l'' Slot True)]
       (snd (gw_run review_history (gw_start ''p1'' 3))))) = 1
   \<and> begins ''r'' (fst (gw_run [(9, ReplayRow [''b''] ''r'' plain_replay), (11, StartTurn ''l'' Slot True)]
       (snd (gw_run review_history (gw_start ''p1'' 3))))) = 0"
  by (intro conjI; code_simp)

end
