(* ===== verification/Chunking.thy ===== *)
theory Chunking
  imports Prelude
begin

text \<open>
  How the channel adapters cut an answer that is longer than one message: the newline-preferring
  chunker of Discord and Slack (extensions/platform-discord/src/chunking.ts, platform-slack/src/chunking.ts,
  the same function), the one of WhatsApp, and the fence-aware one of Telegram, with the edits that
  lay new chunks over old messages. A loop that stops advancing for a limit too small is a partial
  function, and its result for a real limit is proved to exist. Lengths count characters.
\<close>

section \<open>Where to cut\<close>

text \<open>\<open>s.lastIndexOf(c, from)\<close>.\<close>

definition last_index_of :: "char \<Rightarrow> nat \<Rightarrow> string \<Rightarrow> nat option" where
  "last_index_of c start s = find (\<lambda>i. s ! i = c) (rev [0..<min (Suc start) (length s)])"

definition nl :: char where "nl = CHR 0x0A"

text \<open>Past the last newline within reach when that leaves a chunk longer than 0.6 of the limit.\<close>

definition newline_cut :: "nat \<Rightarrow> string \<Rightarrow> nat option" where
  "newline_cut lim s =
     (case last_index_of nl lim s of
        None \<Rightarrow> None
      | Some i \<Rightarrow> if 5 * i > 3 * lim then Some (i + 1) else None)"

definition chunk_cut :: "nat \<Rightarrow> string \<Rightarrow> nat" where
  "chunk_cut lim s = (case newline_cut lim s of None \<Rightarrow> lim | Some k \<Rightarrow> k)"

text \<open>WhatsApp cuts before the newline, and from 0.3 of the limit on.\<close>

definition whatsapp_cut :: "nat \<Rightarrow> string \<Rightarrow> nat" where
  "whatsapp_cut lim s =
     (case last_index_of nl lim s of
        None \<Rightarrow> lim
      | Some i \<Rightarrow> if 10 * i < 3 * lim then lim else i)"

partial_function (option) chunk_loop :: "(string \<Rightarrow> nat) \<Rightarrow> nat \<Rightarrow> string \<Rightarrow> string list option" where
  [code]: "chunk_loop cutter lim s =
     (if s = [] then Some []
      else if length s \<le> lim then Some [s]
      else Option.bind (chunk_loop cutter lim (drop (cutter s) s)) (\<lambda>cs. Some (take (cutter s) s # cs)))"

definition chunk_text :: "nat \<Rightarrow> string \<Rightarrow> string list option" where
  "chunk_text lim s = (if length s \<le> lim then Some [s] else chunk_loop (chunk_cut lim) lim s)"

definition whatsapp_chunks :: "nat \<Rightarrow> string \<Rightarrow> string list option" where
  "whatsapp_chunks lim s = (if length s \<le> lim then Some [s] else chunk_loop (whatsapp_cut lim) lim s)"

section \<open>Telegram\<close>

definition back_ticks :: string where "back_ticks = [CHR 0x60, CHR 0x60, CHR 0x60]"

definition split_lines :: "string \<Rightarrow> string list" where "split_lines s = split_on nl s"

definition trim_start :: "string \<Rightarrow> string" where "trim_start s = dropWhile js_space s"

definition fence_step :: "string option \<Rightarrow> string \<Rightarrow> string option" where
  "fence_step opened line =
     (let t = trim_start line
      in if \<not> starts_with t back_ticks then opened
         else if opened = None then Some t else None)"

definition open_fence_at_end :: "string \<Rightarrow> string option" where
  "open_fence_at_end s = foldl fence_step None (split_lines s)"

definition cut_point :: "string \<Rightarrow> nat \<Rightarrow> nat" where
  "cut_point s lim =
     (case newline_cut lim s of
        Some k \<Rightarrow> k
      | None \<Rightarrow>
          (case last_index_of CHR '' '' lim s of
             Some i \<Rightarrow> if 5 * i > 3 * lim then i + 1 else lim
           | None \<Rightarrow> lim))"

definition fence_close_reserve :: nat where "fence_close_reserve = 4"

definition telegram_step :: "nat \<Rightarrow> string \<Rightarrow> string \<times> string" where
  "telegram_step lim s =
     (let k0 = cut_point s lim;
          k = (if open_fence_at_end (take k0 s) \<noteq> None then cut_point s (lim - fence_close_reserve) else k0);
          chunk = take k s; rest = drop k s
      in case open_fence_at_end chunk of
           Some opener \<Rightarrow>
             if k > length opener + 1
             then (chunk @ (if ends_with chunk [nl] then back_ticks else nl # back_ticks), opener @ nl # rest)
             else (chunk, rest)
         | None \<Rightarrow> (chunk, rest))"

partial_function (option) telegram_loop :: "nat \<Rightarrow> string \<Rightarrow> string list option" where
  [code]: "telegram_loop lim s =
     (if s = [] then Some []
      else if length s \<le> lim then Some [s]
      else Option.bind (telegram_loop lim (snd (telegram_step lim s)))
             (\<lambda>cs. Some (fst (telegram_step lim s) # cs)))"

definition telegram_chunks :: "nat \<Rightarrow> string \<Rightarrow> string list option" where
  "telegram_chunks lim s = (if length s \<le> lim then Some [s] else telegram_loop lim s)"

section \<open>Laying chunks over messages\<close>

text \<open>
  Each call to the platform with its answer from the world: an edit and an append return a message id,
  a delete may fail, which is swallowed. The trace of calls, and the ids returned.
\<close>

datatype reflow_call = Edit string string | Append string | Delete string

definition reflow_chunks ::
  "(string \<Rightarrow> string \<Rightarrow> string) \<Rightarrow> (string \<Rightarrow> string) \<Rightarrow> string list \<Rightarrow> string list \<Rightarrow> reflow_call list \<times> string list" where
  "reflow_chunks edit post chunks ids =
     (let n = length ids
      in (map (\<lambda>(i, c). if i < n then Edit (ids ! i) c else Append c) (enumerate 0 chunks)
            @ map Delete (drop (length chunks) ids),
          map (\<lambda>(i, c). if i < n then edit (ids ! i) c else post c) (enumerate 0 chunks)))"

section \<open>Lemmas\<close>

lemma last_index_ofD: "last_index_of c start s = Some i \<Longrightarrow> i \<le> start \<and> i < length s \<and> s ! i = c"
  unfolding last_index_of_def by (drule find_SomeD) auto

lemma newline_cut_bounds: "newline_cut lim s = Some k \<Longrightarrow> 0 < k \<and> k \<le> lim + 1 \<and> k \<le> length s"
  by (auto simp: newline_cut_def split: option.splits if_splits dest!: last_index_ofD)

lemma chunk_cut_bounds: "0 < lim \<Longrightarrow> 0 < chunk_cut lim s \<and> chunk_cut lim s \<le> lim + 1"
  by (auto simp: chunk_cut_def split: option.splits dest: newline_cut_bounds)

lemma whatsapp_cut_bounds: "0 < lim \<Longrightarrow> 0 < whatsapp_cut lim s \<and> whatsapp_cut lim s \<le> lim"
  by (auto simp: whatsapp_cut_def split: option.splits dest: last_index_ofD)

text \<open>A loop whose cuts lie between one and a bound returns pieces of the text within the bound.\<close>

lemma chunk_loop_pieces:
  assumes "\<And>s. 0 < cutter s \<and> cutter s \<le> b" "lim \<le> b"
  shows "\<exists>cs. chunk_loop cutter lim s = Some cs \<and> concat cs = s \<and> (\<forall>c \<in> set cs. c \<noteq> [] \<and> length c \<le> b)"
proof (induction "length s" arbitrary: s rule: less_induct)
  case less
  show ?case
  proof (cases "s = [] \<or> length s \<le> lim")
    case True
    then show ?thesis using assms(2) by (subst chunk_loop.simps) auto
  next
    case False
    have "length (drop (cutter s) s) < length s" using assms(1) [of s] False by auto
    from less [OF this] obtain cs where cs: "chunk_loop cutter lim (drop (cutter s) s) = Some cs"
      "concat cs = drop (cutter s) s" "\<forall>c \<in> set cs. c \<noteq> [] \<and> length c \<le> b" by blast
    have "chunk_loop cutter lim s = Some (take (cutter s) s # cs)"
      using False cs(1) by (subst chunk_loop.simps) auto
    moreover have "take (cutter s) s \<noteq> [] \<and> length (take (cutter s) s) \<le> b"
      using False assms(1) [of s] by auto
    ultimately show ?thesis using cs(2,3) by auto
  qed
qed

lemma cut_point_bounds: "0 < lim \<Longrightarrow> 0 < cut_point s lim \<and> cut_point s lim \<le> lim + 1"
  by (auto simp: cut_point_def split: option.splits dest: newline_cut_bounds last_index_ofD)

text \<open>A cut past the limit falls behind a newline or a space.\<close>

lemma cut_point_past:
  assumes "cut_point s lim = lim + 1"
  shows "lim < length s \<and> (s ! lim = nl \<or> s ! lim = CHR '' '')"
  using assms
  by (auto simp: cut_point_def newline_cut_def split: option.splits if_splits dest!: last_index_ofD)

lemma telegram_step_bounds:
  assumes "5 \<le> lim" "lim < length s"
  shows "fst (telegram_step lim s) \<noteq> [] \<and> length (fst (telegram_step lim s)) \<le> lim + 1
     \<and> length (snd (telegram_step lim s)) < length s"
proof -
  let ?k0 = "cut_point s lim" and ?k1 = "cut_point s (lim - fence_close_reserve)"
  have k0: "0 < ?k0 \<and> ?k0 \<le> lim + 1" using cut_point_bounds [of lim s] assms by simp
  have k1: "0 < ?k1 \<and> ?k1 \<le> lim - 3"
    using cut_point_bounds [of "lim - fence_close_reserve" s] assms
    by (auto simp: fence_close_reserve_def)
  obtain k where k: "0 < k" "k \<le> lim + 1"
    and fence: "open_fence_at_end (take k s) \<noteq> None \<Longrightarrow> k \<le> lim - 3"
    and eq: "k = (if open_fence_at_end (take ?k0 s) \<noteq> None then ?k1 else ?k0)"
  proof (cases "open_fence_at_end (take ?k0 s) \<noteq> None")
    case True
    with k1 show ?thesis by (intro that [of ?k1]) auto
  next
    case False
    with k0 show ?thesis by (intro that [of ?k0]) simp_all
  qed
  have step: "telegram_step lim s = (case open_fence_at_end (take k s) of
        Some opener \<Rightarrow>
          if k > length opener + 1
          then (take k s @ (if ends_with (take k s) [nl] then back_ticks else nl # back_ticks), opener @ nl # drop k s)
          else (take k s, drop k s)
      | None \<Rightarrow> (take k s, drop k s))"
    unfolding telegram_step_def Let_def eq ..
  show ?thesis
  proof (cases "open_fence_at_end (take k s)")
    case None
    then show ?thesis using step k assms by (cases s) auto
  next
    case (Some opener)
    then have "k \<le> lim - 3" using fence by simp
    then show ?thesis using step Some k assms by (auto simp: back_ticks_def)
  qed
qed

lemma telegram_loop_ends:
  assumes "5 \<le> lim"
  shows "\<exists>cs. telegram_loop lim s = Some cs \<and> (\<forall>c \<in> set cs. c \<noteq> [] \<and> length c \<le> lim + 1)"
proof (induction "length s" arbitrary: s rule: less_induct)
  case less
  show ?case
  proof (cases "s = [] \<or> length s \<le> lim")
    case True
    then show ?thesis by (subst telegram_loop.simps) auto
  next
    case False
    then have b: "lim < length s" by simp
    note st = telegram_step_bounds [OF assms b]
    from less [of "snd (telegram_step lim s)"] st obtain cs where
      cs: "telegram_loop lim (snd (telegram_step lim s)) = Some cs" "\<forall>c \<in> set cs. c \<noteq> [] \<and> length c \<le> lim + 1"
      by blast
    have "telegram_loop lim s = Some (fst (telegram_step lim s) # cs)"
      using False cs(1) by (subst telegram_loop.simps) auto
    with cs(2) st show ?thesis by auto
  qed
qed

text \<open>Every old message is edited or deleted, once.\<close>

fun touched :: "reflow_call \<Rightarrow> string list" where
  "touched (Edit i _) = [i]"
| "touched (Append _) = []"
| "touched (Delete i) = [i]"

fun shown :: "reflow_call \<Rightarrow> string list" where
  "shown (Edit _ c) = [c]"
| "shown (Append c) = [c]"
| "shown (Delete _) = []"

lemma reflow_touches:
  "concat (map touched (fst (reflow_chunks edit post chunks ids))) = ids
     \<and> concat (map shown (fst (reflow_chunks edit post chunks ids))) = chunks"
proof -
  have del: "concat (map touched (map Delete xs)) = xs" "concat (map shown (map Delete xs)) = []" for xs
    by (induction xs) auto
  have "concat (map touched (map (\<lambda>(i, c). if i < length ids then Edit (ids ! i) c else Append c) (enumerate k cs)))
      = take (length cs) (drop k ids)
    \<and> concat (map shown (map (\<lambda>(i, c). if i < length ids then Edit (ids ! i) c else Append c) (enumerate k cs))) = cs" for k cs
  proof (induction cs arbitrary: k)
    case (Cons c cs)
    then show ?case by (cases "k < length ids") (auto simp: Cons_nth_drop_Suc [symmetric])
  qed simp
  from this [of 0 chunks] del show ?thesis
    by (simp add: reflow_chunks_def Let_def)
qed

section \<open>Properties\<close>

text \<open>
  for any positive limit, chunking returns: the chunks put together are the text, none is empty, and
  WhatsApp's keep to the limit. Those of Discord and Slack may be one character longer, when a newline stands
  right behind the limit.
\<close>
theorem chunks_cover:
  assumes "0 < lim"
  shows "(\<exists>cs. chunk_text lim s = Some cs \<and> concat cs = s \<and> (\<forall>c \<in> set cs. length c \<le> lim + 1)
        \<and> (s \<noteq> [] \<longrightarrow> [] \<notin> set cs))
     \<and> (\<exists>cs. whatsapp_chunks lim s = Some cs \<and> concat cs = s \<and> (\<forall>c \<in> set cs. length c \<le> lim)
        \<and> (s \<noteq> [] \<longrightarrow> [] \<notin> set cs))"
proof
  show "\<exists>cs. chunk_text lim s = Some cs \<and> concat cs = s \<and> (\<forall>c \<in> set cs. length c \<le> lim + 1)
        \<and> (s \<noteq> [] \<longrightarrow> [] \<notin> set cs)"
    using chunk_loop_pieces [of "chunk_cut lim" "lim + 1" lim s] chunk_cut_bounds [OF assms]
    by (cases "length s \<le> lim") (auto simp: chunk_text_def)
  show "\<exists>cs. whatsapp_chunks lim s = Some cs \<and> concat cs = s \<and> (\<forall>c \<in> set cs. length c \<le> lim)
        \<and> (s \<noteq> [] \<longrightarrow> [] \<notin> set cs)"
    using chunk_loop_pieces [of "whatsapp_cut lim" lim lim s] whatsapp_cut_bounds [OF assms]
    by (cases "length s \<le> lim") (auto simp: whatsapp_chunks_def)
qed

theorem chunks_cover_witness:
  "\<exists>cs. whatsapp_chunks 4 ''abcdef'' = Some cs \<and> concat cs = ''abcdef'' \<and> (\<forall>c \<in> set cs. length c \<le> 4)"
  using chunks_cover [of 4 "''abcdef''"] by auto

text \<open>
  the chunkers of Discord, Slack and Telegram overrun their limit: a newline at the position of the limit is
  taken into the chunk before it, which is then one character too long for the platform.
\<close>
theorem chunks_overrun:
  assumes "0 < lim" "t \<noteq> []" "length t \<le> lim"
  shows "chunk_text lim (replicate lim CHR ''a'' @ [nl] @ t) = Some [replicate lim CHR ''a'' @ [nl], t]
   \<and> telegram_chunks lim (replicate lim CHR ''a'' @ [nl] @ t) = Some [replicate lim CHR ''a'' @ [nl], t]"
proof
  let ?s = "replicate lim CHR ''a'' @ [nl] @ t"
  have li: "last_index_of nl lim ?s = Some lim"
    using assms(2) by (simp add: last_index_of_def nth_append)
  then have nc: "newline_cut lim ?s = Some (lim + 1)" using assms(1) by (simp add: newline_cut_def)
  have loop: "chunk_loop (chunk_cut lim) lim t = Some [t]" "telegram_loop lim t = Some [t]"
    using assms(2,3) by (subst chunk_loop.simps, simp add: assms) (subst telegram_loop.simps, simp add: assms)
  show "chunk_text lim ?s = Some [replicate lim CHR ''a'' @ [nl], t]"
    using nc loop(1) by (simp add: chunk_text_def) (subst chunk_loop.simps, simp add: chunk_cut_def)
  have "split_lines (replicate n CHR ''a'' @ [nl]) = [replicate n CHR ''a'', []]" for n
    using split_on_append [of nl "replicate n CHR ''a''" "[]"] by (simp add: split_lines_def nl_def)
  moreover have "trim_start (replicate n CHR ''a'') = replicate n CHR ''a''" for n
    by (cases n) (simp_all add: trim_start_def js_space_def)
  moreover have "\<not> starts_with (replicate n CHR ''a'') back_ticks" for n
    by (cases n) (simp_all add: starts_with_def back_ticks_def)
  ultimately have "open_fence_at_end (replicate lim CHR ''a'' @ [nl]) = None"
    by (simp add: open_fence_at_end_def fence_step_def Let_def) (simp add: trim_start_def starts_with_def back_ticks_def)
  then have "telegram_step lim ?s = (replicate lim CHR ''a'' @ [nl], t)"
    using nc by (simp add: telegram_step_def cut_point_def Let_def)
  then show "telegram_chunks lim ?s = Some [replicate lim CHR ''a'' @ [nl], t]"
    using loop(2) by (simp add: telegram_chunks_def) (subst telegram_loop.simps, simp)
qed

theorem chunks_overrun_witness:
  "\<exists>c. chunk_text 2000 (replicate 2000 CHR ''a'' @ [nl] @ ''b'') = Some [c, ''b''] \<and> length c = 2001"
  using chunks_overrun [of 2000 "''b''"] by auto

text \<open>
  C40: Telegram's chunker returns for every limit of five or more, fences reopened or not, and no chunk is empty
  or more than one character over the limit.
\<close>
theorem telegram_returns:
  assumes "5 \<le> lim"
  shows "\<exists>cs. telegram_chunks lim s = Some cs \<and> (\<forall>c \<in> set cs. length c \<le> lim + 1)
     \<and> (s \<noteq> [] \<longrightarrow> [] \<notin> set cs)"
  using telegram_loop_ends [OF assms, of s] by (cases "length s \<le> lim") (auto simp: telegram_chunks_def)

theorem telegram_returns_witness:
  "\<exists>cs. telegram_chunks 8 (back_ticks @ [nl] @ ''abcdefghij'') = Some cs \<and> (\<forall>c \<in> set cs. length c \<le> 9)"
  using telegram_returns [of 8 "back_ticks @ [nl] @ ''abcdefghij''"] by auto

end
