(* ===== verification/LaneKeys.thy ===== *)
theory LaneKeys
  imports Prelude
begin

text \<open>
  Lane keys (packages/core/src/lane-key.ts): the segments that name a conversation, each URL-encoded,
  joined by colons. A string is its UTF-8 bytes, so \<open>encodeURIComponent\<close> works byte by byte, and
  \<open>decodeURIComponent\<close> fails on a bad escape or on bytes that are not UTF-8.
\<close>

section \<open>URL encoding\<close>

definition code :: "char \<Rightarrow> nat" where "code c = of_char c"

definition unreserved :: "char \<Rightarrow> bool" where
  "unreserved c =
     (65 \<le> code c \<and> code c \<le> 90 \<or> 97 \<le> code c \<and> code c \<le> 122 \<or> digit c \<or> c \<in> set ''-_.!~*()'' \<or> code c = 39)"

definition hex_char :: "nat \<Rightarrow> char" where
  "hex_char n = char_of (if n < 10 then 48 + n else 55 + n)"

definition hex_value :: "char \<Rightarrow> nat option" where
  "hex_value c =
     (if digit c then Some (code c - 48)
      else if 65 \<le> code c \<and> code c \<le> 70 then Some (code c - 55)
      else if 97 \<le> code c \<and> code c \<le> 102 then Some (code c - 87)
      else None)"

definition encode_uri_component :: "string \<Rightarrow> string" where
  "encode_uri_component s =
     concat (map (\<lambda>c. if unreserved c then [c]
                      else [CHR ''%'', hex_char (code c div 16), hex_char (code c mod 16)]) s)"

fun percent_decode :: "string \<Rightarrow> string option" where
  "percent_decode [] = Some []"
| "percent_decode (c # cs) =
     (if c \<noteq> CHR ''%'' then map_option (Cons c) (percent_decode cs)
      else (case cs of
              a # b # ds \<Rightarrow>
                (case (hex_value a, hex_value b) of
                   (Some x, Some y) \<Rightarrow> map_option (Cons (char_of (16 * x + y))) (percent_decode ds)
                 | _ \<Rightarrow> None)
            | _ \<Rightarrow> None))"

definition trail :: "nat \<Rightarrow> nat \<Rightarrow> char \<Rightarrow> bool" where
  "trail lo hi c = (lo \<le> code c \<and> code c \<le> hi)"

text \<open>The well-formed byte sequences of UTF-8: no overlong form, no surrogate, nothing past U+10FFFF.\<close>

fun utf8_ok :: "string \<Rightarrow> bool" where
  "utf8_ok [] = True"
| "utf8_ok (c # cs) =
     (if code c < 128 then utf8_ok cs
      else
        (case cs of
           [] \<Rightarrow> False
         | d # ds \<Rightarrow>
             if 194 \<le> code c \<and> code c \<le> 223 then trail 128 191 d \<and> utf8_ok ds
             else
               (case ds of
                  [] \<Rightarrow> False
                | e # es \<Rightarrow>
                    if 224 \<le> code c \<and> code c \<le> 239
                    then trail (if code c = 224 then 160 else 128) (if code c = 237 then 159 else 191) d
                      \<and> trail 128 191 e \<and> utf8_ok es
                    else
                      (case es of
                         [] \<Rightarrow> False
                       | f # fs \<Rightarrow>
                           240 \<le> code c \<and> code c \<le> 244
                           \<and> trail (if code c = 240 then 144 else 128) (if code c = 244 then 143 else 191) d
                           \<and> trail 128 191 e \<and> trail 128 191 f \<and> utf8_ok fs))))"

definition decode_uri_component :: "string \<Rightarrow> string option" where
  "decode_uri_component s =
     (case percent_decode s of None \<Rightarrow> None | Some t \<Rightarrow> if utf8_ok t then Some t else None)"

section \<open>Keys\<close>

definition build_lane_key :: "string list \<Rightarrow> string" where
  "build_lane_key segments = join_with '':'' (map encode_uri_component segments)"

definition lane_key_bot_key :: "string \<Rightarrow> string option" where
  "lane_key_bot_key key =
     (case split_on CHR '':'' key of
        _ # seg # _ \<Rightarrow> if seg = [] then None else decode_uri_component seg
      | _ \<Rightarrow> None)"

datatype voice_kind = Browser | Livekit | Sip | Satellite

fun kind_name :: "voice_kind \<Rightarrow> string" where
  "kind_name Browser = ''browser''"
| "kind_name Livekit = ''livekit''"
| "kind_name Sip = ''sip''"
| "kind_name Satellite = ''satellite''"

definition voice_lane_key :: "string \<Rightarrow> voice_kind \<Rightarrow> string \<Rightarrow> string" where
  "voice_lane_key bk kind i = build_lane_key [''voice'', bk, kind_name kind, i]"

definition satellite_lane_key :: "string \<Rightarrow> string \<Rightarrow> string \<Rightarrow> string" where
  "satellite_lane_key bk node personality = build_lane_key [''voice'', bk, ''satellite'', node, personality]"

section \<open>Lemmas\<close>

lemma code_less [simp]: "code c < 256"
  by (simp add: code_def)

lemma code_char_of [simp]: "n < 256 \<Longrightarrow> code (char_of n) = n"
  by (simp add: code_def)

lemma hex_value_char: "n < 16 \<Longrightarrow> hex_value (hex_char n) = Some n"
  by (auto simp: hex_value_def hex_char_def digit_def code_def)

lemma hex_char_not_colon: "n < 16 \<Longrightarrow> hex_char n \<noteq> CHR '':''"
proof
  assume "n < 16" "hex_char n = CHR '':''"
  then have "code (hex_char n) = 58" by (simp add: code_def)
  with \<open>n < 16\<close> show False by (auto simp: hex_char_def split: if_splits)
qed

lemma unreserved_not: "unreserved c \<Longrightarrow> c \<noteq> CHR ''%'' \<and> c \<noteq> CHR '':''"
  by (auto simp: unreserved_def digit_def code_def)

lemma char_of_code [simp]: "char_of (code c) = c"
  by (simp add: code_def)

lemma percent_decode_encode: "percent_decode (encode_uri_component s) = Some s"
proof (induction s)
  case (Cons c s)
  have "code c div 16 < 16" "code c mod 16 < 16" by (simp_all add: div_less_iff_less_mult)
  with Cons show ?case
    by (auto simp: encode_uri_component_def hex_value_char dest: unreserved_not)
qed (simp add: encode_uri_component_def)

lemma encode_char_no_colon:
  "CHR '':'' \<notin> set (if unreserved c then [c]
     else [CHR ''%'', hex_char (code c div 16), hex_char (code c mod 16)])"
proof -
  have "hex_char (code c div 16) \<noteq> CHR '':''" "hex_char (code c mod 16) \<noteq> CHR '':''"
    by (rule hex_char_not_colon, simp add: div_less_iff_less_mult)+
  moreover have "unreserved c \<Longrightarrow> c \<noteq> CHR '':''" using unreserved_not by blast
  ultimately show ?thesis by auto
qed

lemma encode_no_colon: "CHR '':'' \<notin> set (encode_uri_component s)"
  unfolding encode_uri_component_def set_concat set_map using encode_char_no_colon by blast

lemma encode_inj: "encode_uri_component s = encode_uri_component t \<longleftrightarrow> s = t"
  using percent_decode_encode by (metis option.inject)

lemma encode_empty: "encode_uri_component s = [] \<longleftrightarrow> s = []"
  using encode_inj [of s "[]"] by (simp add: encode_uri_component_def)

lemma split_lane_key:
  "xs \<noteq> [] \<Longrightarrow> split_on CHR '':'' (build_lane_key xs) = map encode_uri_component xs"
  unfolding build_lane_key_def by (rule split_on_join) (auto simp: encode_no_colon)

lemma build_lane_key_inj:
  assumes "xs \<noteq> []" "ys \<noteq> []"
  shows "build_lane_key xs = build_lane_key ys \<longleftrightarrow> xs = ys"
proof
  assume "build_lane_key xs = build_lane_key ys"
  then have "map encode_uri_component xs = map encode_uri_component ys"
    using split_lane_key assms by metis
  then show "xs = ys"
    by (rule map_injective) (simp add: inj_on_def encode_inj)
qed simp

lemma kind_name_inj: "kind_name k = kind_name k' \<longleftrightarrow> k = k'"
  by (cases k; cases k') simp_all

section \<open>Properties\<close>

text \<open>
  two conversations never share a key: keys of segments are equal only for equal segments, whatever bytes
  the segments hold; so a voice key determines its bot, kind and client, a satellite key its bot, node and
  personality, and no satellite key is a voice key.
\<close>
theorem lane_keys_injective:
  assumes "xs \<noteq> []" "ys \<noteq> []"
  shows "(build_lane_key xs = build_lane_key ys \<longleftrightarrow> xs = ys)
     \<and> (voice_lane_key b k i = voice_lane_key b' k' i' \<longleftrightarrow> (b, k, i) = (b', k', i'))
     \<and> (satellite_lane_key b n p = satellite_lane_key b' n' p' \<longleftrightarrow> (b, n, p) = (b', n', p'))
     \<and> satellite_lane_key b n p \<noteq> voice_lane_key b' k' i'"
  using assms
  by (simp add: build_lane_key_inj voice_lane_key_def satellite_lane_key_def kind_name_inj)

theorem lane_keys_injective_witness:
  "build_lane_key [''a:b'', ''c''] \<noteq> build_lane_key [''a'', ''b:c'']"
  using lane_keys_injective [of "[''a:b'', ''c'']" "[''a'', ''b:c'']"] by simp

text \<open>
  the bot is read back from every channel key, whatever characters its name has; a key without a second
  segment, or with an empty one, names no bot.
\<close>
theorem lane_key_bot_roundtrip:
  assumes "utf8_ok bk"
  shows "lane_key_bot_key (build_lane_key (platform # bk # rest)) = (if bk = [] then None else Some bk)
     \<and> lane_key_bot_key (build_lane_key [platform]) = None"
  using assms percent_decode_encode [of bk]
  by (simp add: lane_key_bot_key_def split_lane_key encode_empty decode_uri_component_def)

theorem lane_key_bot_roundtrip_witness:
  "lane_key_bot_key (build_lane_key [''slack'', ''ops:'' @ [CHR 0xC3, CHR 0xA9], ''7'']) = Some (''ops:'' @ [CHR 0xC3, CHR 0xA9])"
proof -
  have "utf8_ok (''ops:'' @ [CHR 0xC3, CHR 0xA9])" by code_simp
  from lane_key_bot_roundtrip [OF this, of "''slack''" "[''7'']"] show ?thesis by simp
qed

end
