(* ===== verification/FrameCodec.thy ===== *)
theory FrameCodec
  imports Prelude "HOL-Library.Word"
begin

unbundle bit_operations_syntax

text \<open>
  The binary frames of the audio sockets (packages/web-contracts/src/frame-codec.ts): a version byte, a
  big-endian length of 16 bits, a JSON header and a payload; and 16-bit samples as little-endian bytes.
  Bytes are \<open>8 word\<close>s, samples \<open>16 word\<close>s. JSON with its UTF-8 text is a pair of arguments:
  \<open>to_json\<close> prints a header, \<open>of_json\<close> reads one back or fails.
\<close>

section \<open>Frames\<close>

definition frame_header_offset :: nat where "frame_header_offset = 3"
definition max_header_bytes :: nat where "max_header_bytes = 0xffff"

datatype frame_error =
    HeaderTooLong
  | ShorterThanPrefix nat
  | WrongVersion int int
  | HeaderTruncated nat nat
  | HeaderNotJson nat

definition encode_frame ::
  "('h \<Rightarrow> 8 word list) \<Rightarrow> int \<Rightarrow> 'h \<Rightarrow> 8 word list option \<Rightarrow> (frame_error, 8 word list) result" where
  "encode_frame to_json version header payload =
     (let hb = to_json header; n = length hb;
          body = (case payload of None \<Rightarrow> [] | Some p \<Rightarrow> p)
      in if n > max_header_bytes then Inl HeaderTooLong
         else Inr ([word_of_int version, word_of_nat (drop_bit 8 n AND 0xff), word_of_nat (n AND 0xff)] @ hb @ body))"

definition split_frame ::
  "(8 word list \<Rightarrow> 'h option) \<Rightarrow> int \<Rightarrow> 8 word list \<Rightarrow> (frame_error, 'h \<times> 8 word list) result" where
  "split_frame of_json version bytes =
     (if length bytes < frame_header_offset then Inl (ShorterThanPrefix (length bytes))
      else if uint (bytes ! 0) \<noteq> version then Inl (WrongVersion (uint (bytes ! 0)) version)
      else
        (let n = push_bit 8 (unat (bytes ! 1)) OR unat (bytes ! 2); stop = frame_header_offset + n
         in if length bytes < stop then Inl (HeaderTruncated n (length bytes - frame_header_offset))
            else
              (case of_json (take n (drop frame_header_offset bytes)) of
                 None \<Rightarrow> Inl (HeaderNotJson n)
               | Some header \<Rightarrow> Inr (header, drop stop bytes))))"

section \<open>Samples\<close>

text \<open>The 32-bit shifts of the source, then the store into an \<open>Int16Array\<close>.\<close>

definition sample_of :: "8 word \<Rightarrow> 8 word \<Rightarrow> 16 word" where
  "sample_of lo hi = ucast (signed_drop_bit 16 (push_bit 16 (ucast lo OR push_bit 8 (ucast hi) :: 32 word)))"

fun pcm16_from_bytes :: "8 word list \<Rightarrow> 16 word list" where
  "pcm16_from_bytes (lo # hi # bs) = sample_of lo hi # pcm16_from_bytes bs"
| "pcm16_from_bytes _ = []"

definition sample_bytes :: "16 word \<Rightarrow> 8 word list" where
  "sample_bytes v =
     (let value = scast v :: 32 word
      in [ucast (value AND 0xff), ucast (signed_drop_bit 8 value AND 0xff)])"

definition pcm16_to_bytes :: "16 word list \<Rightarrow> 8 word list" where
  "pcm16_to_bytes samples = concat (map sample_bytes samples)"

section \<open>Lemmas\<close>

lemma mask8: "(0xff :: nat) = mask 8" "(0xff :: 'a::len word) = mask 8"
  by (simp_all add: mask_eq_exp_minus_1)

lemma header_length:
  assumes "n \<le> max_header_bytes"
  shows "push_bit 8 (unat (word_of_nat (drop_bit 8 n AND 0xff) :: 8 word))
     OR unat (word_of_nat (n AND 0xff) :: 8 word) = n"
proof -
  have "drop_bit 8 n < 256" using assms by (simp add: max_header_bytes_def drop_bit_eq_div)
  then have hi: "unat (word_of_nat (drop_bit 8 n AND 0xff) :: 8 word) = drop_bit 8 n"
    by (simp only: mask8 take_bit_eq_mask [symmetric] unat_of_nat) (simp add: take_bit_eq_mod)
  have lo: "unat (word_of_nat (n AND 0xff) :: 8 word) = take_bit 8 n"
    by (simp only: mask8 take_bit_eq_mask [symmetric] unat_of_nat) (simp add: take_bit_eq_mod)
  have "push_bit 8 (drop_bit 8 n) OR take_bit 8 n = n"
    by (rule bit_eqI) (auto simp: bit_simps)
  then show ?thesis by (simp only: hi lo)
qed

lemma sample_of_eq: "sample_of lo hi = ucast lo OR push_bit 8 (ucast hi)"
  unfolding sample_of_def by (rule bit_word_eqI) (auto simp: bit_simps)

lemma sample_bytes_eq: "sample_bytes v = [ucast v, ucast (drop_bit 8 v)]"
proof -
  have "ucast ((scast v :: 32 word) AND 0xff) = (ucast v :: 8 word)"
    unfolding mask8 by (rule bit_word_eqI) (simp add: bit_simps)
  moreover have "ucast (signed_drop_bit 8 (scast v :: 32 word) AND 0xff) = (ucast (drop_bit 8 v) :: 8 word)"
    unfolding mask8 by (rule bit_word_eqI) (simp add: bit_simps)
  ultimately show ?thesis by (simp add: sample_bytes_def Let_def)
qed

lemma sample_of_bytes: "sample_of (ucast v) (ucast (drop_bit 8 v)) = v"
proof (rule bit_word_eqI)
  fix n :: nat
  assume "n < LENGTH(16)"
  then show "bit (sample_of (ucast v) (ucast (drop_bit 8 v))) n = bit v n"
    by (cases "n < 8") (auto simp: sample_of_eq bit_simps)
qed

lemma sample_bytes_of: "sample_bytes (sample_of lo hi) = [lo, hi]"
proof -
  have "ucast (sample_of lo hi) = lo"
    by (rule bit_word_eqI) (auto simp: sample_of_eq bit_simps)
  moreover have "ucast (drop_bit 8 (sample_of lo hi)) = hi"
    by (rule bit_word_eqI) (auto simp: sample_of_eq bit_simps dest: bit_imp_le_length)
  ultimately show ?thesis by (simp add: sample_bytes_eq)
qed

lemma pcm16_from_to: "pcm16_from_bytes (pcm16_to_bytes xs @ rest) = xs @ pcm16_from_bytes rest"
  by (induction xs) (simp_all add: pcm16_to_bytes_def sample_bytes_eq sample_of_bytes)

lemma pcm16_to_from:
  "pcm16_to_bytes (pcm16_from_bytes bs) = take (2 * (length bs div 2)) bs"
  by (induction bs rule: pcm16_from_bytes.induct) (auto simp: pcm16_to_bytes_def sample_bytes_of)

lemma split_frame_short:
  "length b < 3 \<Longrightarrow> split_frame of_json v b = Inl (ShorterThanPrefix (length b))"
  by (simp add: split_frame_def frame_header_offset_def)

lemma split_frame_cut:
  assumes "3 \<le> length b" "uint (b ! 0) = v" "push_bit 8 (unat (b ! 1)) OR unat (b ! 2) = n" "length b < 3 + n"
  shows "split_frame of_json v b = Inl (HeaderTruncated n (length b - 3))"
  using assms by (simp add: split_frame_def frame_header_offset_def)

section \<open>Properties\<close>

text \<open>
  a frame whose header fits sixteen bits of length reads back as the header and the payload that were
  written; read for another version it is refused as such, and cut anywhere before its payload it is
  refused too, never read as a shorter frame.
\<close>
theorem frame_roundtrip:
  assumes "of_json (to_json h) = Some h" "0 \<le> v" "v < 256"
  shows "case encode_frame to_json v h (Some p) of
       Inl e \<Rightarrow> e = HeaderTooLong \<and> 65535 < length (to_json h)
     | Inr bs \<Rightarrow>
         split_frame of_json v bs = Inr (h, p)
         \<and> (w \<noteq> v \<longrightarrow> split_frame of_json w bs = Inl (WrongVersion v w))
         \<and> (n < 3 + length (to_json h) \<longrightarrow> (\<exists>e. split_frame of_json v (take n bs) = Inl e \<and> (\<forall>k. e \<noteq> HeaderNotJson k)))"
proof (cases "length (to_json h) \<le> max_header_bytes")
  case False
  then show ?thesis by (simp add: encode_frame_def Let_def max_header_bytes_def)
next
  case True
  let ?n = "length (to_json h)"
  let ?bs = "[word_of_int v, word_of_nat (drop_bit 8 ?n AND 0xff), word_of_nat (?n AND 0xff)] @ to_json h @ p"
  note len = header_length [OF True]
  have e: "encode_frame to_json v h (Some p) = Inr ?bs"
    using True by (simp add: encode_frame_def Let_def)
  have v: "uint (word_of_int v :: 8 word) = v"
    using assms(2,3) by (simp add: uint_word_of_int)
  have full: "split_frame of_json v ?bs = Inr (h, p)"
    using v len assms(1) by (simp add: split_frame_def Let_def frame_header_offset_def eval_nat_numeral)
  have other: "split_frame of_json w ?bs = Inl (WrongVersion v w)" if "w \<noteq> v"
    using v that by (simp add: split_frame_def Let_def frame_header_offset_def)
  have cut: "\<exists>e. split_frame of_json v (take n ?bs) = Inl e \<and> (\<forall>k. e \<noteq> HeaderNotJson k)" if "n < 3 + ?n"
  proof (cases "n < 3")
    case True
    then have "split_frame of_json v (take n ?bs) = Inl (ShorterThanPrefix (length (take n ?bs)))"
      by (intro split_frame_short) simp
    then show ?thesis by blast
  next
    case False
    then have "take n ?bs ! 0 = word_of_int v" "take n ?bs ! 1 = word_of_nat (drop_bit 8 ?n AND 0xff)"
      "take n ?bs ! 2 = word_of_nat (?n AND 0xff)" by simp_all
    moreover have "length (take n ?bs) < 3 + ?n" "3 \<le> length (take n ?bs)" using False that by simp_all
    ultimately have "split_frame of_json v (take n ?bs) = Inl (HeaderTruncated ?n (length (take n ?bs) - 3))"
      using v len by (intro split_frame_cut) (simp_all only:)
    then show ?thesis by blast
  qed
  show ?thesis using e full other cut by simp
qed

theorem frame_roundtrip_witness:
  "split_frame (\<lambda>bs. if bs = [123, 125] then Some ''obj'' else None) 1 [1, 0, 2, 123, 125, 7] = Inr (''obj'', [7])"
proof -
  let ?dec = "\<lambda>bs :: 8 word list. if bs = [123, 125] then Some ''obj'' else None"
  have dec: "?dec ((\<lambda>_. [123, 125]) ''obj'') = Some ''obj''" by simp
  have enc: "encode_frame (\<lambda>_. [123, 125]) 1 ''obj'' (Some [7]) = Inr [1, 0, 2, 123, 125, 7]"
    by (simp add: encode_frame_def max_header_bytes_def flip: numeral_2_eq_2)
  have "0 \<le> (1 :: int)" "(1 :: int) < 256" by simp_all
  from frame_roundtrip [where to_json = "\<lambda>_. [123, 125]" and of_json = ?dec and h = "''obj''" and v = 1
      and p = "[7]" and w = 1 and n = 0, OF dec this]
  show ?thesis unfolding enc sum.case by blast
qed

text \<open>
  samples survive the wire: reading their bytes gives them back, whatever bytes follow, and writing what was
  read gives the bytes back but for a trailing odd one.
\<close>
theorem pcm16_roundtrip:
  "pcm16_from_bytes (pcm16_to_bytes samples @ rest) = samples @ pcm16_from_bytes rest
   \<and> pcm16_to_bytes (pcm16_from_bytes bytes) = take (2 * (length bytes div 2)) bytes"
  by (simp add: pcm16_from_to pcm16_to_from)

end
