(* ===== verification/ShimFrames.thy ===== *)
theory ShimFrames
  imports Prelude
begin

text \<open>
  The framed pipe between the host and the code it runs in a container
  (extensions/execution-docker/src/frames.ts): \<open>Content-Length\<close> frames, and the incremental parser that
  is fed the output chunk by chunk. A buffer is a string of bytes. JSON is a pair of arguments: \<open>print\<close>
  gives the UTF-8 text of a payload, \<open>parse\<close> reads one or fails, and \<open>kd\<close> is its \<open>type\<close> when that is a
  string. A push that throws loses the frames it had read.
\<close>

section \<open>Encoding\<close>

definition header_sep :: string where "header_sep = [CHR 0x0D, CHR 0x0A, CHR 0x0D, CHR 0x0A]"
definition header_prefix :: string where "header_prefix = ''Content-Length:''"
definition max_frame_bytes :: nat where "max_frame_bytes = 8000000"
definition shim_max_header_bytes :: nat where "shim_max_header_bytes = 64"

definition shim_frame_types :: "string list" where
  "shim_frame_types = [''hello'', ''output'', ''rpc_request'']"

definition encode_shim_frame :: "('j \<Rightarrow> string) \<Rightarrow> 'j \<Rightarrow> string" where
  "encode_shim_frame print j =
     (let body = print j in ''Content-Length: '' @ show_nat (length body) @ header_sep @ body)"

section \<open>Parsing\<close>

datatype rpc_error =
    NonFrameBytes string
  | UnterminatedHeader
  | MalformedHeader string
  | FrameTooLarge nat nat
  | NotJson
  | UnknownType "string option"

text \<open>\<open>Buffer.indexOf\<close>, and the ASCII reading of bytes, which drops the top bit.\<close>

fun index_of :: "string \<Rightarrow> string \<Rightarrow> nat option" where
  "index_of pat s =
     (if starts_with s pat then Some 0
      else case s of [] \<Rightarrow> None | _ # cs \<Rightarrow> map_option Suc (index_of pat cs))"

declare index_of.simps [simp del]

definition ascii :: "string \<Rightarrow> string" where
  "ascii s = map (\<lambda>c. char_of (of_char c mod 128 :: nat)) s"

text \<open>\<open>/^Content-Length: (\d+)$/\<close>.\<close>

definition match_header :: "string \<Rightarrow> nat option" where
  "match_header h =
     (let d = drop 16 h
      in if starts_with h ''Content-Length: '' \<and> d \<noteq> [] \<and> list_all digit d then Some (digits_value d) else None)"

text \<open>One round of the loop: more bytes are needed, a frame and what follows it, or a throw with the buffer left.\<close>

datatype 'j parse_round = Wait | Frame 'j string | Throw rpc_error string

definition parse_round ::
  "(string \<Rightarrow> 'j option) \<Rightarrow> ('j \<Rightarrow> string option) \<Rightarrow> nat \<Rightarrow> string \<Rightarrow> 'j parse_round" where
  "parse_round parse kd cap buf =
     (case index_of header_sep buf of
        None \<Rightarrow>
          (let probe = ascii (take (min (length buf) (length header_prefix)) buf)
           in if probe \<noteq> take (length probe) header_prefix then Throw (NonFrameBytes probe) buf
              else if length buf > shim_max_header_bytes then Throw UnterminatedHeader buf
              else Wait)
      | Some sep \<Rightarrow>
          (let header = ascii (take sep buf)
           in case match_header header of
                None \<Rightarrow> Throw (MalformedHeader (take 80 header)) buf
              | Some n \<Rightarrow>
                  if n > cap then Throw (FrameTooLarge n cap) buf
                  else
                    (let start = sep + length header_sep
                     in if length buf < start + n then Wait
                        else
                          (let body = take n (drop start buf); rest = drop (start + n) buf
                           in case parse body of
                                None \<Rightarrow> Throw NotJson rest
                              | Some j \<Rightarrow>
                                  (case kd j of
                                     Some t \<Rightarrow>
                                       if t \<in> set shim_frame_types then Frame j rest
                                       else Throw (UnknownType (Some t)) rest
                                   | None \<Rightarrow> Throw (UnknownType None) rest)))))"

lemma index_of_bound: "index_of pat s = Some i \<Longrightarrow> i + length pat \<le> length s"
proof (induction s arbitrary: i)
  case Nil
  then show ?case by (subst (asm) index_of.simps) (auto simp: starts_with_def split: if_splits)
next
  case (Cons c s)
  show ?case
  proof (cases "starts_with (c # s) pat")
    case True
    then have "length (take (length pat) (c # s)) = length pat" by (simp add: starts_with_def)
    then have "length pat \<le> length (c # s)" by (metis length_take min.cobounded1)
    with True Cons.prems show ?thesis by (subst (asm) index_of.simps) simp
  next
    case False
    with Cons show ?thesis by (subst (asm) (2) index_of.simps) auto
  qed
qed

lemma parse_round_shorter: "parse_round parse kd cap buf = Frame j rest \<Longrightarrow> length rest < length buf"
  by (auto simp: parse_round_def header_sep_def Let_def split: option.splits if_splits dest!: index_of_bound)

function parse_loop ::
  "(string \<Rightarrow> 'j option) \<Rightarrow> ('j \<Rightarrow> string option) \<Rightarrow> nat \<Rightarrow> string \<Rightarrow> (rpc_error, 'j list) result \<times> string" where
  "parse_loop parse kd cap buf =
     (case parse_round parse kd cap buf of
        Wait \<Rightarrow> (Inr [], buf)
      | Throw e left \<Rightarrow> (Inl e, left)
      | Frame j rest \<Rightarrow>
          (case parse_loop parse kd cap rest of
             (Inl e, left) \<Rightarrow> (Inl e, left)
           | (Inr js, left) \<Rightarrow> (Inr (j # js), left)))"
  by pat_completeness auto

termination
  by (relation "measure (\<lambda>(_, _, _, buf). length buf)") (auto dest: parse_round_shorter)

declare parse_loop.simps [simp del]

definition push ::
  "(string \<Rightarrow> 'j option) \<Rightarrow> ('j \<Rightarrow> string option) \<Rightarrow> nat \<Rightarrow> string \<Rightarrow> string \<Rightarrow> (rpc_error, 'j list) result \<times> string" where
  "push parse kd cap chunk buf = parse_loop parse kd cap (buf @ chunk)"

text \<open>The chunks as they arrive, until one throws.\<close>

fun push_all ::
  "(string \<Rightarrow> 'j option) \<Rightarrow> ('j \<Rightarrow> string option) \<Rightarrow> nat \<Rightarrow> string list \<Rightarrow> string \<Rightarrow> (rpc_error, 'j list) result \<times> string" where
  "push_all parse kd cap [] buf = (Inr [], buf)"
| "push_all parse kd cap (c # cs) buf =
     (case push parse kd cap c buf of
        (Inl e, left) \<Rightarrow> (Inl e, left)
      | (Inr js, left) \<Rightarrow>
          (case push_all parse kd cap cs left of
             (Inl e, left) \<Rightarrow> (Inl e, left)
           | (Inr ks, left) \<Rightarrow> (Inr (js @ ks), left)))"

section \<open>Lemmas\<close>

lemma index_of_skip:
  "CHR 0x0D \<notin> set p \<Longrightarrow> index_of header_sep (p @ t) = map_option ((+) (length p)) (index_of header_sep t)"
proof (induction p)
  case Nil
  then show ?case by (cases "index_of header_sep t") simp_all
next
  case (Cons c p)
  then have "\<not> starts_with (c # p @ t) header_sep" by (auto simp: starts_with_def header_sep_def)
  with Cons show ?case
    by (subst index_of.simps) (cases "index_of header_sep t"; simp)
qed

lemma index_of_sep [simp]: "index_of header_sep (header_sep @ t) = Some 0"
  by (subst index_of.simps) simp

lemma index_of_part: "m < 4 \<Longrightarrow> index_of header_sep (take m header_sep) = None"
proof -
  assume "m < 4"
  then consider "m = 0" | "m = 1" | "m = 2" | "m = 3" by linarith
  then show ?thesis
    by cases (simp_all add: header_sep_def index_of.simps starts_with_def eval_nat_numeral)
qed

definition frame_header :: "nat \<Rightarrow> string" where
  "frame_header n = ''Content-Length: '' @ show_nat n"

lemma digit_ascii: "list_all digit s \<Longrightarrow> ascii s = s \<and> CHR 0x0D \<notin> set s"
  by (induction s) (auto simp: ascii_def digit_def)

lemma frame_header_facts:
  "ascii (frame_header n) = frame_header n" "CHR 0x0D \<notin> set (frame_header n)"
  "match_header (frame_header n) = Some n"
proof -
  have p: "ascii ''Content-Length: '' = ''Content-Length: ''" by code_simp
  show "ascii (frame_header n) = frame_header n"
    using digit_ascii [of "show_nat n"] digits_show_nat [of n] p
    unfolding frame_header_def ascii_def map_append by simp
  show "CHR 0x0D \<notin> set (frame_header n)" "match_header (frame_header n) = Some n"
    using digit_ascii [of "show_nat n"] digits_show_nat [of n]
    by (simp_all add: frame_header_def match_header_def starts_with_def Let_def)
qed

lemma length_header_prefix [simp]: "length header_prefix = 15"
  by code_simp

lemma ascii_take: "ascii (take n s) = take n (ascii s)"
  by (simp add: ascii_def take_map)

lemma ascii_prefix [simp]: "ascii header_prefix = header_prefix"
  by code_simp

lemma encode_frame_eq: "encode_shim_frame print j = frame_header (length (print j)) @ header_sep @ print j"
  by (simp add: encode_shim_frame_def frame_header_def Let_def)

text \<open>A whole frame at the head of the buffer is read.\<close>

lemma round_whole:
  assumes "parse (print j) = Some j" "kd j = Some t" "t \<in> set shim_frame_types" "length (print j) \<le> cap"
  shows "parse_round parse kd cap (encode_shim_frame print j @ rest) = Frame j rest"
proof -
  let ?h = "frame_header (length (print j))"
  have i: "index_of header_sep (encode_shim_frame print j @ rest) = Some (length ?h)"
    using index_of_skip [OF frame_header_facts(2)] by (simp add: encode_frame_eq)
  have t: "take (length ?h) (encode_shim_frame print j @ rest) = ?h"
    "drop (length ?h + length header_sep) (encode_shim_frame print j @ rest) = print j @ rest"
    by (simp_all add: encode_frame_eq)
  then have d: "drop (length ?h + length header_sep + length (print j)) (encode_shim_frame print j @ rest) = rest"
    by (simp add: encode_frame_eq)
  have n: "\<not> length (encode_shim_frame print j @ rest) < length ?h + length header_sep + length (print j)"
    by (simp add: encode_frame_eq)
  show ?thesis
    using assms i t d n frame_header_facts by (simp add: parse_round_def Let_def)
qed

text \<open>A torn frame waits.\<close>

lemma round_waits:
  assumes "index_of header_sep b = None" "ascii (take (min (length b) 15) b) = take n header_prefix"
    "length b \<le> shim_max_header_bytes"
  shows "parse_round parse kd cap b = Wait"
proof -
  have "take (length (take n header_prefix)) header_prefix = take n header_prefix" by (simp add: min_def)
  then show ?thesis using assms by (simp add: parse_round_def Let_def)
qed

lemma round_torn:
  assumes "length (print j) \<le> max_frame_bytes" "k < length (encode_shim_frame print j)"
  shows "parse_round parse kd max_frame_bytes (take k (encode_shim_frame print j)) = Wait"
proof -
  let ?n = "length (print j)"
  let ?h = "frame_header ?n"
  let ?b = "take k (encode_shim_frame print j)"
  have four: "length header_sep = 4" by (simp add: header_sep_def)
  show ?thesis
  proof (cases "k < length ?h + 4")
    case False
    then obtain m where k: "k = length ?h + (length header_sep + m)"
      using le_Suc_ex [of "length ?h + 4" k] by (auto simp: header_sep_def not_less)
    then have b: "?b = ?h @ header_sep @ take m (print j)"
      by (simp add: encode_frame_eq)
    then have i: "index_of header_sep ?b = Some (length ?h)"
      using index_of_skip [OF frame_header_facts(2)] by simp
    have "length ?b < length ?h + length header_sep + ?n"
      using assms(2) by (simp add: encode_frame_eq)
    moreover have "take (length ?h) ?b = ?h" unfolding b by simp
    ultimately show ?thesis
      using i assms(1) frame_header_facts by (simp add: parse_round_def Let_def)
  next
    case True
    then have b: "?b = take k ?h @ take (k - length ?h) header_sep"
      using four by (simp add: encode_frame_eq)
    have cr: "CHR 0x0D \<notin> set (take k ?h)" using frame_header_facts(2) by (meson in_set_takeD)
    have i: "index_of header_sep ?b = None"
      using index_of_skip [OF cr] index_of_part [of "k - length ?h"] True by (simp add: b)
    have len: "length (show_nat ?n) \<le> 7"
      using assms(1) by (intro length_show_nat) (simp_all add: max_frame_bytes_def)
    then have short: "length ?b \<le> shim_max_header_bytes"
      using True by (simp add: frame_header_def shim_max_header_bytes_def)
    have "encode_shim_frame print j = header_prefix @ drop 15 (encode_shim_frame print j)"
      by (simp add: encode_frame_eq frame_header_def header_prefix_def)
    then have "take (min k 15) (encode_shim_frame print j) = take (min k 15) header_prefix"
    proof -
      assume e: "encode_shim_frame print j = header_prefix @ drop 15 (encode_shim_frame print j)"
      have "take (min k 15) (header_prefix @ x) = take (min k 15) header_prefix" for x
      proof -
        have "min k 15 \<le> length header_prefix" by simp
        then show ?thesis by simp
      qed
      with e show ?thesis by metis
    qed
    then have "take (min (length ?b) (length header_prefix)) ?b = take (min k 15) header_prefix"
      using assms(2) by (simp add: min.absorb1 min.absorb2 min.commute take_take)
    then have "ascii (take (min (length ?b) 15) ?b) = take (min k 15) header_prefix"
      by (simp add: ascii_take)
    then show ?thesis by (intro round_waits [OF i _ short]) simp
  qed
qed

text \<open>
  The bytes in hand, a part of the stream, give exactly the frames they hold whole; what is left starts the
  rest of the stream.
\<close>

lemma prefix_long: "b @ more = e @ r \<Longrightarrow> length e \<le> length b \<Longrightarrow> \<exists>b'. b = e @ b' \<and> b' @ more = r"
  by (auto simp: append_eq_append_conv2)

lemma prefix_short: "b @ more = e @ r \<Longrightarrow> length b < length e \<Longrightarrow> b = take (length b) e"
  by (auto simp: append_eq_append_conv2)

lemma encode_nonempty: "encode_shim_frame print j \<noteq> []"
  by (simp add: encode_shim_frame_def Let_def)

definition sendable :: "('j \<Rightarrow> string) \<Rightarrow> (string \<Rightarrow> 'j option) \<Rightarrow> ('j \<Rightarrow> string option) \<Rightarrow> 'j \<Rightarrow> bool" where
  "sendable print parse kd j =
     (parse (print j) = Some j \<and> length (print j) \<le> max_frame_bytes
       \<and> (case kd j of Some t \<Rightarrow> t \<in> set shim_frame_types | None \<Rightarrow> False))"

lemma loop_prefix:
  assumes "list_all (sendable print parse kd) js" "b @ more = concat (map (encode_shim_frame print) js)"
  shows "\<exists>ds left later. js = ds @ later \<and> parse_loop parse kd max_frame_bytes b = (Inr ds, left)
     \<and> left @ more = concat (map (encode_shim_frame print) later) \<and> (more = [] \<longrightarrow> left = [])"
  using assms
proof (induction js arbitrary: b)
  case Nil
  have "parse_round parse kd max_frame_bytes [] = Wait"
    by (simp add: parse_round_def index_of.simps starts_with_def header_sep_def ascii_def Let_def shim_max_header_bytes_def)
  with Nil show ?case by (simp add: parse_loop.simps)
next
  case (Cons j js)
  obtain t where j: "parse (print j) = Some j" "kd j = Some t" "t \<in> set shim_frame_types"
    "length (print j) \<le> max_frame_bytes"
    using Cons.prems(1) by (auto simp: sendable_def split: option.splits)
  let ?e = "encode_shim_frame print j"
  show ?case
  proof (cases "length ?e \<le> length b")
    case True
    then obtain b' where b: "b = ?e @ b'" and m: "b' @ more = concat (map (encode_shim_frame print) js)"
      using prefix_long [of b more ?e] Cons.prems(2) by auto
    obtain ds left later where ih: "js = ds @ later" "parse_loop parse kd max_frame_bytes b' = (Inr ds, left)"
      "left @ more = concat (map (encode_shim_frame print) later)" "more = [] \<longrightarrow> left = []"
      using Cons.IH [OF _ m] Cons.prems(1) by auto
    have "parse_loop parse kd max_frame_bytes b = (Inr (j # ds), left)"
      using ih(2) round_whole [where print = print and parse = parse and kd = kd, OF j] by (subst parse_loop.simps) (simp add: b)
    with ih show ?thesis
      by (intro exI [of _ "j # ds"] exI [of _ left] exI [of _ later]) simp
  next
    case False
    then have "b = take (length b) ?e"
      using prefix_short [of b more ?e] Cons.prems(2) by simp
    then have "parse_round parse kd max_frame_bytes b = Wait"
      using round_torn [where print = print, OF j(4), of "length b"] False by simp
    then have "parse_loop parse kd max_frame_bytes b = (Inr [], b)" by (subst parse_loop.simps) simp
    moreover have "more \<noteq> []" using False Cons.prems(2) by auto
    ultimately show ?thesis using Cons.prems(2) by auto
  qed
qed

lemma loop_left:
  "parse_loop parse kd cap b = (Inr js, left) \<Longrightarrow> parse_loop parse kd cap left = (Inr [], left)"
proof (induction parse kd cap b arbitrary: js rule: parse_loop.induct)
  case (1 parse kd cap buf)
  show ?case
  proof (cases "parse_round parse kd cap buf")
    case Wait
    with 1(2) have "left = buf" by (simp add: parse_loop.simps)
    with Wait show ?thesis by (simp add: parse_loop.simps)
  next
    case (Frame j rest)
    with 1(2) obtain ks where "parse_loop parse kd cap rest = (Inr ks, left)"
      by (subst (asm) parse_loop.simps) (auto split: prod.splits sum.splits)
    with 1(1) [OF Frame] show ?thesis by blast
  next
    case (Throw e l)
    with 1(2) show ?thesis by (simp add: parse_loop.simps)
  qed
qed

lemma push_all_stream:
  assumes "list_all (sendable print parse kd) js"
    "buf @ concat chunks = concat (map (encode_shim_frame print) js)"
    "parse_loop parse kd max_frame_bytes buf = (Inr [], buf)"
  shows "push_all parse kd max_frame_bytes chunks buf = (Inr js, [])"
  using assms
proof (induction chunks arbitrary: js buf)
  case Nil
  then show ?case using loop_prefix [of print parse kd js buf "[]"]
    by (auto simp: encode_nonempty concat_eq_Nil_conv)
next
  case (Cons c chunks)
  then obtain ds left later where l: "js = ds @ later" "parse_loop parse kd max_frame_bytes (buf @ c) = (Inr ds, left)"
    "left @ concat chunks = concat (map (encode_shim_frame print) later)"
    using loop_prefix [of print parse kd js "buf @ c" "concat chunks"] by auto
  have "parse_loop parse kd max_frame_bytes left = (Inr [], left)"
    by (rule loop_left [OF l(2)])
  with Cons.IH [of later left] l Cons.prems(1) show ?case by (simp add: push_def)
qed

section \<open>Properties\<close>


definition demo_print :: "nat \<Rightarrow> string" where "demo_print n = show_nat n"
definition demo_parse :: "string \<Rightarrow> nat option" where
  "demo_parse s = (if s \<noteq> [] \<and> list_all digit s then Some (digits_value s) else None)"


text \<open>
  bytes that cannot begin a frame are refused at once: when the buffer does not start, as far as it goes,
  with the header's name, the push throws, whatever follows.
\<close>
theorem shim_desync_throws:
  assumes "ascii (take (min (length chunk) 15) chunk) \<noteq> take (min (length chunk) 15) ''Content-Length:''"
  shows "\<exists>e. push parse kd cap chunk [] = (Inl e, chunk) \<and> (case e of NonFrameBytes _ \<Rightarrow> True | MalformedHeader _ \<Rightarrow> True | _ \<Rightarrow> False)"
proof (cases "index_of header_sep chunk")
  case None
  then have "parse_round parse kd cap chunk = Throw (NonFrameBytes (ascii (take (min (length chunk) 15) chunk))) chunk"
    using assms [folded header_prefix_def] by (simp add: parse_round_def Let_def) (simp add: ascii_def)
  then show ?thesis by (simp add: push_def parse_loop.simps)
next
  case (Some sep)
  have "match_header (ascii (take sep chunk)) = None"
  proof (rule ccontr)
    assume "match_header (ascii (take sep chunk)) \<noteq> None"
    then have h: "starts_with (ascii (take sep chunk)) ''Content-Length: ''"
      by (auto simp: match_header_def Let_def split: if_splits)
    have name: "''Content-Length: '' = header_prefix @ '' ''" by (simp add: header_prefix_def)
    have 16: "ascii (take 16 (take sep chunk)) = header_prefix @ '' ''"
      using h [unfolded name] by (simp add: starts_with_def ascii_take)
    then have "length (ascii (take 16 (take sep chunk))) = 16" by simp
    then have len: "16 \<le> sep" "16 \<le> length chunk" by (simp_all add: ascii_def min_def split: if_splits)
    have "take 15 (ascii (take 16 chunk)) = take 15 (header_prefix @ '' '')"
      using 16 len by (simp add: min_def)
    then have "ascii (take 15 chunk) = header_prefix" by (simp add: ascii_take)
    then show False using assms [folded header_prefix_def] len by (simp add: min_def)
  qed
  with Some have "parse_round parse kd cap chunk = Throw (MalformedHeader (take 80 (ascii (take sep chunk)))) chunk"
    by (simp add: parse_round_def Let_def)
  then show ?thesis by (simp add: push_def parse_loop.simps)
qed

theorem shim_desync_throws_witness:
  "\<exists>e. push demo_parse (\<lambda>_. None) 100 ''npm WARN'' [] = (Inl e, ''npm WARN'')"
proof -
  have "ascii (take (min (length ''npm WARN'') 15) ''npm WARN'') \<noteq> take (min (length ''npm WARN'') 15) ''Content-Length:''"
    by code_simp
  from shim_desync_throws [OF this] show ?thesis by blast
qed

end
