(* ===== verification/Outbox.thy ===== *)
theory Outbox
  imports Contracts
begin

text \<open>
  The approval outbox (extensions/outbox/src: hash.ts, store.ts, service.ts) and the dispatcher that publishes
  what a human approved (apps/ethos/src/lib/outbox-wiring.ts). SHA-256 is the argument \<open>sha\<close>; the clock and
  the drawn item id are arguments too.
\<close>

section \<open>The binding\<close>

record content =
  co_personality :: string
  co_bot :: string
  co_platform :: string
  co_chat :: string
  co_thread :: "string option"
  co_text :: string

definition hex_digit_lower :: "nat \<Rightarrow> char" where
  "hex_digit_lower n = char_of (if n < 10 then 48 + n else 87 + n)"

text \<open>How \<open>JSON.stringify\<close> writes one byte of a string.\<close>

definition json_char :: "char \<Rightarrow> string" where
  "json_char c =
     (let n = (of_char c :: nat) in
      if n = 34 then [CHR 0x5C, CHR 0x22]
      else if n = 92 then [CHR 0x5C, CHR 0x5C]
      else if n = 8 then [CHR 0x5C, CHR ''b'']
      else if n = 9 then [CHR 0x5C, CHR ''t'']
      else if n = 10 then [CHR 0x5C, CHR ''n'']
      else if n = 12 then [CHR 0x5C, CHR ''f'']
      else if n = 13 then [CHR 0x5C, CHR ''r'']
      else if n < 32 then [CHR 0x5C, CHR ''u'', CHR ''0'', CHR ''0'', hex_digit_lower (n div 16), hex_digit_lower (n mod 16)]
      else [c])"

definition json_string :: "string \<Rightarrow> string" where
  "json_string s = CHR 0x22 # concat (map json_char s) @ [CHR 0x22]"

definition json_field :: "string \<Rightarrow> string \<Rightarrow> string" where
  "json_field name v = json_string name @ CHR '':'' # v"

definition canonicalize_content :: "content \<Rightarrow> string" where
  "canonicalize_content c =
     ''{'' @ json_field ''botKey'' (json_string (co_bot c)) @ '','' @
     json_field ''chatId'' (json_string (co_chat c)) @ '','' @
     json_field ''personalityId'' (json_string (co_personality c)) @ '','' @
     json_field ''platform'' (json_string (co_platform c)) @ '','' @
     json_field ''text'' (json_string (co_text c)) @ '','' @
     json_field ''threadId'' (case co_thread c of None \<Rightarrow> ''null'' | Some t \<Rightarrow> json_string t) @ '','' @
     json_field ''v'' ''1'' @ ''}''"

definition compute_content_hash :: "(string \<Rightarrow> string) \<Rightarrow> content \<Rightarrow> string" where
  "compute_content_hash sha c = sha (canonicalize_content c)"

section \<open>Items and revisions\<close>

datatype outbox_state =
  AwaitingReview | AwaitingApproval | Approved | Sending | Sent | Unconfirmed | Failed | Rejected | Expired

definition active_states :: "outbox_state list" where
  "active_states = [AwaitingReview, AwaitingApproval, Approved, Sending, Failed]"

datatype review_verdict = Pass | Fail | Unclear | Unavailable

record review_receipt =
  rv_verdict :: review_verdict
  rv_reasons :: string
  rv_revision :: nat
  rv_at :: int

record outbox_revision =
  or_item :: string
  or_revision :: nat
  or_text :: string
  or_hash :: string
  or_author :: string
  or_created :: int

record outbox_item =
  oi_id :: string
  oi_personality :: string
  oi_bot :: string
  oi_platform :: string
  oi_chat :: string
  oi_thread :: "string option"
  oi_revision :: nat
  oi_hash :: string
  oi_state :: outbox_state
  oi_created :: int
  oi_updated :: int
  oi_approver :: "string option"
  oi_review :: "review_receipt option"
  oi_approved_by :: "string option"
  oi_approved_at :: "int option"
  oi_approved_revision :: "nat option"
  oi_claimed_at :: "int option"
  oi_sent_at :: "int option"
  oi_obligation :: "string option"
  oi_failure :: "string option"
  oi_rejection :: "string option"
  oi_origin :: "string option"

record outbox =
  ob_items :: "outbox_item list"
  ob_revisions :: "outbox_revision list"

definition empty_outbox :: outbox where
  "empty_outbox = \<lparr>ob_items = [], ob_revisions = []\<rparr>"

definition get_item :: "outbox \<Rightarrow> string \<Rightarrow> outbox_item option" where
  "get_item s i = find (\<lambda>r. oi_id r = i) (ob_items s)"

definition get_revision :: "outbox \<Rightarrow> string \<Rightarrow> nat \<Rightarrow> outbox_revision option" where
  "get_revision s i n = find (\<lambda>r. or_item r = i \<and> or_revision r = n) (ob_revisions s)"

definition list_revisions :: "outbox \<Rightarrow> string \<Rightarrow> outbox_revision list" where
  "list_revisions s i = sort_key or_revision (filter (\<lambda>r. or_item r = i) (ob_revisions s))"

text \<open>\<open>ORDER BY created_at DESC, rowid DESC LIMIT ?\<close>; a negative limit is none.\<close>

definition latest_items :: "int \<Rightarrow> (outbox_item \<Rightarrow> bool) \<Rightarrow> outbox \<Rightarrow> outbox_item list" where
  "latest_items limit P s =
     (let rows = rev (sort_key oi_created (filter P (ob_items s)))
      in if limit < 0 then rows else take (nat limit) rows)"

definition list_by_personality :: "string \<Rightarrow> int \<Rightarrow> outbox \<Rightarrow> outbox_item list" where
  "list_by_personality p limit = latest_items limit (\<lambda>r. oi_personality r = p)"

definition list_by_state :: "outbox_state list \<Rightarrow> int \<Rightarrow> outbox \<Rightarrow> outbox_item list" where
  "list_by_state sts limit s = (if sts = [] then [] else latest_items limit (\<lambda>r. oi_state r \<in> set sts) s)"

text \<open>A conditional \<open>UPDATE\<close> of the row with an id: whether it changed one, and the rows after it.\<close>

definition upd_item :: "string \<Rightarrow> (outbox_item \<Rightarrow> bool) \<Rightarrow> (outbox_item \<Rightarrow> outbox_item) \<Rightarrow> outbox \<Rightarrow> bool \<times> outbox" where
  "upd_item i P f s =
     (list_ex (\<lambda>r. oi_id r = i \<and> P r) (ob_items s),
      s\<lparr>ob_items := map (\<lambda>r. if oi_id r = i \<and> P r then f r else r) (ob_items s)\<rparr>)"

definition in_state :: "outbox_state \<Rightarrow> outbox_item \<Rightarrow> bool" where
  "in_state st r = (oi_state r = st)"

definition content_of :: "outbox_item \<Rightarrow> string \<Rightarrow> content" where
  "content_of r text =
     \<lparr>co_personality = oi_personality r, co_bot = oi_bot r, co_platform = oi_platform r, co_chat = oi_chat r,
      co_thread = oi_thread r, co_text = text\<rparr>"

section \<open>The store\<close>

record propose_input =
  pi_personality :: string
  pi_bot :: string
  pi_platform :: string
  pi_chat :: string
  pi_thread :: "string option"
  pi_text :: string
  pi_approver :: "string option"
  pi_origin :: "string option"

definition non_empty :: "string option \<Rightarrow> string option" where
  "non_empty t = (if t = Some [] then None else t)"

definition proposed_content :: "propose_input \<Rightarrow> content" where
  "proposed_content inp =
     \<lparr>co_personality = pi_personality inp, co_bot = pi_bot inp, co_platform = pi_platform inp,
      co_chat = pi_chat inp, co_thread = non_empty (pi_thread inp), co_text = pi_text inp\<rparr>"

definition proposed_item :: "(string \<Rightarrow> string) \<Rightarrow> int \<Rightarrow> string \<Rightarrow> propose_input \<Rightarrow> outbox_item" where
  "proposed_item sha now i inp =
     \<lparr>oi_id = i, oi_personality = pi_personality inp, oi_bot = pi_bot inp, oi_platform = pi_platform inp,
      oi_chat = pi_chat inp, oi_thread = non_empty (pi_thread inp), oi_revision = 1,
      oi_hash = compute_content_hash sha (proposed_content inp),
      oi_state = (if non_empty (pi_approver inp) \<noteq> None then AwaitingReview else AwaitingApproval),
      oi_created = now, oi_updated = now, oi_approver = pi_approver inp, oi_review = None,
      oi_approved_by = None, oi_approved_at = None, oi_approved_revision = None, oi_claimed_at = None,
      oi_sent_at = None, oi_obligation = None, oi_failure = None, oi_rejection = None,
      oi_origin = pi_origin inp\<rparr>"

text \<open>The primary keys: an insert that meets a taken one throws and the transaction is undone.\<close>

datatype outbox_throw = ItemTaken string | RevisionTaken string nat

definition insert_revision :: "outbox_revision \<Rightarrow> outbox \<Rightarrow> (outbox_throw, outbox) result" where
  "insert_revision r s =
     (if get_revision s (or_item r) (or_revision r) \<noteq> None then Inl (RevisionTaken (or_item r) (or_revision r))
      else Inr (s\<lparr>ob_revisions := ob_revisions s @ [r]\<rparr>))"

definition active_twin :: "(string \<Rightarrow> string) \<Rightarrow> propose_input \<Rightarrow> outbox \<Rightarrow> outbox_item option" where
  "active_twin sha inp s =
     (case sort_key oi_created (filter (\<lambda>r. oi_personality r = pi_personality inp
             \<and> oi_hash r = compute_content_hash sha (proposed_content inp)
             \<and> oi_state r \<in> set active_states) (ob_items s)) of
        [] \<Rightarrow> None
      | r # _ \<Rightarrow> Some r)"

definition propose ::
  "(string \<Rightarrow> string) \<Rightarrow> int \<Rightarrow> string \<Rightarrow> propose_input \<Rightarrow> outbox \<Rightarrow> (outbox_throw, (outbox_item \<times> bool) \<times> outbox) result" where
  "propose sha now i inp s =
     (case active_twin sha inp s of
        Some r \<Rightarrow> Inr ((r, False), s)
      | None \<Rightarrow>
          (let row = proposed_item sha now i inp in
           if get_item s i \<noteq> None then Inl (ItemTaken i)
           else ebind (insert_revision \<lparr>or_item = i, or_revision = 1, or_text = pi_text inp, or_hash = oi_hash row,
                    or_author = ''agent'', or_created = now\<rparr> (s\<lparr>ob_items := ob_items s @ [row]\<rparr>))
                  (\<lambda>s1. Inr ((row, True), s1))))"

definition attach_review :: "int \<Rightarrow> string \<Rightarrow> review_receipt \<Rightarrow> outbox \<Rightarrow> bool \<times> outbox" where
  "attach_review now i receipt =
     upd_item i (in_state AwaitingReview)
       (\<lambda>r. r\<lparr>oi_state := AwaitingApproval, oi_review := Some receipt, oi_updated := now\<rparr>)"

definition approve :: "int \<Rightarrow> string \<Rightarrow> nat \<Rightarrow> string \<Rightarrow> string \<Rightarrow> outbox \<Rightarrow> bool \<times> outbox" where
  "approve now i n h user =
     upd_item i (\<lambda>r. oi_revision r = n \<and> oi_hash r = h \<and> oi_state r = AwaitingApproval)
       (\<lambda>r. r\<lparr>oi_state := Approved, oi_approved_by := Some user, oi_approved_at := Some now,
             oi_approved_revision := Some n, oi_updated := now\<rparr>)"

text \<open>\<open>edit\<close>: the new item, or none when the row moved.\<close>

definition edit_item ::
  "(string \<Rightarrow> string) \<Rightarrow> int \<Rightarrow> string \<Rightarrow> nat \<Rightarrow> string \<Rightarrow> string \<Rightarrow> outbox \<Rightarrow> (outbox_throw, outbox_item option \<times> outbox) result" where
  "edit_item sha now i n text user s =
     (case get_item s i of
        None \<Rightarrow> Inr (None, s)
      | Some cur \<Rightarrow>
          (let h = compute_content_hash sha (content_of cur text) in
           case upd_item i (\<lambda>r. oi_revision r = n \<and> oi_state r = AwaitingApproval)
                  (\<lambda>r. r\<lparr>oi_revision := Suc n, oi_hash := h, oi_state := AwaitingApproval, oi_approved_by := None,
                        oi_approved_at := None, oi_approved_revision := None, oi_updated := now\<rparr>) s of
             (False, s1) \<Rightarrow> Inr (None, s)
           | (True, s1) \<Rightarrow>
               ebind (insert_revision \<lparr>or_item = i, or_revision = Suc n, or_text = text, or_hash = h,
                   or_author = user, or_created = now\<rparr> s1)
                 (\<lambda>s2. Inr (get_item s2 i, s2))))"

definition reject :: "int \<Rightarrow> string \<Rightarrow> string \<Rightarrow> outbox \<Rightarrow> bool \<times> outbox" where
  "reject now i reason =
     upd_item i (in_state AwaitingApproval)
       (\<lambda>r. r\<lparr>oi_state := Rejected, oi_rejection := Some reason, oi_updated := now\<rparr>)"

definition revoke :: "int \<Rightarrow> string \<Rightarrow> outbox \<Rightarrow> bool \<times> outbox" where
  "revoke now i =
     upd_item i (in_state Approved)
       (\<lambda>r. r\<lparr>oi_state := AwaitingApproval, oi_approved_by := None, oi_approved_at := None,
             oi_approved_revision := None, oi_updated := now\<rparr>)"

definition retry :: "int \<Rightarrow> string \<Rightarrow> string \<Rightarrow> outbox \<Rightarrow> bool \<times> outbox" where
  "retry now i user =
     upd_item i (in_state Failed)
       (\<lambda>r. r\<lparr>oi_state := Approved, oi_approved_by := Some user, oi_approved_at := Some now,
             oi_approved_revision := Some (oi_revision r), oi_failure := None, oi_claimed_at := None,
             oi_updated := now\<rparr>)"

definition list_claimable :: "string list \<Rightarrow> outbox \<Rightarrow> outbox_item list" where
  "list_claimable bots s =
     (if bots = [] then []
      else sort_key oi_created (filter (\<lambda>r. oi_state r = Approved \<and> oi_bot r \<in> set bots) (ob_items s)))"

definition claim_item :: "int \<Rightarrow> string \<Rightarrow> outbox \<Rightarrow> bool \<times> outbox" where
  "claim_item now i =
     upd_item i (in_state Approved) (\<lambda>r. r\<lparr>oi_state := Sending, oi_claimed_at := Some now, oi_updated := now\<rparr>)"

definition release_claim :: "int \<Rightarrow> string \<Rightarrow> outbox \<Rightarrow> bool \<times> outbox" where
  "release_claim now i =
     upd_item i (in_state Sending) (\<lambda>r. r\<lparr>oi_state := Approved, oi_claimed_at := None, oi_updated := now\<rparr>)"

definition mark_sent :: "int \<Rightarrow> string \<Rightarrow> outbox \<Rightarrow> bool \<times> outbox" where
  "mark_sent now i =
     upd_item i (in_state Sending) (\<lambda>r. r\<lparr>oi_state := Sent, oi_sent_at := Some now, oi_updated := now\<rparr>)"

definition mark_unconfirmed :: "int \<Rightarrow> string \<Rightarrow> string \<Rightarrow> outbox \<Rightarrow> bool \<times> outbox" where
  "mark_unconfirmed now i obligation =
     upd_item i (in_state Sending)
       (\<lambda>r. r\<lparr>oi_state := Unconfirmed, oi_obligation := Some obligation, oi_updated := now\<rparr>)"

definition mark_item_failed :: "int \<Rightarrow> string \<Rightarrow> string \<Rightarrow> outbox \<Rightarrow> bool \<times> outbox" where
  "mark_item_failed now i reason =
     upd_item i (in_state Sending) (\<lambda>r. r\<lparr>oi_state := Failed, oi_failure := Some reason, oi_updated := now\<rparr>)"

definition pending_expiry_ms :: int where "pending_expiry_ms = 604800000"
definition approval_validity_ms :: int where "approval_validity_ms = 86400000"
definition stale_threshold_ms :: int where "stale_threshold_ms = 600000"

definition expire_where :: "int \<Rightarrow> (outbox_item \<Rightarrow> bool) \<Rightarrow> outbox \<Rightarrow> nat \<times> outbox" where
  "expire_where now P s =
     (length (filter P (ob_items s)),
      s\<lparr>ob_items := map (\<lambda>r. if P r then r\<lparr>oi_state := Expired, oi_updated := now\<rparr> else r) (ob_items s)\<rparr>)"

definition expire_pending :: "int \<Rightarrow> outbox \<Rightarrow> nat \<times> outbox" where
  "expire_pending now =
     expire_where now (\<lambda>r. (oi_state r = AwaitingReview \<or> oi_state r = AwaitingApproval)
       \<and> oi_created r < now - pending_expiry_ms)"

definition expire_approvals :: "int \<Rightarrow> outbox \<Rightarrow> nat \<times> outbox" where
  "expire_approvals now =
     expire_where now (\<lambda>r. oi_state r = Approved
       \<and> (case oi_approved_at r of None \<Rightarrow> False | Some t \<Rightarrow> t < now - approval_validity_ms))"

definition list_stale_reviews :: "int \<Rightarrow> outbox \<Rightarrow> outbox_item list" where
  "list_stale_reviews now s =
     sort_key oi_created (filter (\<lambda>r. oi_state r = AwaitingReview \<and> oi_updated r < now - stale_threshold_ms) (ob_items s))"

definition list_stale_sending :: "int \<Rightarrow> outbox \<Rightarrow> outbox_item list" where
  "list_stale_sending now s =
     sort_key oi_created (filter (\<lambda>r. oi_state r = Sending
       \<and> (case oi_claimed_at r of None \<Rightarrow> False | Some t \<Rightarrow> t < now - stale_threshold_ms)) (ob_items s))"

section \<open>The service\<close>

datatype outbox_action =
  ReviewA | ApproveA | EditA | RejectA | RevokeA | RetryA | ClaimA | ReleaseA | SentA | UnconfirmedA | FailA

fun legal_from :: "outbox_action \<Rightarrow> outbox_state list" where
  "legal_from ReviewA = [AwaitingReview]"
| "legal_from ApproveA = [AwaitingApproval]"
| "legal_from EditA = [AwaitingApproval]"
| "legal_from RejectA = [AwaitingApproval]"
| "legal_from RevokeA = [Approved]"
| "legal_from RetryA = [Failed]"
| "legal_from ClaimA = [Approved]"
| "legal_from ReleaseA = [Sending]"
| "legal_from SentA = [Sending]"
| "legal_from UnconfirmedA = [Sending]"
| "legal_from FailA = [Sending]"

datatype outbox_error =
  NotFound string | Conflict | IllegalTransition outbox_action outbox_state | BindingMismatch string | Thrown outbox_throw

record audit_row =
  au_decision :: outbox_action
  au_item :: string
  au_revision :: nat
  au_hash :: string
  au_by :: string

definition guard_item :: "outbox \<Rightarrow> string \<Rightarrow> outbox_action \<Rightarrow> (outbox_error, outbox_item) result" where
  "guard_item s i a =
     (case get_item s i of
        None \<Rightarrow> Inl (NotFound i)
      | Some r \<Rightarrow> if oi_state r \<notin> set (legal_from a) then Inl (IllegalTransition a (oi_state r)) else Inr r)"

definition reread :: "outbox \<Rightarrow> string \<Rightarrow> (outbox_error, outbox_item) result" where
  "reread s i = (case get_item s i of None \<Rightarrow> Inl (NotFound i) | Some r \<Rightarrow> Inr r)"

text \<open>Guard, apply, re-read: the answer and the store after it.\<close>

definition transition ::
  "string \<Rightarrow> outbox_action \<Rightarrow> (outbox \<Rightarrow> bool \<times> outbox) \<Rightarrow> outbox \<Rightarrow> (outbox_error, outbox_item) result \<times> outbox" where
  "transition i a write s =
     (case guard_item s i a of
        Inl e \<Rightarrow> (Inl e, s)
      | Inr r \<Rightarrow>
          (case write s of
             (False, s1) \<Rightarrow> (Inl Conflict, s1)
           | (True, s1) \<Rightarrow> (reread s1 i, s1)))"

text \<open>The audit row a human decision leaves, when it was taken.\<close>

definition audit_of :: "outbox_action \<Rightarrow> string \<Rightarrow> (outbox_error, outbox_item) result \<Rightarrow> audit_row list" where
  "audit_of a user res =
     (case res of
        Inl e \<Rightarrow> []
      | Inr r \<Rightarrow> [\<lparr>au_decision = a, au_item = oi_id r, au_revision = oi_revision r, au_hash = oi_hash r, au_by = user\<rparr>])"

definition service_edit ::
  "(string \<Rightarrow> string) \<Rightarrow> int \<Rightarrow> string \<Rightarrow> nat \<Rightarrow> string \<Rightarrow> string \<Rightarrow> outbox \<Rightarrow> (outbox_error, outbox_item) result \<times> outbox" where
  "service_edit sha now i n text user s =
     (case guard_item s i EditA of
        Inl e \<Rightarrow> (Inl e, s)
      | Inr r \<Rightarrow>
          (case edit_item sha now i n text user s of
             Inl e \<Rightarrow> (Inl (Thrown e), s)
           | Inr (None, s1) \<Rightarrow> (Inl Conflict, s1)
           | Inr (Some q, s1) \<Rightarrow> (Inr q, s1)))"

text \<open>\<open>verifyBinding\<close>: the item and the revision whose bytes go out.\<close>

definition verify_binding ::
  "(string \<Rightarrow> string) \<Rightarrow> int \<Rightarrow> string \<Rightarrow> outbox \<Rightarrow> (outbox_error, outbox_item \<times> outbox_revision) result \<times> outbox" where
  "verify_binding sha now i s =
     (case get_item s i of
        None \<Rightarrow> (Inl (NotFound i), s)
      | Some r \<Rightarrow>
          if oi_state r \<noteq> Sending then (Inl (IllegalTransition ClaimA (oi_state r)), s)
          else
            (case get_revision s i (oi_revision r) of
               None \<Rightarrow> (Inl (BindingMismatch i), snd (mark_item_failed now i ''binding mismatch'' s))
             | Some v \<Rightarrow>
                 (let h = compute_content_hash sha (content_of r (or_text v)) in
                  if h \<noteq> oi_hash r \<or> h \<noteq> or_hash v
                  then (Inl (BindingMismatch i), snd (mark_item_failed now i ''binding mismatch'' s))
                  else (Inr (r, v), s))))"

section \<open>The dispatcher\<close>

text \<open>
  What the gateway answers: a refusal before anything was sent, because the bot no longer speaks for the
  personality or because this process cannot publish it; a confirmed or an unconfirmed send, with the
  obligation the ledger holds when there is one; or a throw, after which nobody knows.
\<close>

datatype publication_answer =
  RefusedNotBound string | RefusedHere | Confirmed | UnconfirmedSend "string option" | Threw

definition settle_publication ::
  "int \<Rightarrow> string \<Rightarrow> publication_answer \<Rightarrow> outbox \<Rightarrow> outbox" where
  "settle_publication now i ans s =
     (case ans of
        RefusedNotBound m \<Rightarrow> snd (transition i FailA (mark_item_failed now i m) s)
      | RefusedHere \<Rightarrow> snd (transition i ReleaseA (release_claim now i) s)
      | Confirmed \<Rightarrow> snd (transition i SentA (mark_sent now i) s)
      | UnconfirmedSend (Some ob) \<Rightarrow> snd (transition i UnconfirmedA (mark_unconfirmed now i ob) s)
      | UnconfirmedSend None \<Rightarrow>
          snd (transition i FailA (mark_item_failed now i (''the platform did not confirm and no delivery ledger recorded the attempt '' @ em_dash
            @ '' it may or may not have arrived. Check the channel before retrying.'')) s)
      | Threw \<Rightarrow> s)"

text \<open>A stale claim, and what the delivery ledger holds for it: without a ledger nothing is decided.\<close>

definition reconcile_sending :: "int \<Rightarrow> string \<Rightarrow> string list option \<Rightarrow> outbox \<Rightarrow> outbox" where
  "reconcile_sending now i ledger s =
     (case ledger of
        None \<Rightarrow> s
      | Some (ob # _) \<Rightarrow> snd (transition i UnconfirmedA (mark_unconfirmed now i ob) s)
      | Some [] \<Rightarrow> snd (transition i FailA (mark_item_failed now i (''interrupted before the platform call; not sent '' @ em_dash @ '' Retry'')) s))"

definition unavailable_receipt :: "int \<Rightarrow> outbox_item \<Rightarrow> review_receipt" where
  "unavailable_receipt now r =
     \<lparr>rv_verdict = Unavailable, rv_reasons = ''the reviewer did not come back '' @ em_dash @ '' this draft reached you without an advisory review'',
       rv_revision = oi_revision r, rv_at = now\<rparr>"

text \<open>Who speaks for a publication: the only candidate, or the one the lane names.\<close>

datatype sender_error = NoBot | AmbiguousSender

definition resolve_sender :: "string option \<Rightarrow> string list \<Rightarrow> (sender_error, string) result" where
  "resolve_sender lane_bot candidates =
     (case candidates of
        [] \<Rightarrow> Inl NoBot
      | [only] \<Rightarrow> Inr only
      | _ \<Rightarrow>
          (case lane_bot of
             Some b \<Rightarrow> if b \<in> set candidates then Inr b else Inl AmbiguousSender
           | None \<Rightarrow> Inl AmbiguousSender))"

section \<open>The system\<close>

text \<open>
  Any number of processes over one store: the claims a dispatcher has won and not yet verified, and the
  publications it has handed over and not yet heard of. A dispatcher that dies forgets one of either.
\<close>

record outbox_system =
  sy_store :: outbox
  sy_claimed :: "string list"
  sy_flight :: "string list"
  sy_audit :: "audit_row list"

definition fresh_system :: outbox_system where
  "fresh_system = \<lparr>sy_store = empty_outbox, sy_claimed = [], sy_flight = [], sy_audit = []\<rparr>"

datatype outbox_event =
    Propose string propose_input
  | Review string review_receipt
  | Approve string nat string string
  | Edit string nat string string
  | Reject string string string
  | Revoke string string
  | RetryItem string string
  | ExpireAll
  | StaleReviews
  | ClaimItem string
  | HandOver string
  | Answer string publication_answer
  | Reconcile string "string list option"
  | DispatcherDies string

text \<open>What an event reports: a human's decision on a revision and its hash, bytes handed over, a refusal.\<close>

datatype outbox_note = Decided string nat string string | Handed string nat content | Turned string

definition on_store :: "(outbox \<Rightarrow> outbox) \<Rightarrow> outbox_system \<Rightarrow> outbox_system" where
  "on_store f y = y\<lparr>sy_store := f (sy_store y)\<rparr>"

definition human_decision ::
  "outbox_action \<Rightarrow> string \<Rightarrow> (outbox_error, outbox_item) result \<times> outbox \<Rightarrow> outbox_system \<Rightarrow> outbox_note list \<times> outbox_system" where
  "human_decision a user out y =
     ((case fst out of
         Inl e \<Rightarrow> []
       | Inr r \<Rightarrow> if a = ApproveA \<or> a = RetryA then [Decided (oi_id r) (oi_revision r) (oi_hash r) user] else []),
      y\<lparr>sy_store := snd out, sy_audit := sy_audit y @ audit_of a user (fst out)\<rparr>)"

definition stale_reviews :: "int \<Rightarrow> outbox \<Rightarrow> outbox" where
  "stale_reviews now s =
     fold (\<lambda>r t. snd (transition (oi_id r) ReviewA (attach_review now (oi_id r) (unavailable_receipt now r)) t))
       (list_stale_reviews now s) s"

fun outbox_act :: "(string \<Rightarrow> string) \<Rightarrow> int \<times> outbox_event \<Rightarrow> outbox_system \<Rightarrow> outbox_note list \<times> outbox_system" where
  "outbox_act sha (now, Propose i inp) y =
     (case propose sha now i inp (sy_store y) of Inl e \<Rightarrow> ([], y) | Inr (x, s) \<Rightarrow> ([], y\<lparr>sy_store := s\<rparr>))"
| "outbox_act sha (now, Review i receipt) y =
     ([], on_store (\<lambda>s. snd (transition i ReviewA (attach_review now i receipt) s)) y)"
| "outbox_act sha (now, Approve i n h user) y =
     human_decision ApproveA user (transition i ApproveA (approve now i n h user) (sy_store y)) y"
| "outbox_act sha (now, Edit i n text user) y =
     human_decision EditA user (service_edit sha now i n text user (sy_store y)) y"
| "outbox_act sha (now, Reject i reason user) y =
     human_decision RejectA user (transition i RejectA (reject now i reason) (sy_store y)) y"
| "outbox_act sha (now, Revoke i user) y =
     human_decision RevokeA user (transition i RevokeA (revoke now i) (sy_store y)) y"
| "outbox_act sha (now, RetryItem i user) y =
     human_decision RetryA user (transition i RetryA (retry now i user) (sy_store y)) y"
| "outbox_act sha (now, ExpireAll) y =
     ([], on_store (\<lambda>s. snd (expire_approvals now (snd (expire_pending now s)))) y)"
| "outbox_act sha (now, StaleReviews) y = ([], on_store (stale_reviews now) y)"
| "outbox_act sha (now, ClaimItem i) y =
     (case claim_item now i (sy_store y) of
        (ok, s) \<Rightarrow> ([], y\<lparr>sy_store := s, sy_claimed := (if ok then i # sy_claimed y else sy_claimed y)\<rparr>))"
| "outbox_act sha (now, HandOver i) y =
     (if i \<notin> set (sy_claimed y) then ([], y)
      else
        (let y1 = y\<lparr>sy_claimed := remove1 i (sy_claimed y)\<rparr>
         in case verify_binding sha now i (sy_store y) of
              (Inl e, s) \<Rightarrow> ([], y1\<lparr>sy_store := s\<rparr>)
            | (Inr (r, v), s) \<Rightarrow>
                ([Handed i (or_revision v) (content_of r (or_text v))],
                 y1\<lparr>sy_store := s, sy_flight := i # sy_flight y1\<rparr>)))"
| "outbox_act sha (now, Answer i ans) y =
     (if i \<notin> set (sy_flight y) then ([], y)
      else
        ((case ans of RefusedNotBound m \<Rightarrow> [Turned i] | RefusedHere \<Rightarrow> [Turned i] | _ \<Rightarrow> []),
         y\<lparr>sy_store := settle_publication now i ans (sy_store y), sy_flight := remove1 i (sy_flight y)\<rparr>))"
| "outbox_act sha (now, Reconcile i ledger) y = ([], on_store (reconcile_sending now i ledger) y)"
| "outbox_act sha (now, DispatcherDies i) y =
     ([], y\<lparr>sy_claimed := remove1 i (sy_claimed y), sy_flight := remove1 i (sy_flight y)\<rparr>)"

end
