(* ===== verification/OutboxLaws.thy ===== *)
theory OutboxLaws
  imports Outbox
begin

text \<open>
  What the outbox keeps over every history of proposals, decisions and deliveries: each item's current revision
  is stored under the hash of its binding, an approval names the revision it was given for, and each approval
  pays for one hand-over.
\<close>

section \<open>Rows\<close>

definition binding_of :: "outbox_item \<Rightarrow> string \<times> string \<times> string \<times> string \<times> string \<times> string option \<times> nat \<times> string" where
  "binding_of r = (oi_id r, oi_personality r, oi_bot r, oi_platform r, oi_chat r, oi_thread r, oi_revision r, oi_hash r)"

definition set_item :: "string \<Rightarrow> outbox_item \<Rightarrow> outbox \<Rightarrow> outbox" where
  "set_item i q s = s\<lparr>ob_items := map (\<lambda>r. if oi_id r = i then q else r) (ob_items s)\<rparr>"

abbreviation distinct_items :: "outbox \<Rightarrow> bool" where
  "distinct_items s \<equiv> distinct (map oi_id (ob_items s))"

lemma get_item_iff: "distinct_items s \<Longrightarrow> get_item s i = Some r \<longleftrightarrow> r \<in> set (ob_items s) \<and> oi_id r = i"
  unfolding get_item_def by (rule find_key_iff)

lemma get_item_None: "get_item s i = None \<longleftrightarrow> i \<notin> oi_id ` set (ob_items s)"
  by (auto simp: get_item_def find_None_iff)

lemma get_item_mem: "get_item s i = Some r \<Longrightarrow> r \<in> set (ob_items s) \<and> oi_id r = i"
  unfolding get_item_def by (rule find_SomeD)

lemma get_set_item:
  assumes "oi_id q = i" "get_item s i = Some r"
  shows "get_item (set_item i q s) k = (if k = i then Some q else get_item s k)"
proof -
  have "find (\<lambda>r. oi_id r = k) (map (\<lambda>r. if oi_id r = i then q else r) rs)
      = (if k = i then if i \<in> oi_id ` set rs then Some q else None else find (\<lambda>r. oi_id r = k) rs)" for rs
    using assms(1) by (induction rs) auto
  moreover have "i \<in> oi_id ` set (ob_items s)" using assms(2) get_item_None [of s i] by auto
  ultimately show ?thesis by (simp add: get_item_def set_item_def)
qed

lemma get_revision_mem: "get_revision s i n = Some v \<Longrightarrow> v \<in> set (ob_revisions s) \<and> or_item v = i \<and> or_revision v = n"
  unfolding get_revision_def by (auto dest: find_SomeD)

lemma get_revision_None: "get_revision s i n = None \<longleftrightarrow> (\<forall>v \<in> set (ob_revisions s). or_item v = i \<longrightarrow> or_revision v \<noteq> n)"
  by (auto simp: get_revision_def find_None_iff)

lemma get_revision_cong [simp]: "get_revision (s\<lparr>ob_items := xs\<rparr>) i n = get_revision s i n"
  by (simp add: get_revision_def)

text \<open>A conditional update of the row of an id, read off the row.\<close>

lemma upd_item_eq:
  assumes "distinct_items s" "\<And>r. oi_id (f r) = oi_id r"
  shows "upd_item i P f s = (case get_item s i of
     None \<Rightarrow> (False, s) | Some r \<Rightarrow> if P r then (True, set_item i (f r) s) else (False, s))"
proof (cases "get_item s i")
  case None
  then have "i \<notin> oi_id ` set (ob_items s)" by (simp add: get_item_None)
  then have "map (\<lambda>r. if oi_id r = i \<and> P r then f r else r) (ob_items s) = ob_items s"
    "\<not> list_ex (\<lambda>r. oi_id r = i \<and> P r) (ob_items s)"
    by (auto simp: list_ex_iff intro!: map_idI)
  then show ?thesis using None by (simp add: upd_item_def)
next
  case (Some r)
  have only: "q = r" if "q \<in> set (ob_items s)" "oi_id q = i" for q
    using Some that get_item_iff [OF assms(1)] by (metis option.inject)
  have mem: "r \<in> set (ob_items s)" "oi_id r = i" using get_item_mem [OF Some] by simp_all
  have row: "oi_id q = i \<longleftrightarrow> q = r" if "q \<in> set (ob_items s)" for q
    using only [OF that] mem(2) by blast
  then have "map (\<lambda>q. if oi_id q = i \<and> P q then f q else q) (ob_items s)
      = map (\<lambda>q. if q = r \<and> P r then f r else q) (ob_items s)" by (intro map_cong) auto
  moreover have "map (\<lambda>q. if q = r \<and> P r then f r else q) (ob_items s)
      = (if P r then map (\<lambda>q. if q = r then f r else q) (ob_items s) else ob_items s)" by simp
  ultimately have upd: "map (\<lambda>q. if oi_id q = i \<and> P q then f q else q) (ob_items s)
      = (if P r then map (\<lambda>q. if q = r then f r else q) (ob_items s) else ob_items s)" by (rule trans)
  have "map (\<lambda>q. if oi_id q = i then f r else q) (ob_items s) = map (\<lambda>q. if q = r then f r else q) (ob_items s)"
    using row by (intro map_cong) auto
  moreover have "list_ex (\<lambda>q. oi_id q = i \<and> P q) (ob_items s) = P r"
    using row mem unfolding list_ex_iff by blast
  ultimately show ?thesis using Some unfolding upd_item_def set_item_def upd by simp
qed

text \<open>The service's answer to a conditional update: unknown, illegal, moved underneath, or done.\<close>

lemma transition_eq:
  assumes "distinct_items s" "\<And>r. oi_id (f r) = oi_id r"
  shows "transition i a (upd_item i P f) s = (case get_item s i of
     None \<Rightarrow> (Inl (NotFound i), s)
   | Some r \<Rightarrow> if oi_state r \<notin> set (legal_from a) then (Inl (IllegalTransition a (oi_state r)), s)
       else if P r then (Inr (f r), set_item i (f r) s) else (Inl Conflict, s))"
proof (cases "get_item s i")
  case (Some r)
  have "oi_id (f r) = i" using assms(2) get_item_mem [OF Some] by simp
  then show ?thesis using Some get_set_item [of "f r" i s r i]
    by (simp add: transition_def guard_item_def upd_item_eq [OF assms] reread_def)
qed (simp add: transition_def guard_item_def)

lemmas write_defs = attach_review_def approve_def reject_def revoke_def retry_def claim_item_def release_claim_def
  mark_sent_def mark_unconfirmed_def mark_item_failed_def


section \<open>The invariant\<close>

definition stored :: "(string \<Rightarrow> string) \<Rightarrow> outbox \<Rightarrow> outbox_item \<Rightarrow> bool" where
  "stored sha s r \<longleftrightarrow> (\<exists>v. get_revision s (oi_id r) (oi_revision r) = Some v \<and> or_hash v = oi_hash r
     \<and> oi_hash r = compute_content_hash sha (content_of r (or_text v)))"

definition outbox_inv :: "(string \<Rightarrow> string) \<Rightarrow> outbox \<Rightarrow> bool" where
  "outbox_inv sha s \<longleftrightarrow> distinct_items s \<and> (\<forall>r \<in> set (ob_items s). stored sha s r)
     \<and> (\<forall>v \<in> set (ob_revisions s). \<exists>r \<in> set (ob_items s). oi_id r = or_item v \<and> or_revision v \<le> oi_revision r)"

definition blessed :: "outbox_note list \<Rightarrow> outbox_item \<Rightarrow> bool" where
  "blessed ns r \<longleftrightarrow> (oi_state r = Approved \<or> oi_state r = Sending \<longrightarrow> oi_approved_revision r = Some (oi_revision r)
     \<and> (\<exists>user. oi_approved_by r = Some user \<and> Decided (oi_id r) (oi_revision r) (oi_hash r) user \<in> set ns))"

definition handed :: "string \<Rightarrow> outbox_note list \<Rightarrow> nat" where
  "handed i ns = length (filter (\<lambda>n. \<exists>v c. n = Handed i v c) ns)"

definition decided :: "string \<Rightarrow> outbox_note list \<Rightarrow> nat" where
  "decided i ns = length (filter (\<lambda>n. \<exists>v h u. n = Decided i v h u) ns)"

definition turned :: "string \<Rightarrow> outbox_note list \<Rightarrow> nat" where
  "turned i ns = length (filter (\<lambda>n. n = Turned i) ns)"

definition ready_at :: "string \<Rightarrow> outbox \<Rightarrow> nat" where
  "ready_at i s = (if \<exists>r \<in> set (ob_items s). oi_id r = i \<and> oi_state r = Approved then 1 else 0)"

text \<open>Every hand-over follows a decision on the revision and the hash of what was handed over.\<close>

definition vouched :: "(string \<Rightarrow> string) \<Rightarrow> outbox_note list \<Rightarrow> bool" where
  "vouched sha ns \<longleftrightarrow> (\<forall>as i n c bs. ns = as @ Handed i n c # bs \<longrightarrow>
     (\<exists>user. Decided i n (compute_content_hash sha c) user \<in> set as))"

definition outbox_good :: "(string \<Rightarrow> string) \<Rightarrow> outbox_note list \<Rightarrow> outbox_system \<Rightarrow> bool" where
  "outbox_good sha ns y \<longleftrightarrow> outbox_inv sha (sy_store y) \<and> (\<forall>r \<in> set (ob_items (sy_store y)). blessed ns r)
     \<and> vouched sha ns
     \<and> (\<forall>i. handed i ns + count_list (sy_claimed y) i + ready_at i (sy_store y) \<le> decided i ns + turned i ns)"

lemma note_counts_append [simp]:
  "handed i (ns @ ms) = handed i ns + handed i ms" "decided i (ns @ ms) = decided i ns + decided i ms"
  "turned i (ns @ ms) = turned i ns + turned i ms"
  by (simp_all add: handed_def decided_def turned_def)

lemma note_counts_simps [simp]:
  "handed i [] = 0" "decided i [] = 0" "turned i [] = 0"
  "handed i [Handed j n c] = (if j = i then 1 else 0)" "decided i [Handed j n c] = 0" "turned i [Handed j n c] = 0"
  "handed i [Decided j n h u] = 0" "decided i [Decided j n h u] = (if j = i then 1 else 0)" "turned i [Decided j n h u] = 0"
  "handed i [Turned j] = 0" "decided i [Turned j] = 0" "turned i [Turned j] = (if j = i then 1 else 0)"
  by (auto simp: handed_def decided_def turned_def)

lemma blessed_mono: "blessed ns r \<Longrightarrow> blessed (ns @ us) r"
  by (auto simp: blessed_def)

lemma vouched_quiet: "vouched sha ns \<Longrightarrow> (\<And>i n c. Handed i n c \<notin> set us) \<Longrightarrow> vouched sha (ns @ us)"
proof -
  assume v: "vouched sha ns" and q: "\<And>i n c. Handed i n c \<notin> set us"
  show ?thesis unfolding vouched_def
  proof (intro allI impI)
    fix as i n c bs
    assume e: "ns @ us = as @ Handed i n c # bs"
    have "Handed i n c \<notin> set us" by (rule q)
    with e obtain cs where "ns = as @ Handed i n c # cs"
      by (auto simp: append_eq_append_conv2 append_eq_Cons_conv)
    then show "\<exists>user. Decided i n (compute_content_hash sha c) user \<in> set as" using v by (auto simp: vouched_def)
  qed
qed

lemma vouched_snoc:
  assumes "vouched sha ns" "Decided i n (compute_content_hash sha c) user \<in> set ns"
  shows "vouched sha (ns @ [Handed i n c])"
  unfolding vouched_def
proof (intro allI impI)
  fix as j m d bs
  assume "ns @ [Handed i n c] = as @ Handed j m d # bs"
  then show "\<exists>user. Decided j m (compute_content_hash sha d) user \<in> set as"
    using assms by (cases bs rule: rev_cases) (auto simp: vouched_def)
qed

text \<open>An update of the rows that leaves their bindings alone.\<close>

lemma stored_cong: "binding_of q = binding_of r \<Longrightarrow> ob_revisions t = ob_revisions s \<Longrightarrow> stored sha s r \<Longrightarrow> stored sha t q"
  by (auto simp: stored_def binding_of_def content_of_def get_revision_def)

lemma inv_map:
  assumes inv: "outbox_inv sha s" and g: "\<And>r. r \<in> set (ob_items s) \<Longrightarrow> binding_of (g r) = binding_of r"
  shows "outbox_inv sha (s\<lparr>ob_items := map g (ob_items s)\<rparr>)"
proof -
  have id: "oi_id (g r) = oi_id r \<and> oi_revision (g r) = oi_revision r" if "r \<in> set (ob_items s)" for r
    using g [OF that] by (simp add: binding_of_def)
  have "map oi_id (map g (ob_items s)) = map oi_id (ob_items s)" using id by simp
  then have "distinct (map oi_id (map g (ob_items s)))" using inv by (simp only: outbox_inv_def)
  moreover have "stored sha (s\<lparr>ob_items := map g (ob_items s)\<rparr>) (g r)" if "r \<in> set (ob_items s)" for r
    using stored_cong [OF g [OF that], of _ s sha] inv that by (simp add: outbox_inv_def)
  moreover have "\<exists>r \<in> set (ob_items s). oi_id (g r) = or_item v \<and> or_revision v \<le> oi_revision (g r)"
    if "v \<in> set (ob_revisions s)" for v
    using inv id that unfolding outbox_inv_def by metis
  ultimately show ?thesis by (auto simp: outbox_inv_def)
qed

lemma good_map:
  assumes good: "outbox_good sha ns y" and g: "\<And>r. r \<in> set (ob_items (sy_store y)) \<Longrightarrow> binding_of (g r) = binding_of r"
    and z: "sy_store z = (sy_store y)\<lparr>ob_items := map g (ob_items (sy_store y))\<rparr>"
    and bl: "\<And>r. r \<in> set (ob_items (sy_store y)) \<Longrightarrow> blessed (ns @ us) r \<Longrightarrow> blessed (ns @ us) (g r)"
    and vo: "vouched sha (ns @ us)"
    and credit: "\<And>i. handed i us + count_list (sy_claimed z) i + ready_at i (sy_store z)
      \<le> count_list (sy_claimed y) i + ready_at i (sy_store y) + decided i us + turned i us"
  shows "outbox_good sha (ns @ us) z"
proof -
  have "outbox_inv sha (sy_store z)" unfolding z by (rule inv_map) (use good g in \<open>simp_all add: outbox_good_def\<close>)
  moreover have "\<forall>r \<in> set (ob_items (sy_store z)). blessed (ns @ us) r"
    using bl good blessed_mono by (auto simp: z outbox_good_def)
  moreover have "handed i (ns @ us) + count_list (sy_claimed z) i + ready_at i (sy_store z)
      \<le> decided i (ns @ us) + turned i (ns @ us)" for i
  proof -
    have "handed i ns + count_list (sy_claimed y) i + ready_at i (sy_store y) \<le> decided i ns + turned i ns"
      using good by (simp add: outbox_good_def)
    then show ?thesis using credit [of i] by simp
  qed
  ultimately show ?thesis using vo by (simp add: outbox_good_def)
qed


section \<open>Every event keeps it\<close>

lemma good_distinct: "outbox_good sha ns y \<Longrightarrow> distinct_items (sy_store y)"
  by (simp add: outbox_good_def outbox_inv_def)

text \<open>The item of an id replaced by one with the same binding.\<close>

lemma ready_set_item:
  assumes "get_item s i = Some r" "oi_id q = i"
  shows "ready_at k (set_item i q s) = (if k = i then if oi_state q = Approved then 1 else 0 else ready_at k s)"
proof -
  have r: "r \<in> set (ob_items s)" "oi_id r = i" using get_item_mem [OF assms(1)] by simp_all
  let ?g = "\<lambda>p. if oi_id p = i then q else p"
  have items: "ob_items (set_item i q s) = map ?g (ob_items s)" by (simp add: set_item_def)
  have "(\<exists>p \<in> set (ob_items (set_item i q s)). oi_id p = k \<and> oi_state p = Approved)
      \<longleftrightarrow> (\<exists>p \<in> set (ob_items s). oi_id (?g p) = k \<and> oi_state (?g p) = Approved)"
    unfolding items set_map by blast
  also have "\<dots> \<longleftrightarrow> (if k = i then oi_state q = Approved else \<exists>p \<in> set (ob_items s). oi_id p = k \<and> oi_state p = Approved)"
    using r assms(2) by (auto split: if_splits)
  finally show ?thesis by (simp add: ready_at_def)
qed

lemma ready_item: "distinct_items s \<Longrightarrow> get_item s i = Some r \<Longrightarrow> ready_at i s = (if oi_state r = Approved then 1 else 0)"
  unfolding ready_at_def by (auto simp: get_item_iff) (metis distinct_map inj_on_def)+

lemma good_set:
  assumes good: "outbox_good sha ns y" and r: "get_item (sy_store y) i = Some r" and q: "binding_of q = binding_of r"
    and z: "sy_store z = set_item i q (sy_store y)"
    and bl: "blessed (ns @ us) q" and vo: "vouched sha (ns @ us)"
    and other: "\<And>k. k \<noteq> i \<Longrightarrow> handed k us + count_list (sy_claimed z) k \<le> count_list (sy_claimed y) k + decided k us + turned k us"
    and own: "handed i us + count_list (sy_claimed z) i + (if oi_state q = Approved then 1 else 0)
      \<le> count_list (sy_claimed y) i + (if oi_state r = Approved then 1 else 0) + decided i us + turned i us"
  shows "outbox_good sha (ns @ us) z"
proof (rule good_map [OF good _ _ _ vo, where g = "\<lambda>p. if oi_id p = i then q else p"])
  have d: "distinct_items (sy_store y)" by (rule good_distinct [OF good])
  have only: "p = r" if "p \<in> set (ob_items (sy_store y))" "oi_id p = i" for p
    using that r get_item_iff [OF d] by (metis option.inject)
  then show "binding_of (if oi_id p = i then q else p) = binding_of p" if "p \<in> set (ob_items (sy_store y))" for p
    using that q by auto
  show "sy_store z = (sy_store y)\<lparr>ob_items := map (\<lambda>p. if oi_id p = i then q else p) (ob_items (sy_store y))\<rparr>"
    using z by (simp add: set_item_def)
  show "blessed (ns @ us) p \<Longrightarrow> blessed (ns @ us) (if oi_id p = i then q else p)" for p using bl by simp
  have id: "oi_id q = i" using q get_item_mem [OF r] by (simp add: binding_of_def)
  show "handed k us + count_list (sy_claimed z) k + ready_at k (sy_store z)
      \<le> count_list (sy_claimed y) k + ready_at k (sy_store y) + decided k us + turned k us" for k
    using other [of k] own ready_item [OF d r] unfolding z ready_set_item [OF r id] by (cases "k = i") auto
qed

text \<open>An event that writes nothing and reports nothing but a refusal.\<close>

lemma good_same:
  assumes "outbox_good sha ns y" "sy_store z = sy_store y" "\<And>i n c. Handed i n c \<notin> set us"
    and "\<And>k. handed k us + count_list (sy_claimed z) k \<le> count_list (sy_claimed y) k + decided k us + turned k us"
  shows "outbox_good sha (ns @ us) z"
proof (rule good_map [OF assms(1), where g = id])
  show "vouched sha (ns @ us)" using assms(1,3) vouched_quiet [of sha ns us] by (simp add: outbox_good_def)
  show "handed k us + count_list (sy_claimed z) k + ready_at k (sy_store z)
      \<le> count_list (sy_claimed y) k + ready_at k (sy_store y) + decided k us + turned k us" for k
    using assms(4) [of k] assms(2) by simp
qed (simp_all add: assms(2))

text \<open>
  A service call on the item of an id that leaves the binding, changes no claim and reports nothing, or the
  decision it made.
\<close>

lemma good_transition:
  assumes good: "outbox_good sha ns y" and id: "\<And>r. binding_of (f r) = binding_of r"
    and t: "transition i a (upd_item i P f) (sy_store y) = (res, s)"
    and z: "sy_store z = s" "sy_claimed z = sy_claimed y"
    and us: "\<And>r. res = Inr (f r) \<Longrightarrow> get_item (sy_store y) i = Some r \<Longrightarrow> oi_state r \<in> set (legal_from a)
        \<Longrightarrow> P r \<Longrightarrow> blessed ns r \<Longrightarrow> blessed (ns @ us) (f r)
          \<and> (oi_state (f r) = Approved \<longrightarrow> oi_state r = Approved \<or> decided i us + turned i us > 0)"
    and quiet: "\<And>j n c. Handed j n c \<notin> set us"
  shows "outbox_good sha (ns @ us) z"
proof -
  have oid: "oi_id (f r) = oi_id r" for r using id [of r] by (simp add: binding_of_def)
  have nh: "handed k us = 0" for k using quiet by (auto simp: handed_def filter_empty_conv)
  have vo: "vouched sha (ns @ us)" using good vouched_quiet [OF _ quiet] by (simp add: outbox_good_def)
  note eq = transition_eq [OF good_distinct [OF good] oid, of i a P]
  show ?thesis
  proof (cases "s = sy_store y")
    case True
    then show ?thesis using good_same [OF good, of z us] z nh quiet by simp
  next
    case False
    then obtain r where r: "get_item (sy_store y) i = Some r" "oi_state r \<in> set (legal_from a)" "P r"
      "res = Inr (f r)" "s = set_item i (f r) (sy_store y)"
      using t eq by (auto split: option.splits if_splits)
    have "blessed ns r" using good get_item_mem [OF r(1)] by (simp add: outbox_good_def)
    note u = us [OF r(4,1,2,3) this]
    show ?thesis
      by (rule good_set [OF good r(1) id]) (use z r(5) u vo nh in auto)
  qed
qed


text \<open>The claim of a dispatcher is paid by the approval it takes.\<close>

lemma good_claim:
  assumes good: "outbox_good sha ns y" and e: "outbox_act sha (now, ClaimItem i) y = (us, z)"
  shows "outbox_good sha (ns @ us) z"
proof -
  let ?f = "\<lambda>r. r\<lparr>oi_state := Sending, oi_claimed_at := Some now, oi_updated := now\<rparr>"
  note eq = upd_item_eq [OF good_distinct [OF good], of ?f i "in_state Approved"]
  have vo: "vouched sha (ns @ [])" using good by (simp add: outbox_good_def)
  show ?thesis
  proof (cases "\<exists>r. get_item (sy_store y) i = Some r \<and> oi_state r = Approved")
    case True
    then obtain r where r: "get_item (sy_store y) i = Some r" "oi_state r = Approved" by blast
    then have us: "us = []" and z: "z = y\<lparr>sy_store := set_item i (?f r) (sy_store y), sy_claimed := i # sy_claimed y\<rparr>"
      using e eq by (auto simp: claim_item_def in_state_def)
    have "blessed ns r" using good get_item_mem [OF r(1)] by (simp add: outbox_good_def)
    then have "blessed (ns @ []) (?f r)" using r(2) by (simp add: blessed_def)
    then show ?thesis unfolding us
      by (intro good_set [OF good r(1), of "?f r" z "[]"]) (use vo r(2) in \<open>auto simp: z binding_of_def\<close>)
  next
    case False
    then have us: "us = []" and z: "z = y" using e eq by (auto simp: claim_item_def in_state_def split: option.splits)
    then show ?thesis using good by simp
  qed
qed

lemma verify_binding_ok:
  assumes inv: "outbox_inv sha s" and r: "get_item s i = Some r" "oi_state r = Sending"
  shows "\<exists>v. verify_binding sha now i s = (Inr (r, v), s) \<and> get_revision s i (oi_revision r) = Some v
    \<and> compute_content_hash sha (content_of r (or_text v)) = oi_hash r \<and> or_revision v = oi_revision r"
proof -
  have "stored sha s r" "oi_id r = i" using inv get_item_mem [OF r(1)] by (simp_all add: outbox_inv_def)
  then obtain v where "get_revision s i (oi_revision r) = Some v" "or_hash v = oi_hash r"
    "oi_hash r = compute_content_hash sha (content_of r (or_text v))" by (auto simp: stored_def)
  then show ?thesis using r get_revision_mem by (auto simp: verify_binding_def Let_def)
qed

text \<open>In a store that keeps its invariant the third check of the binding never fails a claimed item.\<close>

lemma verify_binding_eq:
  assumes "outbox_inv sha s"
  shows "verify_binding sha now i s = (case get_item s i of
     None \<Rightarrow> (Inl (NotFound i), s)
   | Some r \<Rightarrow> if oi_state r \<noteq> Sending then (Inl (IllegalTransition ClaimA (oi_state r)), s)
       else (Inr (r, the (get_revision s i (oi_revision r))), s))"
proof (cases "get_item s i")
  case (Some r)
  then show ?thesis using verify_binding_ok [OF assms Some, of now]
    by (cases "oi_state r = Sending") (auto, simp add: verify_binding_def)
qed (simp add: verify_binding_def)

lemma good_hand_over:
  assumes good: "outbox_good sha ns y" and e: "outbox_act sha (now, HandOver i) y = (us, z)"
  shows "outbox_good sha (ns @ us) z"
proof (cases "i \<in> set (sy_claimed y)")
  case True
  have inv: "outbox_inv sha (sy_store y)" using good by (simp add: outbox_good_def)
  have count: "count_list (remove1 i xs) k = count_list xs k - (if k = i then 1 else 0)"
    and pos: "i \<in> set xs \<Longrightarrow> 0 < count_list xs i" for k and xs :: "string list"
    by (induction xs) auto
  show ?thesis
  proof (cases "\<exists>r. get_item (sy_store y) i = Some r \<and> oi_state r = Sending")
    case True
    then obtain r where r: "get_item (sy_store y) i = Some r" "oi_state r = Sending" by blast
    obtain v where v: "verify_binding sha now i (sy_store y) = (Inr (r, v), sy_store y)"
      "compute_content_hash sha (content_of r (or_text v)) = oi_hash r" "or_revision v = oi_revision r"
      using verify_binding_ok [OF inv r, of now] by blast
    have id: "oi_id r = i" and "r \<in> set (ob_items (sy_store y))" using get_item_mem [OF r(1)] by simp_all
    then have "blessed ns r" using good by (simp add: outbox_good_def)
    then obtain user where "Decided i (or_revision v) (compute_content_hash sha (content_of r (or_text v))) user \<in> set ns"
      using r(2) v id by (auto simp: blessed_def)
    then have vo: "vouched sha (ns @ [Handed i (or_revision v) (content_of r (or_text v))])"
      using good by (intro vouched_snoc) (simp_all add: outbox_good_def)
    have us: "us = [Handed i (or_revision v) (content_of r (or_text v))]"
      and z: "z = y\<lparr>sy_claimed := remove1 i (sy_claimed y), sy_store := sy_store y, sy_flight := i # sy_flight y\<rparr>"
      using e \<open>i \<in> set (sy_claimed y)\<close> v(1) by (auto simp: Let_def)
    show ?thesis
    proof (rule good_map [OF good, where g = id])
      show "vouched sha (ns @ us)" using vo us by simp
      show "handed k us + count_list (sy_claimed z) k + ready_at k (sy_store z)
          \<le> count_list (sy_claimed y) k + ready_at k (sy_store y) + decided k us + turned k us" for k
        using count [of "sy_claimed y" k] pos [OF \<open>i \<in> set (sy_claimed y)\<close>] by (simp add: us z)
    qed (simp_all add: z)
  next
    case False
    then have "us = []" "z = y\<lparr>sy_claimed := remove1 i (sy_claimed y)\<rparr>"
      using e \<open>i \<in> set (sy_claimed y)\<close> verify_binding_eq [OF inv, of now i]
      by (auto simp: Let_def split: option.splits)
    then show ?thesis using count by (intro good_same [OF good]) auto
  qed
next
  case False
  then show ?thesis using e good by auto
qed


text \<open>Decisions and settlements.\<close>

lemma human_store [simp]:
  "sy_store (snd (human_decision a user out y)) = snd out" "sy_claimed (snd (human_decision a user out y)) = sy_claimed y"
  by (simp_all add: human_decision_def)

lemma good_decision:
  assumes good: "outbox_good sha ns y" and id: "\<And>r. binding_of (f r) = binding_of r"
    and act: "a = ApproveA \<or> a = RetryA"
    and f: "\<And>r. P r \<Longrightarrow> oi_state (f r) = Approved \<and> oi_approved_revision (f r) = Some (oi_revision r)
      \<and> oi_approved_by (f r) = Some user"
  shows "outbox_good sha (ns @ fst (human_decision a user (transition i a (upd_item i P f) (sy_store y)) y))
    (snd (human_decision a user (transition i a (upd_item i P f) (sy_store y)) y))"
proof -
  obtain res s where t: "transition i a (upd_item i P f) (sy_store y) = (res, s)" by fastforce
  have same: "oi_id (f r) = oi_id r \<and> oi_revision (f r) = oi_revision r \<and> oi_hash (f r) = oi_hash r" for r
    using id [of r] by (simp add: binding_of_def)
  show ?thesis
    by (rule good_transition [OF good id t])
      (use act f same t in \<open>auto simp: human_decision_def blessed_def dest: get_item_mem split: sum.splits\<close>)
qed

lemma good_refusal:
  assumes good: "outbox_good sha ns y" and id: "\<And>r. binding_of (f r) = binding_of r"
    and act: "a \<noteq> ApproveA" "a \<noteq> RetryA"
    and f: "\<And>r. P r \<Longrightarrow> oi_state (f r) \<noteq> Approved \<and> oi_state (f r) \<noteq> Sending"
  shows "outbox_good sha (ns @ fst (human_decision a user (transition i a (upd_item i P f) (sy_store y)) y))
    (snd (human_decision a user (transition i a (upd_item i P f) (sy_store y)) y))"
proof -
  obtain res s where t: "transition i a (upd_item i P f) (sy_store y) = (res, s)" by fastforce
  show ?thesis
    by (rule good_transition [OF good id t])
      (use act f t in \<open>auto simp: human_decision_def blessed_def split: sum.splits\<close>)
qed

lemma good_write:
  assumes good: "outbox_good sha ns y" and id: "\<And>r. binding_of (f r) = binding_of r"
    and f: "\<And>r. P r \<Longrightarrow> oi_state (f r) \<noteq> Approved \<and> oi_state (f r) \<noteq> Sending"
    and z: "sy_store z = snd (transition i a (upd_item i P f) (sy_store y))" "sy_claimed z = sy_claimed y"
    and us: "\<And>j n c. Handed j n c \<notin> set us"
  shows "outbox_good sha (ns @ us) z"
proof -
  obtain res s where t: "transition i a (upd_item i P f) (sy_store y) = (res, s)" by fastforce
  show ?thesis
    by (rule good_transition [OF good id t]) (use f t z us in \<open>auto simp: blessed_def\<close>)
qed

text \<open>The refusal of a send gives the claim back, and the approval with it.\<close>

lemma good_release:
  assumes good: "outbox_good sha ns y"
    and z: "sy_store z = snd (transition i ReleaseA (release_claim now i) (sy_store y))" "sy_claimed z = sy_claimed y"
  shows "outbox_good sha (ns @ [Turned i]) z"
proof -
  let ?f = "\<lambda>r. r\<lparr>oi_state := Approved, oi_claimed_at := None, oi_updated := now\<rparr>"
  obtain res s where t: "transition i ReleaseA (upd_item i (in_state Sending) ?f) (sy_store y) = (res, s)" by fastforce
  show ?thesis
    by (rule good_transition [OF good _ t])
      (use t z in \<open>auto simp: blessed_def binding_of_def release_claim_def in_state_def\<close>)
qed

lemma good_answer:
  assumes good: "outbox_good sha ns y" and e: "outbox_act sha (now, Answer i ans) y = (us, z)"
  shows "outbox_good sha (ns @ us) z"
proof (cases "i \<in> set (sy_flight y)")
  case True
  show ?thesis
  proof (cases ans)
    case RefusedHere
    then have "us = [Turned i]" using e True by auto
    then show ?thesis using good_release [OF good, of z i now] e True RefusedHere
      by (auto simp: settle_publication_def)
  next
    case (RefusedNotBound m)
    show ?thesis
      by (rule good_write [OF good, where a = FailA and i = i and P = "in_state Sending"
            and f = "\<lambda>r. r\<lparr>oi_state := Failed, oi_failure := Some m, oi_updated := now\<rparr>"])
        (use e True RefusedNotBound in \<open>auto simp: settle_publication_def mark_item_failed_def binding_of_def\<close>)
  next
    case Confirmed
    show ?thesis
      by (rule good_write [OF good, where a = SentA and i = i and P = "in_state Sending"
            and f = "\<lambda>r. r\<lparr>oi_state := Sent, oi_sent_at := Some now, oi_updated := now\<rparr>"])
        (use e True Confirmed in \<open>auto simp: settle_publication_def mark_sent_def binding_of_def\<close>)
  next
    case (UnconfirmedSend ob)
    show ?thesis
    proof (cases ob)
      case None
      show ?thesis
        by (rule good_write [OF good, where a = FailA and i = i and P = "in_state Sending" and
              f = "\<lambda>r. r\<lparr>oi_state := Failed, oi_failure := Some (''the platform did not confirm and no delivery ledger recorded the attempt ''
                @ em_dash @ '' it may or may not have arrived. Check the channel before retrying.''), oi_updated := now\<rparr>"])
          (use e True UnconfirmedSend None in \<open>auto simp: settle_publication_def mark_item_failed_def binding_of_def\<close>)
    next
      case (Some k)
      show ?thesis
        by (rule good_write [OF good, where a = UnconfirmedA and i = i and P = "in_state Sending"
              and f = "\<lambda>r. r\<lparr>oi_state := Unconfirmed, oi_obligation := Some k, oi_updated := now\<rparr>"])
          (use e True UnconfirmedSend Some in \<open>auto simp: settle_publication_def mark_unconfirmed_def binding_of_def\<close>)
    qed
  next
    case Threw
    then show ?thesis using e True by (intro good_same [OF good]) (auto simp: settle_publication_def)
  qed
qed (use e good in auto)

lemma good_reconcile:
  assumes good: "outbox_good sha ns y"
  shows "outbox_good sha ns (on_store (reconcile_sending now i ledger) y)"
proof -
  have fail: "outbox_good sha (ns @ []) (on_store (\<lambda>s. snd (transition i FailA (mark_item_failed now i m) s)) y)" for m
    by (rule good_write [OF good, where a = FailA and i = i and P = "in_state Sending"
          and f = "\<lambda>r. r\<lparr>oi_state := Failed, oi_failure := Some m, oi_updated := now\<rparr>"])
      (auto simp: on_store_def mark_item_failed_def binding_of_def)
  have unc: "outbox_good sha (ns @ []) (on_store (\<lambda>s. snd (transition i UnconfirmedA (mark_unconfirmed now i k) s)) y)" for k
    by (rule good_write [OF good, where a = UnconfirmedA and i = i and P = "in_state Sending"
          and f = "\<lambda>r. r\<lparr>oi_state := Unconfirmed, oi_obligation := Some k, oi_updated := now\<rparr>"])
      (auto simp: on_store_def mark_unconfirmed_def binding_of_def)
  show ?thesis using fail unc good
    by (cases ledger; cases "the ledger") (auto simp: on_store_def reconcile_sending_def)
qed

lemma good_review:
  assumes "outbox_good sha ns y"
  shows "outbox_good sha ns (on_store (\<lambda>s. snd (transition i ReviewA (attach_review now i receipt) s)) y)"
proof -
  have "outbox_good sha (ns @ []) (on_store (\<lambda>s. snd (transition i ReviewA (attach_review now i receipt) s)) y)"
    by (rule good_write [OF assms, where a = ReviewA and i = i and P = "in_state AwaitingReview"
          and f = "\<lambda>r. r\<lparr>oi_state := AwaitingApproval, oi_review := Some receipt, oi_updated := now\<rparr>"])
      (auto simp: on_store_def attach_review_def binding_of_def)
  then show ?thesis by simp
qed

lemma good_stale_reviews:
  assumes "outbox_good sha ns y"
  shows "outbox_good sha ns (on_store (stale_reviews now) y)"
proof -
  have "outbox_good sha ns (on_store (fold (\<lambda>r t. snd (transition (oi_id r) ReviewA
      (attach_review now (oi_id r) (unavailable_receipt now r)) t)) rs) y)" if "outbox_good sha ns y" for rs y
    using that
  proof (induction rs arbitrary: y)
    case (Cons r rs)
    from Cons.IH [OF good_review [OF Cons.prems, of "oi_id r" now "unavailable_receipt now r"]]
    show ?case by (simp add: on_store_def)
  qed (simp add: on_store_def)
  from this [OF assms, of "list_stale_reviews now (sy_store y)"]
  show ?thesis by (simp add: on_store_def stale_reviews_def)
qed

lemma good_expire:
  assumes "outbox_good sha ns y"
  shows "outbox_good sha ns (on_store (\<lambda>s. snd (expire_where now P s)) y)"
proof -
  have "outbox_good sha (ns @ []) (on_store (\<lambda>s. snd (expire_where now P s)) y)"
  proof (rule good_map [OF assms, where g = "\<lambda>r. if P r then r\<lparr>oi_state := Expired, oi_updated := now\<rparr> else r"])
    show "vouched sha (ns @ [])" using assms by (simp add: outbox_good_def)
    show "handed k [] + count_list (sy_claimed (on_store (\<lambda>s. snd (expire_where now P s)) y)) k
        + ready_at k (sy_store (on_store (\<lambda>s. snd (expire_where now P s)) y))
      \<le> count_list (sy_claimed y) k + ready_at k (sy_store y) + decided k [] + turned k []" for k
      by (auto simp: ready_at_def on_store_def expire_where_def split: if_splits)
  qed (auto simp: on_store_def expire_where_def binding_of_def blessed_def)
  then show ?thesis by simp
qed


text \<open>New revisions.\<close>

lemma get_revision_snoc:
  "get_revision (s\<lparr>ob_revisions := ob_revisions s @ [v]\<rparr>) i n
     = (case get_revision s i n of None \<Rightarrow> if or_item v = i \<and> or_revision v = n then Some v else None | Some w \<Rightarrow> Some w)"
  by (simp add: get_revision_def find_append split: option.split)

lemma stored_snoc: "stored sha s r \<Longrightarrow> stored sha (s\<lparr>ob_items := xs, ob_revisions := ob_revisions s @ [v]\<rparr>) r"
proof -
  have "get_revision (s\<lparr>ob_items := xs, ob_revisions := ob_revisions s @ [v]\<rparr>) i n = Some w"
    if "get_revision s i n = Some w" for i n w
    using that by (simp add: get_revision_def find_append)
  then show "stored sha s r \<Longrightarrow> stored sha (s\<lparr>ob_items := xs, ob_revisions := ob_revisions s @ [v]\<rparr>) r"
    unfolding stored_def by blast
qed

lemma propose_cases:
  assumes "propose sha now i inp s = Inr (x, t)"
  obtains "t = s"
  | v where "get_item s i = None" "get_revision s i 1 = None"
    "v = \<lparr>or_item = i, or_revision = 1, or_text = pi_text inp, or_hash = oi_hash (proposed_item sha now i inp),
        or_author = ''agent'', or_created = now\<rparr>"
    "t = s\<lparr>ob_items := ob_items s @ [proposed_item sha now i inp], ob_revisions := ob_revisions s @ [v]\<rparr>"
proof (cases "active_twin sha inp s")
  case None
  let ?v = "\<lparr>or_item = i, or_revision = 1, or_text = pi_text inp, or_hash = oi_hash (proposed_item sha now i inp),
      or_author = ''agent'', or_created = now\<rparr>"
  have "get_item s i = None \<and> get_revision s i 1 = None
      \<and> t = s\<lparr>ob_items := ob_items s @ [proposed_item sha now i inp], ob_revisions := ob_revisions s @ [?v]\<rparr>"
    using assms None by (simp add: propose_def insert_revision_def Let_def split: if_splits)
  then show ?thesis using that(2) by blast
next
  case (Some r)
  then show ?thesis using assms that(1) by (simp add: propose_def)
qed

lemma good_propose:
  assumes good: "outbox_good sha ns y" and p: "propose sha now i inp (sy_store y) = Inr (x, t)"
  shows "outbox_good sha ns (y\<lparr>sy_store := t\<rparr>)"
  using p
proof (cases rule: propose_cases)
  case 1
  then show ?thesis using good by simp
next
  case (2 v)
  let ?s = "sy_store y" and ?r = "proposed_item sha now i inp"
  have inv: "outbox_inv sha ?s" using good by (simp add: outbox_good_def)
  have new: "stored sha t ?r"
    using 2 get_revision_snoc [of ?s v i 1]
    by (auto simp: stored_def proposed_item_def content_of_def proposed_content_def get_revision_def)
  have "outbox_inv sha t"
    unfolding outbox_inv_def
  proof (intro conjI ballI)
    show "distinct_items t" using inv 2(1) by (auto simp: 2(4) outbox_inv_def get_item_None proposed_item_def)
    fix r assume "r \<in> set (ob_items t)"
    then show "stored sha t r" using new inv stored_snoc by (auto simp: 2(4) outbox_inv_def)
  next
    fix w assume "w \<in> set (ob_revisions t)"
    then show "\<exists>r \<in> set (ob_items t). oi_id r = or_item w \<and> or_revision w \<le> oi_revision r"
      using inv by (auto simp: 2 outbox_inv_def proposed_item_def)
  qed
  moreover have "oi_state ?r \<noteq> Approved" "blessed ns ?r" by (auto simp: proposed_item_def blessed_def)
  moreover have "ready_at k t = ready_at k ?s" for k
    using calculation(2) by (auto simp: ready_at_def 2(4))
  ultimately show ?thesis using good by (auto simp: outbox_good_def 2(4))
qed

lemma edit_cases:
  assumes d: "distinct_items s" and e: "service_edit sha now i n text user s = (res, t)"
  obtains "t = s" "\<exists>x. res = Inl x"
  | r q v where "get_item s i = Some r" "oi_state r = AwaitingApproval" "oi_revision r = n" "get_revision s i (Suc n) = None"
    "q = r\<lparr>oi_revision := Suc n, oi_hash := compute_content_hash sha (content_of r text), oi_state := AwaitingApproval,
        oi_approved_by := None, oi_approved_at := None, oi_approved_revision := None, oi_updated := now\<rparr>"
    "v = \<lparr>or_item = i, or_revision = Suc n, or_text = text, or_hash = oi_hash q, or_author = user, or_created = now\<rparr>"
    "t = (set_item i q s)\<lparr>ob_revisions := ob_revisions s @ [v]\<rparr>" "res = Inr q"
proof -
  let ?f = "\<lambda>h r. r\<lparr>oi_revision := Suc n, oi_hash := h, oi_state := AwaitingApproval, oi_approved_by := None,
      oi_approved_at := None, oi_approved_revision := None, oi_updated := now\<rparr>"
  have eq: "upd_item i (\<lambda>r. oi_revision r = n \<and> oi_state r = AwaitingApproval) (?f h) s = (case get_item s i of
      None \<Rightarrow> (False, s) | Some r \<Rightarrow> if oi_revision r = n \<and> oi_state r = AwaitingApproval
        then (True, set_item i (?f h r) s) else (False, s))" for h
    using upd_item_eq [OF d, of "?f h" i] by (simp cong: option.case_cong if_cong)
  show ?thesis
  proof (cases "get_item s i")
    case None
    then have "t = s \<and> (\<exists>x. res = Inl x)" using e by (auto simp: service_edit_def guard_item_def)
    then show ?thesis using that(1) by blast
  next
    case (Some r)
    let ?q = "?f (compute_content_hash sha (content_of r text)) r"
    have id: "oi_id r = i" using get_item_mem [OF Some] by simp
    have rev: "get_revision (set_item i ?q s) k m = get_revision s k m" for k m
      by (simp add: set_item_def)
    have own: "get_item ((set_item i ?q s)\<lparr>ob_revisions := vs\<rparr>) i = Some ?q" for vs
      using get_set_item [of ?q i s r i] id Some by (simp add: get_item_def)
    show ?thesis
    proof (cases "oi_state r = AwaitingApproval \<and> oi_revision r = n \<and> get_revision s i (Suc n) = None")
      case True
      have ed: "edit_item sha now i n text user s = Inr (Some ?q, (set_item i ?q s)\<lparr>ob_revisions := ob_revisions s
          @ [\<lparr>or_item = i, or_revision = Suc n, or_text = text, or_hash = oi_hash ?q, or_author = user, or_created = now\<rparr>]\<rparr>)"
        using True Some by (simp add: edit_item_def Let_def eq insert_revision_def rev own) (simp add: set_item_def)
      show ?thesis
        by (rule that(2) [OF Some]) (use True ed e Some in \<open>auto simp: service_edit_def guard_item_def\<close>)
    next
      case False
      then have "t = s \<and> (\<exists>x. res = Inl x)"
        using e Some by (auto simp: service_edit_def guard_item_def edit_item_def Let_def eq insert_revision_def rev
            split: if_splits)
      then show ?thesis using that(1) by blast
    qed
  qed
qed

lemma good_edit:
  assumes good: "outbox_good sha ns y" and e: "service_edit sha now i n text user (sy_store y) = (res, t)"
    and z: "sy_store z = t" "sy_claimed z = sy_claimed y"
  shows "outbox_good sha ns z"
  using good_distinct [OF good] e
proof (cases rule: edit_cases)
  case 1
  then show ?thesis using good z by (simp add: outbox_good_def)
next
  case (2 r q v)
  let ?s = "sy_store y"
  have inv: "outbox_inv sha ?s" using good by (simp add: outbox_good_def)
  have id: "oi_id q = i" and r: "r \<in> set (ob_items ?s)" using get_item_mem [OF 2(1)] 2(5) by simp_all
  have items: "ob_items t = map (\<lambda>p. if oi_id p = i then q else p) (ob_items ?s)" by (simp add: 2(7) set_item_def)
  have row: "p = r" if "p \<in> set (ob_items ?s)" "oi_id p = i" for p
    using 2(1) that get_item_iff [OF good_distinct [OF good]] by (metis option.inject)
  have new: "stored sha t q"
    using 2(4,5,6) id by (auto simp: 2(7) stored_def get_revision_def set_item_def find_append content_of_def)
  have "outbox_inv sha t"
    unfolding outbox_inv_def
  proof (intro conjI ballI)
    have "map oi_id (ob_items t) = map oi_id (ob_items ?s)" using id by (simp add: items)
    then show "distinct_items t" using inv by (simp add: outbox_inv_def)
    fix p assume p: "p \<in> set (ob_items t)"
    show "stored sha t p"
    proof (cases "p = q")
      case False
      then have "stored sha ?s p" using p inv by (auto simp: items outbox_inv_def split: if_splits)
      then show ?thesis using stored_snoc by (simp add: 2(7) set_item_def)
    qed (simp add: new)
  next
    fix w assume "w \<in> set (ob_revisions t)"
    then consider "w = v" | "w \<in> set (ob_revisions ?s)" by (auto simp: 2(7))
    then show "\<exists>p \<in> set (ob_items t). oi_id p = or_item w \<and> or_revision w \<le> oi_revision p"
    proof cases
      case 1
      then have "q \<in> set (ob_items t) \<and> oi_id q = or_item w \<and> or_revision w \<le> oi_revision q"
        using r get_item_mem [OF 2(1)] id 2(5,6) by (auto simp: items image_iff)
      then show ?thesis by blast
    next
      case 2: 2
      then obtain p where p: "p \<in> set (ob_items ?s)" "oi_id p = or_item w" "or_revision w \<le> oi_revision p"
        using inv by (auto simp: outbox_inv_def)
      show ?thesis
      proof (cases "oi_id p = i")
        case True
        then have "q \<in> set (ob_items t)" "or_revision w \<le> oi_revision q"
          using p row [OF p(1) True] \<open>oi_revision r = n\<close> by (auto simp: items image_iff \<open>q = _\<close>)
        then show ?thesis using p(2) True id by auto
      next
        case False
        then show ?thesis using p by (auto simp: items image_iff)
      qed
    qed
  qed
  moreover have "blessed ns q" by (simp add: 2(5) blessed_def)
  moreover have "ready_at k t = ready_at k ?s" for k
  proof -
    have "ready_at k t = ready_at k (set_item i q ?s)" by (simp add: 2(7) ready_at_def)
    then show ?thesis using ready_set_item [OF 2(1) id, of k] ready_item [OF good_distinct [OF good] 2(1)] 2(2,5) by simp
  qed
  ultimately show ?thesis using good z by (auto simp: outbox_good_def items split: if_splits)
qed


section \<open>Histories\<close>

lemma outbox_keeps: "outbox_good sha ns y \<Longrightarrow> outbox_act sha x y = (us, z) \<Longrightarrow> outbox_good sha (ns @ us) z"
proof -
  assume good: "outbox_good sha ns y" and e: "outbox_act sha x y = (us, z)"
  obtain now ev where x: "x = (now, ev)" by fastforce
  show ?thesis
  proof (cases ev)
    case (Propose i inp)
    then show ?thesis using e x good good_propose [OF good] by (auto split: sum.splits)
  next
    case (Review i receipt)
    then show ?thesis using e x good_review [OF good] by auto
  next
    case (Approve i n h user)
    let ?out = "human_decision ApproveA user (transition i ApproveA (approve now i n h user) (sy_store y)) y"
    have "outbox_good sha (ns @ fst ?out) (snd ?out)"
      unfolding approve_def by (rule good_decision [OF good]) (simp_all add: binding_of_def)
    then show ?thesis using e x Approve by simp
  next
    case (RetryItem i user)
    let ?out = "human_decision RetryA user (transition i RetryA (retry now i user) (sy_store y)) y"
    have "outbox_good sha (ns @ fst ?out) (snd ?out)"
      unfolding retry_def by (rule good_decision [OF good]) (simp_all add: binding_of_def)
    then show ?thesis using e x RetryItem by simp
  next
    case (Reject i reason user)
    let ?out = "human_decision RejectA user (transition i RejectA (reject now i reason) (sy_store y)) y"
    have "outbox_good sha (ns @ fst ?out) (snd ?out)"
      unfolding reject_def by (rule good_refusal [OF good]) (simp_all add: binding_of_def)
    then show ?thesis using e x Reject by simp
  next
    case (Revoke i user)
    let ?out = "human_decision RevokeA user (transition i RevokeA (revoke now i) (sy_store y)) y"
    have "outbox_good sha (ns @ fst ?out) (snd ?out)"
      unfolding revoke_def by (rule good_refusal [OF good]) (simp_all add: binding_of_def)
    then show ?thesis using e x Revoke by simp
  next
    case (Edit i n body user)
    let ?out = "service_edit sha now i n body user (sy_store y)"
    have "outbox_good sha ns (snd (human_decision EditA user ?out y))"
      by (rule good_edit [OF good, of now i n body user "fst ?out" "snd ?out"]) simp_all
    moreover have "fst (human_decision EditA user ?out y) = []" by (simp add: human_decision_def split: sum.split)
    ultimately show ?thesis using e x Edit by simp
  next
    case ExpireAll
    have "outbox_good sha ns (on_store (\<lambda>s. snd (expire_approvals now s)) (on_store (\<lambda>s. snd (expire_pending now s)) y))"
      unfolding expire_approvals_def expire_pending_def by (intro good_expire good)
    then show ?thesis using e x ExpireAll by (auto simp: on_store_def)
  next
    case StaleReviews
    then show ?thesis using e x good_stale_reviews [OF good] by auto
  next
    case (ClaimItem i)
    then show ?thesis using e x good_claim [OF good] by blast
  next
    case (HandOver i)
    then show ?thesis using e x good_hand_over [OF good] by blast
  next
    case (Answer i ans)
    then show ?thesis using e x good_answer [OF good] by blast
  next
    case (Reconcile i ledger)
    then show ?thesis using e x good_reconcile [OF good] by auto
  next
    case (DispatcherDies i)
    have "count_list (remove1 i xs) k \<le> count_list xs k" for k and xs :: "string list" by (induction xs) auto
    then show ?thesis using e x DispatcherDies by (intro good_same [OF good]) auto
  qed
qed

interpretation outbox_notes: noted_machine "outbox_act sha" "outbox_good sha" for sha
  by unfold_locales (rule outbox_keeps)

lemma fresh_good: "outbox_good sha [] fresh_system"
  by (simp add: outbox_good_def fresh_system_def empty_outbox_def outbox_inv_def vouched_def ready_at_def)

lemma history_good: "noted_run (outbox_act sha) es fresh_system = (ns, y) \<Longrightarrow> outbox_good sha ns y"
  using outbox_notes.run_good [OF fresh_good] by simp

end
