(* ===== verification/OutboxProps.thy ===== *)
theory OutboxProps
  imports OutboxLaws
begin

text \<open>
  The properties of the outbox: nothing is published that no human decided on, each decision pays for at most
  one send, the binding covers exactly what the card shows, the service's answers, and the life cycle.
\<close>

section \<open>The canonical text of a binding\<close>

text \<open>Reading one character of a JSON string back.\<close>

definition lower_hex_value :: "char \<Rightarrow> nat" where
  "lower_hex_value c = (let n = (of_char c :: nat) in if n < 58 then n - 48 else n - 87)"

fun read_json_char :: "string \<Rightarrow> (char \<times> string) option" where
  "read_json_char [] = None"
| "read_json_char (c # cs) =
     (if c = CHR 0x22 then None
      else if c \<noteq> CHR 0x5C then Some (c, cs)
      else (case cs of
              [] \<Rightarrow> None
            | d # ds \<Rightarrow>
                if d = CHR ''b'' then Some (CHR 0x08, ds)
                else if d = CHR ''t'' then Some (CHR 0x09, ds)
                else if d = CHR ''n'' then Some (CHR 0x0A, ds)
                else if d = CHR ''f'' then Some (CHR 0x0C, ds)
                else if d = CHR ''r'' then Some (CHR 0x0D, ds)
                else if d = CHR ''u'' then
                  (case ds of
                     _ # _ # x # y # es \<Rightarrow> Some (char_of (16 * lower_hex_value x + lower_hex_value y), es)
                   | _ \<Rightarrow> None)
                else Some (d, ds)))"

lemma read_json_char_more: "read_json_char xs = Some (c, ys) \<Longrightarrow> read_json_char (xs @ zs) = Some (c, ys @ zs)"
  by (cases xs) (auto split: list.splits if_splits)

lemma lower_hex_value: "d < 16 \<Longrightarrow> lower_hex_value (hex_digit_lower d) = d"
  by (auto simp: lower_hex_value_def hex_digit_lower_def)

lemma special_chars:
  "char_of (34 :: nat) = CHR 0x22" "char_of (92 :: nat) = CHR 0x5C" "char_of (8 :: nat) = CHR 0x08"
  "char_of (9 :: nat) = CHR 0x09" "char_of (10 :: nat) = CHR 0x0A" "char_of (12 :: nat) = CHR 0x0C"
  "char_of (13 :: nat) = CHR 0x0D"
  by code_simp+

lemma read_json_char_own: "read_json_char (json_char c @ zs) = Some (c, zs)"
proof -
  let ?n = "of_char c :: nat"
  have c: "char_of ?n = c" by simp
  have special: "c = char_of k" if "?n = k" for k using c that by simp
  show ?thesis
  proof (cases "?n \<in> {34, 92, 8, 9, 10, 12, 13}")
    case True
    then show ?thesis using special [of 34] special [of 92] special [of 8] special [of 9] special [of 10]
        special [of 12] special [of 13] by (auto simp: json_char_def special_chars)
  next
    case False
    then have "c \<noteq> CHR 0x22" "c \<noteq> CHR 0x5C" by auto
    moreover have "?n < 32 \<Longrightarrow> 16 * lower_hex_value (hex_digit_lower (?n div 16))
        + lower_hex_value (hex_digit_lower (?n mod 16)) = ?n"
      by (simp add: lower_hex_value div_less_iff_less_mult)
    ultimately show ?thesis using False c by (auto simp: json_char_def Let_def)
  qed
qed

lemma json_chars_inj:
  "concat (map json_char s) @ CHR 0x22 # r = concat (map json_char t) @ CHR 0x22 # q \<Longrightarrow> s = t \<and> r = q"
proof (induction s arbitrary: t)
  case Nil
  then show ?case
  proof (cases t)
    case (Cons c cs)
    then have "read_json_char (CHR 0x22 # r) = Some (c, concat (map json_char cs) @ CHR 0x22 # q)"
      using Nil read_json_char_own by simp
    then show ?thesis by simp
  qed simp
next
  case (Cons c s)
  have own: "read_json_char (concat (map json_char (c # s)) @ CHR 0x22 # r) = Some (c, concat (map json_char s) @ CHR 0x22 # r)"
    using read_json_char_own by simp
  show ?case
  proof (cases t)
    case Nil
    then show ?thesis using own Cons.prems by simp
  next
    case (Cons d u)
    then have "Some (c, concat (map json_char s) @ CHR 0x22 # r) = Some (d, concat (map json_char u) @ CHR 0x22 # q)"
      using own Cons.prems read_json_char_own [of d "concat (map json_char u) @ CHR 0x22 # q"] by simp
    then show ?thesis using Cons.IH [of u] Cons by simp
  qed
qed

lemma json_string_inj: "json_string s @ r = json_string t @ q \<longleftrightarrow> s = t \<and> r = q"
  using json_chars_inj [of s r t q] by (auto simp: json_string_def)

lemma thread_inj:
  "(case t of None \<Rightarrow> ''null'' | Some x \<Rightarrow> json_string x) @ r = (case u of None \<Rightarrow> ''null'' | Some x \<Rightarrow> json_string x) @ q
   \<longleftrightarrow> t = u \<and> r = q"
proof -
  have "json_string x @ r \<noteq> ''null'' @ q" for x r q by (simp add: json_string_def)
  moreover have "''null'' @ q \<noteq> json_string x @ r" for x r q by (simp add: json_string_def)
  ultimately show ?thesis using json_string_inj by (cases t; cases u) (simp_all only: option.simps same_append_eq simp_thms)
qed


text \<open>
  C29: The hash binds every field the approval card shows: two publications have the same canonical text only if
  they agree in sender, destination, thread and every byte of the text.
\<close>

theorem outbox_binding_exact: "canonicalize_content c = canonicalize_content d \<longleftrightarrow> c = d"
proof -
  have "canonicalize_content c = canonicalize_content d \<longleftrightarrow>
      co_bot c = co_bot d \<and> co_chat c = co_chat d \<and> co_personality c = co_personality d
      \<and> co_platform c = co_platform d \<and> co_text c = co_text d \<and> co_thread c = co_thread d"
    unfolding canonicalize_content_def json_field_def append_assoc append_Cons same_append_eq list.inject
      json_string_inj thread_inj by simp
  then show ?thesis by auto
qed

section \<open>What is sent\<close>

abbreviation outbox_after :: "(string \<Rightarrow> string) \<Rightarrow> (int \<times> outbox_event) list \<Rightarrow> outbox" where
  "outbox_after sha es \<equiv> sy_store (snd (noted_run (outbox_act sha) es fresh_system))"

lemma reached_good: "outbox_good sha (fst (noted_run (outbox_act sha) es fresh_system)) (snd (noted_run (outbox_act sha) es fresh_system))"
  by (rule history_good) simp

lemma reached_distinct: "distinct_items (outbox_after sha es)"
  by (rule good_distinct [OF reached_good])

text \<open>
  C2: Nothing is published that no human decided on: in every history of proposals, edits, decisions, claims,
  crashes and retries by any number of processes, the bytes handed to a platform for revision n of an item
  follow a human's decision (an approval, or the retry of one) that named revision n of that item and the hash
  of exactly these bytes, this sender and this destination.
\<close>

theorem outbox_sends_decided:
  assumes "noted_run (outbox_act sha) es fresh_system = (before @ Handed i n c # after, y)"
  shows "\<exists>user. Decided i n (compute_content_hash sha c) user \<in> set before"
  using history_good [OF assms] by (auto simp: outbox_good_def vouched_def)

text \<open>
  C5: One approval is one send: over every such history the hand-overs of an item that the gateway did not turn
  away before the platform was reached are at most the approvals and retries humans gave it.
\<close>

theorem outbox_one_send:
  "handed i (fst (noted_run (outbox_act sha) es fresh_system))
     \<le> decided i (fst (noted_run (outbox_act sha) es fresh_system))
       + turned i (fst (noted_run (outbox_act sha) es fresh_system))"
  using reached_good unfolding outbox_good_def by (metis add_leD1)

text \<open>
  In every history the last check before a send cannot fail a claimed item: its current revision is stored,
  and the hash over the item's own fields and the revision's text is the item's and the revision's.
\<close>

theorem outbox_binding_holds:
  assumes "get_item (outbox_after sha es) i = Some r" "oi_state r = Sending"
  shows "\<exists>v. verify_binding sha now i (sy_store (snd (noted_run (outbox_act sha) es fresh_system)))
      = (Inr (r, v), sy_store (snd (noted_run (outbox_act sha) es fresh_system)))
    \<and> or_revision v = oi_revision r \<and> oi_hash r = compute_content_hash sha (content_of r (or_text v))
    \<and> oi_approved_revision r = Some (oi_revision r)"
proof -
  let ?y = "snd (noted_run (outbox_act sha) es fresh_system)"
  have good: "outbox_good sha (fst (noted_run (outbox_act sha) es fresh_system)) ?y" by (rule reached_good)
  then have "outbox_inv sha (sy_store ?y)" by (simp add: outbox_good_def)
  from verify_binding_ok [OF this assms, of now] obtain v where
    v: "verify_binding sha now i (sy_store ?y) = (Inr (r, v), sy_store ?y)"
      "compute_content_hash sha (content_of r (or_text v)) = oi_hash r" "or_revision v = oi_revision r" by blast
  have "blessed (fst (noted_run (outbox_act sha) es fresh_system)) r"
    using good get_item_mem [OF assms(1)] by (simp add: outbox_good_def)
  then have "oi_approved_revision r = Some (oi_revision r)" using assms(2) by (simp add: blessed_def)
  then show ?thesis using v by auto
qed

section \<open>The answers of the service\<close>


section \<open>The life cycle\<close>

text \<open>The edges of an item's life, and what one of them may change.\<close>

fun outbox_edges :: "outbox_state \<Rightarrow> outbox_state list" where
  "outbox_edges AwaitingReview = [AwaitingApproval, Expired]"
| "outbox_edges AwaitingApproval = [Approved, Rejected, Expired]"
| "outbox_edges Approved = [Sending, AwaitingApproval, Expired]"
| "outbox_edges Sending = [Sent, Unconfirmed, Failed, Approved]"
| "outbox_edges Failed = [Approved]"
| "outbox_edges _ = []"

definition item_step :: "outbox_item \<Rightarrow> outbox_item \<Rightarrow> bool" where
  "item_step r q \<longleftrightarrow> oi_id q = oi_id r \<and> oi_personality q = oi_personality r \<and> oi_bot q = oi_bot r
     \<and> oi_platform q = oi_platform r \<and> oi_chat q = oi_chat r \<and> oi_thread q = oi_thread r
     \<and> oi_created q = oi_created r
     \<and> (oi_state q \<in> set (outbox_edges (oi_state r)) \<and> oi_revision q = oi_revision r \<and> oi_hash q = oi_hash r
        \<or> oi_state r = AwaitingApproval \<and> oi_state q = AwaitingApproval \<and> oi_revision q = Suc (oi_revision r))"

definition one_step :: "outbox \<Rightarrow> outbox \<Rightarrow> bool" where
  "one_step s t \<longleftrightarrow> (\<forall>i r. get_item s i = Some r \<longrightarrow> (\<exists>q. get_item t i = Some q \<and> (q = r \<or> item_step r q)))
     \<and> (\<forall>i n v. get_revision s i n = Some v \<longrightarrow> get_revision t i n = Some v)"

lemma one_step_refl [simp]: "one_step s s"
  by (simp add: one_step_def)

lemma one_step_set:
  assumes "get_item s i = Some r" "item_step r q"
  shows "one_step s (set_item i q s)"
proof -
  have "oi_id q = i" using assms get_item_mem [OF assms(1)] by (simp add: item_step_def)
  moreover have "get_revision (set_item i q s) = get_revision s" by (intro ext) (simp add: set_item_def)
  ultimately show ?thesis using get_set_item [of q i s r] assms by (auto simp: one_step_def)
qed

lemma one_step_map:
  assumes "\<And>r. g r = r \<or> item_step r (g r)"
  shows "one_step s (s\<lparr>ob_items := map g (ob_items s)\<rparr>)"
proof -
  have id: "oi_id (g r) = oi_id r" for r using assms [of r] by (auto simp: item_step_def)
  have "find (\<lambda>r. oi_id r = i) (map g rs) = map_option g (find (\<lambda>r. oi_id r = i) rs)" for i rs
    using id by (induction rs) auto
  then have "get_item (s\<lparr>ob_items := map g (ob_items s)\<rparr>) i = map_option g (get_item s i)" for i
    by (simp add: get_item_def)
  then show ?thesis using assms by (auto simp: one_step_def)
qed

lemma one_step_transition:
  assumes "distinct_items s" "\<And>r. oi_id (f r) = oi_id r"
    and "\<And>r. oi_state r \<in> set (legal_from a) \<Longrightarrow> P r \<Longrightarrow> item_step r (f r)"
  shows "one_step s (snd (transition i a (upd_item i P f) s))"
  using assms(3) one_step_set [of s i] by (auto simp: transition_eq [OF assms(1,2)] split: option.split)

lemma one_step_upd:
  assumes "distinct_items s" "\<And>r. P r \<Longrightarrow> item_step r (f r)" "\<And>r. oi_id (f r) = oi_id r"
  shows "one_step s (snd (upd_item i P f s))"
  using assms(2) one_step_set [of s i] by (auto simp: upd_item_eq [OF assms(1,3)] split: option.split)

lemma one_step_expire_all: "one_step s (snd (expire_approvals now (snd (expire_pending now s))))"
proof -
  let ?e = "\<lambda>P r. if P r then r\<lparr>oi_state := Expired, oi_updated := now\<rparr> else r"
  let ?p = "\<lambda>r. (oi_state r = AwaitingReview \<or> oi_state r = AwaitingApproval) \<and> oi_created r < now - pending_expiry_ms"
  let ?q = "\<lambda>r. oi_state r = Approved
    \<and> (case oi_approved_at r of None \<Rightarrow> False | Some t \<Rightarrow> t < now - approval_validity_ms)"
  have "snd (expire_approvals now (snd (expire_pending now s))) = s\<lparr>ob_items := map (?e ?q \<circ> ?e ?p) (ob_items s)\<rparr>"
    by (simp add: expire_approvals_def expire_pending_def expire_where_def)
  moreover have "(?e ?q \<circ> ?e ?p) r = r \<or> item_step r ((?e ?q \<circ> ?e ?p) r)" for r
    by (cases "oi_state r") (simp_all add: item_step_def)
  ultimately show ?thesis using one_step_map [of "?e ?q \<circ> ?e ?p" s] by simp
qed

text \<open>A fold of reviews moves an item once: after the first it awaits approval.\<close>

definition reviewed_only :: "outbox \<Rightarrow> outbox \<Rightarrow> bool" where
  "reviewed_only s t \<longleftrightarrow> distinct_items t \<and> ob_revisions t = ob_revisions s \<and> (\<forall>i r. get_item s i = Some r \<longrightarrow>
     (\<exists>q. get_item t i = Some q \<and> (q = r \<or> oi_state r = AwaitingReview \<and> oi_state q = AwaitingApproval \<and> item_step r q)))"

lemma reviewed_only_step:
  assumes "reviewed_only s t"
  shows "reviewed_only s (snd (transition i ReviewA (attach_review now i receipt) t))"
proof -
  let ?f = "\<lambda>r. r\<lparr>oi_state := AwaitingApproval, oi_review := Some receipt, oi_updated := now\<rparr>"
  have d: "distinct_items t" using assms by (simp add: reviewed_only_def)
  have eq: "snd (transition i ReviewA (attach_review now i receipt) t) = (case get_item t i of
      None \<Rightarrow> t | Some r \<Rightarrow> if oi_state r = AwaitingReview then set_item i (?f r) t else t)"
    using transition_eq [OF d, of ?f i ReviewA] by (simp add: attach_review_def in_state_def split: option.split)
  show ?thesis
  proof (cases "\<exists>r. get_item t i = Some r \<and> oi_state r = AwaitingReview")
    case True
    then obtain r where r: "get_item t i = Some r" "oi_state r = AwaitingReview" by blast
    then have id: "oi_id (?f r) = i" using get_item_mem [OF r(1)] by simp
    have "map oi_id (ob_items (set_item i (?f r) t)) = map oi_id (ob_items t)"
      using id by (auto simp: set_item_def)
    then have "distinct_items (set_item i (?f r) t)" using d by simp
    moreover have "item_step r (?f r)" using r(2) by (simp add: item_step_def)
    moreover have "p = r" if "get_item s i = Some p" for p
      using assms that r unfolding reviewed_only_def by fastforce
    ultimately show ?thesis
      using assms r get_set_item [OF id r(1)] unfolding eq reviewed_only_def
      by (simp add: set_item_def) blast
  next
    case False
    then have "snd (transition i ReviewA (attach_review now i receipt) t) = t"
      unfolding eq by (simp split: option.split)
    then show ?thesis using assms by simp
  qed
qed

lemma one_step_stale:
  assumes "distinct_items s"
  shows "one_step s (stale_reviews now s)"
proof -
  have "reviewed_only s t \<Longrightarrow> reviewed_only s (fold (\<lambda>r t. snd (transition (oi_id r) ReviewA (attach_review now (oi_id r) (unavailable_receipt now r)) t)) rs t)" for rs t
    by (induction rs arbitrary: t) (simp_all add: reviewed_only_step)
  moreover have "reviewed_only s s" using assms by (simp add: reviewed_only_def)
  ultimately have "reviewed_only s (stale_reviews now s)" unfolding stale_reviews_def by blast
  then show ?thesis by (auto simp: reviewed_only_def one_step_def get_revision_def)
qed

lemma one_step_edit: "distinct_items s \<Longrightarrow> one_step s (snd (service_edit sha now i n body user s))"
proof -
  assume d: "distinct_items s"
  have e: "service_edit sha now i n body user s = (fst (service_edit sha now i n body user s), snd (service_edit sha now i n body user s))" by simp
  from d e show ?thesis
  proof (cases rule: edit_cases)
    case (2 r q v)
    have "item_step r q" using 2(2,3,5) by (simp add: item_step_def)
    then have "one_step s (set_item i q s)" by (rule one_step_set [OF 2(1)])
    moreover have "get_revision (set_item i q s) = get_revision s" by (intro ext) (simp add: set_item_def)
    ultimately show ?thesis
      by (auto simp: one_step_def 2(7) get_item_def get_revision_def find_append set_item_def)
  qed simp
qed

lemma one_step_propose: "propose sha now i inp s = Inr (x, t) \<Longrightarrow> one_step s t"
proof (erule propose_cases)
  fix v
  assume "t = s\<lparr>ob_items := ob_items s @ [proposed_item sha now i inp], ob_revisions := ob_revisions s @ [v]\<rparr>"
  then show "one_step s t" by (simp add: one_step_def get_item_def get_revision_def find_append)
qed simp

lemma one_step_settle: "distinct_items s \<Longrightarrow> one_step s (settle_publication now i ans s)"
  unfolding settle_publication_def write_defs
  by (auto split: publication_answer.split option.split intro!: one_step_transition simp: item_step_def in_state_def)

lemma one_step_reconcile: "distinct_items s \<Longrightarrow> one_step s (reconcile_sending now i ledger s)"
  unfolding reconcile_sending_def write_defs
  by (auto split: option.split list.split intro!: one_step_transition simp: item_step_def in_state_def)

text \<open>
  C22: The life cycle of an item: whatever is called, by whichever process, at any moment of any history, moves an
  item along at most one edge of it, keeps its sender and its destination, and changes its revision and its
  hash only together, while it awaits approval and still awaits it after; no item vanishes, and no stored
  revision changes.
\<close>

theorem outbox_lifecycle:
  "one_step (outbox_after sha es) (sy_store (snd (outbox_act sha x (snd (noted_run (outbox_act sha) es fresh_system)))))"
proof -
  let ?y = "snd (noted_run (outbox_act sha) es fresh_system)"
  obtain now ev where x: "x = (now, ev)" by fastforce
  note d = reached_distinct [of sha es]
  have inv: "outbox_inv sha (sy_store ?y)" using reached_good by (simp add: outbox_good_def)
  show ?thesis
  proof (cases ev)
    case (Propose i inp)
    then show ?thesis using one_step_propose [of sha now i inp "sy_store ?y"] by (auto simp: x split: sum.split)
  next
    case (Edit i n body user)
    then show ?thesis using one_step_edit [OF d] by (simp add: x human_decision_def)
  next
    case (HandOver i)
    then show ?thesis using verify_binding_eq [OF inv, of now i]
      by (auto simp: x Let_def split: prod.split sum.split option.splits if_splits)
  next
    case (ClaimItem i)
    have "one_step (sy_store ?y) (snd (claim_item now i (sy_store ?y)))"
      unfolding claim_item_def by (rule one_step_upd [OF d]) (simp_all add: item_step_def in_state_def)
    then show ?thesis using ClaimItem by (cases "claim_item now i (sy_store ?y)") (simp add: x)
  qed (auto simp: x human_decision_def on_store_def write_defs intro!: one_step_transition [OF d] one_step_expire_all
      one_step_stale [OF d] one_step_settle [OF d] one_step_reconcile [OF d], simp_all add: item_step_def in_state_def)
qed

section \<open>Witnesses\<close>

definition sample_proposal :: propose_input where
  "sample_proposal = \<lparr>pi_personality = ''ada'', pi_bot = ''b'', pi_platform = ''x'', pi_chat = ''c'', pi_thread = None,
     pi_text = ''hi'', pi_approver = None, pi_origin = None\<rparr>"

definition sample_hash :: string where
  "sample_hash = compute_content_hash rev (proposed_content sample_proposal)"

definition sample_history :: "(int \<times> outbox_event) list" where
  "sample_history = [(1, Propose ''i'' sample_proposal), (2, Approve ''i'' 1 sample_hash ''kim''), (3, ClaimItem ''i'')]"

lemma sample_history_run:
  "get_item (outbox_after rev sample_history) ''i'' = Some ((proposed_item rev 1 ''i'' sample_proposal)
     \<lparr>oi_state := Sending, oi_approved_by := Some ''kim'', oi_approved_at := Some 2, oi_approved_revision := Some 1,
      oi_claimed_at := Some 3, oi_updated := 3\<rparr>)"
  by code_simp

lemma sample_hand_over:
  "noted_run (outbox_act rev) (sample_history @ [(4, HandOver ''i'')]) fresh_system
     = ([Decided ''i'' 1 sample_hash ''kim''] @ Handed ''i'' 1 (proposed_content sample_proposal) # [],
        snd (noted_run (outbox_act rev) (sample_history @ [(4, HandOver ''i'')]) fresh_system))"
  by code_simp

theorem outbox_sends_decided_witness:
  "\<exists>user. Decided ''i'' 1 (compute_content_hash rev (proposed_content sample_proposal)) user
     \<in> set [Decided ''i'' 1 sample_hash ''kim'']"
  by (rule outbox_sends_decided [OF sample_hand_over])

theorem outbox_binding_holds_witness:
  "\<exists>v. fst (verify_binding rev 4 ''i'' (outbox_after rev sample_history)) = Inr (the (get_item (outbox_after rev sample_history) ''i''), v)"
  using outbox_binding_holds [OF sample_history_run, of 4] by (fastforce simp: sample_history_run)

end
