(* ===== verification/DeliveryLedger.thy ===== *)
theory DeliveryLedger
  imports Contracts Complex_Main
begin

text \<open>
  The ledger of replies owed to the platforms (extensions/delivery-ledger/src/index.ts), one row per reply, and
  how the gateway uses it (extensions/gateway/src/delivery.ts and index.ts): a row is written before the platform
  call and confirmed after it, a sweep sends again what nobody confirmed, backs off and gives up. SHA-256, the
  adapters and the platform's answers are arguments.
\<close>

section \<open>The ledger\<close>

datatype delivery_status = Owed | Redelivering | Delivered | Abandoned

datatype delivery_kind = TextReply | VoiceReply

record obligation =
  dl_id :: string
  dl_bot :: string
  dl_platform :: string
  dl_chat :: string
  dl_session :: string
  dl_thread :: "string option"
  dl_hash :: string
  dl_content :: string
  dl_created :: int
  dl_status :: delivery_status
  dl_kind :: "delivery_kind option"
  dl_artifact :: "string option"
  dl_format :: "string option"
  dl_inbound :: "string option"
  dl_claimed_at :: "int option"
  dl_attempts :: nat
  dl_next_at :: "int option"
  dl_reason :: "string option"

record delivery_input =
  di_bot :: string
  di_platform :: string
  di_chat :: string
  di_session :: string
  di_thread :: "string option"
  di_content :: string
  di_kind :: "delivery_kind option"
  di_artifact :: "string option"
  di_format :: "string option"
  di_inbound :: "string option"

type_synonym ledger = "obligation list"

definition kind_of :: "obligation \<Rightarrow> delivery_kind" where
  "kind_of r = (case dl_kind r of None \<Rightarrow> TextReply | Some k \<Rightarrow> k)"

definition given :: "string option \<Rightarrow> string option" where
  "given t = (if t = Some [] then None else t)"

definition get_obligation :: "ledger \<Rightarrow> string \<Rightarrow> obligation option" where
  "get_obligation l i = find (\<lambda>r. dl_id r = i) l"

text \<open>A taken id violates the primary key, and the insert throws.\<close>

definition record_obligation :: "(string \<Rightarrow> string) \<Rightarrow> int \<Rightarrow> string \<Rightarrow> delivery_input \<Rightarrow> ledger \<Rightarrow> ledger option" where
  "record_obligation sha now i inp l =
     (if get_obligation l i \<noteq> None then None
      else Some (l @ [\<lparr>dl_id = i, dl_bot = di_bot inp, dl_platform = di_platform inp, dl_chat = di_chat inp,
        dl_session = di_session inp, dl_thread = given (di_thread inp), dl_hash = sha (di_content inp),
        dl_content = di_content inp, dl_created = now, dl_status = Owed,
        dl_kind = Some (case di_kind inp of None \<Rightarrow> TextReply | Some k \<Rightarrow> k), dl_artifact = given (di_artifact inp),
        dl_format = given (di_format inp), dl_inbound = given (di_inbound inp), dl_claimed_at = None,
        dl_attempts = 0, dl_next_at = None, dl_reason = None\<rparr>]))"

definition list_owed :: "string list \<Rightarrow> ledger \<Rightarrow> obligation list" where
  "list_owed bots l =
     (if bots = [] then []
      else sort_key dl_created (filter (\<lambda>r. dl_status r = Owed \<and> dl_bot r \<in> set bots) l))"

definition upd_obligation ::
  "string \<Rightarrow> (obligation \<Rightarrow> bool) \<Rightarrow> (obligation \<Rightarrow> obligation) \<Rightarrow> ledger \<Rightarrow> bool \<times> ledger" where
  "upd_obligation i P f l =
     (list_ex (\<lambda>r. dl_id r = i \<and> P r) l, map (\<lambda>r. if dl_id r = i \<and> P r then f r else r) l)"

definition has_status :: "delivery_status \<Rightarrow> obligation \<Rightarrow> bool" where
  "has_status st r = (dl_status r = st)"

definition claim_obligation :: "int \<Rightarrow> string \<Rightarrow> ledger \<Rightarrow> bool \<times> ledger" where
  "claim_obligation now i =
     upd_obligation i (has_status Owed) (\<lambda>r. r\<lparr>dl_status := Redelivering, dl_claimed_at := Some now\<rparr>)"

definition mark_delivered :: "string \<Rightarrow> ledger \<Rightarrow> ledger" where
  "mark_delivered i l = snd (upd_obligation i (\<lambda>r. True) (\<lambda>r. r\<lparr>dl_status := Delivered\<rparr>) l)"

definition release_obligation :: "string \<Rightarrow> ledger \<Rightarrow> ledger" where
  "release_obligation i l =
     snd (upd_obligation i (has_status Redelivering) (\<lambda>r. r\<lparr>dl_status := Owed, dl_claimed_at := None\<rparr>) l)"

definition reclaim_stale_claims :: "int \<Rightarrow> ledger \<Rightarrow> nat \<times> ledger" where
  "reclaim_stale_claims cutoff l =
     (let stale = (\<lambda>r. dl_status r = Redelivering
        \<and> (case dl_claimed_at r of None \<Rightarrow> False | Some t \<Rightarrow> t < cutoff))
      in (length (filter stale l),
          map (\<lambda>r. if stale r then r\<lparr>dl_status := Owed, dl_claimed_at := None\<rparr> else r) l))"

definition max_recent :: nat where "max_recent = 200"

definition find_by_session :: "string \<Rightarrow> ledger \<Rightarrow> obligation list" where
  "find_by_session s l = take max_recent (rev (sort_key dl_created (filter (\<lambda>r. dl_session r = s) l)))"

definition has_obligation_for :: "string \<Rightarrow> ledger \<Rightarrow> bool" where
  "has_obligation_for ref l = (ref \<noteq> [] \<and> list_ex (\<lambda>r. dl_inbound r = Some ref) l)"

definition overdue :: "string list \<Rightarrow> int \<Rightarrow> obligation \<Rightarrow> bool" where
  "overdue bots cutoff r = ((dl_status r = Owed \<or> dl_status r = Redelivering) \<and> dl_bot r \<in> set bots \<and> dl_created r < cutoff)"

definition abandon_stale :: "string list \<Rightarrow> int \<Rightarrow> ledger \<Rightarrow> obligation list \<times> ledger" where
  "abandon_stale bots cutoff l =
     (if bots = [] then ([], l)
      else (map (\<lambda>r. r\<lparr>dl_status := Abandoned\<rparr>) (sort_key dl_created (filter (overdue bots cutoff) l)),
            map (\<lambda>r. if overdue bots cutoff r then r\<lparr>dl_status := Abandoned\<rparr> else r) l))"

definition defer_retry :: "string \<Rightarrow> int \<Rightarrow> ledger \<Rightarrow> nat option \<times> ledger" where
  "defer_retry i at_ms l =
     (let l1 = snd (upd_obligation i (has_status Redelivering)
        (\<lambda>r. r\<lparr>dl_status := Owed, dl_claimed_at := None, dl_attempts := Suc (dl_attempts r), dl_next_at := Some at_ms\<rparr>) l)
      in (if list_ex (\<lambda>r. dl_id r = i \<and> has_status Redelivering r) l then map_option dl_attempts (get_obligation l1 i) else None, l1))"

definition abandon_obligation :: "string \<Rightarrow> string \<Rightarrow> ledger \<Rightarrow> obligation option \<times> ledger" where
  "abandon_obligation i reason l =
     (let l1 = snd (upd_obligation i (has_status Redelivering)
        (\<lambda>r. r\<lparr>dl_status := Abandoned, dl_claimed_at := None, dl_attempts := Suc (dl_attempts r), dl_reason := Some reason\<rparr>) l)
      in (if list_ex (\<lambda>r. dl_id r = i \<and> has_status Redelivering r) l then get_obligation l1 i else None, l1))"

definition prune_delivered :: "int \<Rightarrow> ledger \<Rightarrow> nat \<times> ledger" where
  "prune_delivered cutoff l =
     (let old = (\<lambda>r. (dl_status r = Delivered \<or> dl_status r = Abandoned) \<and> dl_created r < cutoff)
      in (length (filter old l), filter (\<lambda>r. \<not> old r) l))"

record delivery_counts =
  dc_owed :: nat
  dc_redelivering :: nat
  dc_delivered :: nat
  dc_abandoned :: nat

definition add_count :: "delivery_status \<Rightarrow> nat \<Rightarrow> delivery_counts \<Rightarrow> delivery_counts" where
  "add_count st n c =
     (case st of
        Owed \<Rightarrow> c\<lparr>dc_owed := dc_owed c + n\<rparr>
      | Redelivering \<Rightarrow> c\<lparr>dc_redelivering := dc_redelivering c + n\<rparr>
      | Delivered \<Rightarrow> c\<lparr>dc_delivered := dc_delivered c + n\<rparr>
      | Abandoned \<Rightarrow> c\<lparr>dc_abandoned := dc_abandoned c + n\<rparr>)"

definition empty_counts :: delivery_counts where
  "empty_counts = \<lparr>dc_owed = 0, dc_redelivering = 0, dc_delivered = 0, dc_abandoned = 0\<rparr>"

text \<open>\<open>GROUP BY status, COALESCE(kind, 'text')\<close>, then summed: all rows, and the voice rows.\<close>

definition status_groups :: "ledger \<Rightarrow> ((delivery_status \<times> delivery_kind) \<times> nat) list" where
  "status_groups l =
     map (\<lambda>g. (g, length (filter (\<lambda>r. (dl_status r, kind_of r) = g) l)))
       (remdups (map (\<lambda>r. (dl_status r, kind_of r)) l))"

definition read_delivery_stats :: "ledger \<Rightarrow> delivery_counts \<times> delivery_counts" where
  "read_delivery_stats l =
     fold (\<lambda>((st, k), n) (c, v). (add_count st n c, if k = VoiceReply then add_count st n v else v))
       (status_groups l) (empty_counts, empty_counts)"

text \<open>The limit, none when it is not an integer.\<close>

definition clamp_recent_limit :: "int option \<Rightarrow> nat" where
  "clamp_recent_limit limit = (case limit of None \<Rightarrow> max_recent | Some n \<Rightarrow> min max_recent (nat (max 1 n)))"

definition list_recent :: "int option \<Rightarrow> ledger \<Rightarrow> obligation list" where
  "list_recent limit l = take (clamp_recent_limit limit) (rev (sort_key dl_created l))"

end
