(* ===== verification/GatewayDelivery.thy ===== *)
theory GatewayDelivery
  imports DeliveryLedger Numbers
begin

text \<open>
  The gateway over the delivery ledger: live sends, the redelivery sweep with its backoff and its attempt cap,
  voice notes that are sent again from their stored artifact, the abandoning of overdue replies. One gateway
  process at a time holds the state directory; a \<open>Restart\<close> forgets what it was sending, and the ledger stays.
\<close>

record delivery_adapter =
  da_platform :: string
  da_formats :: "string list option"

record delivery_gateway =
  dg_bots :: "string list"
  dg_own :: "(string \<times> delivery_adapter) list"
  dg_default :: "string option"
  dg_registry :: "(string \<times> delivery_adapter) list"
  dg_max :: "int option"
  dg_store :: bool

definition adapter_for_bot :: "delivery_gateway \<Rightarrow> string \<Rightarrow> string \<Rightarrow> delivery_adapter option" where
  "adapter_for_bot g b platform =
     (let aliased = (if dg_default g = Some b then map_of (dg_registry g) platform else None) in
      case map_of (dg_own g) b of
        Some a \<Rightarrow> if da_platform a = platform then Some a else aliased
      | None \<Rightarrow> aliased)"

definition delivery_max_attempts :: "int option \<Rightarrow> nat" where
  "delivery_max_attempts configured = nat (max 1 (case configured of None \<Rightarrow> 10 | Some n \<Rightarrow> n))"

definition dg_cap :: "delivery_gateway \<Rightarrow> nat" where
  "dg_cap g = delivery_max_attempts (dg_max g)"

section \<open>Backoff\<close>

definition delivery_retry_base_ms :: rat where "delivery_retry_base_ms = 60000"
definition delivery_retry_max_ms :: rat where "delivery_retry_max_ms = 3600000"
definition delivery_claim_stale_ms :: int where "delivery_claim_stale_ms = 300000"

text \<open>The delay after the \<open>n\<close>th refusal, with a draw of \<open>Math.random\<close>.\<close>

definition delivery_retry_delay_ms :: "nat \<Rightarrow> rat \<Rightarrow> int" where
  "delivery_retry_delay_ms n draw =
     js_round (min (delivery_retry_base_ms * 2 ^ (n - 1)) delivery_retry_max_ms * (4 / 5 + 2 / 5 * draw))"

section \<open>State and events\<close>

record delivery_system =
  gd_ledger :: ledger
  gd_drawn :: "string list"
  gd_flight :: "string list"
  gd_sweep :: "(obligation list \<times> obligation option) option"
  gd_artifacts :: "string list"
  gd_offset :: int

definition fresh_delivery :: delivery_system where
  "fresh_delivery = \<lparr>gd_ledger = [], gd_drawn = [], gd_flight = [], gd_sweep = None, gd_artifacts = [], gd_offset = 0\<rparr>"

text \<open>What a platform call came to, and what the ledger did when its outcome was written.\<close>

datatype platform_answer = Accepted | Refused "string option" bool

datatype ledger_fault = NoFault | WriteThrows | ReleaseThrows

datatype delivery_note =
  Recorded string | Sending string | Confirmed string | Refusal string | Interrupted string | Settled string
| GaveUp string | Faulted string

definition remove_artifact :: "string option \<Rightarrow> delivery_system \<Rightarrow> delivery_system" where
  "remove_artifact ref y = (case ref of None \<Rightarrow> y | Some f \<Rightarrow> y\<lparr>gd_artifacts := filter (\<lambda>x. x \<noteq> f) (gd_artifacts y)\<rparr>)"

text \<open>\<open>beginDelivery\<close>: no row for an empty text, or when the ledger's write throws.\<close>

definition begin_delivery ::
  "(string \<Rightarrow> string) \<Rightarrow> int \<Rightarrow> string \<Rightarrow> delivery_input \<Rightarrow> bool \<Rightarrow> delivery_system \<Rightarrow> string option \<times> delivery_system" where
  "begin_delivery sha now i inp throws y =
     (if di_content inp = [] \<or> throws then (None, y)
      else (case record_obligation sha now i inp (gd_ledger y) of
              None \<Rightarrow> (None, y)
            | Some l \<Rightarrow> (Some i, y\<lparr>gd_ledger := l, gd_flight := i # gd_flight y, gd_drawn := i # gd_drawn y\<rparr>)))"

definition end_delivery :: "string \<Rightarrow> delivery_system \<Rightarrow> delivery_system" where
  "end_delivery i y = y\<lparr>gd_flight := filter (\<lambda>j. j \<noteq> i) (gd_flight y)\<rparr>"

definition confirm_delivery :: "string \<Rightarrow> bool \<Rightarrow> delivery_system \<Rightarrow> delivery_note list \<times> delivery_system" where
  "confirm_delivery i throws y =
     (if throws then ([Faulted i], y) else ([Settled i], y\<lparr>gd_ledger := mark_delivered i (gd_ledger y)\<rparr>))"

text \<open>A refused redelivery: given up for good, or owed again after the delay.\<close>

definition refusal_reason :: "delivery_gateway \<Rightarrow> nat \<Rightarrow> string option \<Rightarrow> bool \<Rightarrow> string option" where
  "refusal_reason g n err permanent =
     (let e = (case err of None \<Rightarrow> ''unconfirmed'' | Some x \<Rightarrow> x) in
      if permanent then Some (''permanent: '' @ e)
      else if n \<ge> dg_cap g then Some (''gave up after '' @ show_nat n @ '' attempts: '' @ e)
      else None)"

definition settle_refused ::
  "delivery_gateway \<Rightarrow> int \<Rightarrow> rat \<Rightarrow> obligation \<Rightarrow> string option \<Rightarrow> bool \<Rightarrow> delivery_system \<Rightarrow> delivery_note list \<times> delivery_system" where
  "settle_refused g now draw row err permanent y =
     (let n = Suc (dl_attempts row) in
      case refusal_reason g n err permanent of
        None \<Rightarrow> ([], y\<lparr>gd_ledger := snd (defer_retry (dl_id row) (now + delivery_retry_delay_ms n draw) (gd_ledger y))\<rparr>)
      | Some reason \<Rightarrow>
          (case abandon_obligation (dl_id row) reason (gd_ledger y) of
             (None, l) \<Rightarrow> ([], y\<lparr>gd_ledger := l\<rparr>)
           | (Some r, l) \<Rightarrow> ([GaveUp (dl_id row)], remove_artifact (dl_artifact r) (y\<lparr>gd_ledger := l\<rparr>))))"

text \<open>The catch of the sweep: the claim is released, unless that throws too.\<close>

definition faulted :: "string \<Rightarrow> ledger_fault \<Rightarrow> delivery_system \<Rightarrow> delivery_note list \<times> delivery_system" where
  "faulted i fault y =
     ([Faulted i], if fault = WriteThrows then y\<lparr>gd_ledger := release_obligation i (gd_ledger y)\<rparr> else y)"

definition settle_sweep ::
  "delivery_gateway \<Rightarrow> int \<Rightarrow> rat \<Rightarrow> ledger_fault \<Rightarrow> obligation \<Rightarrow> platform_answer \<Rightarrow> delivery_system
    \<Rightarrow> delivery_note list \<times> delivery_system" where
  "settle_sweep g now draw fault row ans y =
     (if fault \<noteq> NoFault then faulted (dl_id row) fault y
      else (case ans of
              Accepted \<Rightarrow>
                ([Settled (dl_id row)],
                 (let z = y\<lparr>gd_ledger := mark_delivered (dl_id row) (gd_ledger y)\<rparr>
                  in if kind_of row = VoiceReply then remove_artifact (dl_artifact row) z else z))
            | Refused err permanent \<Rightarrow> settle_refused g now draw row err permanent y))"

text \<open>
  A voice note is sent again from its artifact: the bytes and the format, or the refusal that is settled
  without a call.
\<close>

definition voice_attempt :: "delivery_gateway \<Rightarrow> delivery_adapter \<Rightarrow> obligation \<Rightarrow> string list \<Rightarrow> (platform_answer, string) result" where
  "voice_attempt g a row artifacts =
     (case dl_artifact row of
        None \<Rightarrow> Inl (Refused (Some ''gateway.voice_artifact_missing'') (dg_store g))
      | Some ref \<Rightarrow>
          if \<not> dg_store g \<or> ref \<notin> set artifacts then Inl (Refused (Some ''gateway.voice_artifact_missing'') (dg_store g))
          else
            (case da_formats a of
               None \<Rightarrow> Inl (Refused (Some ''gateway.voice_no_caps'') False)
             | Some declared \<Rightarrow>
                 (case (case dl_format row of
                          Some f \<Rightarrow> find (\<lambda>x. x = f) declared
                        | None \<Rightarrow> (case declared of [] \<Rightarrow> None | f # _ \<Rightarrow> Some f)) of
                    None \<Rightarrow> Inl (Refused (Some ''gateway.voice_format_unsupported'') False)
                  | Some f \<Rightarrow> Inr f)))"

text \<open>What the sweep lists: owed rows of this gateway's bots, old enough, whose backoff has passed.\<close>

definition sweep_due :: "delivery_gateway \<Rightarrow> int \<Rightarrow> int \<Rightarrow> ledger \<Rightarrow> obligation list" where
  "sweep_due g now min_age l =
     filter (\<lambda>r. (min_age \<le> 0 \<or> dl_created r \<le> now - min_age)
         \<and> (case dl_next_at r of None \<Rightarrow> True | Some t \<Rightarrow> t \<le> now))
       (list_owed (dg_bots g) l)"

datatype delivery_event =
  GoLive string delivery_input bool
| LiveAnswered string platform_answer bool
| ArtifactKept string
| ArtifactsLost "string list"
| SweepBegins int bool bool
| SweepTakes bool rat ledger_fault
| SweepAnswered platform_answer rat ledger_fault
| AbandonOverdue int bool
| PauseEnds int
| PruneOld int
| Restart

definition sweep_takes ::
  "delivery_gateway \<Rightarrow> int \<Rightarrow> bool \<Rightarrow> rat \<Rightarrow> ledger_fault \<Rightarrow> obligation \<Rightarrow> obligation list \<Rightarrow> delivery_system
    \<Rightarrow> delivery_note list \<times> delivery_system" where
  "sweep_takes g now claim_throws draw fault r todo y =
     (let y1 = y\<lparr>gd_sweep := Some (todo, None)\<rparr>; i = dl_id r in
      if i \<in> set (gd_flight y) then ([], y1)
      else (case adapter_for_bot g (dl_bot r) (dl_platform r) of
              None \<Rightarrow> ([], y1)
            | Some a \<Rightarrow>
                (case if claim_throws then (False, gd_ledger y) else claim_obligation now i (gd_ledger y) of
                   (False, l) \<Rightarrow> ([], y1)
                 | (True, l) \<Rightarrow>
                     let y2 = y1\<lparr>gd_ledger := l\<rparr> in
                     if kind_of r = VoiceReply then
                       (case voice_attempt g a r (gd_artifacts y) of
                          Inl refusal \<Rightarrow> settle_sweep g now draw fault r refusal y2
                        | Inr f \<Rightarrow> ([Sending i], y2\<lparr>gd_sweep := Some (todo, Some r)\<rparr>))
                     else ([Sending i], y2\<lparr>gd_sweep := Some (todo, Some r)\<rparr>))))"

definition abandon_overdue :: "delivery_gateway \<Rightarrow> int \<Rightarrow> int \<Rightarrow> bool \<Rightarrow> delivery_system \<Rightarrow> delivery_note list \<times> delivery_system" where
  "abandon_overdue g now days throws y =
     (if \<not> dg_store g then ([], y)
      else
        (let cutoff = now - days * 86400000 - gd_offset y; y1 = y\<lparr>gd_offset := 0\<rparr> in
         if throws then ([], y1)
         else (case abandon_stale (dg_bots g) cutoff (gd_ledger y) of
                 (rows, l) \<Rightarrow> (map (\<lambda>r. GaveUp (dl_id r)) rows,
                    fold (\<lambda>r. remove_artifact (dl_artifact r)) rows (y1\<lparr>gd_ledger := l\<rparr>)))))"

definition current_send :: "delivery_system \<Rightarrow> string list" where
  "current_send y = (case gd_sweep y of Some (todo, Some r) \<Rightarrow> [dl_id r] | _ \<Rightarrow> [])"

fun delivery_act ::
  "(string \<Rightarrow> string) \<Rightarrow> delivery_gateway \<Rightarrow> int \<times> delivery_event \<Rightarrow> delivery_system \<Rightarrow> delivery_note list \<times> delivery_system" where
  "delivery_act sha g (now, GoLive i inp throws) y =
     (if i \<in> set (gd_drawn y) then ([], y)
      else (case begin_delivery sha now i inp throws y of
              (None, z) \<Rightarrow> ([], z)
            | (Some _, z) \<Rightarrow> ([Recorded i, Sending i], z)))"
| "delivery_act sha g (now, LiveAnswered i ans throws) y =
     (if i \<notin> set (gd_flight y) then ([], y)
      else (case ans of
              Accepted \<Rightarrow>
                (case confirm_delivery i throws y of (ns, z) \<Rightarrow>
                   (Confirmed i # ns, end_delivery i (remove_artifact
                     (case get_obligation (gd_ledger y) i of None \<Rightarrow> None | Some r \<Rightarrow> dl_artifact r) z)))
            | Refused err permanent \<Rightarrow> ([Refusal i], end_delivery i y)))"
| "delivery_act sha g (now, ArtifactKept ref) y = ([], y\<lparr>gd_artifacts := ref # gd_artifacts y\<rparr>)"
| "delivery_act sha g (now, ArtifactsLost refs) y = ([], y\<lparr>gd_artifacts := filter (\<lambda>x. x \<notin> set refs) (gd_artifacts y)\<rparr>)"
| "delivery_act sha g (now, SweepBegins min_age reclaim_throws list_throws) y =
     (case gd_sweep y of
        Some _ \<Rightarrow> ([], y)
      | None \<Rightarrow>
          (let l = (if reclaim_throws then gd_ledger y
                    else snd (reclaim_stale_claims (now - delivery_claim_stale_ms) (gd_ledger y)))
           in ([], y\<lparr>gd_ledger := l,
                      gd_sweep := (if list_throws then None else Some (sweep_due g now min_age l, None))\<rparr>)))"
| "delivery_act sha g (now, SweepTakes claim_throws draw fault) y =
     (case gd_sweep y of
        Some ([], None) \<Rightarrow> ([], y\<lparr>gd_sweep := None\<rparr>)
      | Some (r # todo, None) \<Rightarrow> sweep_takes g now claim_throws draw fault r todo y
      | _ \<Rightarrow> ([], y))"
| "delivery_act sha g (now, SweepAnswered ans draw fault) y =
     (case gd_sweep y of
        Some (todo, Some r) \<Rightarrow>
          (case settle_sweep g now draw fault r ans (y\<lparr>gd_sweep := Some (todo, None)\<rparr>) of
             (ns, z) \<Rightarrow> ((if ans = Accepted then Confirmed (dl_id r) else Refusal (dl_id r)) # ns, z))
      | _ \<Rightarrow> ([], y))"
| "delivery_act sha g (now, AbandonOverdue days throws) y = abandon_overdue g now days throws y"
| "delivery_act sha g (now, PauseEnds ms) y = ([], if ms \<le> 0 then y else y\<lparr>gd_offset := gd_offset y + ms\<rparr>)"
| "delivery_act sha g (now, PruneOld cutoff) y = ([], y\<lparr>gd_ledger := snd (prune_delivered cutoff (gd_ledger y))\<rparr>)"
| "delivery_act sha g (now, Restart) y =
     (map Interrupted (gd_flight y @ current_send y), y\<lparr>gd_flight := [], gd_sweep := None, gd_offset := 0\<rparr>)"

end
