(* ===== verification/DeliveryLife.thy ===== *)
theory DeliveryLife
  imports GatewayDelivery
begin

text \<open>
  The life of one reply, as a relation of its own, and the proof that whatever happens to the gateway acts on
  every reply as one of its steps.
\<close>

section \<open>One reply\<close>

text \<open>The sweep has not listed the reply, or has, or is sending it again; with the attempts the listing saw.\<close>

datatype sweep_place = Nowhere | Listed nat | Going nat

record reply_view =
  rv_drawn :: bool
  rv_row :: "(delivery_status \<times> nat) option"
  rv_flight :: bool
  rv_place :: sweep_place

definition fresh_view :: reply_view where
  "fresh_view = \<lparr>rv_drawn = False, rv_row = None, rv_flight = False, rv_place = Nowhere\<rparr>"

fun live_row :: "(delivery_status \<times> nat) option \<Rightarrow> bool" where
  "live_row (Some (Owed, n)) = True"
| "live_row (Some (Redelivering, n)) = True"
| "live_row _ = False"

definition delivered_row :: "(delivery_status \<times> nat) option \<Rightarrow> (delivery_status \<times> nat) option" where
  "delivered_row = map_option (\<lambda>(st, n). (Delivered, n))"

definition released_row :: "(delivery_status \<times> nat) option \<Rightarrow> (delivery_status \<times> nat) option" where
  "released_row = map_option (\<lambda>(st, n). (if st = Redelivering then Owed else st, n))"

definition open_calls :: "reply_view \<Rightarrow> nat" where
  "open_calls v = (if rv_flight v then 1 else 0) + (case rv_place v of Going n \<Rightarrow> 1 | _ \<Rightarrow> 0)"

inductive reply_step :: "nat \<Rightarrow> string \<Rightarrow> reply_view \<Rightarrow> delivery_note list \<Rightarrow> reply_view \<Rightarrow> bool" for cap i where
  stutter: "reply_step cap i v [] v"
| recorded: "\<not> rv_drawn v \<Longrightarrow>
    reply_step cap i v [Recorded i, Sending i] (v\<lparr>rv_drawn := True, rv_row := Some (Owed, 0), rv_flight := True\<rparr>)"
| confirmed: "rv_flight v \<Longrightarrow>
    reply_step cap i v [Confirmed i, Settled i] (v\<lparr>rv_row := delivered_row (rv_row v), rv_flight := False\<rparr>)"
| unwritten: "rv_flight v \<Longrightarrow> reply_step cap i v [Confirmed i, Faulted i] (v\<lparr>rv_flight := False\<rparr>)"
| refused: "rv_flight v \<Longrightarrow> reply_step cap i v [Refusal i] (v\<lparr>rv_flight := False\<rparr>)"
| listed: "rv_place v = Nowhere \<Longrightarrow> row = rv_row v \<or> row = released_row (rv_row v) \<Longrightarrow>
    p = Nowhere \<or> (\<exists>n. row = Some (Owed, n) \<and> p = Listed n) \<Longrightarrow>
    reply_step cap i v [] (v\<lparr>rv_row := row, rv_place := p\<rparr>)"
| skipped: "rv_place v = Listed n \<Longrightarrow> reply_step cap i v [] (v\<lparr>rv_place := Nowhere\<rparr>)"
| taken: "rv_place v = Listed k \<Longrightarrow> \<not> rv_flight v \<Longrightarrow> rv_row v = Some (Owed, n) \<Longrightarrow>
    reply_step cap i v [Sending i] (v\<lparr>rv_row := Some (Redelivering, n), rv_place := Going k\<rparr>)"
| unsendable_faulted: "rv_place v = Listed k \<Longrightarrow> rv_row v = Some (Owed, n) \<Longrightarrow> st = Owed \<or> st = Redelivering \<Longrightarrow>
    reply_step cap i v [Faulted i] (v\<lparr>rv_row := Some (st, n), rv_place := Nowhere\<rparr>)"
| unsendable_deferred: "rv_place v = Listed k \<Longrightarrow> rv_row v = Some (Owed, n) \<Longrightarrow> Suc k < cap \<Longrightarrow>
    reply_step cap i v [] (v\<lparr>rv_row := Some (Owed, Suc n), rv_place := Nowhere\<rparr>)"
| unsendable_given_up: "rv_place v = Listed k \<Longrightarrow> rv_row v = Some (Owed, n) \<Longrightarrow>
    reply_step cap i v [GaveUp i] (v\<lparr>rv_row := Some (Abandoned, Suc n), rv_place := Nowhere\<rparr>)"
| resent: "rv_place v = Going k \<Longrightarrow>
    reply_step cap i v [Confirmed i, Settled i] (v\<lparr>rv_row := delivered_row (rv_row v), rv_place := Nowhere\<rparr>)"
| resent_faulted: "rv_place v = Going k \<Longrightarrow> row = rv_row v \<or> row = released_row (rv_row v) \<Longrightarrow>
    answer = Confirmed i \<or> answer = Refusal i \<Longrightarrow>
    reply_step cap i v [answer, Faulted i] (v\<lparr>rv_row := row, rv_place := Nowhere\<rparr>)"
| deferred: "rv_place v = Going k \<Longrightarrow> rv_row v = Some (Redelivering, n) \<Longrightarrow> Suc k < cap \<Longrightarrow>
    reply_step cap i v [Refusal i] (v\<lparr>rv_row := Some (Owed, Suc n), rv_place := Nowhere\<rparr>)"
| given_up: "rv_place v = Going k \<Longrightarrow> rv_row v = Some (Redelivering, n) \<Longrightarrow>
    reply_step cap i v [Refusal i, GaveUp i] (v\<lparr>rv_row := Some (Abandoned, Suc n), rv_place := Nowhere\<rparr>)"
| refused_late: "rv_place v = Going k \<Longrightarrow> (\<And>n. rv_row v \<noteq> Some (Redelivering, n)) \<Longrightarrow>
    reply_step cap i v [Refusal i] (v\<lparr>rv_place := Nowhere\<rparr>)"
| overdue: "live_row (rv_row v) \<Longrightarrow>
    reply_step cap i v [GaveUp i] (v\<lparr>rv_row := map_option (\<lambda>(st, n). (Abandoned, n)) (rv_row v)\<rparr>)"
| pruned: "\<not> live_row (rv_row v) \<Longrightarrow> reply_step cap i v [] (v\<lparr>rv_row := None\<rparr>)"
| restarted: "reply_step cap i v (replicate (open_calls v) (Interrupted i)) (v\<lparr>rv_flight := False, rv_place := Nowhere\<rparr>)"

text \<open>Everything that can happen to a reply, with what was noted of it.\<close>

inductive reply_run :: "nat \<Rightarrow> string \<Rightarrow> delivery_note list \<Rightarrow> reply_view \<Rightarrow> bool" for cap i where
  start: "reply_run cap i [] fresh_view"
| more: "reply_run cap i ns v \<Longrightarrow> reply_step cap i v us w \<Longrightarrow> reply_run cap i (ns @ us) w"

definition ended_calls :: "string \<Rightarrow> delivery_note list \<Rightarrow> nat" where
  "ended_calls i ns = count_list ns (Confirmed i) + count_list ns (Refusal i) + count_list ns (Interrupted i)"

definition closed_reply :: "string \<Rightarrow> delivery_note list \<Rightarrow> bool" where
  "closed_reply i ns \<longleftrightarrow> Settled i \<in> set ns \<or> GaveUp i \<in> set ns"

text \<open>A call begins only when none is under way and the reply is neither settled nor given up.\<close>

definition calls_in_turn :: "string \<Rightarrow> delivery_note list \<Rightarrow> bool" where
  "calls_in_turn i ns \<longleftrightarrow> (\<forall>as bs. ns = as @ Sending i # bs \<longrightarrow>
     count_list as (Sending i) = ended_calls i as \<and> \<not> closed_reply i as)"

definition reply_good :: "nat \<Rightarrow> string \<Rightarrow> delivery_note list \<Rightarrow> reply_view \<Rightarrow> bool" where
  "reply_good cap i ns v \<longleftrightarrow>
     (\<not> rv_drawn v \<longrightarrow> ns = [] \<and> v = fresh_view)
   \<and> (Recorded i \<in> set ns \<longleftrightarrow> rv_drawn v)
   \<and> \<not> (rv_flight v \<and> (\<exists>n. rv_place v = Going n))
   \<and> (\<forall>k. rv_place v = Going k \<longrightarrow> live_row (rv_row v) \<longrightarrow> rv_row v = Some (Redelivering, k))
   \<and> (\<forall>k st n. rv_place v = Listed k \<longrightarrow> rv_row v = Some (st, n) \<longrightarrow> live_row (Some (st, n)) \<longrightarrow> n = k)
   \<and> count_list ns (Sending i) = ended_calls i ns + open_calls v
   \<and> (closed_reply i ns \<longrightarrow> \<not> live_row (rv_row v))
   \<and> (\<forall>n. rv_row v = Some (Delivered, n) \<longrightarrow> Settled i \<in> set ns)
   \<and> (\<forall>n. rv_row v = Some (Abandoned, n) \<longrightarrow> GaveUp i \<in> set ns)
   \<and> (rv_drawn v \<longrightarrow> rv_row v = None \<longrightarrow> closed_reply i ns)
   \<and> (Settled i \<in> set ns \<longrightarrow> Confirmed i \<in> set ns)
   \<and> (\<forall>st n. rv_row v = Some (st, n) \<longrightarrow> live_row (Some (st, n)) \<longrightarrow> n < cap \<and>
        count_list ns (Sending i) \<le> 1 + n + count_list ns (Faulted i) + count_list ns (Interrupted i)
          + (case rv_place v of Going k \<Rightarrow> 1 | _ \<Rightarrow> 0))
   \<and> count_list ns (Sending i) \<le> 1 + cap + count_list ns (Faulted i) + count_list ns (Interrupted i)
   \<and> calls_in_turn i ns"

lemma live_row_iff: "live_row row \<longleftrightarrow> (\<exists>n. row = Some (Owed, n) \<or> row = Some (Redelivering, n))"
  by (cases row rule: live_row.cases) auto

lemma row_cases:
  obtains "row = None" | n where "row = Some (Owed, n)" | n where "row = Some (Redelivering, n)"
  | n where "row = Some (Delivered, n)" | n where "row = Some (Abandoned, n)"
  by (cases row) (auto, metis delivery_status.exhaust)

lemma count_append [simp]: "count_list (xs @ ys) a = count_list xs a + count_list ys a"
  by (rule count_list_append)

lemma ended_simps [simp]:
  "ended_calls i [] = 0" "ended_calls i (ns @ us) = ended_calls i ns + ended_calls i us"
  "ended_calls i (n # us) = (if n = Confirmed i \<or> n = Refusal i \<or> n = Interrupted i then 1 else 0) + ended_calls i us"
  by (auto simp: ended_calls_def)

lemma closed_simps [simp]:
  "closed_reply i [] = False" "closed_reply i (ns @ us) \<longleftrightarrow> closed_reply i ns \<or> closed_reply i us"
  "closed_reply i (n # us) \<longleftrightarrow> n = Settled i \<or> n = GaveUp i \<or> closed_reply i us"
  by (auto simp: closed_reply_def)

lemma calls_quiet: "calls_in_turn i ns \<Longrightarrow> Sending i \<notin> set us \<Longrightarrow> calls_in_turn i (ns @ us)"
  unfolding calls_in_turn_def
  by (auto simp: append_eq_append_conv2 append_eq_Cons_conv)

lemma calls_snoc:
  assumes "calls_in_turn i ns" "count_list ns (Sending i) = ended_calls i ns" "\<not> closed_reply i ns"
  shows "calls_in_turn i (ns @ [Sending i])"
  unfolding calls_in_turn_def
proof (intro allI impI)
  fix as bs
  assume "ns @ [Sending i] = as @ Sending i # bs"
  then show "count_list as (Sending i) = ended_calls i as \<and> \<not> closed_reply i as"
    using assms by (cases bs rule: rev_cases) (auto simp: calls_in_turn_def)
qed

text \<open>Every step keeps it.\<close>

lemma reply_keeps:
  assumes "reply_good cap i ns v" "reply_step cap i v us w" "1 \<le> cap"
  shows "reply_good cap i (ns @ us) w"
  using assms(2)
proof cases
  case stutter
  then show ?thesis using assms(1) by simp
next
  case recorded
  then have "ns = []" "v = fresh_view" using assms(1) by (simp_all add: reply_good_def)
  moreover have "calls_in_turn i ([] @ [Recorded i])" "calls_in_turn i (([] @ [Recorded i]) @ [Sending i])"
    by (intro calls_quiet calls_snoc; simp add: calls_in_turn_def)+
  ultimately show ?thesis using recorded assms(3) by (simp add: reply_good_def fresh_view_def open_calls_def)
next
  case (taken k n)
  have "count_list ns (Sending i) = ended_calls i ns" "\<not> closed_reply i ns" "calls_in_turn i ns"
    using assms(1) taken by (auto simp: reply_good_def open_calls_def)
  then have "calls_in_turn i (ns @ us)" unfolding taken(1) by (intro calls_snoc)
  then show ?thesis using assms(1) taken by (auto simp: reply_good_def open_calls_def fresh_view_def)
next
  case (listed row p)
  then show ?thesis using assms(1)
    by (cases "rv_row v" rule: row_cases) (auto simp: reply_good_def open_calls_def released_row_def fresh_view_def)
next
  case (resent_faulted k row answer)
  then have "calls_in_turn i (ns @ us)" using assms(1) by (intro calls_quiet) (auto simp: reply_good_def)
  then show ?thesis using assms(1) resent_faulted
    by (cases "rv_row v" rule: row_cases) (auto simp: reply_good_def open_calls_def released_row_def fresh_view_def)
next
  case restarted
  have c: "count_list (replicate m (Interrupted i)) n = (if n = Interrupted i then m else 0)" for m n
    by (induction m) auto
  have "ended_calls i us = open_calls v" "closed_reply i us = False" "Sending i \<notin> set us"
    by (auto simp: restarted ended_calls_def c closed_reply_def)
  moreover have "calls_in_turn i (ns @ us)"
    using assms(1) calculation(3) by (intro calls_quiet) (simp_all add: reply_good_def)
  ultimately show ?thesis using assms(1)
    by (cases "rv_row v" rule: row_cases; cases "rv_place v")
      (auto simp: reply_good_def restarted open_calls_def c fresh_view_def)
next
  case (skipped n)
  then have "rv_drawn v" using assms(1) by (auto simp: reply_good_def fresh_view_def)
  then show ?thesis using assms(1) skipped calls_quiet [of i ns us]
    by (cases "rv_row v" rule: row_cases) (auto simp: reply_good_def open_calls_def)
next
  case confirmed
  then show ?thesis using assms(1) calls_quiet [of i ns us]
    by (cases "rv_row v" rule: row_cases) (auto simp: reply_good_def open_calls_def delivered_row_def fresh_view_def)
next
  case unwritten
  then have "rv_drawn v" using assms(1) by (auto simp: reply_good_def fresh_view_def)
  then show ?thesis using assms(1) unwritten calls_quiet [of i ns us]
    by (cases "rv_row v" rule: row_cases) (auto simp: reply_good_def open_calls_def)
next
  case refused
  then have "rv_drawn v" using assms(1) by (auto simp: reply_good_def fresh_view_def)
  then show ?thesis using assms(1) refused calls_quiet [of i ns us]
    by (cases "rv_row v" rule: row_cases) (auto simp: reply_good_def open_calls_def)
next
  case (resent k)
  then show ?thesis using assms(1) calls_quiet [of i ns us]
    by (cases "rv_row v" rule: row_cases) (auto simp: reply_good_def open_calls_def delivered_row_def fresh_view_def)
next
  case (refused_late k)
  then show ?thesis using assms(1) calls_quiet [of i ns us]
    by (cases "rv_row v" rule: row_cases) (auto simp: reply_good_def open_calls_def fresh_view_def)
next
  case overdue
  then show ?thesis using assms(1) calls_quiet [of i ns us]
    by (cases "rv_row v" rule: row_cases; cases "rv_place v")
      (auto simp: reply_good_def open_calls_def fresh_view_def)
next
  case pruned
  then show ?thesis using assms(1) calls_quiet [of i ns us]
    by (cases "rv_row v" rule: row_cases; cases "rv_place v")
      (auto simp: reply_good_def open_calls_def fresh_view_def closed_reply_def)
next
  case (unsendable_faulted k n st)
  then have "rv_drawn v" using assms(1) by (auto simp: reply_good_def fresh_view_def)
  then show ?thesis using assms(1) unsendable_faulted calls_quiet [of i ns us] by (auto simp: reply_good_def open_calls_def)
next
  case (unsendable_deferred k n)
  then have "rv_drawn v" using assms(1) by (auto simp: reply_good_def fresh_view_def)
  then show ?thesis using assms(1) unsendable_deferred calls_quiet [of i ns us] by (auto simp: reply_good_def open_calls_def)
next
  case (unsendable_given_up k n)
  then have "rv_drawn v" using assms(1) by (auto simp: reply_good_def fresh_view_def)
  then show ?thesis using assms(1) unsendable_given_up calls_quiet [of i ns us] by (auto simp: reply_good_def open_calls_def)
next
  case (deferred k n)
  then have "rv_drawn v" using assms(1) by (auto simp: reply_good_def fresh_view_def)
  then show ?thesis using assms(1) deferred calls_quiet [of i ns us] by (auto simp: reply_good_def open_calls_def)
next
  case (given_up k n)
  then have "rv_drawn v" using assms(1) by (auto simp: reply_good_def fresh_view_def)
  then show ?thesis using assms(1) given_up calls_quiet [of i ns us] by (auto simp: reply_good_def open_calls_def)
qed

lemma reply_run_good: "reply_run cap i ns v \<Longrightarrow> 1 \<le> cap \<Longrightarrow> reply_good cap i ns v"
proof (induction rule: reply_run.induct)
  case start
  then show ?case by (simp add: reply_good_def fresh_view_def open_calls_def calls_in_turn_def)
qed (rule reply_keeps)

end
