(* ===== verification/DeliveryRows.thy ===== *)
theory DeliveryRows
  imports DeliveryLife
begin

text \<open>
  A reply as a view of the gateway's state, and what each operation of the ledger does to the view.
\<close>

section \<open>A reply in the gateway\<close>

definition place_of :: "string \<Rightarrow> delivery_system \<Rightarrow> sweep_place" where
  "place_of i y =
     (case gd_sweep y of
        None \<Rightarrow> Nowhere
      | Some (todo, cur) \<Rightarrow>
          (case find (\<lambda>r. dl_id r = i) (case cur of None \<Rightarrow> [] | Some r \<Rightarrow> [r]) of
             Some r \<Rightarrow> Going (dl_attempts r)
           | None \<Rightarrow> (case find (\<lambda>r. dl_id r = i) todo of None \<Rightarrow> Nowhere | Some r \<Rightarrow> Listed (dl_attempts r))))"

definition row_of :: "string \<Rightarrow> ledger \<Rightarrow> (delivery_status \<times> nat) option" where
  "row_of i l = map_option (\<lambda>r. (dl_status r, dl_attempts r)) (get_obligation l i)"

definition reply_of :: "string \<Rightarrow> delivery_system \<Rightarrow> reply_view" where
  "reply_of i y = \<lparr>rv_drawn = i \<in> set (gd_drawn y), rv_row = row_of i (gd_ledger y),
     rv_flight = i \<in> set (gd_flight y), rv_place = place_of i y\<rparr>"

definition delivery_wf :: "delivery_system \<Rightarrow> bool" where
  "delivery_wf y \<longleftrightarrow> distinct (map dl_id (gd_ledger y)) \<and> distinct (gd_flight y) \<and> set (gd_flight y) \<subseteq> set (gd_drawn y)
     \<and> (case gd_sweep y of None \<Rightarrow> True
        | Some (todo, cur) \<Rightarrow> distinct (map dl_id ((case cur of None \<Rightarrow> [] | Some r \<Rightarrow> [r]) @ todo)))"

fun note_of :: "delivery_note \<Rightarrow> string" where
  "note_of (Recorded i) = i" | "note_of (Sending i) = i" | "note_of (Confirmed i) = i" | "note_of (Refusal i) = i"
| "note_of (Interrupted i) = i" | "note_of (Settled i) = i" | "note_of (GaveUp i) = i" | "note_of (Faulted i) = i"

definition notes_on :: "string \<Rightarrow> delivery_note list \<Rightarrow> delivery_note list" where
  "notes_on i = filter (\<lambda>n. note_of n = i)"

lemma notes_on_simps [simp]:
  "notes_on i [] = []" "notes_on i (n # ns) = (if note_of n = i then n # notes_on i ns else notes_on i ns)"
  "notes_on i (ns @ us) = notes_on i ns @ notes_on i us"
  by (simp_all add: notes_on_def)

text \<open>The ledger's operations, read off the row of an id.\<close>

lemma get_map_rows:
  "(\<And>r. dl_id (h r) = dl_id r) \<Longrightarrow> get_obligation (map h l) i = map_option h (get_obligation l i)"
  unfolding get_obligation_def by (induction l) auto

lemma ids_map_rows: "(\<And>r. dl_id (h r) = dl_id r) \<Longrightarrow> map dl_id (map h l) = map dl_id l"
  by simp

lemma get_obligation_id: "get_obligation l i = Some r \<Longrightarrow> r \<in> set l \<and> dl_id r = i"
  unfolding get_obligation_def by (rule find_SomeD)

lemma get_updated:
  assumes "\<And>r. dl_id (f r) = dl_id r"
  shows "get_obligation (snd (upd_obligation j P f l)) i
      = map_option (\<lambda>r. if i = j \<and> P r then f r else r) (get_obligation l i)"
proof -
  have "get_obligation (snd (upd_obligation j P f l)) i
      = map_option (\<lambda>r. if dl_id r = j \<and> P r then f r else r) (get_obligation l i)"
    unfolding upd_obligation_def snd_conv by (rule get_map_rows) (simp add: assms)
  then show ?thesis using get_obligation_id [of l i] by (cases "get_obligation l i") auto
qed

lemma ids_updated: "(\<And>r. dl_id (f r) = dl_id r) \<Longrightarrow> map dl_id (snd (upd_obligation j P f l)) = map dl_id l"
  by (simp add: upd_obligation_def)

lemma hit_row:
  assumes "distinct (map dl_id l)"
  shows "list_ex (\<lambda>r. dl_id r = i \<and> P r) l \<longleftrightarrow> (\<exists>r. get_obligation l i = Some r \<and> P r)"
  using find_key_iff [OF assms, of i] unfolding get_obligation_def list_ex_iff by blast

lemma row_updated:
  assumes "\<And>r. dl_id (f r) = dl_id r"
  shows "row_of i (snd (upd_obligation j P f l)) = (if i = j then
      map_option (\<lambda>r. if P r then (dl_status (f r), dl_attempts (f r)) else (dl_status r, dl_attempts r)) (get_obligation l i)
    else row_of i l)"
  by (auto simp: row_of_def get_updated [OF assms] option.map_comp intro!: option.map_cong)

lemma row_delivered: "row_of i (mark_delivered j l) = (if i = j then delivered_row (row_of i l) else row_of i l)"
  by (cases "get_obligation l i") (auto simp: mark_delivered_def row_of_def get_updated delivered_row_def)

lemma row_released: "row_of i (release_obligation j l) = (if i = j then released_row (row_of i l) else row_of i l)"
  by (cases "get_obligation l i")
    (auto simp: release_obligation_def row_of_def get_updated released_row_def has_status_def)

lemma claim_hits:
  assumes "distinct (map dl_id l)"
  shows "fst (claim_obligation now j l) \<longleftrightarrow> (\<exists>n. row_of j l = Some (Owed, n))"
proof -
  have "fst (claim_obligation now j l) = list_ex (\<lambda>r. dl_id r = j \<and> has_status Owed r) l"
    by (simp add: claim_obligation_def upd_obligation_def)
  then show ?thesis unfolding hit_row [OF assms] by (auto simp: row_of_def has_status_def)
qed

lemma row_claimed:
  "row_of i (snd (claim_obligation now j l))
      = (case row_of i l of Some (Owed, n) \<Rightarrow> Some (if i = j then Redelivering else Owed, n) | row \<Rightarrow> row)"
  by (cases "get_obligation l i"; cases "dl_status (the (get_obligation l i))")
    (simp_all add: claim_obligation_def row_of_def get_updated has_status_def)

lemma row_deferred:
  "row_of i (snd (defer_retry j t l))
      = (case row_of i l of Some (Redelivering, n) \<Rightarrow> Some (if i = j then (Owed, Suc n) else (Redelivering, n)) | row \<Rightarrow> row)"
  by (cases "get_obligation l i"; cases "dl_status (the (get_obligation l i))")
    (simp_all add: defer_retry_def Let_def row_of_def get_updated has_status_def)

lemma row_abandoned:
  "row_of i (snd (abandon_obligation j reason l))
      = (case row_of i l of Some (Redelivering, n) \<Rightarrow> Some (if i = j then (Abandoned, Suc n) else (Redelivering, n)) | row \<Rightarrow> row)"
  by (cases "get_obligation l i"; cases "dl_status (the (get_obligation l i))")
    (simp_all add: abandon_obligation_def Let_def row_of_def get_updated has_status_def)

lemma abandon_hits:
  assumes "distinct (map dl_id l)"
  shows "fst (abandon_obligation j reason l) \<noteq> None \<longleftrightarrow> (\<exists>n. row_of j l = Some (Redelivering, n))"
proof -
  have "fst (abandon_obligation j reason l) \<noteq> None \<longleftrightarrow> (\<exists>r. get_obligation l j = Some r \<and> has_status Redelivering r)"
    by (auto simp: abandon_obligation_def Let_def hit_row [OF assms] get_updated)
  then show ?thesis by (auto simp: row_of_def has_status_def)
qed

lemma row_reclaimed:
  "row_of i (snd (reclaim_stale_claims cutoff l)) = row_of i l
   \<or> row_of i (snd (reclaim_stale_claims cutoff l)) = released_row (row_of i l)"
proof -
  let ?h = "\<lambda>r. if dl_status r = Redelivering \<and> (case dl_claimed_at r of None \<Rightarrow> False | Some t \<Rightarrow> t < cutoff)
    then r\<lparr>dl_status := Owed, dl_claimed_at := None\<rparr> else r"
  have "get_obligation (map ?h l) i = map_option ?h (get_obligation l i)" by (rule get_map_rows) simp
  then have "get_obligation (snd (reclaim_stale_claims cutoff l)) i = map_option ?h (get_obligation l i)"
    by (simp add: reclaim_stale_claims_def Let_def)
  then show ?thesis by (cases "get_obligation l i") (auto simp: row_of_def released_row_def)
qed

lemma row_overdue:
  "row_of i (snd (abandon_stale bots cutoff l)) = (case get_obligation l i of None \<Rightarrow> None
     | Some r \<Rightarrow> Some (if bots \<noteq> [] \<and> overdue bots cutoff r then Abandoned else dl_status r, dl_attempts r))"
proof -
  let ?h = "\<lambda>r. if overdue bots cutoff r then r\<lparr>dl_status := Abandoned\<rparr> else r"
  have "get_obligation (map ?h l) i = map_option ?h (get_obligation l i)" by (rule get_map_rows) simp
  then show ?thesis by (cases "get_obligation l i") (auto simp: row_of_def abandon_stale_def)
qed

lemma find_filter_key:
  "distinct (map key l) \<Longrightarrow> find (\<lambda>r. key r = i) (filter P l)
     = (case find (\<lambda>r. key r = i) l of None \<Rightarrow> None | Some r \<Rightarrow> if P r then Some r else None)"
proof (induction l)
  case (Cons a l)
  have "find (\<lambda>r. key r = i) l = None" if "key a = i" using Cons.prems that by (auto simp: find_None_iff) (metis image_eqI)
  then show ?case using Cons by (auto split: option.splits)
qed simp

lemma row_pruned:
  assumes "distinct (map dl_id l)"
  shows "row_of i (snd (prune_delivered cutoff l)) = row_of i l
    \<or> row_of i (snd (prune_delivered cutoff l)) = None \<and> \<not> live_row (row_of i l)"
proof -
  let ?P = "\<lambda>r. \<not> ((dl_status r = Delivered \<or> dl_status r = Abandoned) \<and> dl_created r < cutoff)"
  have "find (\<lambda>r. dl_id r = i) (filter ?P l)
      = (case find (\<lambda>r. dl_id r = i) l of None \<Rightarrow> None | Some r \<Rightarrow> if ?P r then Some r else None)"
    using assms by (rule find_filter_key)
  then have "get_obligation (snd (prune_delivered cutoff l)) i
      = (case get_obligation l i of None \<Rightarrow> None | Some r \<Rightarrow> if ?P r then Some r else None)"
    by (simp add: get_obligation_def prune_delivered_def Let_def)
  then show ?thesis by (cases "get_obligation l i") (auto simp: row_of_def live_row_iff)
qed

lemma row_recorded:
  assumes "record_obligation sha now j inp l = Some l'"
  shows "row_of i l' = (if i = j then Some (Owed, 0) else row_of i l)"
  using assms by (auto simp: record_obligation_def row_of_def get_obligation_def find_append
      split: option.splits if_splits)

text \<open>What a settlement does: nothing to another reply, and one of five things to its own.\<close>

lemma removed_artifact [simp]:
  "gd_ledger (remove_artifact f y) = gd_ledger y" "gd_drawn (remove_artifact f y) = gd_drawn y"
  "gd_flight (remove_artifact f y) = gd_flight y" "gd_sweep (remove_artifact f y) = gd_sweep y"
  by (simp_all add: remove_artifact_def split: option.split)

lemma place_frame: "gd_sweep z = gd_sweep y \<Longrightarrow> place_of i z = place_of i y"
  by (simp add: place_of_def)

lemma ids_kept [simp]:
  "map dl_id (mark_delivered i l) = map dl_id l" "map dl_id (release_obligation i l) = map dl_id l"
  "map dl_id (snd (claim_obligation now i l)) = map dl_id l" "map dl_id (snd (defer_retry i t l)) = map dl_id l"
  "map dl_id (snd (abandon_obligation i why l)) = map dl_id l"
  "map dl_id (snd (reclaim_stale_claims t l)) = map dl_id l" "map dl_id (snd (abandon_stale bots t l)) = map dl_id l"
  by (simp_all add: mark_delivered_def release_obligation_def claim_obligation_def defer_retry_def abandon_obligation_def
      Let_def ids_updated reclaim_stale_claims_def abandon_stale_def)

definition settled_as :: "nat \<Rightarrow> ledger_fault \<Rightarrow> platform_answer \<Rightarrow> obligation \<Rightarrow> (delivery_status \<times> nat) option
    \<Rightarrow> delivery_note list \<Rightarrow> (delivery_status \<times> nat) option \<Rightarrow> bool" where
  "settled_as cap fault ans r row ns row' \<longleftrightarrow>
     ns = [Faulted (dl_id r)] \<and> (row' = row \<or> row' = released_row row)
   \<or> ans = Accepted \<and> ns = [Settled (dl_id r)] \<and> row' = delivered_row row
   \<or> ans \<noteq> Accepted \<and> (\<exists>n. row = Some (Redelivering, n) \<and> (ns = [] \<and> Suc (dl_attempts r) < cap \<and> row' = Some (Owed, Suc n)
        \<or> ns = [GaveUp (dl_id r)] \<and> row' = Some (Abandoned, Suc n)))
   \<or> ans \<noteq> Accepted \<and> ns = [] \<and> (\<forall>n. row \<noteq> Some (Redelivering, n)) \<and> row' = row"

lemma refused_settlement:
  assumes "settle_refused g now draw r err permanent y = (ns, z)" "distinct (map dl_id (gd_ledger y))" "ans \<noteq> Accepted"
  shows "gd_drawn z = gd_drawn y \<and> gd_flight z = gd_flight y \<and> gd_sweep z = gd_sweep y
    \<and> map dl_id (gd_ledger z) = map dl_id (gd_ledger y) \<and> (\<forall>n \<in> set ns. note_of n = dl_id r)
    \<and> (\<forall>i. i \<noteq> dl_id r \<longrightarrow> row_of i (gd_ledger z) = row_of i (gd_ledger y))
    \<and> settled_as (dg_cap g) fault ans r (row_of (dl_id r) (gd_ledger y)) ns (row_of (dl_id r) (gd_ledger z))"
proof (cases "refusal_reason g (Suc (dl_attempts r)) err permanent")
  case None
  let ?t = "now + delivery_retry_delay_ms (Suc (dl_attempts r)) draw"
  have z: "ns = []" "z = y\<lparr>gd_ledger := snd (defer_retry (dl_id r) ?t (gd_ledger y))\<rparr>"
    using assms(1) None by (simp_all add: settle_refused_def Let_def)
  have "Suc (dl_attempts r) < dg_cap g"
    using None by (simp add: refusal_reason_def Let_def split: if_splits)
  then show ?thesis using assms(3)
    by (cases "row_of (dl_id r) (gd_ledger y)" rule: row_cases)
      (auto simp: z row_deferred settled_as_def split: option.split prod.split delivery_status.split)
next
  case (Some reason)
  obtain q l where q: "abandon_obligation (dl_id r) reason (gd_ledger y) = (q, l)" by fastforce
  have hits: "q \<noteq> None \<longleftrightarrow> (\<exists>n. row_of (dl_id r) (gd_ledger y) = Some (Redelivering, n))"
    using abandon_hits [OF assms(2), of "dl_id r" reason] q by simp
  have l: "l = snd (abandon_obligation (dl_id r) reason (gd_ledger y))" using q by simp
  have z: "gd_ledger z = l" "gd_drawn z = gd_drawn y" "gd_flight z = gd_flight y" "gd_sweep z = gd_sweep y"
    "ns = (if q = None then [] else [GaveUp (dl_id r)])"
    using assms(1) Some q by (auto simp: settle_refused_def Let_def split: option.splits)
  show ?thesis using assms(3) hits
    by (cases "row_of (dl_id r) (gd_ledger y)" rule: row_cases)
      (auto simp: z l row_abandoned settled_as_def split: option.split prod.split delivery_status.split)
qed

lemma sweep_settlement:
  assumes "settle_sweep g now draw fault r ans y = (ns, z)" "distinct (map dl_id (gd_ledger y))"
  shows "gd_drawn z = gd_drawn y \<and> gd_flight z = gd_flight y \<and> gd_sweep z = gd_sweep y
    \<and> map dl_id (gd_ledger z) = map dl_id (gd_ledger y) \<and> (\<forall>n \<in> set ns. note_of n = dl_id r)
    \<and> (\<forall>i. i \<noteq> dl_id r \<longrightarrow> row_of i (gd_ledger z) = row_of i (gd_ledger y))
    \<and> settled_as (dg_cap g) fault ans r (row_of (dl_id r) (gd_ledger y)) ns (row_of (dl_id r) (gd_ledger z))"
proof (cases "fault = NoFault")
  case True
  then show ?thesis
  proof (cases ans)
    case Accepted
    then show ?thesis using assms(1) True
      by (auto simp: settle_sweep_def Let_def row_delivered settled_as_def split: if_splits)
  next
    case (Refused err permanent)
    then have "settle_refused g now draw r err permanent y = (ns, z)" using assms(1) True by (simp add: settle_sweep_def)
    then show ?thesis using refused_settlement [OF _ assms(2), of g now draw r err permanent ns z ans fault] Refused by simp
  qed
next
  case False
  then show ?thesis using assms(1)
    by (auto simp: settle_sweep_def faulted_def row_released settled_as_def split: if_splits)
qed

end
