(* ===== verification/DeliveryProps.thy ===== *)
theory DeliveryProps
  imports DeliveryRows
begin

text \<open>
  The properties of the deliveries: every event is a step of the life of each reply, so no reply is sent twice at
  once or after it was settled, none is lost, and the sends are bounded by the attempt cap.
\<close>

section \<open>Every event is a step of each reply\<close>

lemma place_simps [simp]:
  "gd_sweep y = None \<Longrightarrow> place_of i y = Nowhere"
  "gd_sweep y = Some (todo, None) \<Longrightarrow> place_of i y
     = (case find (\<lambda>r. dl_id r = i) todo of None \<Rightarrow> Nowhere | Some r \<Rightarrow> Listed (dl_attempts r))"
  "gd_sweep y = Some (todo, Some q) \<Longrightarrow> place_of i y = (if dl_id q = i then Going (dl_attempts q)
     else case find (\<lambda>r. dl_id r = i) todo of None \<Rightarrow> Nowhere | Some r \<Rightarrow> Listed (dl_attempts r))"
  by (simp_all add: place_of_def)

lemma steps_frame:
  "reply_of i z = reply_of i y \<Longrightarrow> notes_on i us = [] \<Longrightarrow> reply_step cap i (reply_of i y) (notes_on i us) (reply_of i z)"
  by (simp add: stutter)

lemma step_as:
  "reply_step cap i (reply_of i y) us w \<Longrightarrow> reply_of i z = w \<Longrightarrow> ns = us \<Longrightarrow> reply_step cap i (reply_of i y) ns (reply_of i z)"
  by simp

lemma step_late:
  "rv_place v = Going k \<Longrightarrow> (\<And>n. rv_row v \<noteq> Some (Redelivering, n)) \<Longrightarrow>
     reply_step cap i v [Refusal i] (v\<lparr>rv_row := rv_row v, rv_place := Nowhere\<rparr>)"
  using refused_late [of v k] by simp

lemma step_unwritten:
  "rv_place v = Going k \<Longrightarrow> reply_step cap i v [Confirmed i, Faulted i] (v\<lparr>rv_place := Nowhere\<rparr>)"
  "rv_place v = Going k \<Longrightarrow> reply_step cap i v [Refusal i, Faulted i] (v\<lparr>rv_place := Nowhere\<rparr>)"
  using resent_faulted [of v k "rv_row v"] by simp_all

lemma distinct_sorted_ids: "distinct (map dl_id l) \<Longrightarrow> distinct (map dl_id (sort_key f (filter P l)))"
  by (auto simp: distinct_map inj_on_def)

lemma count_list_distinct: "distinct xs \<Longrightarrow> count_list xs i = (if i \<in> set xs then 1 else 0)"
  by (induction xs) auto

lemma gone_from_list: "distinct (map dl_id (r # todo)) \<Longrightarrow> find (\<lambda>q. dl_id q = dl_id r) todo = None"
  by (auto simp: find_None_iff) (metis image_eqI)

lemma notes_elsewhere: "\<forall>n \<in> set ns. note_of n = j \<Longrightarrow> notes_on i ns = (if i = j then ns else [])"
  by (induction ns) auto

text \<open>The sweep meets the head of its list.\<close>

lemma taken_step:
  assumes wf: "delivery_wf y" and y: "gd_sweep y = Some (r # todo, None)"
    and e: "sweep_takes g now claim_throws draw fault r todo y = (us, z)"
  shows "delivery_wf z" "reply_step (dg_cap g) i (reply_of i y) (notes_on i us) (reply_of i z)"
proof -
  let ?j = "dl_id r" and ?y1 = "y\<lparr>gd_sweep := Some (todo, None)\<rparr>"
  have d: "distinct (map dl_id (gd_ledger y))" "distinct (map dl_id (r # todo))"
    using wf y by (simp_all add: delivery_wf_def)
  note gone = gone_from_list [OF d(2)]
  have wf1: "delivery_wf (?y1\<lparr>gd_ledger := l\<rparr>)" if "map dl_id l = map dl_id (gd_ledger y)" for l
    using wf y that by (simp add: delivery_wf_def)
  have pass: "reply_step (dg_cap g) i (reply_of i y) (notes_on i []) (reply_of i ?y1)"
  proof (cases "i = ?j")
    case True
    then show ?thesis using y gone
      by (intro step_as [OF skipped [of "reply_of i y" "dl_attempts r"]]) (simp_all add: reply_of_def)
  next
    case False
    then show ?thesis by (intro steps_frame) (use y in \<open>simp_all add: reply_of_def\<close>)
  qed
  obtain ok l where c: "(if claim_throws then (False, gd_ledger y) else claim_obligation now ?j (gd_ledger y)) = (ok, l)"
    by fastforce
  consider (skip) "us = []" "z = ?y1"
    | (send) "ok" "?j \<notin> set (gd_flight y)" "us = [Sending ?j]" "z = y\<lparr>gd_sweep := Some (todo, Some r), gd_ledger := l\<rparr>"
    | (unsent) err permanent where "ok" "?j \<notin> set (gd_flight y)"
        "settle_sweep g now draw fault r (Refused err permanent) (?y1\<lparr>gd_ledger := l\<rparr>) = (us, z)"
    using e c by (auto simp: sweep_takes_def Let_def voice_attempt_def split: if_splits option.splits sum.splits bool.splits)
  then have "delivery_wf z \<and> reply_step (dg_cap g) i (reply_of i y) (notes_on i us) (reply_of i z)"
  proof cases
    case skip
    then show ?thesis using wf1 [of "gd_ledger y"] pass by simp
  next
    case send
    have l: "l = snd (claim_obligation now ?j (gd_ledger y))" "fst (claim_obligation now ?j (gd_ledger y))"
      using c send(1) by (cases claim_throws; simp)+
    then obtain n where n: "row_of ?j (gd_ledger y) = Some (Owed, n)"
      using claim_hits [OF d(1), of now ?j] by auto
    have "delivery_wf z" using wf y by (simp add: delivery_wf_def send(4) l(1))
    moreover have "reply_step (dg_cap g) i (reply_of i y) (notes_on i us) (reply_of i z)"
    proof (cases "i = ?j")
      case True
      then show ?thesis using y n send
        by (intro step_as [OF taken [of "reply_of i y" "dl_attempts r" n]]) (simp_all add: reply_of_def l(1) row_claimed)
    next
      case False
      then show ?thesis using y
        by (intro steps_frame) (simp_all add: reply_of_def send l(1) row_claimed split: option.split prod.split delivery_status.split)
    qed
    ultimately show ?thesis by simp
  next
    case unsent
    have l: "l = snd (claim_obligation now ?j (gd_ledger y))" "fst (claim_obligation now ?j (gd_ledger y))"
      using c unsent(1) by (cases claim_throws; simp)+
    then obtain n where n: "row_of ?j (gd_ledger y) = Some (Owed, n)"
      using claim_hits [OF d(1), of now ?j] by auto
    have "distinct (map dl_id (gd_ledger (?y1\<lparr>gd_ledger := l\<rparr>)))" using d(1) l(1) by simp
    note st = sweep_settlement [OF unsent(3) this, simplified]
    have own: "row_of ?j l = Some (Redelivering, n)" using n by (simp add: l(1) row_claimed)
    have away: "row_of i l = row_of i (gd_ledger y)" if "i \<noteq> ?j" for i
      using that by (simp add: l(1) row_claimed split: option.split prod.split delivery_status.split)
    have "delivery_wf z" using wf y st by (simp add: delivery_wf_def l(1))
    moreover have "reply_step (dg_cap g) i (reply_of i y) (notes_on i us) (reply_of i z)"
    proof (cases "i = ?j")
      case True
      have z: "reply_of i z = (reply_of i y)\<lparr>rv_row := row_of ?j (gd_ledger z), rv_place := Nowhere\<rparr>"
        using st gone y True by (simp add: reply_of_def)
      have us: "notes_on i us = us" using notes_elsewhere [of us ?j i] st True by simp
      have at_list: "rv_place (reply_of i y) = Listed (dl_attempts r)" "rv_row (reply_of i y) = Some (Owed, n)"
        using y n True by (simp_all add: reply_of_def)
      consider "us = [Faulted i]" "\<exists>t. (t = Owed \<or> t = Redelivering) \<and> row_of ?j (gd_ledger z) = Some (t, n)"
        | "us = []" "Suc (dl_attempts r) < dg_cap g" "row_of ?j (gd_ledger z) = Some (Owed, Suc n)"
        | "us = [GaveUp i]" "row_of ?j (gd_ledger z) = Some (Abandoned, Suc n)"
        using st own True by (auto simp: settled_as_def released_row_def)
      then show ?thesis unfolding us z
        by cases (use at_list in \<open>auto intro: reply_step.intros\<close>)
    next
      case False
      then show ?thesis using st y away notes_elsewhere [of us ?j i]
        by (intro steps_frame) (simp_all add: reply_of_def)
    qed
    ultimately show ?thesis by simp
  qed
  then show "delivery_wf z" "reply_step (dg_cap g) i (reply_of i y) (notes_on i us) (reply_of i z)" by simp_all
qed

text \<open>The sweep lists what is due.\<close>

lemma begun_step:
  assumes wf: "delivery_wf y" and e: "delivery_act sha g (now, SweepBegins min_age reclaim_throws list_throws) y = (us, z)"
  shows "delivery_wf z \<and> reply_step (dg_cap g) i (reply_of i y) (notes_on i us) (reply_of i z)"
proof (cases "gd_sweep y")
  case None
  let ?l = "if reclaim_throws then gd_ledger y else snd (reclaim_stale_claims (now - delivery_claim_stale_ms) (gd_ledger y))"
  let ?due = "sweep_due g now min_age ?l"
  have z: "us = []" "z = y\<lparr>gd_ledger := ?l, gd_sweep := (if list_throws then None else Some (?due, None))\<rparr>"
    using e None by (simp_all add: Let_def)
  have d: "distinct (map dl_id ?l)" using wf by (simp add: delivery_wf_def)
  then have due: "distinct (map dl_id ?due)" "set ?due \<subseteq> {r \<in> set ?l. dl_status r = Owed}"
    by (auto simp: sweep_due_def list_owed_def distinct_map_filter distinct_map inj_on_def)
  have "delivery_wf z" using wf d due(1) by (simp add: delivery_wf_def z)
  moreover have "row_of i ?l = row_of i (gd_ledger y) \<or> row_of i ?l = released_row (row_of i (gd_ledger y))"
    using row_reclaimed by simp
  moreover have "place_of i z = Nowhere \<or> (\<exists>n. row_of i ?l = Some (Owed, n) \<and> place_of i z = Listed n)"
  proof (cases "find (\<lambda>r. dl_id r = i) ?due")
    case (Some r)
    then have "r \<in> set ?l" "dl_id r = i" "dl_status r = Owed" using find_SomeD [OF Some] due(2) by auto
    then have "get_obligation ?l i = Some r" using find_key_iff [OF d, of i r] by (simp add: get_obligation_def)
    then show ?thesis using Some \<open>dl_status r = Owed\<close> by (simp add: row_of_def z)
  qed (simp add: z)
  ultimately show ?thesis using None
    by (intro conjI step_as [OF listed [of "reply_of i y" "row_of i ?l" "place_of i z"]])
      (simp_all add: reply_of_def, simp_all add: z)
qed (use e wf stutter in simp)

text \<open>The platform answers the sweep.\<close>

lemma answered_step:
  assumes wf: "delivery_wf y" and y: "gd_sweep y = Some (todo, Some r)"
    and e: "settle_sweep g now draw fault r ans (y\<lparr>gd_sweep := Some (todo, None)\<rparr>) = (ns, z)"
  shows "delivery_wf z \<and> reply_step (dg_cap g) i (reply_of i y)
    (notes_on i ((if ans = Accepted then Confirmed (dl_id r) else Refusal (dl_id r)) # ns)) (reply_of i z)"
proof -
  let ?j = "dl_id r"
  have d: "distinct (map dl_id (gd_ledger (y\<lparr>gd_sweep := Some (todo, None)\<rparr>)))" "distinct (map dl_id (r # todo))"
    using wf y by (simp_all add: delivery_wf_def)
  note gone = gone_from_list [OF d(2)]
  note st = sweep_settlement [OF e d(1), simplified]
  have "delivery_wf z" using wf y st by (simp add: delivery_wf_def)
  moreover have "reply_step (dg_cap g) i (reply_of i y)
    (notes_on i ((if ans = Accepted then Confirmed ?j else Refusal ?j) # ns)) (reply_of i z)"
  proof (cases "i = ?j")
    case True
    have z: "reply_of i z = (reply_of i y)\<lparr>rv_row := row_of ?j (gd_ledger z), rv_place := Nowhere\<rparr>"
      using st gone y True by (simp add: reply_of_def)
    have us: "notes_on i ((if ans = Accepted then Confirmed ?j else Refusal ?j) # ns)
        = (if ans = Accepted then Confirmed i else Refusal i) # ns"
      using notes_elsewhere [of ns ?j i] st True by simp
    have at_list: "rv_place (reply_of i y) = Going (dl_attempts r)" "rv_row (reply_of i y) = row_of ?j (gd_ledger y)"
      using y True by (simp_all add: reply_of_def)
    have "settled_as (dg_cap g) fault ans r (rv_row (reply_of i y)) ns (row_of ?j (gd_ledger z))"
      using st at_list by simp
    then show ?thesis unfolding us z settled_as_def using at_list(1) True
      by (elim disjE conjE exE) (auto intro: reply_step.intros intro!: step_late step_unwritten)
  next
    case False
    then show ?thesis using st y notes_elsewhere [of ns ?j i]
      by (intro steps_frame) (simp_all add: reply_of_def)
  qed
  ultimately show ?thesis by simp
qed

text \<open>Overdue replies.\<close>

lemma fold_removed [simp]:
  "gd_ledger (fold (\<lambda>r. remove_artifact (f r)) rs y) = gd_ledger y" "gd_drawn (fold (\<lambda>r. remove_artifact (f r)) rs y) = gd_drawn y"
  "gd_flight (fold (\<lambda>r. remove_artifact (f r)) rs y) = gd_flight y" "gd_sweep (fold (\<lambda>r. remove_artifact (f r)) rs y) = gd_sweep y"
  by (induction rs arbitrary: y) simp_all

lemma notes_given_up:
  "distinct (map dl_id rs) \<Longrightarrow> notes_on i (map (\<lambda>r. GaveUp (dl_id r)) rs) = (if i \<in> dl_id ` set rs then [GaveUp i] else [])"
  by (induction rs) auto

lemma overdue_step:
  assumes wf: "delivery_wf y" and e: "abandon_overdue g now days throws y = (us, z)"
  shows "delivery_wf z \<and> reply_step (dg_cap g) i (reply_of i y) (notes_on i us) (reply_of i z)"
proof (cases "dg_store g \<and> \<not> throws")
  case False
  then show ?thesis using e wf
    by (auto simp: abandon_overdue_def Let_def delivery_wf_def reply_of_def place_of_def stutter split: if_splits)
next
  case True
  let ?l = "gd_ledger y" and ?c = "now - days * 86400000 - gd_offset y"
  let ?rows = "fst (abandon_stale (dg_bots g) ?c ?l)"
  have us: "us = map (\<lambda>r. GaveUp (dl_id r)) ?rows" and z: "gd_ledger z = snd (abandon_stale (dg_bots g) ?c ?l)"
    "gd_drawn z = gd_drawn y" "gd_flight z = gd_flight y" "gd_sweep z = gd_sweep y"
    using e True by (auto simp: abandon_overdue_def Let_def split: prod.splits)
  have d: "distinct (map dl_id ?l)" using wf by (simp add: delivery_wf_def)
  have ids: "distinct (map dl_id ?rows)"
    by (simp add: abandon_stale_def comp_def distinct_sorted_ids [OF d])
  have hit: "i \<in> dl_id ` set ?rows \<longleftrightarrow> (\<exists>r. get_obligation ?l i = Some r \<and> dg_bots g \<noteq> [] \<and> overdue (dg_bots g) ?c r)"
    using find_key_iff [OF d, of i] by (auto simp: abandon_stale_def get_obligation_def image_iff)
  have "delivery_wf z" using wf by (simp add: delivery_wf_def z)
  moreover have "reply_step (dg_cap g) i (reply_of i y) (notes_on i us) (reply_of i z)"
  proof (cases "i \<in> dl_id ` set ?rows")
    case True
    then obtain r where r: "get_obligation ?l i = Some r" "dg_bots g \<noteq> []" "overdue (dg_bots g) ?c r" using hit by blast
    then have "live_row (rv_row (reply_of i y))" by (auto simp: reply_of_def row_of_def overdue_def live_row_iff)
    moreover have row: "row_of i (gd_ledger z) = Some (Abandoned, dl_attempts r)" using r by (simp add: z row_overdue)
    moreover have "reply_of i z = (reply_of i y)\<lparr>rv_row := map_option (\<lambda>(st, n). (Abandoned, n)) (rv_row (reply_of i y))\<rparr>"
      using row r by (simp add: reply_of_def place_of_def z) (simp add: row_of_def)
    ultimately show ?thesis using True overdue [of "reply_of i y" "dg_cap g" i] by (simp add: us notes_given_up [OF ids])
  next
    case False
    then have "row_of i (gd_ledger z) = row_of i ?l"
      unfolding z row_overdue using hit by (cases "get_obligation ?l i") (auto simp: row_of_def)
    then show ?thesis using False
      by (intro steps_frame) (simp_all add: reply_of_def z place_of_def us notes_given_up [OF ids])
  qed
  ultimately show ?thesis by simp
qed

text \<open>Any event.\<close>

lemma delivery_steps:
  assumes wf: "delivery_wf y" and e: "delivery_act sha g x y = (us, z)"
  shows "delivery_wf z" "reply_step (dg_cap g) i (reply_of i y) (notes_on i us) (reply_of i z)"
proof -
  obtain now ev where x: "x = (now, ev)" by fastforce
  have d: "distinct (map dl_id (gd_ledger y))" using wf by (simp add: delivery_wf_def)
  have "delivery_wf z \<and> reply_step (dg_cap g) i (reply_of i y) (notes_on i us) (reply_of i z)"
  proof (cases ev)
    case (GoLive j inp throws)
    show ?thesis
    proof (cases "us = []")
      case True
      then have "z = y" using e GoLive by (auto simp: x begin_delivery_def split: if_splits option.splits)
      then show ?thesis using wf True stutter by simp
    next
      case False
      then obtain l where l: "record_obligation sha now j inp (gd_ledger y) = Some l" "j \<notin> set (gd_drawn y)"
        and z: "us = [Recorded j, Sending j]"
          "z = y\<lparr>gd_ledger := l, gd_flight := j # gd_flight y, gd_drawn := j # gd_drawn y\<rparr>"
        using e GoLive by (auto simp: x begin_delivery_def split: if_splits option.splits)
      have "distinct (map dl_id l)" using l(1) d
        by (auto simp: record_obligation_def get_obligation_def find_None_iff split: if_splits)
      moreover have "reply_step (dg_cap g) i (reply_of i y) (notes_on i us) (reply_of i z)"
      proof (cases "i = j")
        case True
        then show ?thesis using l
          by (intro step_as [OF recorded [of "reply_of i y"]]) (simp_all add: reply_of_def z row_recorded place_of_def)
      qed (simp add: stutter reply_of_def z row_recorded [OF l(1)] place_of_def)
      ultimately show ?thesis using wf l(2) by (auto simp: delivery_wf_def z split: option.splits)
    qed
  next
    case (LiveAnswered j ans throws)
    show ?thesis
    proof (cases "j \<in> set (gd_flight y)")
      case False
      then show ?thesis using e LiveAnswered wf stutter by (simp add: x)
    next
      case True
      have "map dl_id (gd_ledger z) = map dl_id (gd_ledger y) \<and> gd_drawn z = gd_drawn y \<and> gd_sweep z = gd_sweep y
          \<and> gd_flight z = filter (\<lambda>k. k \<noteq> j) (gd_flight y)"
        using e True LiveAnswered
        by (auto simp: x confirm_delivery_def end_delivery_def split: platform_answer.splits if_splits)
      then have "delivery_wf z" using wf by (auto simp: delivery_wf_def)
      moreover have "reply_step (dg_cap g) i (reply_of i y) (notes_on i us) (reply_of i z)"
      proof (cases "i = j")
        case True
        then have fl: "rv_flight (reply_of i y)" using \<open>j \<in> set (gd_flight y)\<close> by (simp add: reply_of_def)
        have z: "reply_of i z = (reply_of i y)\<lparr>rv_row := (if ans = Accepted \<and> \<not> throws
            then delivered_row (rv_row (reply_of i y)) else rv_row (reply_of i y)), rv_flight := False\<rparr>"
          using e True \<open>j \<in> set (gd_flight y)\<close> LiveAnswered
          by (auto simp: x confirm_delivery_def end_delivery_def reply_of_def row_delivered place_of_def
              split: platform_answer.splits if_splits)
        have us: "notes_on i us = (if ans = Accepted then [Confirmed i, if throws then Faulted i else Settled i] else [Refusal i])"
          using e True \<open>j \<in> set (gd_flight y)\<close> LiveAnswered
          by (auto simp: x confirm_delivery_def split: platform_answer.splits if_splits)
        show ?thesis unfolding z us using confirmed [OF fl] unwritten [OF fl] refused [OF fl] by simp
      next
        case False
        then show ?thesis using e \<open>j \<in> set (gd_flight y)\<close> LiveAnswered
          by (intro steps_frame)
            (auto simp: x confirm_delivery_def end_delivery_def reply_of_def row_delivered place_of_def
              split: platform_answer.splits if_splits)
      qed
      ultimately show ?thesis by simp
    qed
  next
    case (SweepBegins min_age reclaim_throws list_throws)
    then show ?thesis using begun_step [OF wf] e by (simp add: x)
  next
    case (SweepTakes claim_throws draw fault)
    show ?thesis
    proof (cases "\<exists>r todo. gd_sweep y = Some (r # todo, None)")
      case True
      then show ?thesis using taken_step [OF wf] e SweepTakes by (auto simp: x)
    next
      case False
      then have "us = []" "z = y \<or> z = y\<lparr>gd_sweep := None\<rparr> \<and> gd_sweep y = Some ([], None)"
        using e SweepTakes by (auto simp: x split: option.splits list.splits)
      then show ?thesis using wf
        by (elim disjE) (simp_all add: stutter, simp_all add: delivery_wf_def reply_of_def stutter)
    qed
  next
    case (SweepAnswered ans draw fault)
    show ?thesis
    proof (cases "\<exists>r todo. gd_sweep y = Some (todo, Some r)")
      case True
      then show ?thesis using answered_step [OF wf] e SweepAnswered by (auto simp: x split: prod.splits)
    next
      case False
      then show ?thesis using e wf SweepAnswered by (auto simp: x stutter split: option.splits)
    qed
  next
    case (AbandonOverdue days throws)
    then show ?thesis using overdue_step [OF wf] e by (simp add: x)
  next
    case (PruneOld cutoff)
    have "z = y\<lparr>gd_ledger := snd (prune_delivered cutoff (gd_ledger y))\<rparr>" "us = []" using e PruneOld by (simp_all add: x)
    moreover have "distinct (map dl_id (snd (prune_delivered cutoff (gd_ledger y))))"
      using d by (simp add: prune_delivered_def Let_def distinct_map_filter)
    ultimately show ?thesis using row_pruned [OF d, of i cutoff] wf stutter pruned [of "reply_of i y"]
      by (auto simp: delivery_wf_def reply_of_def place_of_def)
  next
    case Restart
    have us: "us = map Interrupted (gd_flight y @ current_send y)" and z: "z = y\<lparr>gd_flight := [], gd_sweep := None, gd_offset := 0\<rparr>"
      using e Restart by (simp_all add: x)
    have n: "notes_on i (map Interrupted xs) = replicate (count_list xs i) (Interrupted i)" for xs
      by (induction xs) simp_all
    have "count_list (gd_flight y) i = (if i \<in> set (gd_flight y) then 1 else 0)"
      using wf count_list_distinct [of "gd_flight y" i] by (simp add: delivery_wf_def)
    moreover have "count_list (current_send y) i = (case place_of i y of Going k \<Rightarrow> 1 | _ \<Rightarrow> 0)"
      by (auto simp: current_send_def place_of_def split: option.split)
    ultimately have "notes_on i us = replicate (open_calls (reply_of i y)) (Interrupted i)"
      unfolding us n by (simp add: reply_of_def open_calls_def)
    then show ?thesis using wf restarted [of "dg_cap g" i "reply_of i y"]
      by (simp add: delivery_wf_def reply_of_def z)
  qed (use e wf in \<open>auto simp: x delivery_wf_def reply_of_def place_of_def intro!: stutter split: if_splits\<close>)
  then show "delivery_wf z" "reply_step (dg_cap g) i (reply_of i y) (notes_on i us) (reply_of i z)" by auto
qed

section \<open>Histories\<close>

definition delivery_good :: "delivery_gateway \<Rightarrow> delivery_note list \<Rightarrow> delivery_system \<Rightarrow> bool" where
  "delivery_good g ns y \<longleftrightarrow> delivery_wf y \<and> (\<forall>i. reply_run (dg_cap g) i (notes_on i ns) (reply_of i y))"

interpretation delivery_notes: noted_machine "delivery_act sha g" "delivery_good g" for sha g
proof
  fix ns y x us z
  assume "delivery_good g ns y" "delivery_act sha g x y = (us, z)"
  then show "delivery_good g (ns @ us) z"
    using delivery_steps [of y sha g x us z] reply_run.more unfolding delivery_good_def by (simp, blast)
qed

lemma fresh_delivery_good: "delivery_good g [] fresh_delivery"
  using reply_run.start
  by (simp add: delivery_good_def delivery_wf_def fresh_delivery_def reply_of_def row_of_def get_obligation_def
      place_of_def fresh_view_def)

lemma delivery_history:
  assumes "noted_run (delivery_act sha g) es fresh_delivery = (ns, y)"
  shows "delivery_wf y" "reply_good (dg_cap g) i (notes_on i ns) (reply_of i y)"
proof -
  have "delivery_good g ns y" using delivery_notes.run_good [OF fresh_delivery_good assms] by simp
  moreover have "1 \<le> dg_cap g" by (simp add: dg_cap_def delivery_max_attempts_def)
  ultimately show "delivery_wf y" "reply_good (dg_cap g) i (notes_on i ns) (reply_of i y)"
    using reply_run_good by (simp_all add: delivery_good_def)
qed

lemma notes_on_mem [simp]: "n \<in> set (notes_on i ns) \<longleftrightarrow> n \<in> set ns \<and> note_of n = i"
  by (auto simp: notes_on_def)

lemma notes_on_count: "note_of n = i \<Longrightarrow> count_list (notes_on i ns) n = count_list ns n"
  by (induction ns) auto



text \<open>
  C23: The sends of a reply are bounded: one live send, and one redelivery for each attempt of the cap; beyond
  that only a storage fault or a restart that cut a call short can cost another.
\<close>

theorem delivery_sends_bounded:
  "count_list (fst (noted_run (delivery_act sha g) es fresh_delivery)) (Sending i)
     \<le> 1 + delivery_max_attempts (dg_max g)
       + count_list (fst (noted_run (delivery_act sha g) es fresh_delivery)) (Faulted i)
       + count_list (fst (noted_run (delivery_act sha g) es fresh_delivery)) (Interrupted i)"
proof -
  obtain ns y where h: "noted_run (delivery_act sha g) es fresh_delivery = (ns, y)" by fastforce
  show ?thesis using delivery_history(2) [OF h, of i]
    by (simp add: reply_good_def notes_on_count h dg_cap_def)
qed


text \<open>
  The backoff: whatever the draw, a refused redelivery is due again no sooner than 48 seconds and no later
  than 72 minutes after its refusal.
\<close>

theorem delivery_backoff_bounds:
  assumes "0 \<le> draw" "draw < 1"
  shows "48000 \<le> delivery_retry_delay_ms n draw \<and> delivery_retry_delay_ms n draw \<le> 4320000"
proof -
  define b :: rat where "b = min (60000 * 2 ^ (n - 1)) 3600000"
  have "1 \<le> (2 :: rat) ^ (n - 1)" by simp
  then have b: "60000 \<le> b" "b \<le> 3600000" unfolding b_def by linarith+
  have "60000 * (4 / 5) \<le> b * (4 / 5 + 2 / 5 * draw)" using b assms by (intro mult_mono) auto
  moreover have "b * (4 / 5 + 2 / 5 * draw) \<le> 3600000 * (6 / 5)" using b assms by (intro mult_mono) auto
  ultimately have "48000 \<le> floor (b * (4 / 5 + 2 / 5 * draw) + 1 / 2)"
    "floor (b * (4 / 5 + 2 / 5 * draw) + 1 / 2) \<le> 4320000" by linarith+
  then show ?thesis
    by (simp add: delivery_retry_delay_ms_def js_round_def delivery_retry_base_ms_def delivery_retry_max_ms_def b_def)
qed

section \<open>Several processes over one ledger\<close>

datatype ledger_call =
  CallRecord string delivery_input
| CallClaim string
| CallDelivered string
| CallRelease string
| CallReclaim int
| CallOverdue "string list" int
| CallDefer string int
| CallAbandon string string
| CallPrune int

fun call_ledger :: "(string \<Rightarrow> string) \<Rightarrow> int \<times> ledger_call \<Rightarrow> ledger \<Rightarrow> bool \<times> ledger" where
  "call_ledger sha (now, CallRecord i inp) l =
     (case record_obligation sha now i inp l of None \<Rightarrow> (False, l) | Some m \<Rightarrow> (True, m))"
| "call_ledger sha (now, CallClaim i) l = claim_obligation now i l"
| "call_ledger sha (now, CallDelivered i) l = (True, mark_delivered i l)"
| "call_ledger sha (now, CallRelease i) l = (True, release_obligation i l)"
| "call_ledger sha (now, CallReclaim cutoff) l = (True, snd (reclaim_stale_claims cutoff l))"
| "call_ledger sha (now, CallOverdue bots cutoff) l = (True, snd (abandon_stale bots cutoff l))"
| "call_ledger sha (now, CallDefer i t) l = (True, snd (defer_retry i t l))"
| "call_ledger sha (now, CallAbandon i why) l = (True, snd (abandon_obligation i why l))"
| "call_ledger sha (now, CallPrune cutoff) l = (True, snd (prune_delivered cutoff l))"

fun claims_reply :: "string \<Rightarrow> int \<times> ledger_call \<Rightarrow> bool" where
  "claims_reply i (now, CallClaim j) \<longleftrightarrow> j = i"
| "claims_reply i _ \<longleftrightarrow> False"

fun frees_reply :: "string \<Rightarrow> int \<times> ledger_call \<Rightarrow> bool" where
  "frees_reply i (now, CallRecord j inp) \<longleftrightarrow> j = i"
| "frees_reply i (now, CallRelease j) \<longleftrightarrow> j = i"
| "frees_reply i (now, CallReclaim cutoff) \<longleftrightarrow> True"
| "frees_reply i (now, CallDefer j t) \<longleftrightarrow> j = i"
| "frees_reply i _ \<longleftrightarrow> False"

definition owed_row :: "(delivery_status \<times> nat) option \<Rightarrow> bool" where
  "owed_row row \<longleftrightarrow> (\<exists>n. row = Some (Owed, n))"

lemma owed_after:
  assumes "distinct (map dl_id l)" "\<not> owed_row (row_of i l)" "\<not> frees_reply i x"
  shows "\<not> owed_row (row_of i (snd (call_ledger sha x l)))"
proof (cases "(sha, x, l)" rule: call_ledger.cases)
  case (1 sha' now j inp l')
  then show ?thesis using assms by (auto simp: owed_row_def row_recorded split: option.split)
next
  case (6 sha' now bots cutoff l')
  have "\<exists>r. get_obligation l i = Some r \<and> dl_status r = Owed" if "owed_row (row_of i (snd (abandon_stale bots cutoff l)))"
    using that unfolding owed_row_def row_overdue by (auto split: option.splits if_splits)
  then show ?thesis using assms(2) 6 by (auto simp: owed_row_def) (auto simp: row_of_def)
next
  case (9 sha' now cutoff l')
  then show ?thesis using assms(2) row_pruned [OF assms(1), of i cutoff] by (auto simp: owed_row_def)
qed (use assms in \<open>auto simp: owed_row_def row_claimed row_delivered row_released row_deferred row_abandoned
    delivered_row_def split: option.splits prod.splits delivery_status.splits if_splits\<close>)

interpretation reply_slot: claim_slot
  "call_ledger sha" "claims_reply i" "frees_reply i" "\<lambda>l. \<not> owed_row (row_of i l)" "\<lambda>l :: ledger. distinct (map dl_id l)"
  for sha i
proof
  fix l l' :: ledger and x
  assume d: "distinct (map dl_id l)"
  show "distinct (map dl_id (snd (call_ledger sha x l)))"
    using d by (cases "(sha, x, l)" rule: call_ledger.cases)
      (auto simp: record_obligation_def get_obligation_def find_None_iff prune_delivered_def Let_def
        distinct_map_filter split: option.split if_splits)
  show "\<not> \<not> owed_row (row_of i l) \<and> \<not> owed_row (row_of i l')"
    if c: "claims_reply i x" "call_ledger sha x l = (True, l')"
  proof -
    obtain now where x: "x = (now, CallClaim i)" using c(1) by (cases "(i, x)" rule: claims_reply.cases) auto
    then have "fst (claim_obligation now i l)" "l' = snd (claim_obligation now i l)" using c(2) by simp_all
    then show ?thesis using claim_hits [OF d, of now i] by (auto simp: owed_row_def row_claimed)
  qed
  show "\<not> owed_row (row_of i (snd (call_ledger sha x l)))" if "\<not> owed_row (row_of i l)" "\<not> frees_reply i x"
    using owed_after [OF d that] .
qed

text \<open>
  Several processes that share a ledger: a reply is claimed for redelivery once per time it was recorded, released,
  deferred or its stale claim returned, however their calls interleave.
\<close>

theorem delivery_claims_won_once:
  "wins (call_ledger sha) (claims_reply i) calls [] \<le> 1 + length (filter (frees_reply i) calls)"
  by (rule reply_slot.wins_le) simp

section \<open>Witnesses\<close>

definition sample_gateway :: delivery_gateway where
  "sample_gateway = \<lparr>dg_bots = [''b''], dg_own = [(''b'', \<lparr>da_platform = ''x'', da_formats = None\<rparr>)], dg_default = None,
     dg_registry = [], dg_max = Some 2, dg_store = False\<rparr>"

definition sample_reply :: delivery_input where
  "sample_reply = \<lparr>di_bot = ''b'', di_platform = ''x'', di_chat = ''c'', di_session = ''s'', di_thread = None,
     di_content = ''hi'', di_kind = None, di_artifact = None, di_format = None, di_inbound = None\<rparr>"

definition sample_deliveries :: "(int \<times> delivery_event) list" where
  "sample_deliveries = [(1, GoLive ''r'' sample_reply False), (2, LiveAnswered ''r'' (Refused None False) False),
     (3, SweepBegins 0 False False), (4, SweepTakes False 0 NoFault)]"

lemma sample_deliveries_run:
  "noted_run (delivery_act id sample_gateway) sample_deliveries fresh_delivery
     = ([Recorded ''r'', Sending ''r'', Refusal ''r''] @ Sending ''r'' # [],
        snd (noted_run (delivery_act id sample_gateway) sample_deliveries fresh_delivery))"
  by code_simp



theorem delivery_backoff_bounds_witness:
  "48000 \<le> delivery_retry_delay_ms 3 (1 / 2) \<and> delivery_retry_delay_ms 3 (1 / 2) \<le> 4320000"
  by (rule delivery_backoff_bounds) simp_all

end
