(* ===== verification/SafeFetch.thy ===== *)
theory SafeFetch
  imports Prelude "HOL-Library.Word"
begin

text \<open>
  The network gate of packages/safety/network: scheme.ts, cloud-metadata.ts, policy.ts and safe-fetch.ts. The URL
  parser and its joining of a redirect's location, the resolver (which may answer differently at every call), the
  test for an IP literal that \<open>net.connect\<close> applies, and the servers are arguments.
\<close>

unbundle bit_operations_syntax

section \<open>Scheme and host lists\<close>

record url =
  ur_protocol :: string
  ur_username :: string
  ur_password :: string
  ur_hostname :: string
  ur_origin :: string

datatype refusal_why =
  MalformedUrl | SchemeRejected string | EmbeddedCredentials | MetadataHost string | OnDenyList string string
| NotOnAllowList string | PrivateHost string | ResolvesPrivate string string | ResolvesMetadata string string

definition check_scheme :: "(string \<Rightarrow> url option) \<Rightarrow> string \<Rightarrow> (refusal_why, url) result" where
  "check_scheme parse s =
     (case parse s of
        None \<Rightarrow> Inl MalformedUrl
      | Some u \<Rightarrow>
          if ur_protocol u \<noteq> ''http:'' \<and> ur_protocol u \<noteq> ''https:'' then Inl (SchemeRejected (ur_protocol u))
          else if ur_username u \<noteq> [] \<or> ur_password u \<noteq> [] then Inl EmbeddedCredentials
          else Inr u)"

definition strip_brackets :: "string \<Rightarrow> string" where
  "strip_brackets s =
     (let t = (case s of c # cs \<Rightarrow> if c = CHR ''['' then cs else s | [] \<Rightarrow> s)
      in if t \<noteq> [] \<and> last t = CHR '']'' then butlast t else t)"

definition strip_dot :: "string \<Rightarrow> string" where
  "strip_dot s = (if s \<noteq> [] \<and> last s = CHR ''.'' then butlast s else s)"

definition cloud_metadata_hosts :: "string list" where
  "cloud_metadata_hosts =
     [''169.254.169.254'', ''metadata.google.internal'', ''metadata'', ''metadata.azure.com'',
      ''metadata.aws.amazon.com'', ''fd00:ec2::254'', ''100.100.100.200'', ''169.254.0.23'']"

definition is_cloud_metadata_host :: "string \<Rightarrow> bool" where
  "is_cloud_metadata_host h = (strip_dot (strip_brackets (to_lower h)) \<in> set cloud_metadata_hosts)"

record network_policy =
  np_allow :: "string list"
  np_deny :: "string list"
  np_private :: bool

definition hostname_matches :: "string \<Rightarrow> string \<Rightarrow> bool" where
  "hostname_matches hostname pattern =
     (let h = to_lower hostname; p = to_lower pattern in
      if p = ''*'' then True
      else if starts_with p ''*.'' then
        (let suffix = drop 2 p in h = suffix \<or> ends_with h (CHR ''.'' # suffix))
      else h = p)"

definition check_allow_deny :: "string \<Rightarrow> network_policy \<Rightarrow> (refusal_why, unit) result" where
  "check_allow_deny hostname policy =
     (case find (hostname_matches hostname) (np_deny policy) of
        Some pat \<Rightarrow> Inl (OnDenyList hostname pat)
      | None \<Rightarrow>
          if np_allow policy \<noteq> [] \<and> \<not> list_ex (hostname_matches hostname) (np_allow policy)
          then Inl (NotOnAllowList hostname) else Inr ())"

section \<open>Private addresses\<close>

definition is_octet :: "string \<Rightarrow> bool" where
  "is_octet s = (1 \<le> length s \<and> length s \<le> 3 \<and> list_all digit s)"

definition is_valid_ipv4 :: "string \<Rightarrow> bool" where
  "is_valid_ipv4 s =
     (let os = split_on CHR ''.'' s in length os = 4 \<and> list_all is_octet os \<and> list_all (\<lambda>p. digits_value p \<le> 255) os)"

text \<open>\<open>(acc << 8) | octet\<close> on 32-bit integers, then \<open>>>> 0\<close>.\<close>

definition octet_step :: "32 word \<Rightarrow> string \<Rightarrow> 32 word" where
  "octet_step acc p = push_bit 8 acc OR word_of_nat (digits_value p)"

definition ip4_to_int :: "string \<Rightarrow> 32 word" where
  "ip4_to_int s = foldl octet_step 0 (split_on CHR ''.'' s)"

definition private_ranges_v4 :: "(string \<times> string) list" where
  "private_ranges_v4 =
     [(''0.0.0.0'', ''0.255.255.255''), (''10.0.0.0'', ''10.255.255.255''), (''100.64.0.0'', ''100.127.255.255''),
      (''127.0.0.0'', ''127.255.255.255''), (''169.254.0.0'', ''169.254.255.255''), (''172.16.0.0'', ''172.31.255.255''),
      (''192.168.0.0'', ''192.168.255.255''), (''224.0.0.0'', ''239.255.255.255''), (''240.0.0.0'', ''255.255.255.255'')]"

definition is_private_ipv4 :: "string \<Rightarrow> bool" where
  "is_private_ipv4 ip =
     (is_valid_ipv4 ip \<and> list_ex (\<lambda>(a, b). ip4_to_int a \<le> ip4_to_int ip \<and> ip4_to_int ip \<le> ip4_to_int b) private_ranges_v4)"

definition hex_digit_value :: "char \<Rightarrow> nat option" where
  "hex_digit_value c =
     (if digit c then Some (of_char c - 48)
      else if 97 \<le> (of_char c :: nat) \<and> (of_char c :: nat) \<le> 102 then Some (of_char c - 87) else None)"

definition is_hex_group :: "string \<Rightarrow> bool" where
  "is_hex_group s = (1 \<le> length s \<and> length s \<le> 4 \<and> list_all (\<lambda>c. hex_digit_value c \<noteq> None) s)"

definition hex_group_value :: "string \<Rightarrow> nat" where
  "hex_group_value s = foldl (\<lambda>n c. 16 * n + the (hex_digit_value c)) 0 s"

text \<open>\<open>(\d+\.\d+\.\d+\.\d+)\<close>, which leaves the length of an octet open.\<close>

definition dotted_digits :: "string \<Rightarrow> bool" where
  "dotted_digits s = (let os = split_on CHR ''.'' s in length os = 4 \<and> list_all (\<lambda>p. p \<noteq> [] \<and> list_all digit p) os)"

definition quad :: "nat \<Rightarrow> nat \<Rightarrow> nat \<Rightarrow> nat \<Rightarrow> string" where
  "quad a b c d = join_with ''.'' [show_nat a, show_nat b, show_nat c, show_nat d]"

definition hex_mapped :: "string \<Rightarrow> string option" where
  "hex_mapped s =
     (if starts_with s ''::ffff:'' then
        (case split_on CHR '':'' (drop 7 s) of
           [h, l] \<Rightarrow>
             if is_hex_group h \<and> is_hex_group l then
               (let high = hex_group_value h; low = hex_group_value l
                in Some (quad (high div 256 mod 256) (high mod 256) (low div 256 mod 256) (low mod 256)))
             else None
         | _ \<Rightarrow> None)
      else None)"

definition is_private_ipv6 :: "string \<Rightarrow> bool" where
  "is_private_ipv6 ip =
     (let l = to_lower ip in
      if l = ''::1'' \<or> l = ''::'' then True
      else if starts_with l ''fe80:'' \<or> starts_with l ''fc'' \<or> starts_with l ''fd'' then True
      else if starts_with l ''ff'' then True
      else if starts_with l ''::ffff:'' \<and> dotted_digits (drop 7 l) then is_private_ipv4 (drop 7 l)
      else (case hex_mapped l of
              Some q \<Rightarrow> is_private_ipv4 q
            | None \<Rightarrow>
                if starts_with l ''::'' \<and> dotted_digits (drop 2 l) then is_private_ipv4 (drop 2 l) else False))"

definition is_private_ip :: "string \<Rightarrow> bool" where
  "is_private_ip ip = (is_private_ipv4 ip \<or> (CHR '':'' \<in> set ip \<and> is_private_ipv6 ip))"

definition is_likely_ip :: "string \<Rightarrow> bool" where
  "is_likely_ip s = (is_valid_ipv4 s \<or> CHR '':'' \<in> set s)"

section \<open>Validation\<close>

text \<open>An accepted URL carries the addresses its host resolved to, none when nothing was resolved.\<close>

definition check_private :: "(string \<Rightarrow> string list option) \<Rightarrow> string \<Rightarrow> (refusal_why, string list option) result" where
  "check_private resolve hostname =
     (if is_private_ip hostname then Inl (PrivateHost hostname)
      else if \<not> is_likely_ip hostname then
        (case resolve hostname of
           None \<Rightarrow> Inr None
         | Some addrs \<Rightarrow>
             (case find is_private_ip addrs of
                Some a \<Rightarrow> Inl (ResolvesPrivate hostname a)
              | None \<Rightarrow> Inr (Some addrs)))
      else Inr None)"

definition check_resolves_to_cloud_metadata ::
  "(string \<Rightarrow> string list option) \<Rightarrow> string \<Rightarrow> (refusal_why, string list option) result" where
  "check_resolves_to_cloud_metadata resolve hostname =
     (if is_likely_ip hostname then Inr None
      else (case resolve hostname of
              None \<Rightarrow> Inr None
            | Some addrs \<Rightarrow>
                (case find is_cloud_metadata_host addrs of
                   Some a \<Rightarrow> Inl (ResolvesMetadata hostname a)
                 | None \<Rightarrow> Inr (Some addrs))))"

definition url_host :: "url \<Rightarrow> string" where
  "url_host u = strip_brackets (to_lower (ur_hostname u))"

definition validate_url ::
  "(string \<Rightarrow> url option) \<Rightarrow> (string \<Rightarrow> string list option) \<Rightarrow> network_policy \<Rightarrow> string
    \<Rightarrow> (refusal_why, string list option) result" where
  "validate_url parse resolve policy s =
     ebind (check_scheme parse s) (\<lambda>u.
       let hostname = url_host u in
       if is_cloud_metadata_host hostname then Inl (MetadataHost hostname)
       else ebind (check_allow_deny hostname policy) (\<lambda>_.
         if \<not> np_private policy then check_private resolve hostname
         else check_resolves_to_cloud_metadata resolve hostname))"

section \<open>The pinned connection\<close>

text \<open>
  Where the socket may connect: to an IP literal itself, or to the addresses \<open>pinnedLookup\<close> answers from, those
  that are IP addresses of the wanted family (0 for any). No address is an error.
\<close>

definition pinned_lookup :: "(string \<Rightarrow> nat) \<Rightarrow> string list \<Rightarrow> nat \<Rightarrow> string list" where
  "pinned_lookup is_ip addrs family =
     (let wanted = (if family = 4 \<or> family = 6 then family else 0)
      in filter (\<lambda>a. is_ip a \<noteq> 0 \<and> (wanted = 0 \<or> is_ip a = wanted)) addrs)"

definition connect_targets :: "(string \<Rightarrow> nat) \<Rightarrow> nat \<Rightarrow> string \<Rightarrow> string list option \<Rightarrow> string list" where
  "connect_targets is_ip family hostname addrs =
     (if is_ip hostname \<noteq> 0 then [hostname]
      else pinned_lookup is_ip (case addrs of None \<Rightarrow> [] | Some as \<Rightarrow> as) family)"

section \<open>Redirects\<close>

definition auth_headers :: "string list" where
  "auth_headers = [''authorization'', ''proxy-authorization'', ''cookie'']"

definition strip_auth_headers :: "(string \<times> string) list \<Rightarrow> (string \<times> string) list" where
  "strip_auth_headers hs = filter (\<lambda>(k, v). to_lower k \<notin> set auth_headers) hs"

record network =
  nt_parse :: "string \<Rightarrow> url option"
  nt_join :: "string \<Rightarrow> string \<Rightarrow> string option"
  nt_resolve :: "nat \<Rightarrow> string \<Rightarrow> string list option"
  nt_is_ip :: "string \<Rightarrow> nat"
  nt_family :: nat

text \<open>What a server answers: a throw, or a status and the location header, when there is one.\<close>

datatype answer = Broken | Answer nat "string option"

text \<open>A request that was issued: its URL, where its socket may connect, its headers.\<close>

record request =
  rq_url :: string
  rq_targets :: "string list"
  rq_headers :: "(string \<times> string) list"

datatype fetch_result =
  Fetched string nat
| Blocked refusal_why nat string
| FetchFailed nat string
| TooManyHops string
| ThrewOn string

text \<open>One hop after another; the result, and the requests issued. A server that is not asked any more answers nothing.\<close>

fun fetch_loop ::
  "network \<Rightarrow> network_policy \<Rightarrow> (nat \<Rightarrow> answer) \<Rightarrow> string \<Rightarrow> nat \<Rightarrow> nat \<Rightarrow> string \<Rightarrow> (string \<times> string) list
    \<Rightarrow> fetch_result \<times> request list" where
  "fetch_loop net policy serve origin 0 hop s hs = (TooManyHops s, [])"
| "fetch_loop net policy serve origin (Suc left) hop s hs =
     (case validate_url (nt_parse net) (nt_resolve net hop) policy s of
        Inl why \<Rightarrow> (Blocked why hop s, [])
      | Inr addrs \<Rightarrow>
          (let host = (case nt_parse net s of None \<Rightarrow> [] | Some u \<Rightarrow> url_host u);
               rq = \<lparr>rq_url = s, rq_targets = connect_targets (nt_is_ip net) (nt_family net) host addrs, rq_headers = hs\<rparr>
           in case (if rq_targets rq = [] then Broken else serve hop) of
                Broken \<Rightarrow> (FetchFailed hop s, [rq])
              | Answer status location \<Rightarrow>
                  if 300 \<le> status \<and> status < 400 then
                    (case location of
                       None \<Rightarrow> (Fetched s hop, [rq])
                     | Some [] \<Rightarrow> (Fetched s hop, [rq])
                     | Some loc \<Rightarrow>
                         (case nt_join net loc s of
                            None \<Rightarrow> (ThrewOn s, [rq])
                          | Some next_url \<Rightarrow>
                              (case nt_parse net next_url of
                                 None \<Rightarrow> (ThrewOn s, [rq])
                               | Some v \<Rightarrow>
                                   (case fetch_loop net policy serve origin left (Suc hop) next_url
                                           (if ur_origin v \<noteq> origin then strip_auth_headers hs else hs) of
                                      (out, rqs) \<Rightarrow> (out, rq # rqs)))))
                  else (Fetched s hop, [rq])))"

definition default_max_redirects :: nat where "default_max_redirects = 5"

text \<open>\<open>new URL(initialUrl)\<close> throws on a malformed URL before anything is checked.\<close>

definition safe_fetch ::
  "network \<Rightarrow> network_policy \<Rightarrow> (nat \<Rightarrow> answer) \<Rightarrow> int option \<Rightarrow> string \<Rightarrow> (string \<times> string) list
    \<Rightarrow> fetch_result \<times> request list" where
  "safe_fetch net policy serve max_redirects s hs =
     (case nt_parse net s of
        None \<Rightarrow> (ThrewOn s, [])
      | Some u \<Rightarrow>
          fetch_loop net policy serve (ur_origin u)
            (case max_redirects of None \<Rightarrow> default_max_redirects | Some n \<Rightarrow> nat n) 0 s hs)"

end
