(* ===== verification/SafeFetchProps.thy ===== *)
theory SafeFetchProps
  imports SafeFetch
begin

text \<open>
  What the network gate guarantees: where a request can connect, whatever the resolver and the servers answer;
  where credentials go; and which addresses count as private, against the ranges on octets.
\<close>

unbundle bit_operations_syntax

section \<open>Private IPv4 addresses\<close>

definition private_octets :: "nat \<Rightarrow> nat \<Rightarrow> bool" where
  "private_octets a b \<longleftrightarrow> a = 0 \<or> a = 10 \<or> (a = 100 \<and> 64 \<le> b \<and> b \<le> 127) \<or> a = 127 \<or> (a = 169 \<and> b = 254)
     \<or> (a = 172 \<and> 16 \<le> b \<and> b \<le> 31) \<or> (a = 192 \<and> b = 168) \<or> 224 \<le> a"

lemma push_octet:
  assumes "b < 256" "unat x < 2 ^ 24"
  shows "unat (octet_step x (show_nat b)) = unat x * 256 + b"
proof -
  have "push_bit 8 x OR word_of_nat b = push_bit 8 x + word_of_nat b"
  proof (rule disjunctive_add_eq_or [symmetric])
    show "push_bit 8 x AND word_of_nat b = 0"
    proof (rule bit_word_eqI)
      fix n assume "n < LENGTH(32)"
      have "\<not> bit b n" if "8 \<le> n"
      proof -
        have "b < 2 ^ n" using assms(1) power_increasing [OF that, of "2 :: nat"] by simp
        then show ?thesis by (simp add: bit_iff_odd)
      qed
      then show "bit (push_bit 8 x AND word_of_nat b) n \<longleftrightarrow> bit (0 :: 32 word) n"
        by (auto simp: bit_simps)
    qed
  qed
  moreover have "push_bit 8 x = x * 256" by (simp add: push_bit_eq_mult)
  moreover have "unat (x * 256 + word_of_nat b) = unat x * 256 + b"
  proof -
    have "unat x * 256 + b < 2 ^ 32" using assms by simp
    moreover have "x * 256 + word_of_nat b = word_of_nat (unat x * 256 + b)" by simp
    ultimately show ?thesis by (simp only: unat_of_nat) (simp add: take_bit_nat_eq_self)
  qed
  ultimately show ?thesis by (simp add: octet_step_def)
qed

lemma show_nat_plain: "CHR ''.'' \<notin> set (show_nat n)" "CHR '':'' \<notin> set (show_nat n)"
  using digits_show_nat [of n] by (auto simp: list_all_iff digit_def)

lemma split_quad: "split_on CHR ''.'' (quad a b c d) = [show_nat a, show_nat b, show_nat c, show_nat d]"
  unfolding quad_def by (rule split_on_join) (simp_all add: show_nat_plain)

lemma valid_quad: "a < 256 \<Longrightarrow> b < 256 \<Longrightarrow> c < 256 \<Longrightarrow> d < 256 \<Longrightarrow> is_valid_ipv4 (quad a b c d)"
  using digits_show_nat length_show_nat [of _ 3]
  by (auto simp: is_valid_ipv4_def split_quad is_octet_def Suc_le_eq)

lemma int_quad:
  assumes "a < 256" "b < 256" "c < 256" "d < 256"
  shows "unat (ip4_to_int (quad a b c d)) = ((a * 256 + b) * 256 + c) * 256 + d"
proof -
  have "unat (octet_step 0 (show_nat a)) = a" using assms by (simp add: push_octet)
  moreover from this have "unat (octet_step (octet_step 0 (show_nat a)) (show_nat b)) = a * 256 + b"
    using assms by (subst push_octet) simp_all
  moreover from this have "unat (octet_step (octet_step (octet_step 0 (show_nat a)) (show_nat b)) (show_nat c))
      = (a * 256 + b) * 256 + c" using assms by (subst push_octet) simp_all
  ultimately show ?thesis using assms by (simp add: ip4_to_int_def split_quad) (subst push_octet; simp)
qed

lemma in_block:
  assumes "n = m * 65536 + r" "r < (65536 :: nat)"
  shows "l * 65536 \<le> n \<and> n \<le> h * 65536 + 65535 \<longleftrightarrow> l \<le> m \<and> m \<le> h"
  using assms by linarith

lemma in_blocks:
  "list_ex (\<lambda>(x, y). x \<le> n \<and> n \<le> y) (map (\<lambda>(l, h). (l * 65536, h * 65536 + 65535)) bs)
     = list_ex (\<lambda>(l, h). l * 65536 \<le> n \<and> n \<le> h * 65536 + (65535 :: nat)) bs"
  by (induction bs) auto

lemma private_by_number:
  "is_valid_ipv4 ip \<Longrightarrow> is_private_ipv4 ip \<longleftrightarrow> list_ex (\<lambda>(x, y). x \<le> unat (ip4_to_int ip) \<and> unat (ip4_to_int ip) \<le> y)
     (map (\<lambda>(x, y). (unat (ip4_to_int x), unat (ip4_to_int y))) private_ranges_v4)"
  by (simp add: is_private_ipv4_def word_le_nat_alt list_ex_iff split_beta)

lemma quad_literals:
  "quad 0 0 0 0 = ''0.0.0.0''"
  "quad 0 255 255 255 = ''0.255.255.255''"
  "quad 10 0 0 0 = ''10.0.0.0''"
  "quad 10 255 255 255 = ''10.255.255.255''"
  "quad 100 64 0 0 = ''100.64.0.0''"
  "quad 100 127 255 255 = ''100.127.255.255''"
  "quad 127 0 0 0 = ''127.0.0.0''"
  "quad 127 255 255 255 = ''127.255.255.255''"
  "quad 169 254 0 0 = ''169.254.0.0''"
  "quad 169 254 255 255 = ''169.254.255.255''"
  "quad 172 16 0 0 = ''172.16.0.0''"
  "quad 172 31 255 255 = ''172.31.255.255''"
  "quad 192 168 0 0 = ''192.168.0.0''"
  "quad 192 168 255 255 = ''192.168.255.255''"
  "quad 224 0 0 0 = ''224.0.0.0''"
  "quad 239 255 255 255 = ''239.255.255.255''"
  "quad 240 0 0 0 = ''240.0.0.0''"
  "quad 255 255 255 255 = ''255.255.255.255''"
  by code_simp+

text \<open>The ends of the ranges, as numbers.\<close>

lemma int_literals:
  "unat (ip4_to_int ''0.0.0.0'') = 0"
  "unat (ip4_to_int ''0.255.255.255'') = 16777215"
  "unat (ip4_to_int ''10.0.0.0'') = 167772160"
  "unat (ip4_to_int ''10.255.255.255'') = 184549375"
  "unat (ip4_to_int ''100.64.0.0'') = 1681915904"
  "unat (ip4_to_int ''100.127.255.255'') = 1686110207"
  "unat (ip4_to_int ''127.0.0.0'') = 2130706432"
  "unat (ip4_to_int ''127.255.255.255'') = 2147483647"
  "unat (ip4_to_int ''169.254.0.0'') = 2851995648"
  "unat (ip4_to_int ''169.254.255.255'') = 2852061183"
  "unat (ip4_to_int ''172.16.0.0'') = 2886729728"
  "unat (ip4_to_int ''172.31.255.255'') = 2887778303"
  "unat (ip4_to_int ''192.168.0.0'') = 3232235520"
  "unat (ip4_to_int ''192.168.255.255'') = 3232301055"
  "unat (ip4_to_int ''224.0.0.0'') = 3758096384"
  "unat (ip4_to_int ''239.255.255.255'') = 4026531839"
  "unat (ip4_to_int ''240.0.0.0'') = 4026531840"
  "unat (ip4_to_int ''255.255.255.255'') = 4294967295"
  using int_quad [of 0 0 0 0]
    int_quad [of 0 255 255 255]
    int_quad [of 10 0 0 0]
    int_quad [of 10 255 255 255]
    int_quad [of 100 64 0 0]
    int_quad [of 100 127 255 255]
    int_quad [of 127 0 0 0]
    int_quad [of 127 255 255 255]
    int_quad [of 169 254 0 0]
    int_quad [of 169 254 255 255]
    int_quad [of 172 16 0 0]
    int_quad [of 172 31 255 255]
    int_quad [of 192 168 0 0]
    int_quad [of 192 168 255 255]
    int_quad [of 224 0 0 0]
    int_quad [of 239 255 255 255]
    int_quad [of 240 0 0 0]
    int_quad [of 255 255 255 255]
  by (simp_all add: quad_literals)

lemma le_antisym_iff: "(m :: nat) \<le> n \<and> n \<le> m \<longleftrightarrow> n = m"
  by auto

lemma full_block: "b < (256 :: nat) \<Longrightarrow> l * 256 \<le> a * 256 + b \<and> a * 256 + b \<le> h * 256 + 255 \<longleftrightarrow> l \<le> a \<and> a \<le> h"
  by (intro conj_cong iffI; linarith)

lemma sub_block:
  "b < (256 :: nat) \<Longrightarrow> x < 256 \<Longrightarrow> y < 256 \<Longrightarrow>
     l * 256 + x \<le> a * 256 + b \<and> a * 256 + b \<le> l * 256 + y \<longleftrightarrow> a = l \<and> x \<le> b \<and> b \<le> y"
proof (intro iffI)
  assume h: "b < 256" "x < 256" "y < 256" "l * 256 + x \<le> a * 256 + b \<and> a * 256 + b \<le> l * 256 + y"
  then have "a \<le> l" "l \<le> a" by linarith+
  then have "a = l" by simp
  with h(4) show "a = l \<and> x \<le> b \<and> b \<le> y" by (elim conjE) (intro conjI; linarith)
qed simp

lemma one_block: "b < (256 :: nat) \<Longrightarrow> l * 256 \<le> a * 256 + b \<and> a * 256 + b \<le> l * 256 + 255 \<longleftrightarrow> a = l"
  using full_block [of b l a l] by linarith

lemma private_quad:
  assumes "a < 256" "b < 256" "c < 256" "d < 256"
  shows "is_private_ipv4 (quad a b c d) \<longleftrightarrow> private_octets a b"
proof -
  let ?n = "((a * 256 + b) * 256 + c) * 256 + d" and ?m = "a * 256 + b"
  let ?blocks = "[(0, 255), (2560, 2815), (25664, 25727), (32512, 32767), (43518, 43518), (44048, 44063), (49320, 49320),
    (57344, 61439), (61440, 65535 :: nat)]"
  have ranges: "map (\<lambda>(x, y). (unat (ip4_to_int x), unat (ip4_to_int y))) private_ranges_v4
      = map (\<lambda>(l, h). (l * 65536, h * 65536 + 65535)) ?blocks"
    by (simp add: private_ranges_v4_def int_literals)
  have n: "?n = ?m * 65536 + (c * 256 + d)" "c * 256 + d < 65536" using assms by simp_all
  have "is_private_ipv4 (quad a b c d) \<longleftrightarrow> list_ex (\<lambda>(x, y). x \<le> ?n \<and> ?n \<le> y)
      (map (\<lambda>(x, y). (unat (ip4_to_int x), unat (ip4_to_int y))) private_ranges_v4)"
    using private_by_number [OF valid_quad [OF assms]] unfolding int_quad [OF assms] .
  also have "\<dots> \<longleftrightarrow> list_ex (\<lambda>(l, h). l * 65536 \<le> ?n \<and> ?n \<le> h * 65536 + 65535) ?blocks"
    unfolding ranges by (rule in_blocks)
  also have "\<dots> \<longleftrightarrow> list_ex (\<lambda>(l, h). l \<le> ?m \<and> ?m \<le> h) ?blocks"
    unfolding in_block [OF n] ..
  also have "\<dots> \<longleftrightarrow> private_octets a b"
  proof -
    note full = full_block [OF assms(2), of _ a] and sub = sub_block [OF assms(2), of _ _ _ a] and one = one_block [OF assms(2), of _ a]
    have 1: "?m \<le> 255 \<longleftrightarrow> a = 0" "2560 \<le> ?m \<and> ?m \<le> 2815 \<longleftrightarrow> a = 10"
      "25664 \<le> ?m \<and> ?m \<le> 25727 \<longleftrightarrow> a = 100 \<and> 64 \<le> b \<and> b \<le> 127"
      using one [of 0] one [of 10] sub [of 64 127 100] by simp_all
    have 2: "32512 \<le> ?m \<and> ?m \<le> 32767 \<longleftrightarrow> a = 127" "43518 \<le> ?m \<and> ?m \<le> 43518 \<longleftrightarrow> a = 169 \<and> b = 254"
      "44048 \<le> ?m \<and> ?m \<le> 44063 \<longleftrightarrow> a = 172 \<and> 16 \<le> b \<and> b \<le> 31"
      using one [of 127] sub [of 254 254 169] sub [of 16 31 172] by (simp_all add: le_antisym_iff)
    have 3: "49320 \<le> ?m \<and> ?m \<le> 49320 \<longleftrightarrow> a = 192 \<and> b = 168" "57344 \<le> ?m \<and> ?m \<le> 61439 \<longleftrightarrow> 224 \<le> a \<and> a \<le> 239"
      "61440 \<le> ?m \<and> ?m \<le> 65535 \<longleftrightarrow> 240 \<le> a"
      using sub [of 168 168 192] full [of 224 239] full [of 240 255] assms(1) by (simp_all add: le_antisym_iff)
    have 4: "224 \<le> a \<and> a \<le> 239 \<or> 240 \<le> a \<longleftrightarrow> 224 \<le> a" by arith
    show ?thesis unfolding list_ex_Cons_iff list_ex_Nil_iff prod.case 1 2 3 private_octets_def
      by (simp only: le0 simp_thms disj_assoc 4)
  qed
  finally show ?thesis .
qed

text \<open>An IPv4 address mapped into IPv6 is judged as the address it carries, dotted and in hexadecimal.\<close>

lemma no_dots: "\<forall>c \<in> set s. hex_digit_value c \<noteq> None \<Longrightarrow> CHR ''.'' \<notin> set s \<and> CHR '':'' \<notin> set s"
  by (auto simp: hex_digit_value_def digit_def)

lemma hex_lower: "hex_digit_value c \<noteq> None \<Longrightarrow> lower c = c"
  by (auto simp: hex_digit_value_def digit_def lower_def split: if_splits)

lemma hex_fold:
  "foldl (\<lambda>n c. 16 * n + the (hex_digit_value c)) n s < (n + 1) * 16 ^ length s" if "\<forall>c \<in> set s. hex_digit_value c \<noteq> None" for n
  using that
proof (induction s arbitrary: n)
  case (Cons c s)
  have "the (hex_digit_value c) < 16" using Cons.prems by (auto simp: hex_digit_value_def digit_def)
  have "foldl (\<lambda>n c. 16 * n + the (hex_digit_value c)) n (c # s)
      < (16 * n + the (hex_digit_value c) + 1) * 16 ^ length s" using Cons by simp
  also have "\<dots> \<le> (16 * n + 16) * 16 ^ length s" using \<open>the (hex_digit_value c) < 16\<close> by (intro mult_right_mono) auto
  also have "\<dots> = (n + 1) * 16 ^ length (c # s)" by (simp add: algebra_simps)
  finally show ?case .
qed simp

lemma hex_group_bound: "is_hex_group s \<Longrightarrow> hex_group_value s < 65536"
proof -
  assume g: "is_hex_group s"
  then have "hex_group_value s < 16 ^ length s"
    using hex_fold [of s 0] by (simp add: is_hex_group_def hex_group_value_def list_all_iff)
  moreover have "(16 :: nat) ^ length s \<le> 16 ^ 4" using g by (intro power_increasing) (simp_all add: is_hex_group_def)
  ultimately show ?thesis by simp
qed

lemma private_mapped:
  assumes "is_hex_group h" "is_hex_group l"
  shows "is_private_ip (''::ffff:'' @ h @ CHR '':'' # l)
    \<longleftrightarrow> private_octets (hex_group_value h div 256) (hex_group_value h mod 256)"
proof -
  define ip where "ip = ''::ffff:'' @ h @ CHR '':'' # l"
  have h: "\<forall>c \<in> set h. hex_digit_value c \<noteq> None" "\<forall>c \<in> set l. hex_digit_value c \<noteq> None"
    using assms by (simp_all add: is_hex_group_def list_all_iff)
  note plain = no_dots [OF h(1)] no_dots [OF h(2)]
  have "map lower h = h" "map lower l = l" using h hex_lower by (simp_all add: map_idI)
  then have low: "to_lower ip = ip" by (simp add: ip_def to_lower_def lower_def)
  have start: "starts_with ip ''::ffff:''" "drop 7 ip = h @ CHR '':'' # l" "CHR '':'' \<in> set ip" "ip \<noteq> ''::1''" "ip \<noteq> ''::''"
    "\<not> starts_with ip ''fe80:''" "\<not> starts_with ip ''fc''" "\<not> starts_with ip ''fd''" "\<not> starts_with ip ''ff''"
    by (simp_all add: ip_def starts_with_def)
  have "split_on CHR ''.'' (drop 7 ip) = [h @ CHR '':'' # l]" using plain by (simp add: start split_on_single)
  then have d: "\<not> dotted_digits (drop 7 ip)" by (simp add: dotted_digits_def)
  have "CHR ''.'' \<notin> set ip" using plain by (simp add: ip_def)
  then have v: "\<not> is_private_ipv4 ip" by (simp add: is_private_ipv4_def is_valid_ipv4_def split_on_single)
  have "split_on CHR '':'' (drop 7 ip) = [h, l]" using plain by (simp add: start split_on_append)
  then have m: "hex_mapped ip = Some (quad (hex_group_value h div 256) (hex_group_value h mod 256)
      (hex_group_value l div 256) (hex_group_value l mod 256))"
    using assms hex_group_bound [OF assms(1)] hex_group_bound [OF assms(2)]
    by (simp add: hex_mapped_def start(1) Let_def)
  have "is_private_ip ip \<longleftrightarrow> is_private_ipv4 (quad (hex_group_value h div 256) (hex_group_value h mod 256)
      (hex_group_value l div 256) (hex_group_value l mod 256))"
    using v d m start by (simp add: is_private_ip_def is_private_ipv6_def low Let_def)
  then show "is_private_ip (''::ffff:'' @ h @ CHR '':'' # l)
      \<longleftrightarrow> private_octets (hex_group_value h div 256) (hex_group_value h mod 256)"
    using private_quad hex_group_bound [OF assms(1)] hex_group_bound [OF assms(2)]
    by (simp add: div_less_iff_less_mult ip_def)
qed

lemma private_quad_text: "a < 256 \<Longrightarrow> b < 256 \<Longrightarrow> c < 256 \<Longrightarrow> d < 256 \<Longrightarrow> is_private_ip (quad a b c d) \<longleftrightarrow> private_octets a b"
  using private_quad by (simp add: is_private_ip_def quad_def show_nat_plain)

text \<open>
  C26: The private ranges are exactly those on octets (0/8, 10/8, 100.64/10, 127/8, 169.254/16, 172.16/12,
  192.168/16, 224/3), computed on 32-bit words without loss, and an IPv4 address mapped into IPv6 in hexadecimal
  is private exactly when the address it carries is.
\<close>

theorem private_ranges_exact:
  assumes "a < 256" "b < 256" "c < 256" "d < 256" "is_hex_group h" "is_hex_group l"
  shows "(is_private_ip (quad a b c d) \<longleftrightarrow> private_octets a b)
    \<and> (is_private_ip (''::ffff:'' @ h @ CHR '':'' # l)
        \<longleftrightarrow> private_octets (hex_group_value h div 256) (hex_group_value h mod 256))"
  using private_quad_text private_mapped assms by simp

theorem private_ranges_exact_witness:
  "(is_private_ip (quad 10 0 0 1) \<longleftrightarrow> private_octets 10 0)
    \<and> (is_private_ip (''::ffff:'' @ ''a9fe'' @ CHR '':'' # ''1'')
        \<longleftrightarrow> private_octets (hex_group_value ''a9fe'' div 256) (hex_group_value ''a9fe'' mod 256))
    \<and> private_octets 10 0"
  using private_ranges_exact [of 10 0 0 1 "''a9fe''" "''1''"]
  by (simp add: is_hex_group_def hex_digit_value_def digit_def private_octets_def)

section \<open>What validation accepts\<close>

definition url_admitted :: "network \<Rightarrow> network_policy \<Rightarrow> string \<Rightarrow> bool" where
  "url_admitted net policy s =
     (case nt_parse net s of
        None \<Rightarrow> False
      | Some u \<Rightarrow> ur_protocol u \<in> {''http:'', ''https:''} \<and> ur_username u = [] \<and> ur_password u = []
          \<and> \<not> is_cloud_metadata_host (url_host u) \<and> check_allow_deny (url_host u) policy = Inr ())"

definition address_admitted :: "network_policy \<Rightarrow> string \<Rightarrow> bool" where
  "address_admitted policy a = (if np_private policy then \<not> is_cloud_metadata_host a else \<not> is_private_ip a)"

lemma check_scheme_cases:
  "check_scheme parse s = Inr u \<longleftrightarrow>
     parse s = Some u \<and> ur_protocol u \<in> {''http:'', ''https:''} \<and> ur_username u = [] \<and> ur_password u = []"
  by (auto simp: check_scheme_def split: option.splits)

lemma find_none_iff: "find P xs = None \<longleftrightarrow> (\<forall>x \<in> set xs. \<not> P x)"
  by (auto simp: find_None_iff)

lemma check_private_accepts:
  "check_private resolve h = Inr addrs \<Longrightarrow>
     \<not> is_private_ip h \<and> (\<forall>as. addrs = Some as \<longrightarrow> (\<forall>a \<in> set as. \<not> is_private_ip a))"
  by (auto simp: check_private_def find_none_iff split: if_splits option.splits)

lemma check_metadata_accepts:
  "check_resolves_to_cloud_metadata resolve h = Inr (Some as) \<Longrightarrow> \<forall>a \<in> set as. \<not> is_cloud_metadata_host a"
  by (auto simp: check_resolves_to_cloud_metadata_def find_none_iff split: if_splits option.splits)

lemma validate_cases:
  assumes "validate_url parse resolve policy s = Inr addrs"
  obtains u where "parse s = Some u" "ur_protocol u \<in> {''http:'', ''https:''}" "ur_username u = []" "ur_password u = []"
    "\<not> is_cloud_metadata_host (url_host u)" "check_allow_deny (url_host u) policy = Inr ()"
    "(if np_private policy then check_resolves_to_cloud_metadata resolve (url_host u)
      else check_private resolve (url_host u)) = Inr addrs"
proof (cases "check_scheme parse s")
  case (Inr u)
  with assms that [of u] show ?thesis
    by (auto simp: validate_url_def check_scheme_cases Let_def split: if_splits sum.splits)
      (cases "check_allow_deny (url_host u) policy"; simp)+
qed (use assms in \<open>simp add: validate_url_def\<close>)

lemma validated_request:
  assumes "validate_url (nt_parse net) resolve policy s = Inr addrs"
  shows "url_admitted net policy s"
    and "a \<in> set (connect_targets (nt_is_ip net) f (case nt_parse net s of None \<Rightarrow> [] | Some u \<Rightarrow> url_host u) addrs)
      \<Longrightarrow> address_admitted policy a"
proof -
  from assms obtain u where u: "nt_parse net s = Some u" "ur_protocol u \<in> {''http:'', ''https:''}"
    "ur_username u = []" "ur_password u = []" "\<not> is_cloud_metadata_host (url_host u)"
    "check_allow_deny (url_host u) policy = Inr ()"
    "(if np_private policy then check_resolves_to_cloud_metadata resolve (url_host u)
      else check_private resolve (url_host u)) = Inr addrs"
    by (rule validate_cases)
  then show "url_admitted net policy s" by (simp add: url_admitted_def)
  assume a: "a \<in> set (connect_targets (nt_is_ip net) f (case nt_parse net s of None \<Rightarrow> [] | Some u \<Rightarrow> url_host u) addrs)"
  then consider "a = url_host u" | as where "addrs = Some as" "a \<in> set as"
    by (auto simp: connect_targets_def pinned_lookup_def u(1) Let_def split: if_splits option.splits)
  then show "address_admitted policy a"
  proof cases
    case 1
    then show ?thesis using u(5,7) check_private_accepts [of resolve "url_host u" addrs]
      by (auto simp: address_admitted_def split: if_splits)
  next
    case 2
    then show ?thesis
      using u(7) check_private_accepts [of resolve "url_host u" addrs] check_metadata_accepts [of resolve "url_host u" as]
      by (auto simp: address_admitted_def split: if_splits)
  qed
qed

section \<open>A chain of redirects\<close>

text \<open>The requests of a chain: the first one of the URL given, the others of the chain that goes on.\<close>

lemma fetch_loop_requests:
  assumes "rq \<in> set (snd (fetch_loop net policy serve origin (Suc left) hop s hs))"
  obtains (this_hop) addrs where "validate_url (nt_parse net) (nt_resolve net hop) policy s = Inr addrs" "rq_url rq = s"
      "rq_headers rq = hs"
      "rq_targets rq = connect_targets (nt_is_ip net) (nt_family net)
        (case nt_parse net s of None \<Rightarrow> [] | Some u \<Rightarrow> url_host u) addrs"
  | (later) next_url v where "nt_parse net next_url = Some v"
      "rq \<in> set (snd (fetch_loop net policy serve origin left (Suc hop) next_url
        (if ur_origin v \<noteq> origin then strip_auth_headers hs else hs)))"
  using assms that
  by (auto simp: Let_def split: sum.splits option.splits answer.splits list.splits prod.splits if_splits)

lemma fetch_loop_admits:
  "rq \<in> set (snd (fetch_loop net policy serve origin left hop s hs)) \<Longrightarrow>
     url_admitted net policy (rq_url rq) \<and> (\<forall>a \<in> set (rq_targets rq). address_admitted policy a)"
proof (induction left arbitrary: hop s hs)
  case (Suc left)
  from Suc.prems show ?case
  proof (cases rule: fetch_loop_requests)
    case (this_hop addrs)
    then show ?thesis using validated_request [OF this_hop(1)] by simp
  next
    case (later next_url v)
    show ?thesis by (rule Suc.IH [OF later(2)])
  qed
qed simp

definition carries_auth :: "request \<Rightarrow> bool" where
  "carries_auth rq = list_ex (\<lambda>(k, v). to_lower k \<in> set auth_headers) (rq_headers rq)"

lemma strip_auth: "(k, v) \<in> set (strip_auth_headers hs) \<Longrightarrow> to_lower k \<notin> set auth_headers"
  by (simp add: strip_auth_headers_def)

lemma fetch_loop_auth:
  assumes "nt_parse net s = Some u" "ur_origin u = origin \<or> (\<forall>(k, v) \<in> set hs. to_lower k \<notin> set auth_headers)"
    "rq \<in> set (snd (fetch_loop net policy serve origin left hop s hs))" "nt_parse net (rq_url rq) = Some w" "carries_auth rq"
  shows "ur_origin w = origin"
  using assms
proof (induction left arbitrary: hop s hs u)
  case (Suc left)
  from Suc.prems(3) show ?case
  proof (cases rule: fetch_loop_requests)
    case (this_hop addrs)
    then show ?thesis using Suc.prems by (fastforce simp: carries_auth_def list_ex_iff)
  next
    case (later next_url v)
    show ?thesis
      by (rule Suc.IH [OF later(1) _ later(2) Suc.prems(4,5)]) (auto dest: strip_auth)
  qed
qed simp

lemma fetch_loop_hops: "length (snd (fetch_loop net policy serve origin left hop s hs)) \<le> left"
  by (induction left arbitrary: hop s hs)
    (auto simp: Let_def case_prod_beta split: sum.splits option.splits answer.splits list.splits)

lemma safe_fetch_requests:
  assumes "rq \<in> set (snd (safe_fetch net policy serve m s hs))"
  obtains u where "nt_parse net s = Some u"
    "rq \<in> set (snd (fetch_loop net policy serve (ur_origin u)
      (case m of None \<Rightarrow> default_max_redirects | Some n \<Rightarrow> nat n) 0 s hs))"
  using assms that by (auto simp: safe_fetch_def split: option.splits)

section \<open>The gate's guarantees\<close>

text \<open>
  C8: Whatever the resolver answers at each call and the servers redirect to, every request that is issued has an
  http or https URL without credentials whose host is no metadata host and passes the allow and deny lists, and
  every address its socket may connect to is admitted: outside the private ranges, or, where the policy lets
  private addresses through, not a listed metadata address. At most the number of hops asked for is issued.
\<close>

theorem fetch_reaches_no_private:
  "(\<forall>rq \<in> set (snd (safe_fetch net policy serve m s hs)).
      url_admitted net policy (rq_url rq) \<and> (\<forall>a \<in> set (rq_targets rq). address_admitted policy a))
   \<and> length (snd (safe_fetch net policy serve m s hs)) \<le> (case m of None \<Rightarrow> 5 | Some n \<Rightarrow> nat n)"
  using fetch_loop_hops
  by (auto elim!: safe_fetch_requests dest!: fetch_loop_admits)
    (auto simp: safe_fetch_def default_max_redirects_def split: option.splits)

definition sample_network :: network where
  "sample_network =
     \<lparr>nt_parse = (\<lambda>s. if s \<in> {''a'', ''b''}
        then Some \<lparr>ur_protocol = ''https:'', ur_username = [], ur_password = [], ur_hostname = s @ ''.com'', ur_origin = s\<rparr>
        else None),
      nt_join = (\<lambda>loc s. Some loc), nt_resolve = (\<lambda>n h. Some [''93.184.216.34'']),
      nt_is_ip = (\<lambda>s. if is_valid_ipv4 s then 4 else 0), nt_family = 0\<rparr>"

definition sample_serve :: "nat \<Rightarrow> answer" where
  "sample_serve n = (if n = 0 then Answer 302 (Some ''b'') else Answer 200 None)"

definition open_policy :: network_policy where
  "open_policy = \<lparr>np_allow = [], np_deny = [''evil.com''], np_private = False\<rparr>"

lemma sample_private: "\<not> is_private_ip ''93.184.216.34''" "is_valid_ipv4 ''93.184.216.34''"
proof -
  have q: "quad 93 184 216 34 = ''93.184.216.34''" by code_simp
  show "\<not> is_private_ip ''93.184.216.34''"
    using private_quad [of 93 184 216 34] by (simp add: q is_private_ip_def private_octets_def)
  show "is_valid_ipv4 ''93.184.216.34''" using valid_quad [of 93 184 216 34] by (simp add: q)
qed

lemma sample_hosts:
  "strip_brackets (to_lower ''a.com'') = ''a.com''" "strip_brackets (to_lower ''b.com'') = ''b.com''"
  "\<not> is_cloud_metadata_host ''a.com''" "\<not> is_cloud_metadata_host ''b.com''"
  "check_allow_deny ''a.com'' open_policy = Inr ()" "check_allow_deny ''b.com'' open_policy = Inr ()"
  "\<not> is_likely_ip ''a.com''" "\<not> is_likely_ip ''b.com''" "\<not> is_valid_ipv4 ''a.com''" "\<not> is_valid_ipv4 ''b.com''"
  by code_simp+

lemma sample_validates:
  "s \<in> {''a'', ''b''} \<Longrightarrow>
     validate_url (nt_parse sample_network) (nt_resolve sample_network n) open_policy s = Inr (Some [''93.184.216.34''])"
  using sample_private sample_hosts
  by (auto simp: validate_url_def check_scheme_def sample_network_def url_host_def check_private_def open_policy_def
      is_private_ip_def is_private_ipv4_def)

lemma sample_targets:
  "s \<in> {''a'', ''b''} \<Longrightarrow>
     connect_targets (nt_is_ip sample_network) (nt_family sample_network)
       (case nt_parse sample_network s of None \<Rightarrow> [] | Some u \<Rightarrow> url_host u) (Some [''93.184.216.34'']) = [''93.184.216.34'']"
  using sample_private sample_hosts
  by (auto simp: connect_targets_def pinned_lookup_def sample_network_def url_host_def Let_def)

lemma sample_parse: "map_option ur_origin (nt_parse sample_network s) = (if s \<in> {''a'', ''b''} then Some s else None)"
  by (simp add: sample_network_def)

lemma sample_last:
  "fetch_loop sample_network open_policy sample_serve first (Suc left) 1 ''b'' hs
     = (Fetched ''b'' 1, [\<lparr>rq_url = ''b'', rq_targets = [''93.184.216.34''], rq_headers = hs\<rparr>])"
  using sample_validates [of "''b''"] sample_targets [of "''b''"] by (simp add: sample_serve_def)

lemma sample_first:
  "fetch_loop sample_network open_policy sample_serve ''a'' (Suc (Suc left)) 0 ''a'' hs
     = (Fetched ''b'' 1,
        [\<lparr>rq_url = ''a'', rq_targets = [''93.184.216.34''], rq_headers = hs\<rparr>,
         \<lparr>rq_url = ''b'', rq_targets = [''93.184.216.34''], rq_headers = strip_auth_headers hs\<rparr>])"
proof -
  have net: "nt_join sample_network l r = Some l"
    "nt_parse sample_network ''b'' = Some \<lparr>ur_protocol = ''https:'', ur_username = [], ur_password = [],
      ur_hostname = ''b.com'', ur_origin = ''b''\<rparr>" for l r by (simp_all add: sample_network_def)
  show ?thesis
    unfolding fetch_loop.simps(2) [of _ _ _ _ "Suc left"]
    using sample_validates [of "''a''"] sample_targets [of "''a''"] sample_last [unfolded One_nat_def]
    by (simp add: sample_serve_def net del: fetch_loop.simps)
qed

lemma sample_fetch:
  "safe_fetch sample_network open_policy sample_serve None ''a'' [(''Cookie'', ''k''), (''Accept'', ''x'')]
     = (Fetched ''b'' 1,
        [\<lparr>rq_url = ''a'', rq_targets = [''93.184.216.34''], rq_headers = [(''Cookie'', ''k''), (''Accept'', ''x'')]\<rparr>,
         \<lparr>rq_url = ''b'', rq_targets = [''93.184.216.34''], rq_headers = [(''Accept'', ''x'')]\<rparr>])"
proof -
  have "safe_fetch sample_network open_policy sample_serve None ''a'' hs
      = fetch_loop sample_network open_policy sample_serve ''a'' (Suc (Suc 3)) 0 ''a'' hs" for hs
    by (simp add: safe_fetch_def default_max_redirects_def sample_network_def del: fetch_loop.simps)
  moreover have "strip_auth_headers [(''Cookie'', ''k''), (''Accept'', ''x'')] = [(''Accept'', ''x'')]" by code_simp
  ultimately show ?thesis by (simp only: sample_first)
qed

theorem fetch_reaches_no_private_witness:
  "\<not> is_private_ip ''93.184.216.34'' \<and> url_admitted sample_network open_policy ''b''"
  using fetch_reaches_no_private [of sample_network open_policy sample_serve None "''a''"
      "[(''Cookie'', ''k''), (''Accept'', ''x'')]"]
  unfolding sample_fetch by (simp add: address_admitted_def open_policy_def)

text \<open>
  C9: Authorization, proxy-authorization and cookie headers are sent to the origin of the first URL alone: a
  request of any other origin, at any hop of the chain, carries none of them.
\<close>

theorem fetch_auth_stays:
  assumes "rq \<in> set (snd (safe_fetch net policy serve m s hs))"
    "nt_parse net (rq_url rq) = Some v" "carries_auth rq"
  shows "\<exists>u. nt_parse net s = Some u \<and> ur_origin v = ur_origin u"
  using assms(1)
proof (rule safe_fetch_requests)
  fix u
  assume u: "nt_parse net s = Some u" "rq \<in> set (snd (fetch_loop net policy serve (ur_origin u)
      (case m of None \<Rightarrow> default_max_redirects | Some n \<Rightarrow> nat n) 0 s hs))"
  have "ur_origin v = ur_origin u" by (rule fetch_loop_auth [OF u(1) _ u(2) assms(2,3)]) simp
  with u(1) show ?thesis by blast
qed

lemma cookie_auth: "carries_auth \<lparr>rq_url = u, rq_targets = ts, rq_headers = (''Cookie'', v) # hs\<rparr>"
proof -
  have "to_lower ''Cookie'' \<in> set auth_headers" by code_simp
  then show ?thesis by (simp add: carries_auth_def)
qed

theorem fetch_auth_stays_witness:
  "\<exists>u. nt_parse sample_network ''a'' = Some u \<and> ''a'' = ur_origin u"
  using fetch_auth_stays [of "\<lparr>rq_url = ''a'', rq_targets = [''93.184.216.34''],
      rq_headers = [(''Cookie'', ''k''), (''Accept'', ''x'')]\<rparr>" sample_network open_policy sample_serve None "''a''"
      "[(''Cookie'', ''k''), (''Accept'', ''x'')]"]
  unfolding sample_fetch
  by (simp add: sample_network_def cookie_auth)

section \<open>What the gate lets through\<close>

text \<open>
  A metadata address is refused in every policy where its text is one of the list; mapped into IPv6, which is how
  the same address can be written, it is refused only where private addresses are.
\<close>

definition literal_network :: "string \<Rightarrow> network" where
  "literal_network h =
     \<lparr>nt_parse = (\<lambda>s. Some \<lparr>ur_protocol = ''http:'', ur_username = [], ur_password = [], ur_hostname = h, ur_origin = s\<rparr>),
      nt_join = (\<lambda>loc s. Some loc), nt_resolve = (\<lambda>n h. None), nt_is_ip = (\<lambda>s. 6), nt_family = 0\<rparr>"

lemma literal_hosts:
  "strip_brackets (to_lower ''[::ffff:a9fe:a9fe]'') = ''::ffff:a9fe:a9fe''"
  "strip_brackets (to_lower ''169.254.169.254'') = ''169.254.169.254''"
  "\<not> is_cloud_metadata_host ''::ffff:a9fe:a9fe''" "is_cloud_metadata_host ''169.254.169.254''"
  "check_allow_deny ''::ffff:a9fe:a9fe'' open_policy = Inr ()"
  "check_allow_deny ''::ffff:a9fe:a9fe'' (open_policy\<lparr>np_private := True\<rparr>) = Inr ()"
  "is_likely_ip ''::ffff:a9fe:a9fe''"
  by code_simp+

lemma literal_private: "is_private_ip ''::ffff:a9fe:a9fe''"
  using private_mapped [of "''a9fe''" "''a9fe''"]
  by (simp add: is_hex_group_def hex_group_value_def hex_digit_value_def digit_def private_octets_def)

lemma literal_validates:
  "validate_url (nt_parse (literal_network ''[::ffff:a9fe:a9fe]'')) r (open_policy\<lparr>np_private := True\<rparr>) s = Inr None"
  "validate_url (nt_parse (literal_network ''[::ffff:a9fe:a9fe]'')) r open_policy s
     = Inl (PrivateHost ''::ffff:a9fe:a9fe'')"
  "validate_url (nt_parse (literal_network ''169.254.169.254'')) r policy s = Inl (MetadataHost ''169.254.169.254'')"
  using literal_hosts literal_private
  by (simp_all add: validate_url_def check_scheme_def literal_network_def url_host_def
      check_resolves_to_cloud_metadata_def) (simp add: open_policy_def check_private_def)

theorem metadata_mapped_admitted:
  "rq_targets (hd (snd (safe_fetch (literal_network ''[::ffff:a9fe:a9fe]'') (open_policy\<lparr>np_private := True\<rparr>)
      (\<lambda>n. Answer 200 None) None ''x'' []))) = [''::ffff:a9fe:a9fe'']
   \<and> fst (safe_fetch (literal_network ''[::ffff:a9fe:a9fe]'') open_policy (\<lambda>n. Answer 200 None) None ''x'' [])
       = Blocked (PrivateHost ''::ffff:a9fe:a9fe'') 0 ''x''
   \<and> fst (safe_fetch (literal_network ''169.254.169.254'') (open_policy\<lparr>np_private := True\<rparr>)
        (\<lambda>n. Answer 200 None) None ''x'' []) = Blocked (MetadataHost ''169.254.169.254'') 0 ''x''"
proof -
  have p: "nt_parse (literal_network h) s = Some \<lparr>ur_protocol = ''http:'', ur_username = [], ur_password = [],
      ur_hostname = h, ur_origin = s\<rparr>" "nt_is_ip (literal_network h) s = 6" for h s by (simp_all add: literal_network_def)
  show ?thesis
    using literal_validates literal_hosts(1)
    by (simp add: safe_fetch_def default_max_redirects_def eval_nat_numeral p connect_targets_def url_host_def Let_def)
qed

text \<open>Link-local addresses above fe80::/16 and a loopback address in IPv4-compatible hexadecimal pass as public.\<close>

theorem private_v6_missed:
  "is_private_ip ''fe80::1'' \<and> \<not> is_private_ip ''fe90::1'' \<and> \<not> is_private_ip ''febf::1''
   \<and> is_private_ip ''::127.0.0.1'' \<and> \<not> is_private_ip ''::7f00:1''"
  by code_simp

text \<open>A host on the deny list passes with a trailing dot, which the metadata list strips.\<close>

theorem deny_list_trailing_dot:
  "check_allow_deny ''evil.com'' open_policy = Inl (OnDenyList ''evil.com'' ''evil.com'')
   \<and> check_allow_deny ''evil.com.'' open_policy = Inr () \<and> is_cloud_metadata_host ''metadata.google.internal.''"
  by code_simp

end
