(* ===== verification/FsPaths.thy ===== *)
theory FsPaths
  imports Prelude "HOL-Library.Sublist"
begin

text \<open>
  Paths and the file system as the personality boundaries see them: \<open>resolve\<close> and \<open>normalize\<close> of node:path,
  the deny keys of packages/types/src/deny-fold.ts, the kernel's walk of a path, and the realpath of a path's
  longest existing ancestor (packages/core/src/scoped/scoped-fs.ts). An absolute path in normal form is the list of
  its segments, so \<open>startsWith(p + '/')\<close> is \<open>prefix\<close> on lists (\<open>path_text_below\<close>).
\<close>

section \<open>Paths\<close>

type_synonym path = "string list"

definition segments :: "string \<Rightarrow> string list" where
  "segments s = filter (\<lambda>x. x \<noteq> [] \<and> x \<noteq> ''.'') (split_on CHR ''/'' s)"

lemma split_on_free: "x \<in> set (split_on c s) \<Longrightarrow> c \<notin> set x"
  by (induction s arbitrary: x) (auto split: list.splits if_splits)

fun climb :: "path \<Rightarrow> string list \<Rightarrow> path" where
  "climb base [] = base"
| "climb base (s # ss) = climb (if s = ''..'' then butlast base else base @ [s]) ss"

definition absolute :: "string \<Rightarrow> bool" where
  "absolute s = (s \<noteq> [] \<and> hd s = CHR ''/'')"

text \<open>Where a relative text is read from.\<close>

definition link_base :: "path \<Rightarrow> string \<Rightarrow> path" where
  "link_base dir t = (if absolute t then [] else dir)"

text \<open>\<open>normalize(resolve(base, s))\<close>, where the first base is the working directory.\<close>

definition resolve_path :: "path \<Rightarrow> string \<Rightarrow> path" where
  "resolve_path base s = climb (link_base base s) (segments s)"

definition path_text :: "path \<Rightarrow> string" where
  "path_text p = (if p = [] then ''/'' else concat (map (\<lambda>s. CHR ''/'' # s) p))"

section \<open>Deny keys\<close>

text \<open>\<open>foldForDeny\<close>: letter case, one \<open>/.nofollow\<close> and one firmlink root.\<close>

definition drop_nofollow :: "path \<Rightarrow> path" where
  "drop_nofollow p = (if p \<noteq> [] \<and> hd p = ''.nofollow'' then tl p else p)"

definition firmlink_root :: path where
  "firmlink_root = [''system'', ''volumes'', ''data'']"

definition drop_firmlink :: "path \<Rightarrow> path" where
  "drop_firmlink p = (if prefix firmlink_root p then drop 3 p else p)"

definition fold_for_deny :: "path \<Rightarrow> path" where
  "fold_for_deny p = drop_firmlink (drop_nofollow (map to_lower p))"

definition unmappable_alias_roots :: "string list" where
  "unmappable_alias_roots = [''.vol'', ''.resolve'', ''.nofollow'']"

definition is_unmappable_path_alias :: "path \<Rightarrow> bool" where
  "is_unmappable_path_alias p =
     (let f = fold_for_deny p
      in prefix firmlink_root f \<or> (f \<noteq> [] \<and> hd f \<in> set unmappable_alias_roots))"

definition matches_any :: "path \<Rightarrow> path list \<Rightarrow> bool" where
  "matches_any c ps =
     (is_unmappable_path_alias c \<or> list_ex (\<lambda>p. prefix (fold_for_deny p) (fold_for_deny c)) ps)"

section \<open>The file system\<close>

text \<open>
  A tree as a map from real locations to what is there: a directory, one that may not be searched, a file, or a
  link with its text.
\<close>

datatype node = Dir | Sealed | File | Link string

type_synonym tree = "path \<Rightarrow> node option"

datatype errno = ENOENT | ENOTDIR | EACCES | ELOOP

text \<open>
  The kernel's walk, with the number of links it may still follow: where the path ends, and whether something is
  there. Where a segment is missing the rest is where it would be created; nothing is above what is missing.
\<close>

function namei :: "nat \<Rightarrow> tree \<Rightarrow> path \<Rightarrow> string list \<Rightarrow> (errno, path \<times> bool) result" where
  "namei h fs dir [] = Inr (dir, True)"
| "namei h fs dir (s # ss) =
     (case fs dir of
        None \<Rightarrow> Inl ENOENT
      | Some File \<Rightarrow> Inl ENOTDIR
      | Some (Link t) \<Rightarrow> Inl ENOTDIR
      | Some Sealed \<Rightarrow> Inl EACCES
      | Some Dir \<Rightarrow>
          if s = ''..'' then namei h fs (butlast dir) ss
          else (case fs (dir @ [s]) of
                  None \<Rightarrow> if ''..'' \<in> set ss then Inl ENOENT else Inr (dir @ s # ss, False)
                | Some (Link t) \<Rightarrow>
                    (case h of
                       0 \<Rightarrow> Inl ELOOP
                     | Suc h' \<Rightarrow> namei h' fs (link_base dir t) (segments t @ ss))
                | Some _ \<Rightarrow> namei h fs (dir @ [s]) ss))"
  by pat_completeness auto
termination
  by (relation "measures [\<lambda>(h, fs, dir, ss). h, \<lambda>(h, fs, dir, ss). length ss]") auto

text \<open>Linux follows forty links.\<close>

definition max_links :: nat where "max_links = 40"

definition realpath :: "tree \<Rightarrow> path \<Rightarrow> (errno, path) result" where
  "realpath fs p = ebind (namei max_links fs [] p) (\<lambda>(r, there). if there then Inr r else Inl ENOENT)"

text \<open>\<open>lstatSync\<close> with \<open>throwIfNoEntry: false\<close>: the last segment is not followed.\<close>

definition lstat :: "tree \<Rightarrow> path \<Rightarrow> (errno, node option) result" where
  "lstat fs p =
     (if p = [] then Inr (fs [])
      else (case namei max_links fs [] (butlast p) of
              Inl ENOENT \<Rightarrow> Inr None
            | Inl e \<Rightarrow> Inl e
            | Inr (d, False) \<Rightarrow> Inr None
            | Inr (d, True) \<Rightarrow>
                (case fs d of
                   Some Dir \<Rightarrow> Inr (fs (d @ [last p]))
                 | Some Sealed \<Rightarrow> Inl EACCES
                 | None \<Rightarrow> Inr None
                 | Some _ \<Rightarrow> Inl ENOTDIR)))"

definition max_resolve_steps :: nat where "max_resolve_steps = 256"

text \<open>The tail is the segments taken off so far, the last one taken first.\<close>

fun ancestor_loop :: "nat \<Rightarrow> tree \<Rightarrow> path \<Rightarrow> string list \<Rightarrow> path option" where
  "ancestor_loop 0 fs cursor tail = None"
| "ancestor_loop (Suc n) fs cursor tail =
     (case realpath fs cursor of
        Inr real \<Rightarrow> Some (real @ tail)
      | Inl e \<Rightarrow>
          if e \<noteq> ENOENT \<and> e \<noteq> ENOTDIR then None
          else (case (case lstat fs cursor of Inl ENOTDIR \<Rightarrow> Inr None | r \<Rightarrow> r) of
                  Inl e \<Rightarrow> None
                | Inr (Some (Link t)) \<Rightarrow> ancestor_loop n fs (resolve_path (butlast cursor) t) tail
                | Inr _ \<Rightarrow>
                    if cursor = [] then None
                    else ancestor_loop n fs (butlast cursor) (last cursor # tail)))"

definition real_path_of_longest_existing_ancestor :: "tree \<Rightarrow> path \<Rightarrow> path option" where
  "real_path_of_longest_existing_ancestor fs p = ancestor_loop max_resolve_steps fs p []"

definition with_real_paths :: "tree \<Rightarrow> path list \<Rightarrow> path list" where
  "with_real_paths fs dirs =
     foldl (\<lambda>out d. case real_path_of_longest_existing_ancestor fs d of
                None \<Rightarrow> out
              | Some r \<Rightarrow> if r \<in> set out then out else out @ [r]) dirs dirs"

text \<open>The home directory, the working directory and \<open>ETHOS_STATE_DIR\<close>, which counts only when it is not empty.\<close>

record host =
  ho_home :: path
  ho_cwd :: path
  ho_state_dir :: "string option"

definition ethos_state_dirs :: "host \<Rightarrow> tree \<Rightarrow> string list \<Rightarrow> path list" where
  "ethos_state_dirs host fs extra =
     with_real_paths fs
       (foldl (\<lambda>dirs d. let a = resolve_path (ho_cwd host) d in if a \<in> set dirs then dirs else dirs @ [a])
         [ho_home host @ [''.ethos'']]
         (case ho_state_dir host of None \<Rightarrow> extra | Some [] \<Rightarrow> extra | Some d \<Rightarrow> d # extra))"

end
