(* ===== verification/FsFloors.thy ===== *)
theory FsFloors
  imports FsPaths
begin

text \<open>
  The deny predicates of packages/types: the entries that define a personality (personality-definition.ts), private
  memory and what a shared turn may reach (memory-paths.ts), and the list of sensitive paths of
  packages/storage-fs/src/sensitive-paths.ts. All compare deny keys.
\<close>

section \<open>Segments below a root\<close>

definition segments_below :: "path \<Rightarrow> path \<Rightarrow> path option" where
  "segments_below p root =
     (let path = fold_for_deny p; base = fold_for_deny root
      in if prefix base path then Some (drop (length base) path) else None)"

definition nth_segment :: "path \<Rightarrow> nat \<Rightarrow> string option" where
  "nth_segment p n = (if n < length p then Some (p ! n) else None)"

section \<open>Personality definitions\<close>

definition personality_definition_entries :: "string list" where
  "personality_definition_entries =
     [''SOUL.md'', ''config.yaml'', ''toolset.yaml'', ''mcp.yaml'', ''tools.yaml'', ''ETHOS.md'', ''skills/'', ''commands/'',
      ''.expression-history/'']"

definition state_dir_definition_entries :: "string list" where
  "state_dir_definition_entries = [''skills/'', ''commands/'']"

definition entry_name :: "string \<Rightarrow> string" where
  "entry_name e = to_lower (if ends_with e ''/'' then butlast e else e)"

definition is_team_manifest_name :: "string \<Rightarrow> bool" where
  "is_team_manifest_name name = (ends_with name ''.yaml'' \<or> ends_with name ''.yml'')"

definition definition_below :: "path \<Rightarrow> bool" where
  "definition_below rel =
     ((case nth_segment rel 0 of None \<Rightarrow> False | Some a \<Rightarrow> a \<in> set (map entry_name state_dir_definition_entries))
      \<or> (nth_segment rel 0 = Some ''teams'' \<and> (case nth_segment rel 1 of None \<Rightarrow> False | Some m \<Rightarrow> is_team_manifest_name m))
      \<or> (nth_segment rel 0 = Some ''personalities''
         \<and> (case nth_segment rel 2 of None \<Rightarrow> False | Some e \<Rightarrow> e \<in> set (map entry_name personality_definition_entries))))"

definition is_personality_definition_path :: "path \<Rightarrow> path list \<Rightarrow> bool" where
  "is_personality_definition_path p dirs =
     list_ex (\<lambda>d. case segments_below p d of None \<Rightarrow> False | Some rel \<Rightarrow> definition_below rel) dirs"

definition contains_personality_definition_path :: "path \<Rightarrow> path list \<Rightarrow> bool" where
  "contains_personality_definition_path p dirs =
     (is_personality_definition_path p dirs
      \<or> list_ex (\<lambda>d. segments_below d p \<noteq> None
          \<or> (case segments_below p d of
               None \<Rightarrow> False
             | Some rel \<Rightarrow> (nth_segment rel 0 = Some ''personalities'' \<and> length rel \<le> 2)
                 \<or> (nth_segment rel 0 = Some ''teams'' \<and> length rel = 1))) dirs)"

datatype boundary_op = Access | Subtree

definition personality_definition_write_floor :: "path list \<Rightarrow> path \<Rightarrow> boundary_op \<Rightarrow> bool" where
  "personality_definition_write_floor dirs p op =
     (case op of Subtree \<Rightarrow> contains_personality_definition_path p dirs
      | Access \<Rightarrow> is_personality_definition_path p dirs)"

section \<open>Private memory\<close>

record private_roots =
  pr_state_dirs :: "path list"
  pr_extra :: "path list"

definition private_memory_file_names :: "string list" where
  "private_memory_file_names = [''MEMORY.md'', ''USER.md'']"

definition is_memory_bookkeeping_file_name :: "string \<Rightarrow> bool" where
  "is_memory_bookkeeping_file_name name =
     (starts_with (to_lower name) ''memory-'' \<and> length (to_lower name) > 7)"

definition is_memory_entry_name :: "string \<Rightarrow> bool" where
  "is_memory_entry_name name =
     (list_ex (\<lambda>n. name = n \<or> starts_with name (n @ ''.'')) (map to_lower private_memory_file_names)
      \<or> name = ''history-blobs'' \<or> is_memory_bookkeeping_file_name name)"

definition private_below :: "path \<Rightarrow> bool" where
  "private_below rel =
     (case nth_segment rel 0 of
        None \<Rightarrow> False
      | Some a \<Rightarrow>
          a = ''users''
          \<or> (a = ''personalities'' \<and> (case nth_segment rel 2 of None \<Rightarrow> False | Some t \<Rightarrow> is_memory_entry_name t))
          \<or> (a = ''teams'' \<and> nth_segment rel 2 = Some ''memory'')
          \<or> starts_with a ''memory.db'' \<or> is_memory_entry_name a)"

definition is_private_memory_path :: "path \<Rightarrow> private_roots \<Rightarrow> bool" where
  "is_private_memory_path p roots =
     (list_ex (\<lambda>r. segments_below p r \<noteq> None) (pr_extra roots)
      \<or> list_ex (\<lambda>d. case segments_below p d of None \<Rightarrow> False | Some rel \<Rightarrow> private_below rel) (pr_state_dirs roots))"

definition contains_private_memory_path :: "path \<Rightarrow> private_roots \<Rightarrow> bool" where
  "contains_private_memory_path p roots =
     (is_private_memory_path p roots
      \<or> list_ex (\<lambda>r. segments_below r p \<noteq> None) (pr_state_dirs roots @ pr_extra roots)
      \<or> list_ex (\<lambda>d. case segments_below p d of
             None \<Rightarrow> False
           | Some rel \<Rightarrow> (nth_segment rel 0 = Some ''personalities'' \<or> nth_segment rel 0 = Some ''teams'') \<and> length rel \<le> 2)
          (pr_state_dirs roots))"

section \<open>Shared turns\<close>

datatype access_kind = ReadAccess | WriteAccess

definition shared_turn_may_reach :: "path \<Rightarrow> string \<Rightarrow> access_kind \<Rightarrow> bool" where
  "shared_turn_may_reach rel own kind =
     (if nth_segment rel 0 = Some ''skills'' then kind = ReadAccess
      else if nth_segment rel 0 \<noteq> Some ''personalities'' \<or> own = [] \<or> nth_segment rel 1 \<noteq> Some own then False
      else if nth_segment rel 2 = Some ''files'' \<or> nth_segment rel 2 = Some ''ui'' then True
      else if nth_segment rel 2 = Some ''skills'' then kind = ReadAccess
      else nth_segment rel 2 = Some ''soul.md'' \<and> length rel = 3 \<and> kind = ReadAccess)"

definition refused_under_state_dir :: "private_roots \<Rightarrow> string \<Rightarrow> path \<Rightarrow> access_kind \<Rightarrow> bool" where
  "refused_under_state_dir roots own p kind =
     list_ex (\<lambda>d. case segments_below p d of None \<Rightarrow> False | Some rel \<Rightarrow> \<not> shared_turn_may_reach rel own kind)
       (pr_state_dirs roots)"

definition shared_turn_path_deny :: "private_roots \<Rightarrow> string \<Rightarrow> path \<Rightarrow> boundary_op \<Rightarrow> access_kind \<Rightarrow> bool" where
  "shared_turn_path_deny roots self p op kind =
     (case op of
        Subtree \<Rightarrow> contains_private_memory_path p roots \<or> refused_under_state_dir roots (to_lower self) p WriteAccess
      | Access \<Rightarrow> is_private_memory_path p roots \<or> refused_under_state_dir roots (to_lower self) p kind)"

section \<open>Sensitive paths\<close>

definition sqlite_files :: "string \<Rightarrow> string list" where
  "sqlite_files name = [name, name @ ''-wal'', name @ ''-shm'']"

definition state_dir_deny_entries :: "string list" where
  "state_dir_deny_entries =
     [''keys.json'', ''secrets'', ''config.yaml'', ''web-token'', ''web-admin.json'', ''web-sessions.json'', ''mcp.json'',
      ''plugins'', ''scripts'', ''constitution.yaml'', ''evolve-config.json'', ''allowlist.json'', ''approval-leases.json'']
     @ sqlite_files ''sessions.db'' @ sqlite_files ''observability.db'' @ sqlite_files ''memory.db'' @ [''learning'']"

definition sensitive_deny_paths :: "host \<Rightarrow> tree \<Rightarrow> string list \<Rightarrow> path list" where
  "sensitive_deny_paths host fs extra =
     map (\<lambda>p. ho_home host @ p)
       [[''.ssh''], [''.aws'', ''credentials''], [''.aws'', ''config''], [''.gnupg''], [''.netrc''], [''.bash_history''],
        [''.zsh_history''], [''.psql_history''], [''.mysql_history''], [''.npmrc'']]
     @ concat (map (\<lambda>d. map (\<lambda>e. d @ [e]) state_dir_deny_entries) (ethos_state_dirs host fs extra))
     @ [ho_home host @ [''Library'', ''Keychains''], [''etc'', ''passwd''], [''etc'', ''shadow''], [''etc'', ''sudoers''],
        [''etc'', ''sudoers.d''], [''root''], [''boot''], [''sys''], [''proc'', ''sys''], [''proc'', ''self'', ''environ''],
        [''proc'', ''self'', ''cmdline'']]"

end
