(* ===== verification/ScopedFs.thy ===== *)
theory ScopedFs
  imports FsFloors
begin

text \<open>
  ScopedFsImpl of packages/core/src/scoped/scoped-fs.ts: the check every call of a tool passes before the storage is
  asked. The injected predicates (\<open>denyWhen\<close>, \<open>definitionWriteFloor\<close>) and the run's taint are fields.
\<close>

datatype reach_refusal =
  AlwaysDenied | OperatorOwned | SharedDenied | TaintedWrite | NotPermitted | ThroughLink | TooManyLinks
| Unresolvable | IntoStateDir | FsThrew errno

record scoped_fs =
  sf_host :: host
  sf_read :: "string list"
  sf_write :: "string list"
  sf_deny :: "string list"
  sf_write_deny :: "string list"
  sf_deny_when :: "path \<Rightarrow> access_kind \<Rightarrow> bool"
  sf_floor :: "path \<Rightarrow> bool"
  sf_extra_state_dirs :: "string list"
  sf_tainted :: bool

definition canonical_of :: "scoped_fs \<Rightarrow> string \<Rightarrow> path" where
  "canonical_of sf s = resolve_path (ho_cwd (sf_host sf)) s"

definition allowed_for :: "scoped_fs \<Rightarrow> access_kind \<Rightarrow> path list" where
  "allowed_for sf kind = map (canonical_of sf) (case kind of ReadAccess \<Rightarrow> sf_read sf | WriteAccess \<Rightarrow> sf_write sf)"

definition hits_deny_floor :: "scoped_fs \<Rightarrow> path \<Rightarrow> bool" where
  "hits_deny_floor sf c = matches_any c (map (canonical_of sf) (sf_deny sf))"

definition hits_write_deny :: "scoped_fs \<Rightarrow> path \<Rightarrow> access_kind \<Rightarrow> bool" where
  "hits_write_deny sf c kind =
     (kind = WriteAccess \<and> (matches_any c (map (canonical_of sf) (sf_write_deny sf)) \<or> sf_floor sf c))"

definition hits_deny_when :: "scoped_fs \<Rightarrow> path \<Rightarrow> access_kind \<Rightarrow> bool" where
  "hits_deny_when sf c kind = sf_deny_when sf c kind"

text \<open>A write into a state directory outside a personality's \<open>files/\<close>.\<close>

definition writes_ethos_state :: "path \<Rightarrow> path list \<Rightarrow> bool" where
  "writes_ethos_state c state_dirs =
     list_ex (\<lambda>d. let root = fold_for_deny d; key = fold_for_deny c; rel = drop (length root) key
                   in prefix root key
                      \<and> \<not> (nth_segment rel 0 = Some ''personalities'' \<and> nth_segment rel 2 = Some ''files'')) state_dirs"

definition hits_tainted_state_write :: "scoped_fs \<Rightarrow> path \<Rightarrow> access_kind \<Rightarrow> path list \<Rightarrow> bool" where
  "hits_tainted_state_write sf c kind state_dirs =
     (kind = WriteAccess \<and> sf_tainted sf \<and> writes_ethos_state c state_dirs)"

section \<open>The allowlist\<close>

definition shadows_state_dir :: "path \<Rightarrow> path \<Rightarrow> path list \<Rightarrow> bool" where
  "shadows_state_dir prefix_key path_key keys =
     list_ex (\<lambda>d. prefix d path_key \<and> prefix prefix_key d \<and> prefix_key \<noteq> d) keys"

definition match_allowed_prefix :: "path \<Rightarrow> path list \<Rightarrow> path list \<Rightarrow> path option" where
  "match_allowed_prefix c allowed state_dirs =
     find (\<lambda>p. prefix p c \<and> \<not> shadows_state_dir (fold_for_deny p) (fold_for_deny c) (map fold_for_deny state_dirs)) allowed"

definition reaches_state_dir_through_link :: "tree \<Rightarrow> path \<Rightarrow> path list \<Rightarrow> path list \<Rightarrow> bool" where
  "reaches_state_dir_through_link fs real allowed state_dirs =
     (let key = fold_for_deny real;
          holding = filter (\<lambda>d. prefix d key) (map fold_for_deny state_dirs);
          keys = map (\<lambda>p. fold_for_deny (case real_path_of_longest_existing_ancestor fs p of None \<Rightarrow> p | Some r \<Rightarrow> r)) allowed
      in list_ex (\<lambda>d. \<not> list_ex (\<lambda>k. prefix d k \<and> prefix k key) keys) holding)"

section \<open>The symlink walk\<close>

fun follow_from :: "tree \<Rightarrow> path \<Rightarrow> string list \<Rightarrow> (errno, path option) result" where
  "follow_from fs cursor [] = Inr None"
| "follow_from fs cursor (s # rest) =
     (case lstat fs (cursor @ [s]) of
        Inl e \<Rightarrow> Inl e
      | Inr None \<Rightarrow> Inr None
      | Inr (Some (Link t)) \<Rightarrow> Inr (Some (climb (resolve_path cursor t) rest))
      | Inr (Some _) \<Rightarrow> follow_from fs (cursor @ [s]) rest)"

text \<open>The target lies below the prefix whenever this is called.\<close>

definition follow_first_symlink :: "tree \<Rightarrow> path \<Rightarrow> path \<Rightarrow> (errno, path option) result" where
  "follow_first_symlink fs root target = follow_from fs root (drop (length root) target)"

definition max_symlink_hops :: nat where "max_symlink_hops = 32"

definition check_real_target :: "scoped_fs \<Rightarrow> tree \<Rightarrow> path \<Rightarrow> access_kind \<Rightarrow> path list \<Rightarrow> path list \<Rightarrow> (reach_refusal, unit) result" where
  "check_real_target sf fs c kind allowed state_dirs =
     (case real_path_of_longest_existing_ancestor fs c of
        None \<Rightarrow> Inl Unresolvable
      | Some real \<Rightarrow>
          if real = c then Inr ()
          else if hits_deny_floor sf real then Inl AlwaysDenied
          else if hits_write_deny sf real kind then Inl OperatorOwned
          else if hits_deny_when sf real kind then Inl SharedDenied
          else if hits_tainted_state_write sf real kind state_dirs then Inl TaintedWrite
          else if reaches_state_dir_through_link fs real allowed state_dirs then Inl IntoStateDir
          else Inr ())"

fun hop_loop ::
  "nat \<Rightarrow> scoped_fs \<Rightarrow> tree \<Rightarrow> path \<Rightarrow> access_kind \<Rightarrow> path list \<Rightarrow> path list \<Rightarrow> path \<Rightarrow> path \<Rightarrow> (reach_refusal, unit) result" where
  "hop_loop 0 sf fs c kind allowed state_dirs root current = Inl TooManyLinks"
| "hop_loop (Suc n) sf fs c kind allowed state_dirs root current =
     (case follow_first_symlink fs root current of
        Inl e \<Rightarrow> Inl (FsThrew e)
      | Inr None \<Rightarrow> check_real_target sf fs c kind allowed state_dirs
      | Inr (Some next) \<Rightarrow>
          (case match_allowed_prefix next allowed state_dirs of
             None \<Rightarrow> Inl ThroughLink
           | Some next_root \<Rightarrow>
               if hits_deny_floor sf next then Inl ThroughLink
               else if hits_write_deny sf next kind then Inl OperatorOwned
               else if hits_deny_when sf next kind then Inl SharedDenied
               else hop_loop n sf fs c kind allowed state_dirs next_root next))"

definition check_reach :: "scoped_fs \<Rightarrow> tree \<Rightarrow> string \<Rightarrow> access_kind \<Rightarrow> (reach_refusal, unit) result" where
  "check_reach sf fs s kind =
     (let c = canonical_of sf s;
          state_dirs = ethos_state_dirs (sf_host sf) fs (sf_extra_state_dirs sf);
          allowed = allowed_for sf kind
      in if hits_deny_floor sf c then Inl AlwaysDenied
         else if hits_write_deny sf c kind then Inl OperatorOwned
         else if hits_deny_when sf c kind then Inl SharedDenied
         else if hits_tainted_state_write sf c kind state_dirs then Inl TaintedWrite
         else (case match_allowed_prefix c allowed state_dirs of
                 None \<Rightarrow> Inl NotPermitted
               | Some root \<Rightarrow> hop_loop max_symlink_hops sf fs c kind allowed state_dirs root c))"

section \<open>The calls\<close>

datatype fs_call =
  ReadText string | ReadBytes string | WriteFile string | Exists string | ListDir string | Mtime string
| MakeDir string | ListEntries string

fun call_kind :: "fs_call \<Rightarrow> access_kind" where
  "call_kind (WriteFile s) = WriteAccess"
| "call_kind (MakeDir s) = WriteAccess"
| "call_kind c = ReadAccess"

fun call_path :: "fs_call \<Rightarrow> string" where
  "call_path (ReadText s) = s"
| "call_path (ReadBytes s) = s"
| "call_path (WriteFile s) = s"
| "call_path (Exists s) = s"
| "call_path (ListDir s) = s"
| "call_path (Mtime s) = s"
| "call_path (MakeDir s) = s"
| "call_path (ListEntries s) = s"

text \<open>Where the storage is asked, or the refusal; the storage itself is another part.\<close>

definition scoped_call :: "scoped_fs \<Rightarrow> tree \<Rightarrow> fs_call \<Rightarrow> (reach_refusal, string) result" where
  "scoped_call sf fs call =
     ebind (check_reach sf fs (call_path call) (call_kind call)) (\<lambda>_. Inr (call_path call))"

end
