(* ===== verification/FsReach.thy ===== *)
theory FsReach
  imports ScopedFs
begin

text \<open>
  The derivation of a personality's reach (packages/core/src/fs-reach.ts): substitution in declared paths, the default
  lists, the working directory and the write denies, as the texts the boundaries are given. The home directory of
  ethos is an absolute path; a substituted value holds no replacement pattern.
\<close>

section \<open>Deny keys of one platform\<close>

record platform =
  pf_insensitive :: bool
  pf_firmlink :: bool

text \<open>Leading aliases go, however many there are.\<close>

function strip_volume_aliases :: "path \<Rightarrow> path" where
  "strip_volume_aliases p =
     (if prefix firmlink_root (map to_lower p) then strip_volume_aliases (drop 3 p)
      else if p \<noteq> [] \<and> to_lower (hd p) = ''.nofollow'' then strip_volume_aliases (tl p)
      else if 2 \<le> length p \<and> to_lower (hd p) = ''.resolve'' \<and> p ! 1 \<noteq> [] \<and> list_all digit (p ! 1)
      then strip_volume_aliases (drop 2 p)
      else p)"
  by pat_completeness auto
termination
proof (relation "measure length")
  show "(drop 3 p, p) \<in> measure length" if "prefix firmlink_root (map to_lower p)" for p
  proof -
    have "length firmlink_root \<le> length p" using prefix_length_le [OF that] by simp
    then show ?thesis by (simp add: firmlink_root_def)
  qed
qed auto

declare strip_volume_aliases.simps [simp del]

definition fold_deny_key :: "platform \<Rightarrow> path \<Rightarrow> path" where
  "fold_deny_key pf p =
     (let f = (if pf_insensitive pf then map to_lower p else p)
      in if pf_firmlink pf then strip_volume_aliases f else f)"

definition within_key :: "platform \<Rightarrow> path \<Rightarrow> path \<Rightarrow> bool" where
  "within_key pf root p = prefix (fold_deny_key pf root) (fold_deny_key pf p)"

section \<open>Substitution\<close>

record reach_vars =
  rv_ethos_home :: string
  rv_self :: string
  rv_cwd :: string

function replace_all :: "string \<Rightarrow> string \<Rightarrow> string \<Rightarrow> string" where
  "replace_all token v [] = []"
| "replace_all token v (c # cs) =
     (if token \<noteq> [] \<and> starts_with (c # cs) token then v @ replace_all token v (drop (length token) (c # cs))
      else c # replace_all token v cs)"
  by pat_completeness auto
termination by (relation "measure (\<lambda>(token, v, s). length s)") (auto simp: neq_Nil_conv)

definition token_ethos_home :: string where "token_ethos_home = ''${ETHOS_HOME}''"
definition token_self :: string where "token_self = ''${self}''"
definition token_cwd :: string where "token_cwd = ''${CWD}''"

datatype reach_error = EmptySubstitution string string

fun substitute_all :: "string \<Rightarrow> (string \<times> string) list \<Rightarrow> string \<Rightarrow> (reach_error, string) result" where
  "substitute_all template [] out = Inr out"
| "substitute_all template ((token, v) # checks) out =
     (if contains template token
      then (if v = [] then Inl (EmptySubstitution token template)
            else substitute_all template checks (replace_all token v out))
      else substitute_all template checks out)"

definition substitute :: "string \<Rightarrow> reach_vars \<Rightarrow> (reach_error, string) result" where
  "substitute template vars =
     substitute_all template
       [(token_ethos_home, rv_ethos_home vars), (token_self, rv_self vars), (token_cwd, rv_cwd vars)] template"

fun substitute_each :: "string list \<Rightarrow> reach_vars \<Rightarrow> (reach_error, string list) result" where
  "substitute_each [] vars = Inr []"
| "substitute_each (t # ts) vars =
     ebind (substitute t vars) (\<lambda>x. ebind (substitute_each ts vars) (\<lambda>xs. Inr (x # xs)))"

section \<open>Reach\<close>

text \<open>\<open>workdir\<close> is one path or several; an empty list of entries is none declared.\<close>

record declared_reach =
  dr_read :: "string list option"
  dr_write :: "string list option"
  dr_workdir :: "string list"

definition declared_workdirs :: "declared_reach option \<Rightarrow> string list" where
  "declared_workdirs reach = (case reach of None \<Rightarrow> [] | Some r \<Rightarrow> filter (\<lambda>w. w \<noteq> []) (dr_workdir r))"

definition trim_slash :: "string \<Rightarrow> string" where
  "trim_slash s = (if 1 < length s then rev (dropWhile (\<lambda>c. c = CHR ''/'') (rev s)) else s)"

definition with_workdir :: "string list \<Rightarrow> string \<Rightarrow> string list" where
  "with_workdir paths workdir =
     (if list_ex (\<lambda>p. trim_slash p = trim_slash workdir) paths then paths else (workdir @ ''/'') # paths)"

definition join_text :: "string \<Rightarrow> string list \<Rightarrow> string" where
  "join_text a bs = path_text (climb [] (segments (join_with ''/'' (a # bs))))"

definition personality_write_deny :: "string \<Rightarrow> string \<Rightarrow> string list" where
  "personality_write_deny home self =
     (let own = join_text home [''personalities'', self]
      in map (\<lambda>e. if ends_with e ''/'' then join_text own [butlast e] @ ''/'' else join_text own [e])
           personality_definition_entries)"

record derived_reach =
  de_read :: "string list"
  de_write :: "string list"
  de_write_deny :: "string list"
  de_workdir :: string

definition reach_list :: "string list option \<Rightarrow> string list \<Rightarrow> reach_vars \<Rightarrow> (reach_error, string list) result" where
  "reach_list declared defaults vars =
     (case declared of
        None \<Rightarrow> Inr defaults
      | Some [] \<Rightarrow> Inr defaults
      | Some ts \<Rightarrow> substitute_each ts vars)"

definition derive_fs_reach_paths ::
  "platform \<Rightarrow> path \<Rightarrow> declared_reach option \<Rightarrow> reach_vars \<Rightarrow> (reach_error, derived_reach) result" where
  "derive_fs_reach_paths pf process_cwd reach vars =
     ebind (case declared_workdirs reach of
              [] \<Rightarrow> Inr (rv_cwd vars)
            | w # _ \<Rightarrow> ebind (substitute w vars) (\<lambda>s. Inr (path_text (resolve_path process_cwd s)))) (\<lambda>workdir.
       let declared = declared_workdirs reach \<noteq> [];
           eff = vars\<lparr>rv_cwd := workdir\<rparr>;
           own = join_text (rv_ethos_home eff) [''personalities'', rv_self eff] @ ''/'';
           grant = (if \<not> declared \<and> within_key pf (resolve_path process_cwd (rv_ethos_home eff))
                         (resolve_path process_cwd (rv_cwd eff)) then [] else [rv_cwd eff])
       in ebind (reach_list (Option.bind reach dr_read) ([own, join_text (rv_ethos_home eff) [''skills''] @ ''/''] @ grant) eff) (\<lambda>rd.
          ebind (reach_list (Option.bind reach dr_write) ([own] @ grant) eff) (\<lambda>wr.
            Inr \<lparr>de_read = (if declared then with_workdir rd workdir else rd),
                 de_write = (if declared then with_workdir wr workdir else wr),
                 de_write_deny = personality_write_deny (rv_ethos_home eff) (rv_self eff),
                 de_workdir = workdir\<rparr>)))"

definition personality_asset_dir ::
  "platform \<Rightarrow> path \<Rightarrow> declared_reach option \<Rightarrow> reach_vars \<Rightarrow> (reach_error, string) result" where
  "personality_asset_dir pf process_cwd reach vars =
     ebind (derive_fs_reach_paths pf process_cwd reach vars) (\<lambda>d.
       Inr (if declared_workdirs reach \<noteq> [] then de_workdir d
            else join_text (rv_ethos_home vars) [''personalities'', rv_self vars, ''files'']))"

text \<open>A root's label is the last segment of its path.\<close>

fun documents_roots :: "path \<Rightarrow> string list \<Rightarrow> reach_vars \<Rightarrow> (reach_error, (string \<times> string) list) result" where
  "documents_roots process_cwd [] vars = Inr []"
| "documents_roots process_cwd (t # ts) vars =
     ebind (substitute t vars) (\<lambda>s.
       let p = resolve_path process_cwd s
       in ebind (documents_roots process_cwd ts vars) (\<lambda>rs. Inr ((if p = [] then [] else last p, path_text p) # rs)))"

definition derive_documents_roots ::
  "path \<Rightarrow> declared_reach option \<Rightarrow> reach_vars \<Rightarrow> (reach_error, (string \<times> string) list) result" where
  "derive_documents_roots process_cwd reach vars = documents_roots process_cwd (declared_workdirs reach) vars"

end
