(* ===== verification/ScopedStorage.thy ===== *)
theory ScopedStorage
  imports ScopedFs
begin

text \<open>
  ScopedStorage of packages/storage-fs/src/scoped-storage.ts, the second boundary a personality's files pass: the same
  layers over prefixes that are matched as text, and the subtree check of \<open>remove\<close> and \<open>rename\<close>.
\<close>

section \<open>Prefixes as text\<close>

text \<open>\<open>foldForDeny\<close> on a text.\<close>

definition fold_text :: "string \<Rightarrow> string" where
  "fold_text s =
     (let f = to_lower s in
      if f = ''/.nofollow'' then ''/''
      else (let g = (if starts_with f ''/.nofollow/'' then drop 10 f else f) in
            if g = ''/system/volumes/data'' then ''/''
            else if starts_with g ''/system/volumes/data/'' then drop 20 g else g))"

definition root_form :: "string \<Rightarrow> string" where
  "root_form w = (if w = [] then ''/'' else w)"

fun match_prefix :: "string \<Rightarrow> string list \<Rightarrow> string option" where
  "match_prefix s [] = None"
| "match_prefix s (p # ps) =
     (let w = (if ends_with p ''/'' then butlast p else p) in
      if s = p then Some (if ends_with p ''/'' then root_form w else p)
      else if s = w then Some (root_form w)
      else if starts_with s (w @ ''/'') then Some (root_form w)
      else match_prefix s ps)"

definition matches_deny_prefix :: "path \<Rightarrow> string list \<Rightarrow> bool" where
  "matches_deny_prefix c ps =
     (is_unmappable_path_alias c
      \<or> (ps \<noteq> [] \<and> match_prefix (fold_text (path_text c)) (map fold_text ps) \<noteq> None))"

fun match_allowed_text :: "path \<Rightarrow> string list \<Rightarrow> path list \<Rightarrow> path option" where
  "match_allowed_text c [] dirs = None"
| "match_allowed_text c (p # ps) dirs =
     (case match_prefix (path_text c) [p] of
        None \<Rightarrow> match_allowed_text c ps dirs
      | Some root \<Rightarrow>
          if shadows_state_dir (fold_for_deny (segments root)) (fold_for_deny c) (map fold_for_deny dirs)
          then match_allowed_text c ps dirs else Some (segments root))"

section \<open>The scope and its checks\<close>

record scoped_storage =
  ss_host :: host
  ss_read :: "string list"
  ss_write :: "string list"
  ss_deny :: "string list"
  ss_write_deny :: "string list"
  ss_deny_when :: "path \<Rightarrow> boundary_op \<Rightarrow> access_kind \<Rightarrow> bool"
  ss_state_dirs :: "string list"
  ss_floor_dirs :: "path list"

text \<open>The constructor reads the state directories once for the definition floor.\<close>

definition new_scoped_storage ::
  "host \<Rightarrow> tree \<Rightarrow> string list \<Rightarrow> string list \<Rightarrow> string list \<Rightarrow> string list
    \<Rightarrow> (path \<Rightarrow> boundary_op \<Rightarrow> access_kind \<Rightarrow> bool) \<Rightarrow> string list \<Rightarrow> scoped_storage" where
  "new_scoped_storage host fs rd wr deny write_deny deny_when dirs =
     \<lparr>ss_host = host, ss_read = rd, ss_write = wr, ss_deny = deny, ss_write_deny = write_deny,
      ss_deny_when = deny_when, ss_state_dirs = dirs, ss_floor_dirs = ethos_state_dirs host fs dirs\<rparr>"

definition storage_path :: "scoped_storage \<Rightarrow> string \<Rightarrow> path" where
  "storage_path st s = resolve_path (ho_cwd (ss_host st)) s"

definition prefixes_for :: "scoped_storage \<Rightarrow> access_kind \<Rightarrow> string list" where
  "prefixes_for st kind = (case kind of ReadAccess \<Rightarrow> ss_read st | WriteAccess \<Rightarrow> ss_write st)"

definition storage_deny_floor :: "scoped_storage \<Rightarrow> path \<Rightarrow> bool" where
  "storage_deny_floor st c = matches_deny_prefix c (ss_deny st)"

definition storage_deny_when :: "scoped_storage \<Rightarrow> path \<Rightarrow> access_kind \<Rightarrow> bool" where
  "storage_deny_when st c kind = ss_deny_when st c Access kind"

definition storage_write_deny :: "scoped_storage \<Rightarrow> path \<Rightarrow> access_kind \<Rightarrow> bool" where
  "storage_write_deny st c kind =
     (kind = WriteAccess
      \<and> (matches_deny_prefix c (ss_write_deny st) \<or> personality_definition_write_floor (ss_floor_dirs st) c Access))"

definition storage_real_target ::
  "scoped_storage \<Rightarrow> tree \<Rightarrow> path \<Rightarrow> access_kind \<Rightarrow> string list \<Rightarrow> path list \<Rightarrow> (reach_refusal, unit) result" where
  "storage_real_target st fs c kind allowed dirs =
     (case real_path_of_longest_existing_ancestor fs c of
        None \<Rightarrow> Inl Unresolvable
      | Some real \<Rightarrow>
          if real = c then Inr ()
          else if storage_deny_floor st real then Inl AlwaysDenied
          else if storage_write_deny st real kind then Inl OperatorOwned
          else if storage_deny_when st real kind then Inl SharedDenied
          else if reaches_state_dir_through_link fs real (map (storage_path st) allowed) dirs then Inl IntoStateDir
          else Inr ())"

fun storage_hops ::
  "nat \<Rightarrow> scoped_storage \<Rightarrow> tree \<Rightarrow> path \<Rightarrow> access_kind \<Rightarrow> string list \<Rightarrow> path list \<Rightarrow> path \<Rightarrow> path
    \<Rightarrow> (reach_refusal, unit) result" where
  "storage_hops 0 st fs c kind allowed dirs root current = Inl TooManyLinks"
| "storage_hops (Suc n) st fs c kind allowed dirs root current =
     (case follow_first_symlink fs root current of
        Inl e \<Rightarrow> Inl (FsThrew e)
      | Inr None \<Rightarrow> storage_real_target st fs c kind allowed dirs
      | Inr (Some next) \<Rightarrow>
          (case match_allowed_text next allowed dirs of
             None \<Rightarrow> Inl ThroughLink
           | Some next_root \<Rightarrow>
               if storage_deny_floor st next then Inl ThroughLink
               else if storage_write_deny st next kind then Inl OperatorOwned
               else if storage_deny_when st next kind then Inl SharedDenied
               else storage_hops n st fs c kind allowed dirs next_root next))"

definition storage_check :: "scoped_storage \<Rightarrow> tree \<Rightarrow> string \<Rightarrow> access_kind \<Rightarrow> (reach_refusal, unit) result" where
  "storage_check st fs s kind =
     (let c = storage_path st s;
          dirs = ethos_state_dirs (ss_host st) fs (ss_state_dirs st);
          allowed = prefixes_for st kind
      in if storage_deny_floor st c then Inl AlwaysDenied
         else if storage_write_deny st c kind then Inl OperatorOwned
         else if storage_deny_when st c kind then Inl SharedDenied
         else (case match_allowed_text c allowed dirs of
                 None \<Rightarrow> Inl NotPermitted
               | Some root \<Rightarrow> storage_hops max_symlink_hops st fs c kind allowed dirs root c))"

section \<open>Subtrees\<close>

text \<open>A key that starts with the folded form and a slash.\<close>

definition entry_below :: "path \<Rightarrow> path \<Rightarrow> bool" where
  "entry_below form entry = (fold_for_deny form = [] \<or> strict_prefix (fold_for_deny form) (fold_for_deny entry))"

definition subtree_forms :: "tree \<Rightarrow> path \<Rightarrow> path list" where
  "subtree_forms fs c =
     (case real_path_of_longest_existing_ancestor fs c of
        None \<Rightarrow> [c]
      | Some real \<Rightarrow> if real = c then [c] else [c, real])"

fun check_forms :: "scoped_storage \<Rightarrow> path list \<Rightarrow> (reach_refusal, unit) result" where
  "check_forms st [] = Inr ()"
| "check_forms st (form # forms) =
     (if list_ex (\<lambda>e. entry_below form (storage_path st e)) (ss_write_deny st)
          \<or> personality_definition_write_floor (ss_floor_dirs st) form Subtree
      then Inl OperatorOwned
      else if ss_deny_when st form Subtree WriteAccess then Inl SharedDenied
      else check_forms st forms)"

definition check_subtree :: "scoped_storage \<Rightarrow> tree \<Rightarrow> string \<Rightarrow> (reach_refusal, unit) result" where
  "check_subtree st fs s = check_forms st (subtree_forms fs (storage_path st s))"

section \<open>The calls\<close>

datatype storage_call =
  SRead string | SReadBytes string | SExists string | SMtime string | SList string | SListEntries string
| SWrite string | SAppend string | SWriteAtomic string | SMkdir string | SChmod string
| SRemove string | SRename string string

fun storage_do :: "scoped_storage \<Rightarrow> tree \<Rightarrow> storage_call \<Rightarrow> (reach_refusal, unit) result" where
  "storage_do st fs (SRead s) = storage_check st fs s ReadAccess"
| "storage_do st fs (SReadBytes s) = storage_check st fs s ReadAccess"
| "storage_do st fs (SExists s) = storage_check st fs s ReadAccess"
| "storage_do st fs (SMtime s) = storage_check st fs s ReadAccess"
| "storage_do st fs (SList s) = storage_check st fs s ReadAccess"
| "storage_do st fs (SListEntries s) = storage_check st fs s ReadAccess"
| "storage_do st fs (SWrite s) = storage_check st fs s WriteAccess"
| "storage_do st fs (SAppend s) = storage_check st fs s WriteAccess"
| "storage_do st fs (SWriteAtomic s) = storage_check st fs s WriteAccess"
| "storage_do st fs (SMkdir s) = storage_check st fs s WriteAccess"
| "storage_do st fs (SChmod s) = storage_check st fs s WriteAccess"
| "storage_do st fs (SRemove s) = ebind (storage_check st fs s WriteAccess) (\<lambda>_. check_subtree st fs s)"
| "storage_do st fs (SRename a b) =
     ebind (storage_check st fs a WriteAccess) (\<lambda>_.
     ebind (storage_check st fs b WriteAccess) (\<lambda>_.
     ebind (check_subtree st fs a) (\<lambda>_. check_subtree st fs b)))"

end
