(* ===== verification/FsKernel.thy ===== *)
theory FsKernel
  imports FsPaths
begin

text \<open>
  The kernel's walk as a relation without a limit on links, which the executable walk decides; how a walk splits,
  how a link is rewritten, and what the realpath of the longest existing ancestor is: the place a path leads to.
\<close>

inductive lands :: "tree \<Rightarrow> path \<Rightarrow> string list \<Rightarrow> path \<times> bool \<Rightarrow> bool" for fs :: tree where
  here: "lands fs dir [] (dir, True)"
| up: "fs dir = Some Dir \<Longrightarrow> lands fs (butlast dir) ss r \<Longrightarrow> lands fs dir (''..'' # ss) r"
| missing: "fs dir = Some Dir \<Longrightarrow> s \<noteq> ''..'' \<Longrightarrow> fs (dir @ [s]) = None \<Longrightarrow> ''..'' \<notin> set ss
    \<Longrightarrow> lands fs dir (s # ss) (dir @ s # ss, False)"
| follow: "fs dir = Some Dir \<Longrightarrow> s \<noteq> ''..'' \<Longrightarrow> fs (dir @ [s]) = Some (Link t)
    \<Longrightarrow> lands fs (link_base dir t) (segments t @ ss) r \<Longrightarrow> lands fs dir (s # ss) r"
| down: "fs dir = Some Dir \<Longrightarrow> s \<noteq> ''..'' \<Longrightarrow> fs (dir @ [s]) = Some n \<Longrightarrow> n \<in> {Dir, Sealed, File}
    \<Longrightarrow> lands fs (dir @ [s]) ss r \<Longrightarrow> lands fs dir (s # ss) r"

inductive_simps lands_nil: "lands fs dir [] r"
inductive_simps lands_cons: "lands fs dir (s # ss) r"

lemma lands_unique: "lands fs dir ss r \<Longrightarrow> lands fs dir ss r' \<Longrightarrow> r = r'"
proof (induction arbitrary: r' rule: lands.induct)
  case (here dir)
  then show ?case by (simp add: lands_nil)
next
  case (up dir ss r)
  from up.prems have "lands fs (butlast dir) ss r'" by (auto simp: lands_cons)
  then show ?case by (rule up.IH)
next
  case (missing dir s ss)
  from missing.prems missing.hyps show ?case by (auto simp: lands_cons)
next
  case (follow dir s t ss r)
  from follow.prems follow.hyps have "lands fs (link_base dir t) (segments t @ ss) r'" by (auto simp: lands_cons)
  then show ?case by (rule follow.IH)
next
  case (down dir s n ss r)
  from down.prems down.hyps have "lands fs (dir @ [s]) ss r'" by (auto simp: lands_cons)
  then show ?case by (rule down.IH)
qed

lemma namei_lands: "namei h fs dir ss = Inr r \<Longrightarrow> lands fs dir ss r"
proof (induction h fs dir ss rule: namei.induct)
  case (2 h fs dir s ss)
  from "2.prems" show ?case
    by (auto split: option.splits node.splits nat.splits if_splits intro: lands.intros dest: "2.IH")
qed (auto intro: lands.here)

lemma namei_fails: "namei h fs dir ss = Inl e \<Longrightarrow> e \<noteq> ELOOP \<Longrightarrow> \<not> lands fs dir ss r"
proof (induction h fs dir ss rule: namei.induct)
  case (2 h fs dir s ss)
  from "2.prems" show ?case
    by (auto split: option.splits node.splits nat.splits if_splits simp: lands_cons dest: "2.IH")
qed simp

lemma lands_split: "lands fs dir xs (d, True) \<Longrightarrow> lands fs dir (xs @ ys) r \<longleftrightarrow> lands fs d ys r"
proof (induction xs "(d, True)" arbitrary: d rule: lands.induct)
  case (up dir ss)
  then show ?case by (auto simp: lands_cons)
next
  case (follow dir s t ss)
  then show ?case by (auto simp: lands_cons)
next
  case (down dir s n ss)
  then show ?case by (auto simp: lands_cons)
qed simp_all

lemma lands_beyond_true: "lands fs dir xs r \<Longrightarrow> snd r = False \<Longrightarrow> ''..'' \<notin> set ys \<Longrightarrow> lands fs dir (xs @ ys) (fst r @ ys, False)"
  by (induction rule: lands.induct) (auto simp: lands_cons)

lemma lands_beyond: "lands fs dir xs (d, False) \<Longrightarrow> ''..'' \<notin> set ys \<Longrightarrow> lands fs dir (xs @ ys) (d @ ys, False)"
  using lands_beyond_true [of fs dir xs "(d, False)" ys] by simp

lemma lands_front: "lands fs dir zs r \<Longrightarrow> zs = xs @ ys \<Longrightarrow> \<exists>r'. lands fs dir xs r'"
proof (induction arbitrary: xs rule: lands.induct)
  case (here dir)
  then show ?case by (auto intro: lands.here)
next
  case (up dir ss r)
  then show ?case by (cases xs) (auto intro: lands.here lands.up)
next
  case (missing dir s ss)
  then show ?case by (cases xs) (auto intro: lands.here lands.missing)
next
  case (follow dir s t ss r)
  show ?case
  proof (cases xs)
    case (Cons x xs')
    then have "segments t @ ss = (segments t @ xs') @ ys" using follow.prems by simp
    from follow.IH [OF this] show ?thesis using follow.hyps follow.prems Cons by (auto intro: lands.follow)
  qed (auto intro: lands.here)
next
  case (down dir s n ss r)
  then show ?case by (cases xs) (auto intro: lands.here lands.down)
qed

section \<open>Links whose text climbs nowhere\<close>

definition plain_links :: "tree \<Rightarrow> bool" where
  "plain_links fs \<longleftrightarrow> (\<forall>p t. fs p = Some (Link t) \<longrightarrow> ''..'' \<notin> set (segments t))"

lemma climb_plain: "''..'' \<notin> set ss \<Longrightarrow> climb base ss = base @ ss"
  by (induction ss arbitrary: base) auto

lemma resolve_plain: "''..'' \<notin> set (segments t) \<Longrightarrow> resolve_path d t = link_base d t @ segments t"
  by (simp add: resolve_path_def climb_plain)

lemma lands_rewrite:
  assumes "lands fs [] d (rd, True)" "fs rd = Some Dir" "fs (rd @ [s]) = Some (Link t)" "s \<noteq> ''..''"
    "''..'' \<notin> set (segments t)"
  shows "lands fs [] (d @ s # rest) r \<longleftrightarrow> lands fs [] (resolve_path d t @ rest) r"
proof -
  have "lands fs [] (d @ s # rest) r \<longleftrightarrow> lands fs rd (s # rest) r" by (rule lands_split [OF assms(1)])
  also have "\<dots> \<longleftrightarrow> lands fs (link_base rd t) (segments t @ rest) r"
    using assms(2-4) by (auto simp: lands_cons)
  also have "\<dots> \<longleftrightarrow> lands fs [] (resolve_path d t @ rest) r"
    using lands_split [OF assms(1)] by (simp add: resolve_plain [OF assms(5)] link_base_def)
  finally show ?thesis .
qed

section \<open>What the calls of node:fs tell\<close>

lemma realpath_lands: "realpath fs p = Inr r \<Longrightarrow> lands fs [] p (r, True)"
  by (auto simp: realpath_def ebind_eq_Inr split: if_splits dest: namei_lands)

lemma realpath_fails: "realpath fs p = Inl e \<Longrightarrow> e \<noteq> ELOOP \<Longrightarrow> \<not> lands fs [] p (r, True)"
  using namei_fails [of max_links fs "[]" p] namei_lands [of max_links fs "[]" p] lands_unique
  by (fastforce simp: realpath_def ebind_def split: sum.splits if_splits)

lemma lstat_link:
  assumes "lstat fs p = Inr (Some (Link t))" "fs [] \<noteq> Some (Link t)"
  obtains d where "p \<noteq> []" "lands fs [] (butlast p) (d, True)" "fs d = Some Dir" "fs (d @ [last p]) = Some (Link t)"
  using assms
  by (auto simp: lstat_def split: if_splits sum.splits errno.splits prod.splits bool.splits option.splits node.splits
      dest: namei_lands)

text \<open>Something other than a link under a directory that exists, or nothing at all.\<close>

lemma lstat_other:
  assumes "lstat fs p = Inr n" "\<forall>t. n \<noteq> Some (Link t)" "p \<noteq> []" "lands fs [] (butlast p) (d, True)"
  shows "fs d = Some Dir \<and> fs (d @ [last p]) = n \<or> fs d = None"
proof (cases "namei max_links fs [] (butlast p)")
  case (Inl e)
  then show ?thesis
    using assms namei_fails [OF Inl] by (cases e) (auto simp: lstat_def)
next
  case (Inr x)
  then have "x = (d, True)" using namei_lands [OF Inr] assms(4) lands_unique by blast
  then show ?thesis using assms(1,3) Inr by (auto simp: lstat_def split: option.splits node.splits)
qed

section \<open>The longest existing ancestor\<close>

lemma ancestor_step:
  assumes "realpath fs c = Inl e" "e \<noteq> ELOOP" "lstat fs c = Inr n \<or> lstat fs c = Inl ENOTDIR"
    "\<forall>t. lstat fs c \<noteq> Inr (Some (Link t))" "c \<noteq> []"
    "lands fs [] (butlast c) (real, True)" "lands fs [] (butlast c @ last c # tail) r" "''..'' \<notin> set (last c # tail)"
  shows "fst r = real @ last c # tail"
proof -
  from assms(7) have l: "lands fs real (last c # tail) r" using lands_split [OF assms(6)] by blast
  then have d: "fs real = Some Dir" using assms(8) by (auto simp: lands_cons)
  have c: "c = butlast c @ [last c]" using assms(5) by simp
  have gone: "fs (real @ [last c]) = None"
  proof (rule ccontr)
    assume "fs (real @ [last c]) \<noteq> None"
    then obtain n where n: "fs (real @ [last c]) = Some n" by auto
    have "n \<noteq> Link t" for t
    proof
      assume "n = Link t"
      have "lstat fs c \<noteq> Inl ENOTDIR"
      proof
        assume "lstat fs c = Inl ENOTDIR"
        then show False using assms(5,6) d namei_fails [of max_links fs "[]" "butlast c" ENOTDIR]
            namei_lands [of max_links fs "[]" "butlast c"] lands_unique
          by (fastforce simp: lstat_def split: sum.splits errno.splits prod.splits bool.splits option.splits node.splits)
      qed
      then show False using lstat_other [of fs c "Some n"] lstat_other [of fs c _ real] assms(3-6) d n \<open>n = Link t\<close>
        by (metis option.distinct(1))
    qed
    then have "n \<in> {Dir, Sealed, File}" by (cases n) auto
    then have "lands fs real [last c] (real @ [last c], True)"
      using d n assms(8) by (auto simp: lands_cons lands_nil)
    then have "lands fs [] c (real @ [last c], True)" using lands_split [OF assms(6), of "[last c]"] c by simp
    then show False using realpath_fails [OF assms(1,2)] by blast
  qed
  then show ?thesis using l assms(8) by (auto simp: lands_cons)
qed

lemma dangling_rewrite:
  assumes "plain_links fs" "lstat fs c = Inr (Some (Link t))" "fs [] = Some Dir" "''..'' \<notin> set c"
  shows "lands fs [] (c @ tail) r \<longleftrightarrow> lands fs [] (resolve_path (butlast c) t @ tail) r"
    and "''..'' \<notin> set (resolve_path (butlast c) t)"
proof -
  obtain d where d: "c \<noteq> []" "lands fs [] (butlast c) (d, True)" "fs d = Some Dir" "fs (d @ [last c]) = Some (Link t)"
    using assms(2,3) by (auto elim: lstat_link)
  have t: "''..'' \<notin> set (segments t)" using assms(1) d(4) by (auto simp: plain_links_def)
  have s: "last c \<noteq> ''..''" using assms(4) d(1) last_in_set by metis
  have "butlast c @ last c # tail = c @ tail" using d(1) by simp
  with lands_rewrite [OF d(2-4) s t, of tail r]
  show "lands fs [] (c @ tail) r \<longleftrightarrow> lands fs [] (resolve_path (butlast c) t @ tail) r" by simp
  show "''..'' \<notin> set (resolve_path (butlast c) t)"
    using t assms(4) by (auto simp: resolve_plain [OF t] link_base_def dest: in_set_butlastD)
qed

text \<open>Where a path leads, and its longest existing ancestor with the rest, are the same place.\<close>

lemma ancestor_loop_lands:
  assumes "plain_links fs" "fs [] = Some Dir" "''..'' \<notin> set (c @ tail)" "lands fs [] (c @ tail) (r, there)"
    "\<And>real. lands fs [] c (real, True) \<Longrightarrow> r = real @ tail" "ancestor_loop n fs c tail = Some r'"
  shows "r' = r"
  using assms(3-6)
proof (induction n arbitrary: c tail)
  case (Suc n)
  show ?case
  proof (cases "realpath fs c")
    case (Inr real)
    then show ?thesis using Suc.prems realpath_lands by fastforce
  next
    case (Inl e)
    from Inl Suc.prems(4) have e: "e \<noteq> ELOOP" "e = ENOENT \<or> e = ENOTDIR" by (auto split: if_splits)
    show ?thesis
    proof (cases "\<exists>t. lstat fs c = Inr (Some (Link t))")
      case True
      then obtain t where t: "lstat fs c = Inr (Some (Link t))" by blast
      have c: "''..'' \<notin> set c" using Suc.prems(1) by simp
      note rw = dangling_rewrite [OF assms(1) t assms(2) c]
      show ?thesis
      proof (rule Suc.IH)
        show "''..'' \<notin> set (resolve_path (butlast c) t @ tail)" using rw(2) Suc.prems(1) by simp
        show "lands fs [] (resolve_path (butlast c) t @ tail) (r, there)" using rw(1) Suc.prems(2) by blast
        show "r = real @ tail" if "lands fs [] (resolve_path (butlast c) t) (real, True)" for real
          using that rw(1) [of "[]" "(real, True)"] realpath_fails [OF Inl e(1)] by simp
        show "ancestor_loop n fs (resolve_path (butlast c) t) tail = Some r'"
          using Suc.prems(4) Inl e(2) t by auto
      qed
    next
      case False
      with Suc.prems(4) Inl e have go: "c \<noteq> []" "ancestor_loop n fs (butlast c) (last c # tail) = Some r'"
        and st: "lstat fs c = Inl ENOTDIR \<or> (\<exists>n. lstat fs c = Inr n)"
        by (auto split: sum.splits errno.splits option.splits node.splits if_splits)
      have s: "butlast c @ last c # tail = c @ tail" using go(1) by simp
      show ?thesis
      proof (rule Suc.IH)
        show "''..'' \<notin> set (butlast c @ last c # tail)" unfolding s by (rule Suc.prems(1))
        show "lands fs [] (butlast c @ last c # tail) (r, there)" unfolding s by (rule Suc.prems(2))
        show "r = real @ last c # tail" if "lands fs [] (butlast c) (real, True)" for real
        proof -
          have "''..'' \<notin> set (last c # tail)" using Suc.prems(1) by (simp add: s [symmetric])
          then show ?thesis
            using ancestor_step [OF Inl e(1) _ _ go(1) that, of _ tail "(r, there)"] st False Suc.prems(2)
            by (auto simp: s)
        qed
        show "ancestor_loop n fs (butlast c) (last c # tail) = Some r'" by (rule go(2))
      qed
    qed
  qed
qed simp

lemma ancestor_lands:
  assumes "plain_links fs" "fs [] = Some Dir" "''..'' \<notin> set c" "lands fs [] c (r, there)"
    "real_path_of_longest_existing_ancestor fs c = Some r'"
  shows "r' = r"
proof (rule ancestor_loop_lands [OF assms(1,2)])
  show "''..'' \<notin> set (c @ [])" "lands fs [] (c @ []) (r, there)" using assms(3,4) by simp_all
  show "ancestor_loop max_resolve_steps fs c [] = Some r'"
    using assms(5) by (simp add: real_path_of_longest_existing_ancestor_def)
  show "r = real @ []" if "lands fs [] c (real, True)" for real using lands_unique [OF assms(4) that] by simp
qed

end
