(* ===== verification/ScopedFsProps.thy ===== *)
theory ScopedFsProps
  imports ScopedFs FsKernel
begin

text \<open>
  What the check guarantees: an access that passes lands, in the kernel's own walk, below the real place of an allowed
  prefix and at no denied place, as long as no link's text and no path given climbs with \<open>..\<close>; and how a climb escapes.
\<close>

section \<open>One link at a time\<close>

lemma climb_no_dots: "''..'' \<notin> set base \<Longrightarrow> ''..'' \<notin> set (climb base ss)"
  by (induction ss arbitrary: base) (auto dest: in_set_butlastD)

lemma resolve_no_dots: "''..'' \<notin> set base \<Longrightarrow> ''..'' \<notin> set (resolve_path base s)"
  by (simp add: resolve_path_def climb_no_dots link_base_def)

lemma follow_keeps:
  assumes "plain_links fs" "fs [] = Some Dir"
  shows "follow_from fs cursor rest = Inr (Some next) \<Longrightarrow> ''..'' \<notin> set (cursor @ rest)
    \<Longrightarrow> (lands fs [] (cursor @ rest) r \<longleftrightarrow> lands fs [] next r) \<and> ''..'' \<notin> set next"
proof (induction rest arbitrary: cursor)
  case (Cons s rest)
  show ?case
  proof (cases "\<exists>t. lstat fs (cursor @ [s]) = Inr (Some (Link t))")
    case True
    then obtain t where t: "lstat fs (cursor @ [s]) = Inr (Some (Link t))" by blast
    have n: "next = climb (resolve_path cursor t) rest" using Cons.prems(1) t by simp
    have d: "''..'' \<notin> set (cursor @ [s])" "''..'' \<notin> set rest" using Cons.prems(2) by simp_all
    note rw = dangling_rewrite(1) [OF assms(1) t assms(2) d(1), of rest r] dangling_rewrite(2) [OF assms(1) t assms(2) d(1)]
    then show ?thesis using d(2) by (simp add: n climb_plain)
  next
    case False
    then have "follow_from fs (cursor @ [s]) rest = Inr (Some next)"
      using Cons.prems(1) by (auto split: sum.splits option.splits node.splits)
    from Cons.IH [OF this] show ?thesis using Cons.prems(2) by simp
  qed
qed simp

lemma follow_stops:
  assumes "fs [] = Some Dir"
  shows "follow_from fs cursor rest = Inr None \<Longrightarrow> ''..'' \<notin> set (cursor @ rest) \<Longrightarrow> lands fs [] (cursor @ rest) (r, e)
    \<Longrightarrow> \<exists>rc ec. lands fs [] cursor (rc, ec) \<and> r = rc @ rest"
proof (induction rest arbitrary: cursor)
  case (Cons s rest)
  from lands_front [OF Cons.prems(3) refl] obtain rc ec where c: "lands fs [] cursor (rc, ec)" by auto
  show ?case
  proof (cases ec)
    case False
    then have "lands fs [] (cursor @ s # rest) (rc @ s # rest, False)" using c Cons.prems(2) by (intro lands_beyond) auto
    then show ?thesis using c Cons.prems(3) lands_unique by blast
  next
    case True
    with c have c: "lands fs [] cursor (rc, True)" by simp
    then have l: "lands fs rc (s # rest) (r, e)" using Cons.prems(3) lands_split by blast
    then have d: "fs rc = Some Dir" using Cons.prems(2) by (auto simp: lands_cons)
    show ?thesis
    proof (cases "fs (rc @ [s])")
      case None
      then show ?thesis using l c Cons.prems(2) by (auto simp: lands_cons)
    next
      case (Some n)
      have nl: "n \<noteq> Link t" for t
      proof
        assume t: "n = Link t"
        have "lstat fs (cursor @ [s]) = Inr m \<Longrightarrow> m = Some n" for m
          using lstat_other [of fs "cursor @ [s]" m rc] lstat_link [of fs "cursor @ [s]" _ thesis] c d Some t assms lands_unique
          by (cases m; cases "\<exists>t. m = Some (Link t)") (auto elim!: lstat_link dest: lands_unique)
        then show False using Cons.prems(1) t by (auto split: sum.splits option.splits node.splits)
      qed
      then have n: "n \<in> {Dir, Sealed, File}" by (cases n) auto
      have down: "lands fs [] (cursor @ [s]) (rc @ [s], True)"
        using lands_split [OF c, of "[s]"] d Some n Cons.prems(2) by (auto simp: lands_cons lands_nil)
      have "follow_from fs (cursor @ [s]) rest = Inr None \<or> rest = [] \<or> lstat fs (cursor @ [s]) = Inr None"
        using Cons.prems(1) by (auto split: sum.splits option.splits node.splits)
      moreover have "lstat fs (cursor @ [s]) \<noteq> Inr None"
        using lstat_other [of fs "cursor @ [s]" None rc] c d Some by auto
      ultimately have "rest = [] \<or> follow_from fs (cursor @ [s]) rest = Inr None" by blast
      then show ?thesis
      proof
        assume "rest = []"
        then show ?thesis using down c Cons.prems(3) lands_unique by fastforce
      next
        assume "follow_from fs (cursor @ [s]) rest = Inr None"
        from Cons.IH [OF this] obtain q eq where "lands fs [] (cursor @ [s]) (q, eq)" "r = q @ rest"
          using Cons.prems(2,3) by auto
        then show ?thesis using down c lands_unique by fastforce
      qed
    qed
  qed
qed (auto)

section \<open>All hops\<close>

lemma match_allowed_mem:
  "match_allowed_prefix c allowed dirs = Some p \<Longrightarrow> p \<in> set allowed \<and> prefix p c"
  by (auto simp: match_allowed_prefix_def dest: find_SomeD)

definition inside_allowed :: "tree \<Rightarrow> path list \<Rightarrow> path \<Rightarrow> bool" where
  "inside_allowed fs allowed r \<longleftrightarrow> (\<exists>p \<in> set allowed. \<exists>rp e. lands fs [] p (rp, e) \<and> prefix rp r)"

lemma hop_loop_inside:
  assumes "plain_links fs" "fs [] = Some Dir"
  shows "hop_loop n sf fs c kind allowed dirs root current = Inr () \<Longrightarrow> root \<in> set allowed \<Longrightarrow> prefix root current
    \<Longrightarrow> ''..'' \<notin> set current \<Longrightarrow> lands fs [] current (r, e)
    \<Longrightarrow> inside_allowed fs allowed r \<and> check_real_target sf fs c kind allowed dirs = Inr ()"
proof (induction n arbitrary: root current)
  case (Suc n)
  have cur: "current = root @ drop (length root) current" using Suc.prems(3) by (metis append_take_drop_id prefix_def append_eq_conv_conj)
  show ?case
  proof (cases "follow_first_symlink fs root current")
    case (Inl x)
    then show ?thesis using Suc.prems(1) by simp
  next
    case (Inr m)
    show ?thesis
    proof (cases m)
      case None
      with Inr follow_stops [where fs = fs, OF assms(2), of root "drop (length root) current" r e] Suc.prems(4,5) cur
      obtain rc ec where "lands fs [] root (rc, ec)" "r = rc @ drop (length root) current"
        by (auto simp: follow_first_symlink_def)
      moreover have "prefix rc (rc @ drop (length root) current)" by simp
      ultimately have "inside_allowed fs allowed r" unfolding inside_allowed_def using Suc.prems(2) by blast
      then show ?thesis using Suc.prems(1) Inr None by simp
    next
      case (Some hop)
      then have f: "follow_from fs root (drop (length root) current) = Inr (Some hop)"
        using Inr by (simp add: follow_first_symlink_def)
      have "''..'' \<notin> set (root @ drop (length root) current)" using Suc.prems(4) cur by simp
      from follow_keeps [OF assms f this, of "(r, e)"] have k: "lands fs [] hop (r, e)" "''..'' \<notin> set hop"
        using Suc.prems(5) cur by simp_all
      from Suc.prems(1) Inr Some obtain nr where nr: "match_allowed_prefix hop allowed dirs = Some nr"
        "hop_loop n sf fs c kind allowed dirs nr hop = Inr ()" by (auto split: option.splits if_splits)
      from Suc.IH [OF nr(2)] match_allowed_mem [OF nr(1)] k show ?thesis by blast
    qed
  qed
qed simp

lemma check_reach_passes:
  assumes "check_reach sf fs s kind = Inr ()"
  obtains root where
    "match_allowed_prefix (canonical_of sf s) (allowed_for sf kind)
      (ethos_state_dirs (sf_host sf) fs (sf_extra_state_dirs sf)) = Some root"
    "hop_loop max_symlink_hops sf fs (canonical_of sf s) kind (allowed_for sf kind)
      (ethos_state_dirs (sf_host sf) fs (sf_extra_state_dirs sf)) root (canonical_of sf s) = Inr ()"
    "\<not> hits_deny_floor sf (canonical_of sf s)" "\<not> hits_write_deny sf (canonical_of sf s) kind"
    "\<not> hits_deny_when sf (canonical_of sf s) kind"
    "\<not> hits_tainted_state_write sf (canonical_of sf s) kind (ethos_state_dirs (sf_host sf) fs (sf_extra_state_dirs sf))"
  using assms that by (auto simp: check_reach_def Let_def split: if_splits option.splits)

lemma real_target_passes:
  assumes "check_real_target sf fs c kind allowed dirs = Inr ()"
  obtains real where "real_path_of_longest_existing_ancestor fs c = Some real"
    "real = c \<or> \<not> hits_deny_floor sf real \<and> \<not> hits_write_deny sf real kind \<and> \<not> hits_deny_when sf real kind
      \<and> \<not> hits_tainted_state_write sf real kind dirs \<and> \<not> reaches_state_dir_through_link fs real allowed dirs"
  using assms that by (auto simp: check_real_target_def split: if_splits option.splits)

text \<open>Where the kernel starts and what it walks when it is given this text.\<close>

definition kernel_path :: "scoped_fs \<Rightarrow> string \<Rightarrow> path" where
  "kernel_path sf s = link_base (ho_cwd (sf_host sf)) s @ segments s"

definition denied_place :: "scoped_fs \<Rightarrow> tree \<Rightarrow> path \<Rightarrow> access_kind \<Rightarrow> bool" where
  "denied_place sf fs p kind =
     (hits_deny_floor sf p \<or> hits_write_deny sf p kind \<or> hits_deny_when sf p kind
      \<or> hits_tainted_state_write sf p kind (ethos_state_dirs (sf_host sf) fs (sf_extra_state_dirs sf)))"

lemma reach_denied_inside:
  assumes "plain_links fs" "fs [] = Some Dir" "''..'' \<notin> set (segments s)" "''..'' \<notin> set (ho_cwd (sf_host sf))"
    "scoped_call sf fs call = Inr s" "lands fs [] (kernel_path sf s) (r, there)"
  shows "inside_allowed fs (allowed_for sf (call_kind call)) r \<and> \<not> denied_place sf fs r (call_kind call)
    \<and> \<not> denied_place sf fs (canonical_of sf s) (call_kind call)"
proof -
  let ?k = "call_kind call" and ?c = "canonical_of sf s"
  have s: "check_reach sf fs s ?k = Inr ()" using assms(5) by (auto simp: scoped_call_def ebind_eq_Inr)
  have c: "?c = kernel_path sf s"
    using assms(3) by (simp add: canonical_of_def resolve_path_def climb_plain kernel_path_def)
  have nd: "''..'' \<notin> set ?c" using assms(3,4) by (auto simp: c kernel_path_def link_base_def)
  from check_reach_passes [OF s] obtain root where m: "match_allowed_prefix ?c (allowed_for sf ?k)
      (ethos_state_dirs (sf_host sf) fs (sf_extra_state_dirs sf)) = Some root"
    and h: "hop_loop max_symlink_hops sf fs ?c ?k (allowed_for sf ?k)
      (ethos_state_dirs (sf_host sf) fs (sf_extra_state_dirs sf)) root ?c = Inr ()"
    and d: "\<not> denied_place sf fs ?c ?k" by (auto simp: denied_place_def)
  from hop_loop_inside [OF assms(1,2) h _ _ nd, of r there] match_allowed_mem [OF m] assms(6)
  have i: "inside_allowed fs (allowed_for sf ?k) r"
    and t: "check_real_target sf fs ?c ?k (allowed_for sf ?k) (ethos_state_dirs (sf_host sf) fs (sf_extra_state_dirs sf)) = Inr ()"
    by (simp_all add: c)
  from real_target_passes [OF t] obtain real where re: "real_path_of_longest_existing_ancestor fs ?c = Some real"
    "real = ?c \<or> \<not> denied_place sf fs real ?k" by (auto simp: denied_place_def)
  have "real = r" using ancestor_lands [OF assms(1,2) nd _ re(1)] assms(6) by (simp add: c)
  then show ?thesis using i d re(2) by auto
qed

lemmas reach_denied = reach_denied_inside [THEN conjunct2, THEN conjunct1]

text \<open>
  C3: Symbolic containment. In a file system whose links do not climb, an access by a path without \<open>..\<close> that passes
  the check lands, by the kernel's walk, below the real place of one of the allowed prefixes, and neither the path as
  written nor the place it lands at hits the deny floor, the write denies, the shared-turn denies or, for a tainted
  run, the state directories; what does not exist yet lands where it would be created.
\<close>

theorem reach_lands_inside:
  assumes "plain_links fs" "fs [] = Some Dir" "''..'' \<notin> set (segments s)" "''..'' \<notin> set (ho_cwd (sf_host sf))"
    "scoped_call sf fs call = Inr s" "lands fs [] (kernel_path sf s) (r, there)"
  shows "inside_allowed fs (allowed_for sf (call_kind call)) r \<and> \<not> denied_place sf fs r (call_kind call)
    \<and> \<not> denied_place sf fs (canonical_of sf s) (call_kind call)"
  by (rule reach_denied_inside [OF assms])

section \<open>A sample\<close>

definition sample_tree :: tree where
  "sample_tree = map_of
     [([], Dir), ([''w''], Dir), ([''w'', ''keys''], Link ''/home/u/.ssh/keys''), ([''w'', ''via''], Link ''keys/../id''),
      ([''w'', ''notes''], Link ''/w/docs''), ([''w'', ''docs''], Dir), ([''w'', ''docs'', ''a''], File), ([''home''], Dir),
      ([''home'', ''u''], Dir), ([''home'', ''u'', ''.ssh''], Dir), ([''home'', ''u'', ''.ssh'', ''keys''], Dir),
      ([''home'', ''u'', ''.ssh'', ''id''], File)]"

definition sample_scope :: scoped_fs where
  "sample_scope =
     \<lparr>sf_host = \<lparr>ho_home = [''home'', ''u''], ho_cwd = [''w''], ho_state_dir = None\<rparr>, sf_read = [''/w''], sf_write = [''/w''],
      sf_deny = [''/home/u/.ssh''], sf_write_deny = [], sf_deny_when = (\<lambda>p k. False), sf_floor = (\<lambda>p. False),
      sf_extra_state_dirs = [], sf_tainted = False\<rparr>"

definition plain_tree :: tree where
  "plain_tree = map_of
     [([], Dir), ([''w''], Dir), ([''w'', ''notes''], Link ''/w/docs''), ([''w'', ''docs''], Dir), ([''w'', ''docs'', ''a''], File)]"

lemma plain_tree_links: "plain_links plain_tree"
proof -
  have "''..'' \<notin> set (segments ''/w/docs'')" by code_simp
  then show ?thesis by (auto simp: plain_links_def plain_tree_def split: if_splits)
qed

lemma sample_call: "scoped_call sample_scope plain_tree (ReadText ''notes/a'') = Inr ''notes/a''"
  by code_simp

lemma sample_lands: "namei max_links plain_tree [] (kernel_path sample_scope ''notes/a'') = Inr ([''w'', ''docs'', ''a''], True)"
  by code_simp

theorem reach_lands_inside_witness:
  "inside_allowed plain_tree (allowed_for sample_scope ReadAccess) [''w'', ''docs'', ''a'']"
proof -
  have "plain_tree [] = Some Dir" "''..'' \<notin> set (segments ''notes/a'')" "''..'' \<notin> set (ho_cwd (sf_host sample_scope))"
    by code_simp+
  from reach_lands_inside [OF plain_tree_links this sample_call namei_lands [OF sample_lands]] show ?thesis by simp
qed

text \<open>
  Why no climbing: a link's own text is collapsed as text by the check and walked by the kernel, and a path given with
  \<open>..\<close> is judged in its collapsed form while the storage is handed the text. Behind a directory link each reaches
  beyond the allowlist, the second even below a denied directory; the link by itself is refused.
\<close>

theorem climbing_escapes:
  "scoped_call sample_scope sample_tree (ReadText ''/w/keys'') = Inl ThroughLink
   \<and> scoped_call sample_scope sample_tree (ReadText ''/w/keys/../id'') = Inr ''/w/keys/../id''
   \<and> namei max_links sample_tree [] (kernel_path sample_scope ''/w/keys/../id'') = Inr ([''home'', ''u'', ''.ssh'', ''id''], True)
   \<and> scoped_call (sample_scope\<lparr>sf_deny := []\<rparr>) sample_tree (ReadText ''/w/via'') = Inr ''/w/via''
   \<and> namei max_links sample_tree [] (kernel_path sample_scope ''/w/via'') = Inr ([''home'', ''u'', ''.ssh'', ''id''], True)
   \<and> scoped_call (sample_scope\<lparr>sf_deny := []\<rparr>) sample_tree (ReadText ''/home/u/.ssh/id'') = Inl NotPermitted"
  by (intro conjI; code_simp)

end
