(* ===== verification/ScopedStorageProps.thy ===== *)
theory ScopedStorageProps
  imports ScopedStorage ScopedFsProps
begin

text \<open>
  The two boundaries decide alike: on prefixes written as canonical paths, with or without a final slash, the text
  matching of ScopedStorage is the matching of ScopedFsImpl. And what removing or renaming a directory cannot reach.
\<close>

section \<open>Paths as text\<close>

definition slashed :: "path \<Rightarrow> string" where
  "slashed p = concat (map (\<lambda>s. CHR ''/'' # s) p)"

lemma slashed_simps [simp]: "slashed [] = []" "slashed (s # p) = CHR ''/'' # s @ slashed p"
  by (simp_all add: slashed_def)

lemma path_text_slashed: "path_text p = (if p = [] then ''/'' else slashed p)"
  by (simp add: path_text_def slashed_def)

definition slash_free :: "path \<Rightarrow> bool" where
  "slash_free p = list_all (\<lambda>s. CHR ''/'' \<notin> set s) p"

definition segments_ok :: "path \<Rightarrow> bool" where
  "segments_ok p = list_all (\<lambda>s. s \<noteq> [] \<and> CHR ''/'' \<notin> set s) p"

lemma slash_free_simps [simp]: "slash_free []" "slash_free (s # p) \<longleftrightarrow> CHR ''/'' \<notin> set s \<and> slash_free p"
  "slash_free (p @ q) \<longleftrightarrow> slash_free p \<and> slash_free q"
  by (simp_all add: slash_free_def)

lemma segments_ok_simps [simp]: "segments_ok []"
  "segments_ok (s # p) \<longleftrightarrow> s \<noteq> [] \<and> CHR ''/'' \<notin> set s \<and> segments_ok p"
  by (simp_all add: segments_ok_def)

lemma segments_ok_free: "segments_ok p \<Longrightarrow> slash_free p"
  by (simp add: segments_ok_def slash_free_def list_all_iff)

lemma slashed_empty [simp]: "slashed p = [] \<longleftrightarrow> p = []"
  by (cases p) simp_all

lemma slashed_starts: "p \<noteq> [] \<Longrightarrow> \<exists>z. slashed p = CHR ''/'' # z"
  by (cases p) simp_all

text \<open>The first segment of a text ends where its first slash is.\<close>

lemma first_segment:
  assumes "CHR ''/'' \<notin> set s" "x = [] \<or> hd x = CHR ''/''"
  shows "takeWhile (\<lambda>c. c \<noteq> CHR ''/'') (s @ x) = s" "dropWhile (\<lambda>c. c \<noteq> CHR ''/'') (s @ x) = x"
  using assms by (induction s) (cases x; auto)+

lemma same_segment:
  assumes "CHR ''/'' \<notin> set s" "CHR ''/'' \<notin> set t" "x = [] \<or> hd x = CHR ''/''" "y = [] \<or> hd y = CHR ''/''"
  shows "t @ y = s @ x \<longleftrightarrow> s = t \<and> x = y"
  using first_segment [OF assms(1,3)] first_segment [OF assms(2,4)] by metis

lemma slashed_hd: "slashed p = [] \<or> hd (slashed p) = CHR ''/''"
  by (cases p) simp_all

lemma starts_with_iff: "starts_with s p \<longleftrightarrow> (\<exists>z. s = p @ z)"
  unfolding starts_with_def by (metis append_eq_conv_conj)

lemma slashed_prefix:
  assumes "slash_free p" "slash_free c"
  shows "starts_with (slashed c) (slashed p @ ''/'') \<longleftrightarrow> strict_prefix p c"
  using assms
proof (induction p arbitrary: c)
  case Nil
  then show ?case by (cases c) (auto simp: starts_with_def)
next
  case (Cons s p)
  show ?case
  proof (cases c)
    case Nil
    then show ?thesis by (simp add: starts_with_def)
  next
    case c: (Cons t c')
    have ok: "CHR ''/'' \<notin> set s" "CHR ''/'' \<notin> set t" using Cons.prems c by auto
    obtain w where w: "slashed p @ ''/'' = CHR ''/'' # w" by (cases p) auto
    have h: "slashed c' = [] \<or> hd (slashed c') = CHR ''/''" by (cases c') auto
    have "starts_with (slashed c) (slashed (s # p) @ ''/'') \<longleftrightarrow> (\<exists>z. t @ slashed c' = s @ CHR ''/'' # w @ z)"
      using w by (simp add: starts_with_iff c)
    also have "\<dots> \<longleftrightarrow> s = t \<and> (\<exists>z. slashed c' = CHR ''/'' # w @ z)"
      using same_segment [OF ok _ h] by auto
    also have "\<dots> \<longleftrightarrow> s = t \<and> starts_with (slashed c') (slashed p @ ''/'')"
      using w by (simp add: starts_with_iff)
    also have "\<dots> \<longleftrightarrow> strict_prefix (s # p) c" using Cons c by auto
    finally show ?thesis .
  qed
qed

text \<open>A prefix in the form the scopes use: a canonical path, with or without a slash after it.\<close>

definition writes_path :: "string \<Rightarrow> path \<Rightarrow> bool" where
  "writes_path q p \<longleftrightarrow> segments_ok p \<and> (q = slashed p @ ''/'' \<or> (p \<noteq> [] \<and> q = slashed p))"

lemma slashed_end: "segments_ok p \<Longrightarrow> p \<noteq> [] \<Longrightarrow> last (slashed p) \<noteq> CHR ''/''"
proof (induction p)
  case (Cons s p)
  then have "s \<noteq> []" "CHR ''/'' \<notin> set s" by simp_all
  moreover from this have "last s \<noteq> CHR ''/''" by (metis last_in_set)
  moreover note Cons
  ultimately show ?case by (cases "p = []") (auto simp: last_append)
qed simp

lemma slashed_not_root: "segments_ok p \<Longrightarrow> slashed p \<noteq> ''/''"
  by (cases p) auto

lemma slashed_inj: "segments_ok p \<Longrightarrow> segments_ok c \<Longrightarrow> slashed p = slashed c \<Longrightarrow> p = c"
proof (induction p arbitrary: c)
  case (Cons s p)
  then obtain t c' where c: "c = t # c'" by (cases c) auto
  have "CHR ''/'' \<notin> set s" "CHR ''/'' \<notin> set t" using Cons.prems c by auto
  from same_segment [OF this slashed_hd slashed_hd, of c' p]
  have "s = t \<and> slashed p = slashed c'" using Cons.prems(3) c by auto
  then show ?case using Cons.IH [of c'] Cons.prems c by simp
qed (simp add: eq_commute [of "[]"])

lemma ends_slash: "ends_with (w @ ''/'') ''/''" "segments_ok p \<Longrightarrow> p \<noteq> [] \<Longrightarrow> \<not> ends_with (slashed p) ''/''"
proof -
  show "ends_with (w @ ''/'') ''/''" by (rule ends_with_append)
  assume p: "segments_ok p" "p \<noteq> []"
  then have "slashed p \<noteq> []" by simp
  then obtain z x where z: "slashed p = z @ [x]" by (metis append_butlast_last_id)
  then have "x \<noteq> CHR ''/''" using slashed_end [OF p] by simp
  then show "\<not> ends_with (slashed p) ''/''" by (simp add: z ends_with_def)
qed

lemma match_written:
  assumes "writes_path q p" "segments_ok c"
  shows "match_prefix (path_text c) (q # qs) = (if prefix p c then Some (path_text p) else match_prefix (path_text c) qs)"
proof -
  have p: "segments_ok p" using assms(1) by (simp add: writes_path_def)
  have w: "(if ends_with q ''/'' then butlast q else q) = slashed p"
    using assms(1) ends_slash by (auto simp: writes_path_def)
  have rf: "root_form (slashed p) = path_text p" by (simp add: root_form_def path_text_slashed)
  have q: "q = slashed p \<or> (q = slashed p @ ''/'' \<and> ends_with q ''/'')"
    using assms(1) ends_slash by (auto simp: writes_path_def)
  have sw: "starts_with (path_text c) (slashed p @ ''/'') \<longleftrightarrow> strict_prefix p c \<or> (p = [] \<and> c = [])"
    using slashed_prefix [OF segments_ok_free [OF p] segments_ok_free [OF assms(2)]] by (cases "c = []") (auto simp: path_text_slashed starts_with_def Cons_eq_append_conv)
  have eq: "path_text c = slashed p \<longleftrightarrow> c = p \<and> c \<noteq> []"
    using slashed_inj [OF assms(2) p] slashed_not_root [OF p] by (auto simp: path_text_slashed)
  have "path_text c = slashed p @ ''/'' \<longleftrightarrow> c = [] \<and> p = []"
    using slashed_end [OF assms(2)] by (auto simp: path_text_slashed)
  then show ?thesis using w rf q sw eq by (auto simp: Let_def prefix_order.le_less)
qed

section \<open>Deny keys as text\<close>

lemma lower_slash: "lower x = CHR ''/'' \<longleftrightarrow> x = CHR ''/''"
proof (cases "65 \<le> (of_char x :: nat) \<and> (of_char x :: nat) \<le> 90")
  case True
  then have "of_char (lower x) = (of_char x + 32 :: nat)" by (simp add: lower_def of_char_of)
  then have "lower x \<noteq> CHR ''/''" "x \<noteq> CHR ''/''" using True by auto
  then show ?thesis by simp
next
  case False
  then have "lower x = x" unfolding lower_def by (rule if_not_P)
  then show ?thesis by simp
qed

lemma lower_segment: "CHR ''/'' \<notin> set s \<Longrightarrow> CHR ''/'' \<notin> set (to_lower s)"
proof
  assume "CHR ''/'' \<notin> set s" "CHR ''/'' \<in> set (to_lower s)"
  moreover from this(2) obtain x where "x \<in> set s" "lower x = CHR ''/''" unfolding to_lower_def set_map by force
  ultimately show False unfolding lower_slash by simp
qed

lemma lower_segments: "segments_ok p \<Longrightarrow> segments_ok (map to_lower p)"
  using lower_segment by (induction p) (simp_all add: to_lower_def)

lemma to_lower_slashed: "to_lower (slashed p @ e) = slashed (map to_lower p) @ to_lower e"
proof (induction p)
  case (Cons s p)
  then show ?case by (simp add: to_lower_def lower_slash)
qed simp

lemma slashed_append: "slashed (p @ q) = slashed p @ slashed q"
  by (simp add: slashed_def)

text \<open>A text that writes a path starts with a root and a slash exactly when the root is a prefix.\<close>

lemma written_below:
  assumes "writes_path q p" "slash_free r"
  shows "starts_with q (slashed r @ ''/'') \<longleftrightarrow> prefix r p \<and> q \<noteq> slashed r"
    and "prefix r p \<Longrightarrow> q \<noteq> slashed r \<Longrightarrow> writes_path (drop (length (slashed r)) q) (drop (length r) p)"
proof -
  have p: "segments_ok p" "slash_free p" using assms(1) segments_ok_free by (auto simp: writes_path_def)
  from assms(1) consider "q = slashed p @ ''/''" | "q = slashed p" "p \<noteq> []" by (auto simp: writes_path_def)
  then show "starts_with q (slashed r @ ''/'') \<longleftrightarrow> prefix r p \<and> q \<noteq> slashed r"
  proof cases
    case 1
    have "q = slashed (p @ [[]])" using 1 by (simp add: slashed_append)
    then have "starts_with q (slashed r @ ''/'') \<longleftrightarrow> strict_prefix r (p @ [[]])"
      using slashed_prefix [of r "p @ [[]]"] assms(2) p by simp
    moreover have "q \<noteq> slashed r" if "prefix r p"
      using that 1 by (auto simp: prefix_def slashed_append)
    ultimately show ?thesis by (auto simp: prefix_order.less_le)
  next
    case 2
    have "q = slashed r \<longleftrightarrow> p = r" if "prefix r p"
      using that 2 by (auto simp: prefix_def slashed_append)
    then show ?thesis using slashed_prefix [OF assms(2) p(2)] 2 by (auto simp: prefix_order.less_le)
  qed
  assume r: "prefix r p" "q \<noteq> slashed r"
  then obtain t where t: "p = r @ t" by (auto simp: prefix_def)
  have "segments_ok t" using p(1) t by (simp add: segments_ok_def)
  then show "writes_path (drop (length (slashed r)) q) (drop (length r) p)"
    using assms(1) r(2) t by (auto simp: writes_path_def slashed_append)
qed

lemma written_unique:
  assumes "writes_path (slashed r) p" "segments_ok r" "r \<noteq> []"
  shows "p = r"
  using assms(1) slashed_end [OF assms(2,3)] slashed_inj [OF _ assms(2)] unfolding writes_path_def by (metis last_snoc)

lemma fold_written:
  assumes "writes_path q p"
  shows "writes_path (fold_text q) (fold_for_deny p)"
proof -
  define l where "l = map to_lower p"
  have q: "writes_path (to_lower q) l"
    using assms lower_segments [of p] to_lower_slashed [of p "[]"] to_lower_slashed [of p "''/''"]
    by (auto simp: writes_path_def l_def to_lower_def lower_def)
  have root: "writes_path ''/'' []" by (simp add: writes_path_def)
  have n: "slashed [''.nofollow''] = ''/.nofollow''" "slashed firmlink_root = ''/system/volumes/data''"
    "slash_free [''.nofollow'']" "slash_free firmlink_root" "length ''/.nofollow'' = 10" "length ''/system/volumes/data'' = 20"
    "segments_ok [''.nofollow'']" "segments_ok firmlink_root"
    by (simp_all add: firmlink_root_def)
  note below = written_below(1) [OF q n(3), unfolded n(1)] written_below(2) [OF q n(3), unfolded n(1) n(5)]
  show ?thesis
  proof (cases "to_lower q = ''/.nofollow''")
    case True
    then have "l = [''.nofollow'']" using written_unique [OF _ n(7)] q unfolding n(1) by simp
    then show ?thesis using True root
      by (simp add: fold_text_def fold_for_deny_def drop_nofollow_def drop_firmlink_def firmlink_root_def l_def [symmetric])
  next
    case False
    define g where "g = (if starts_with (to_lower q) ''/.nofollow/'' then drop 10 (to_lower q) else to_lower q)"
    define d where "d = drop_nofollow l"
    have g: "writes_path g d"
    proof (cases "prefix [''.nofollow''] l")
      case True
      then have "drop (length [''.nofollow'']) l = d" by (auto simp: d_def drop_nofollow_def prefix_def)
      then show ?thesis
        using below True False unfolding g_def by simp
    next
      case F: False
      then have "d = l" by (cases l) (auto simp: d_def drop_nofollow_def)
      then show ?thesis using below(1) F q unfolding g_def by simp
    qed
    have fold: "fold_text q = (if g = ''/system/volumes/data'' then ''/''
        else if starts_with g ''/system/volumes/data/'' then drop 20 g else g)"
      using False by (simp add: fold_text_def g_def Let_def)
    have deny: "fold_for_deny p = drop_firmlink d" by (simp add: fold_for_deny_def d_def l_def)
    show ?thesis
    proof (cases "g = ''/system/volumes/data''")
      case True
      then have "d = firmlink_root" using written_unique [OF _ n(8)] g unfolding n(2) by (simp add: firmlink_root_def)
      then show ?thesis using True root fold deny by (simp add: drop_firmlink_def firmlink_root_def)
    next
      case F: False
      show ?thesis
        using written_below(1) [OF g n(4), unfolded n(2)] written_below(2) [OF g n(4), unfolded n(2) n(6)] F g
        unfolding fold deny drop_firmlink_def by (simp add: firmlink_root_def numeral_3_eq_3)
    qed
  qed
qed

section \<open>The two boundaries decide alike\<close>

text \<open>The same scope for the other boundary, whose run is not tainted.\<close>

definition fs_of_storage :: "scoped_storage \<Rightarrow> scoped_fs" where
  "fs_of_storage st =
     \<lparr>sf_host = ss_host st, sf_read = ss_read st, sf_write = ss_write st, sf_deny = ss_deny st,
      sf_write_deny = ss_write_deny st, sf_deny_when = (\<lambda>c k. ss_deny_when st c Access k),
      sf_floor = (\<lambda>c. personality_definition_write_floor (ss_floor_dirs st) c Access),
      sf_extra_state_dirs = ss_state_dirs st, sf_tainted = False\<rparr>"

definition path_ok :: "path \<Rightarrow> bool" where
  "path_ok p \<longleftrightarrow> segments_ok p \<and> ''.'' \<notin> set p \<and> ''..'' \<notin> set p"

text \<open>A text that resolves to the path it writes.\<close>

definition tidy :: "scoped_storage \<Rightarrow> string \<Rightarrow> bool" where
  "tidy st q \<longleftrightarrow> writes_path q (storage_path st q)"

lemma starts_length: "starts_with s p \<Longrightarrow> length p \<le> length s"
  by (auto simp: starts_with_iff)

lemma fold_text_end:
  assumes "q \<noteq> []"
  shows "fold_text q = ''/'' \<or> (\<exists>n < length q. fold_text q = drop n (to_lower q))"
proof -
  have l: "length (to_lower q) = length q" by (simp add: to_lower_def)
  define g where "g = (if starts_with (to_lower q) ''/.nofollow/'' then drop 10 (to_lower q) else to_lower q)"
  have g: "\<exists>n < length q. g = drop n (to_lower q)"
    using assms l starts_length [of "to_lower q" "''/.nofollow/''"]
    by (auto simp: g_def intro: exI [of _ 10] exI [of _ 0])
  have "fold_text q = ''/'' \<or> fold_text q = g \<or> (fold_text q = drop 20 g \<and> 20 < length g)"
  proof -
    have "20 < length g" if "starts_with g ''/system/volumes/data/''" using starts_length [OF that] by simp
    moreover have "fold_text q = (if to_lower q = ''/.nofollow'' then ''/'' else if g = ''/system/volumes/data'' then ''/''
        else if starts_with g ''/system/volumes/data/'' then drop 20 g else g)"
      by (simp add: fold_text_def g_def Let_def)
    ultimately show ?thesis by (simp split: if_split)
  qed
  then show ?thesis
  proof (elim disjE conjE)
    assume f: "fold_text q = drop 20 g" "20 < length g"
    from g obtain n where "n < length q" "g = drop n (to_lower q)" by blast
    then have "fold_text q = drop (20 + n) (to_lower q)" "20 + n < length q" using f l by simp_all
    then show ?thesis by blast
  qed (use g in auto)
qed

lemma fold_path_text:
  assumes "segments_ok c"
  shows "fold_text (path_text c) = path_text (fold_for_deny c)"
proof (cases "c = []")
  case True
  show ?thesis unfolding True by code_simp
next
  case False
  have w: "writes_path (fold_text (path_text c)) (fold_for_deny c)"
    using fold_written [of "path_text c" c] assms by (simp add: writes_path_def path_text_slashed)
  let ?q = "path_text c"
  have q: "?q \<noteq> []" "last ?q \<noteq> CHR ''/''" using False slashed_end [OF assms] by (simp_all add: path_text_slashed)
  have "last (to_lower ?q) = lower (last ?q)" using q(1) by (simp add: to_lower_def last_map)
  then have "last (drop n (to_lower ?q)) \<noteq> CHR ''/''" if "n < length ?q" for n
    using that q(2) lower_slash by (simp add: to_lower_def)
  with fold_text_end [OF q(1)] have "fold_text ?q = ''/'' \<or> last (fold_text ?q) \<noteq> CHR ''/''" by force
  then show ?thesis
  proof
    assume r: "fold_text ?q = ''/''"
    then have "fold_for_deny c = []"
      using w slashed_not_root [of "fold_for_deny c"] by (auto simp: writes_path_def)
    then show ?thesis using r by (simp add: path_text_slashed)
  next
    assume "last (fold_text ?q) \<noteq> CHR ''/''"
    then show ?thesis using w by (auto simp: writes_path_def path_text_slashed)
  qed
qed

lemma match_all_written:
  assumes "list_all2 writes_path qs ps" "segments_ok c"
  shows "match_prefix (path_text c) qs \<noteq> None \<longleftrightarrow> list_ex (\<lambda>p. prefix p c) ps"
  using assms(1) by (induction rule: list_all2_induct) (auto simp: match_written [OF _ assms(2)] simp del: match_prefix.simps(2))

lemma matches_deny_agree:
  assumes "list_all (tidy st) ps" "segments_ok c"
  shows "matches_deny_prefix c ps \<longleftrightarrow> matches_any c (map (storage_path st) ps)"
proof -
  have w: "list_all2 writes_path (map fold_text ps) (map fold_for_deny (map (storage_path st) ps))"
    using assms(1) fold_written by (auto simp: list_all2_map1 list_all2_map2 list_all2_same tidy_def list_all_iff)
  have c: "segments_ok (fold_for_deny c)"
    using fold_written [of "path_text c" c] assms(2) by (simp add: writes_path_def path_text_slashed)
  have "match_prefix (fold_text (path_text c)) (map fold_text ps) \<noteq> None
      \<longleftrightarrow> list_ex (\<lambda>p. prefix (fold_for_deny p) (fold_for_deny c)) (map (storage_path st) ps)"
    unfolding fold_path_text [OF assms(2)] match_all_written [OF w c] by (simp add: list_ex_iff)
  then show ?thesis by (cases ps) (auto simp: matches_deny_prefix_def matches_any_def)
qed

lemma segments_slashed: "segments_ok p \<Longrightarrow> ''.'' \<notin> set p \<Longrightarrow> segments (path_text p) = p"
proof -
  assume p: "segments_ok p" "''.'' \<notin> set p"
  have "p \<noteq> [] \<Longrightarrow> split_on CHR ''/'' (slashed p) = [] # p" using p(1)
  proof (induction p)
    case (Cons s p)
    have "split_on CHR ''/'' (s @ slashed p) = s # p"
      using Cons by (cases "p = []") (auto simp: split_on_append dest: slashed_starts)
    then show ?case by simp
  qed simp
  then show ?thesis using p by (auto simp: segments_def path_text_slashed filter_id_conv segments_ok_def list_all_iff)
qed

lemma match_allowed_agree:
  assumes "list_all (tidy st) qs" "path_ok c"
  shows "match_allowed_text c qs dirs = match_allowed_prefix c (map (storage_path st) qs) dirs"
  using assms(1)
proof (induction qs)
  case (Cons q qs)
  have c: "segments_ok c" using assms(2) by (simp add: path_ok_def)
  have w: "writes_path q (storage_path st q)" using Cons.prems by (simp add: tidy_def)
  have "segments (path_text (storage_path st q)) = storage_path st q" if "prefix (storage_path st q) c"
  proof -
    have "''.'' \<notin> set (storage_path st q)" using assms(2) that by (auto simp: path_ok_def prefix_def)
    then show ?thesis using segments_slashed w by (simp add: writes_path_def)
  qed
  then show ?case
    using Cons match_written [OF w c, of "[]"] by (auto simp: match_allowed_prefix_def simp del: match_prefix.simps(2))
qed (simp add: match_allowed_prefix_def)

section \<open>Canonical paths stay canonical\<close>

lemma segments_clean: "x \<in> set (segments t) \<Longrightarrow> x \<noteq> [] \<and> x \<noteq> ''.'' \<and> CHR ''/'' \<notin> set x"
  using split_on_free by (auto simp: segments_def)

definition clean :: "string list \<Rightarrow> bool" where
  "clean ss \<longleftrightarrow> (\<forall>x \<in> set ss. x \<noteq> [] \<and> x \<noteq> ''.'' \<and> CHR ''/'' \<notin> set x)"

lemma path_ok_clean: "path_ok p \<longleftrightarrow> clean p \<and> ''..'' \<notin> set p"
  by (auto simp: path_ok_def clean_def segments_ok_def list_all_iff)

lemma clean_simps [simp]: "clean []" "clean (s # ss) \<longleftrightarrow> s \<noteq> [] \<and> s \<noteq> ''.'' \<and> CHR ''/'' \<notin> set s \<and> clean ss"
  "clean (p @ q) \<longleftrightarrow> clean p \<and> clean q"
  by (auto simp: clean_def)

lemma clean_segments [simp]: "clean (segments t)"
  using segments_clean by (auto simp: clean_def)

lemma clean_butlast: "clean p \<Longrightarrow> clean (butlast p)"
  by (auto simp: clean_def dest: in_set_butlastD)

lemma climb_ok: "path_ok base \<Longrightarrow> clean ss \<Longrightarrow> path_ok (climb base ss)"
proof (induction ss arbitrary: base)
  case (Cons s ss)
  have "path_ok (if s = ''..'' then butlast base else base @ [s])"
    using Cons.prems by (auto simp: path_ok_clean clean_butlast dest: in_set_butlastD)
  then show ?case using Cons.IH Cons.prems(2) by simp
qed simp

lemma resolve_ok: "path_ok base \<Longrightarrow> path_ok (resolve_path base t)"
proof -
  assume "path_ok base"
  moreover have "path_ok []" by (simp add: path_ok_def)
  ultimately show ?thesis by (simp add: resolve_path_def climb_ok link_base_def)
qed

lemma lands_ok: "lands fs dir ss r \<Longrightarrow> path_ok dir \<Longrightarrow> clean ss \<Longrightarrow> path_ok (fst r)"
  by (induction rule: lands.induct)
    (auto simp: path_ok_clean clean_butlast link_base_def dest: in_set_butlastD)

lemma ancestor_ok: "ancestor_loop n fs c tail = Some r \<Longrightarrow> path_ok c \<Longrightarrow> path_ok tail \<Longrightarrow> path_ok r"
proof (induction n arbitrary: c tail)
  case (Suc n)
  have b: "path_ok (butlast c)" "c \<noteq> [] \<Longrightarrow> path_ok (last c # tail)"
    using Suc.prems(2,3) last_in_set [of c] by (auto simp: path_ok_clean clean_butlast clean_def dest: in_set_butlastD)
  show ?case
  proof (cases "realpath fs c")
    case (Inr real)
    then have "path_ok real" using lands_ok [OF realpath_lands [OF Inr]] Suc.prems(2) by (simp add: path_ok_clean)
    then show ?thesis using Suc.prems Inr by (auto simp: path_ok_clean)
  next
    case (Inl e)
    with Suc.prems(1) have e: "e = ENOENT \<or> e = ENOTDIR" by (auto split: if_splits)
    show ?thesis
    proof (cases "\<exists>t. lstat fs c = Inr (Some (Link t))")
      case True
      then obtain t where "lstat fs c = Inr (Some (Link t))" by blast
      then have "ancestor_loop n fs (resolve_path (butlast c) t) tail = Some r" using Suc.prems(1) Inl e by auto
      then show ?thesis using Suc.IH resolve_ok [OF b(1)] Suc.prems(3) by blast
    next
      case False
      then have "c \<noteq> []" "ancestor_loop n fs (butlast c) (last c # tail) = Some r"
        using Suc.prems(1) Inl e by (auto split: sum.splits errno.splits option.splits node.splits if_splits)
      then show ?thesis using Suc.IH b by blast
    qed
  qed
qed simp

lemma follow_ok: "follow_from fs cursor rest = Inr (Some p) \<Longrightarrow> path_ok cursor \<Longrightarrow> path_ok rest \<Longrightarrow> path_ok p"
proof (induction rest arbitrary: cursor)
  case (Cons s rest)
  show ?case
  proof (cases "\<exists>t. lstat fs (cursor @ [s]) = Inr (Some (Link t))")
    case True
    then obtain t where "p = climb (resolve_path cursor t) rest" using Cons.prems(1) by auto
    then show ?thesis using climb_ok resolve_ok Cons.prems(2,3) by (simp add: path_ok_clean)
  next
    case False
    then have "follow_from fs (cursor @ [s]) rest = Inr (Some p)"
      using Cons.prems(1) by (auto split: sum.splits option.splits node.splits)
    then show ?thesis using Cons.IH Cons.prems(2,3) by (simp add: path_ok_clean)
  qed
qed simp

section \<open>Agreement\<close>

definition tidy_scope :: "scoped_storage \<Rightarrow> bool" where
  "tidy_scope st \<longleftrightarrow> list_all (tidy st) (ss_read st @ ss_write st @ ss_deny st @ ss_write_deny st) \<and> path_ok (ho_cwd (ss_host st))"

lemma fs_of_storage_sel:
  "sf_host (fs_of_storage st) = ss_host st" "sf_read (fs_of_storage st) = ss_read st"
  "sf_write (fs_of_storage st) = ss_write st" "sf_extra_state_dirs (fs_of_storage st) = ss_state_dirs st"
  by (simp_all add: fs_of_storage_def)

lemma canonical_agree: "canonical_of (fs_of_storage st) = storage_path st"
  by (simp add: fun_eq_iff canonical_of_def storage_path_def fs_of_storage_def)

lemma layers_agree:
  assumes "tidy_scope st" "path_ok c"
  shows "storage_deny_floor st c = hits_deny_floor (fs_of_storage st) c"
    "storage_write_deny st c kind = hits_write_deny (fs_of_storage st) c kind"
    "storage_deny_when st c kind = hits_deny_when (fs_of_storage st) c kind"
    "hits_tainted_state_write (fs_of_storage st) c kind dirs = False"
  using assms matches_deny_agree [of st _ c]
  by (auto simp: tidy_scope_def path_ok_def storage_deny_floor_def hits_deny_floor_def canonical_agree storage_write_deny_def
      hits_write_deny_def storage_deny_when_def hits_deny_when_def hits_tainted_state_write_def)
    (auto simp: fs_of_storage_def)

lemma real_target_agree:
  assumes "tidy_scope st" "path_ok c"
  shows "storage_real_target st fs c kind qs dirs
    = check_real_target (fs_of_storage st) fs c kind (map (storage_path st) qs) dirs"
proof (cases "real_path_of_longest_existing_ancestor fs c")
  case (Some real)
  then have "path_ok real"
    using ancestor_ok [of max_resolve_steps fs c "[]" real] assms(2)
    by (simp add: real_path_of_longest_existing_ancestor_def path_ok_def)
  then show ?thesis
    using layers_agree [OF assms(1)] Some by (simp add: storage_real_target_def check_real_target_def)
qed (simp add: storage_real_target_def check_real_target_def)

lemma hops_agree:
  assumes "tidy_scope st" "path_ok c" "list_all (tidy st) qs"
  shows "path_ok current \<Longrightarrow> prefix root current
    \<Longrightarrow> storage_hops n st fs c kind qs dirs root current
      = hop_loop n (fs_of_storage st) fs c kind (map (storage_path st) qs) dirs root current"
proof (induction n arbitrary: root current)
  case (Suc n)
  have ok: "path_ok root" "path_ok (drop (length root) current)"
    using Suc.prems by (auto simp: path_ok_clean prefix_def)
  show ?case
  proof (cases "follow_first_symlink fs root current")
    case (Inr m)
    show ?thesis
    proof (cases m)
      case None
      then show ?thesis using Inr real_target_agree [OF assms(1,2)] by simp
    next
      case (Some hop)
      have h: "path_ok hop" using Inr Some ok follow_ok by (simp add: follow_first_symlink_def)
      show ?thesis
        using Inr Some match_allowed_agree [OF assms(3) h, of dirs] layers_agree [OF assms(1) h] Suc.IH [OF h]
          match_allowed_mem [of hop "map (storage_path st) qs" dirs]
        by (auto split: option.splits)
    qed
  qed simp
qed simp

text \<open>
  C12: The two boundaries a personality's files pass decide alike: on a scope whose prefixes are written as canonical
  paths, with or without a final slash, ScopedStorage's check of a path gives the very answer of ScopedFsImpl's check
  with the same scope in a run that is not tainted, in every file system.
\<close>

theorem boundaries_agree:
  assumes "tidy_scope st"
  shows "storage_check st fs s kind = check_reach (fs_of_storage st) fs s kind"
proof -
  have c: "path_ok (storage_path st s)" using assms by (simp add: storage_path_def resolve_ok tidy_scope_def)
  have allowed: "allowed_for (fs_of_storage st) kind = map (storage_path st) (prefixes_for st kind)"
    by (simp add: allowed_for_def canonical_agree prefixes_for_def fs_of_storage_sel split: access_kind.split)
  have t: "list_all (tidy st) (prefixes_for st kind)"
    using assms by (simp add: tidy_scope_def prefixes_for_def split: access_kind.split)
  show ?thesis
    unfolding storage_check_def check_reach_def Let_def canonical_agree allowed fs_of_storage_sel layers_agree [OF assms c]
      match_allowed_agree [OF t c]
    using hops_agree [OF assms c t c] match_allowed_mem by (auto split: option.splits)
qed

definition sample_storage :: scoped_storage where
  "sample_storage =
     new_scoped_storage \<lparr>ho_home = [''home'', ''u''], ho_cwd = [''w''], ho_state_dir = None\<rparr> plain_tree [''/w/''] [''/w/docs'']
       [''/home/u/.ssh''] [] (\<lambda>p op k. False) []"

theorem boundaries_agree_witness:
  "storage_check sample_storage plain_tree ''notes/a'' WriteAccess = Inl NotPermitted
   \<and> check_reach (fs_of_storage sample_storage) plain_tree ''notes/a'' WriteAccess = Inl NotPermitted"
proof -
  have "tidy_scope sample_storage" by code_simp
  moreover have "storage_check sample_storage plain_tree ''notes/a'' WriteAccess = Inl NotPermitted" by code_simp
  ultimately show ?thesis using boundaries_agree [of sample_storage plain_tree "''notes/a''" WriteAccess] by simp
qed

section \<open>Removing and renaming\<close>

lemma below_key:
  assumes "prefix (fold_for_deny c) (fold_for_deny d)" "is_personality_definition_path d dirs"
  shows "contains_personality_definition_path c dirs"
proof -
  from assms(2) obtain s rel where s: "s \<in> set dirs" "segments_below d s = Some rel" "definition_below rel"
    by (auto simp: is_personality_definition_path_def list_ex_iff split: option.splits)
  define k where "k = fold_for_deny c"
  define base where "base = fold_for_deny s"
  from s(2) have d: "fold_for_deny d = base @ rel"
    by (auto simp: segments_below_def base_def Let_def prefix_def split: if_splits)
  from assms(1) have "prefix k (base @ rel)" by (simp add: d k_def)
  then consider "prefix k base" | more where "k = base @ more" "prefix more rel"
    by (auto simp: prefix_append)
  then show ?thesis
  proof cases
    case 1
    then have "segments_below s c \<noteq> None" by (simp add: segments_below_def k_def base_def Let_def)
    then show ?thesis using s(1) by (auto simp: contains_personality_definition_path_def list_ex_iff)
  next
    case 2
    then have c: "segments_below c s = Some more" by (simp add: segments_below_def k_def base_def Let_def)
    have n: "nth_segment rel i = nth_segment more i" if "i < length more" for i
      using that 2(2) by (auto simp: nth_segment_def prefix_def nth_append)
    have e: "nth_segment more i = None" if "length more \<le> i" for i using that by (simp add: nth_segment_def)
    consider "length more = 0" | "length more = 1" | "length more = 2" | "length more \<ge> 3" by linarith
    then show ?thesis
    proof cases
      case 1
      then have "segments_below s c \<noteq> None" using 2(1) by (simp add: segments_below_def k_def base_def Let_def)
      then show ?thesis using s(1) by (auto simp: contains_personality_definition_path_def list_ex_iff)
    next
      case l: 2
      then show ?thesis using s(1,3) c n [of 0] unfolding contains_personality_definition_path_def is_personality_definition_path_def
        by (fastforce simp: list_ex_iff definition_below_def split: option.splits)
    next
      case l: 3
      then show ?thesis using s(1,3) c n [of 0] n [of 1] unfolding contains_personality_definition_path_def is_personality_definition_path_def
        by (fastforce simp: list_ex_iff definition_below_def split: option.splits)
    next
      case l: 4
      then have "0 < length more" "1 < length more" "2 < length more" by linarith+
      from this [THEN n] have "definition_below more" using s(3) unfolding definition_below_def by simp
      then show ?thesis using s(1) c unfolding contains_personality_definition_path_def is_personality_definition_path_def
        by (intro disjI1) (force simp: list_ex_iff)
    qed
  qed
qed

lemma forms_pass:
  "check_forms st forms = Inr () \<Longrightarrow> form \<in> set forms
    \<Longrightarrow> \<not> contains_personality_definition_path form (ss_floor_dirs st)
      \<and> \<not> list_ex (\<lambda>e. entry_below form (storage_path st e)) (ss_write_deny st) \<and> \<not> ss_deny_when st form Subtree WriteAccess"
  by (induction forms) (auto simp: personality_definition_write_floor_def split: if_splits)

lemma subtree_passes:
  assumes "check_subtree st fs s = Inr ()"
  shows "\<not> contains_personality_definition_path (storage_path st s) (ss_floor_dirs st)"
    and "real_path_of_longest_existing_ancestor fs (storage_path st s) = Some r
      \<Longrightarrow> \<not> contains_personality_definition_path r (ss_floor_dirs st)"
  using assms forms_pass [of st "subtree_forms fs (storage_path st s)"]
  by (auto simp: check_subtree_def subtree_forms_def split: option.splits if_splits)

definition moves :: "storage_call \<Rightarrow> string list" where
  "moves call = (case call of SRemove s \<Rightarrow> [s] | SRename a b \<Rightarrow> [a, b] | _ \<Rightarrow> [])"

lemma hops_real_target:
  "storage_hops n st fs c kind qs dirs root current = Inr () \<Longrightarrow> storage_real_target st fs c kind qs dirs = Inr ()"
  by (induction n arbitrary: root current) (auto split: sum.splits option.splits if_splits)

lemma check_real_target_passes:
  "storage_check st fs s kind = Inr () \<Longrightarrow> storage_real_target st fs (storage_path st s) kind (prefixes_for st kind)
     (ethos_state_dirs (ss_host st) fs (ss_state_dirs st)) = Inr ()"
  by (auto simp: storage_check_def Let_def split: if_splits option.splits dest: hops_real_target)


definition moving_storage :: scoped_storage where
  "moving_storage =
     new_scoped_storage \<lparr>ho_home = [''w''], ho_cwd = [''w''], ho_state_dir = None\<rparr> plain_tree [] [''/w/docs''] [] []
       (\<lambda>p op k. False) []"


section \<open>Shared turns\<close>

text \<open>What a shared turn may see of a state directory, as the path below it: its own files, and texts to read.\<close>

definition shared_entry :: "string \<Rightarrow> path \<Rightarrow> access_kind \<Rightarrow> bool" where
  "shared_entry own rel kind \<longleftrightarrow>
     (\<exists>more. rel = ''skills'' # more \<and> kind = ReadAccess)
     \<or> (\<exists>more. rel = ''personalities'' # own # ''files'' # more \<or> rel = ''personalities'' # own # ''ui'' # more)
     \<or> (\<exists>more. rel = ''personalities'' # own # ''skills'' # more \<and> kind = ReadAccess)
     \<or> (rel = [''personalities'', own, ''soul.md''] \<and> kind = ReadAccess)"

lemma nth_segment_simps [simp]: "nth_segment [] n = None" "nth_segment (s # p) 0 = Some s"
  "nth_segment (s # p) (Suc n) = nth_segment p n"
  by (simp_all add: nth_segment_def)

lemma shared_reach_entry: "shared_turn_may_reach rel own kind \<Longrightarrow> shared_entry own rel kind"
  by (cases rel; cases "tl rel"; cases "tl (tl rel)")
    (auto simp: shared_turn_may_reach_def shared_entry_def numeral_2_eq_2 split: if_splits)


definition shared_tree :: tree where
  "shared_tree = plain_tree ([''w'', ''.ethos''] \<mapsto> Dir, [''w'', ''.ethos'', ''skills''] \<mapsto> Dir)"

definition shared_roots :: private_roots where
  "shared_roots = \<lparr>pr_state_dirs = [[''w'', ''.ethos'']], pr_extra = []\<rparr>"

definition shared_scope :: scoped_fs where
  "shared_scope = sample_scope\<lparr>sf_host := \<lparr>ho_home = [''w''], ho_cwd = [''w''], ho_state_dir = None\<rparr>,
     sf_read := [''/w/.ethos/skills/''], sf_deny_when := (\<lambda>p. shared_turn_path_deny shared_roots ''me'' p Access)\<rparr>"

lemma shared_tree_links: "plain_links shared_tree"
proof -
  have "''..'' \<notin> set (segments ''/w/docs'')" by code_simp
  then show ?thesis by (auto simp: plain_links_def shared_tree_def plain_tree_def split: if_splits)
qed


section \<open>Well-formed paths\<close>

lemma with_real_paths_ok:
  assumes "\<forall>d \<in> set dirs. path_ok d"
  shows "\<forall>d \<in> set (with_real_paths fs dirs). path_ok d"
proof -
  have "\<forall>d \<in> set out. path_ok d \<Longrightarrow> \<forall>d \<in> set xs. path_ok d \<Longrightarrow>
      \<forall>d \<in> set (foldl (\<lambda>out d. case real_path_of_longest_existing_ancestor fs d of
                None \<Rightarrow> out | Some r \<Rightarrow> if r \<in> set out then out else out @ [r]) out xs). path_ok d" for xs out
  proof (induction xs arbitrary: out)
    case (Cons x xs)
    have "path_ok r" if "real_path_of_longest_existing_ancestor fs x = Some r" for r
      using that ancestor_ok [of max_resolve_steps fs x "[]" r] Cons.prems(2)
      by (simp add: real_path_of_longest_existing_ancestor_def path_ok_def)
    then have "\<forall>d \<in> set (case real_path_of_longest_existing_ancestor fs x of
        None \<Rightarrow> out | Some r \<Rightarrow> if r \<in> set out then out else out @ [r]). path_ok d"
      using Cons.prems(1) by (auto split: option.splits)
    then show ?case using Cons.IH Cons.prems(2) by simp
  qed simp
  then show ?thesis using assms by (simp add: with_real_paths_def)
qed

lemma listed_dirs_ok:
  "path_ok cwd \<Longrightarrow> \<forall>d \<in> set out. path_ok d \<Longrightarrow>
     \<forall>d \<in> set (foldl (\<lambda>dirs d. let a = resolve_path cwd d in if a \<in> set dirs then dirs else dirs @ [a]) out xs). path_ok d"
proof (induction xs arbitrary: out)
  case (Cons x xs)
  have "\<forall>d \<in> set (let a = resolve_path cwd x in if a \<in> set out then out else out @ [a]). path_ok d"
    using Cons.prems resolve_ok by (auto simp: Let_def)
  then show ?case using Cons.IH Cons.prems(1) by simp
qed simp



end
