(* ===== verification/FsReachProps.thy ===== *)
theory FsReachProps
  imports FsReach ScopedStorageProps
begin

text \<open>What a personality that declares no reach gets, whatever directory the process was started in.\<close>

lemma segments_written: "writes_path q p \<Longrightarrow> ''.'' \<notin> set p \<Longrightarrow> segments q = p"
proof -
  assume q: "writes_path q p" "''.'' \<notin> set p"
  have p: "segments_ok p" using q(1) by (simp add: writes_path_def)
  have s: "segments (slashed p) = p" if "p \<noteq> []" using segments_slashed [OF p q(2)] that by (simp add: path_text_slashed)
  have "segments (slashed p @ ''/'') = segments (slashed p)"
  proof -
    have "split_on CHR ''/'' (t @ ''/'') = split_on CHR ''/'' t @ [[]]" for t
      by (induction t) (auto split: list.splits)
    then show ?thesis by (simp add: segments_def)
  qed
  moreover have "segments ([] :: string) = []" by (simp add: segments_def)
  ultimately show ?thesis using q(1) s by (cases "p = []") (auto simp: writes_path_def)
qed

lemma absolute_written: "writes_path q p \<Longrightarrow> absolute q"
  by (cases p) (auto simp: writes_path_def absolute_def)

lemma resolve_written: "writes_path q p \<Longrightarrow> path_ok p \<Longrightarrow> resolve_path base q = p"
  using segments_written absolute_written by (simp add: resolve_path_def link_base_def climb_plain path_ok_def)

lemma path_text_writes: "path_ok p \<Longrightarrow> writes_path (path_text p) p"
  by (simp add: writes_path_def path_text_slashed path_ok_def)

lemma path_text_slash_writes: "path_ok p \<Longrightarrow> p \<noteq> [] \<Longrightarrow> writes_path (path_text p @ ''/'') p"
  by (simp add: writes_path_def path_text_slashed path_ok_def)

lemma join_with_slashed: "home \<noteq> [] \<Longrightarrow> bs \<noteq> [] \<Longrightarrow> join_with ''/'' (path_text home # bs) = slashed (home @ bs)"
proof -
  have "bs \<noteq> [] \<Longrightarrow> CHR ''/'' # join_with ''/'' bs = slashed bs"
    by (induction bs rule: induct_list012) auto
  then show "home \<noteq> [] \<Longrightarrow> bs \<noteq> [] \<Longrightarrow> join_with ''/'' (path_text home # bs) = slashed (home @ bs)"
    by (cases bs) (auto simp: path_text_slashed slashed_append)
qed

lemma join_text_plain:
  assumes "path_ok (home @ bs)" "home \<noteq> []" "bs \<noteq> []"
  shows "join_text (path_text home) bs = path_text (home @ bs)"
proof -
  have "writes_path (slashed (home @ bs)) (home @ bs)" using assms by (simp add: writes_path_def path_ok_def)
  then have "segments (slashed (home @ bs)) = home @ bs" using segments_written assms(1) by (simp add: path_ok_def)
  then show ?thesis using assms by (simp add: join_text_def join_with_slashed climb_plain path_ok_def)
qed

text \<open>A directory whose first segment is no alias of macOS; deny keys of paths below keep their shape.\<close>

definition plain_root :: "path \<Rightarrow> bool" where
  "plain_root p \<longleftrightarrow> p \<noteq> [] \<and> to_lower (hd p) \<notin> {''system'', ''.nofollow'', ''.resolve''}"

lemma plain_fold: "plain_root p \<Longrightarrow> fold_for_deny p = map to_lower p"
  by (cases p) (auto simp: plain_root_def fold_for_deny_def drop_nofollow_def drop_firmlink_def firmlink_root_def)

lemma to_lower_twice: "to_lower (to_lower s) = to_lower s"
proof -
  have "lower (lower x) = lower x" for x
  proof (cases "65 \<le> (of_char x :: nat) \<and> (of_char x :: nat) \<le> 90")
    case True
    then have "of_char (lower x) = (of_char x + 32 :: nat)" by (simp add: lower_def of_char_of)
    then have "\<not> (65 \<le> (of_char (lower x) :: nat) \<and> (of_char (lower x) :: nat) \<le> 90)" using True by simp
    then show ?thesis unfolding lower_def [of "lower x"] by (rule if_not_P)
  next
    case False
    then have "lower x = x" unfolding lower_def by (rule if_not_P)
    then show ?thesis by simp
  qed
  then show ?thesis by (simp add: to_lower_def)
qed

lemma plain_strip: "plain_root p \<Longrightarrow> strip_volume_aliases p = p"
  by (subst strip_volume_aliases.simps) (cases p; auto simp: plain_root_def firmlink_root_def)

lemma plain_key: "plain_root p \<Longrightarrow> fold_deny_key pf p = (if pf_insensitive pf then map to_lower p else p)"
proof -
  assume p: "plain_root p"
  then have "plain_root (map to_lower p)" by (cases p) (auto simp: plain_root_def to_lower_twice)
  then show ?thesis using plain_strip p by (simp add: fold_deny_key_def)
qed

lemma plain_prefix: "plain_root p \<Longrightarrow> prefix p q \<Longrightarrow> plain_root q"
  by (auto simp: plain_root_def prefix_def)

lemma plain_within: "plain_root home \<Longrightarrow> prefix home p \<Longrightarrow> within_key pf home p"
  using plain_key [of home pf] plain_key [OF plain_prefix, of home p pf] by (simp add: within_key_def map_mono_prefix)

text \<open>A directory above the state directory, granted, does not reach into it.\<close>

lemma above_shadowed:
  assumes "plain_root home" "strict_prefix w home" "prefix home c" "home \<in> set dirs"
  shows "shadows_state_dir (fold_for_deny w) (fold_for_deny c) (map fold_for_deny dirs)"
proof -
  have w: "fold_for_deny w = map to_lower w"
  proof (cases "w = []")
    case False
    then have "plain_root w" using assms(1,2) by (cases w) (auto simp: plain_root_def strict_prefix_def prefix_def)
    then show ?thesis by (rule plain_fold)
  qed (simp add: fold_for_deny_def drop_nofollow_def drop_firmlink_def firmlink_root_def)
  have "length w < length home" using assms(2) by (rule prefix_length_less)
  then have "map to_lower w \<noteq> map to_lower home" by (metis length_map less_irrefl)
  moreover have "prefix (map to_lower w) (map to_lower home)" using assms(2) by (simp add: map_mono_prefix)
  moreover have "prefix (map to_lower home) (fold_for_deny c)"
    using plain_fold [OF plain_prefix [OF assms(1,3)]] assms(3) by (simp add: map_mono_prefix)
  moreover have "map to_lower home \<in> set (map fold_for_deny dirs)"
    using assms(4) plain_fold [OF assms(1)] by (metis image_eqI list.set_map)
  ultimately show ?thesis unfolding shadows_state_dir_def w list_ex_iff by blast
qed

lemma default_reach:
  assumes "declared_workdirs reach = []" "\<forall>r. reach = Some r \<longrightarrow> dr_read r \<in> {None, Some []} \<and> dr_write r \<in> {None, Some []}"
    "derive_fs_reach_paths pf pc reach vars = Inr d"
  shows "de_read d = [join_text (rv_ethos_home vars) [''personalities'', rv_self vars] @ ''/'', join_text (rv_ethos_home vars) [''skills''] @ ''/'']
      @ (if within_key pf (resolve_path pc (rv_ethos_home vars)) (resolve_path pc (rv_cwd vars)) then [] else [rv_cwd vars])"
    and "de_write d = [join_text (rv_ethos_home vars) [''personalities'', rv_self vars] @ ''/'']
      @ (if within_key pf (resolve_path pc (rv_ethos_home vars)) (resolve_path pc (rv_cwd vars)) then [] else [rv_cwd vars])"
proof -
  have r: "reach_list (Option.bind reach dr_read) xs v = Inr xs" "reach_list (Option.bind reach dr_write) xs v = Inr xs" for xs v
    using assms(2) by (cases reach; auto simp: reach_list_def)+
  show "de_read d = [join_text (rv_ethos_home vars) [''personalities'', rv_self vars] @ ''/'', join_text (rv_ethos_home vars) [''skills''] @ ''/'']
      @ (if within_key pf (resolve_path pc (rv_ethos_home vars)) (resolve_path pc (rv_cwd vars)) then [] else [rv_cwd vars])"
    "de_write d = [join_text (rv_ethos_home vars) [''personalities'', rv_self vars] @ ''/'']
      @ (if within_key pf (resolve_path pc (rv_ethos_home vars)) (resolve_path pc (rv_cwd vars)) then [] else [rv_cwd vars])"
    using assms(1,3) by (auto simp: derive_fs_reach_paths_def Let_def r)
qed


definition linux :: platform where
  "linux = \<lparr>pf_insensitive = False, pf_firmlink = False\<rparr>"

definition sample_reach :: derived_reach where
  "sample_reach =
     \<lparr>de_read = [''/w/.ethos/personalities/me/'', ''/w/.ethos/skills/'', ''/w''],
      de_write = [''/w/.ethos/personalities/me/'', ''/w''],
      de_write_deny = map (\<lambda>e. ''/w/.ethos/personalities/me/'' @ e) personality_definition_entries, de_workdir = ''/w''\<rparr>"

definition default_scope :: scoped_fs where
  "default_scope = sample_scope\<lparr>sf_host := \<lparr>ho_home = [''w''], ho_cwd = [''w''], ho_state_dir = None\<rparr>,
     sf_read := de_read sample_reach, sf_write := de_write sample_reach\<rparr>"


end
