(* ===== verification/GoalStore.thy ===== *)
theory GoalStore
  imports JobLaws
begin

text \<open>
  The store of goals (extensions/goal-store/src/index.ts, types in packages/types/src/goal.ts): its three
  tables as lists of rows in rowid order, and every method of \<open>SQLiteGoalStore\<close>. The clock and the drawn
  id are arguments. A column of JSON holds the value it prints, but the artifacts and the payloads, which
  have no type of their own, hold the text. A field of a patch is an option of its value: \<open>None\<close> is
  \<open>undefined\<close>. The lease columns, which \<open>rowToGoal\<close> leaves out, stand in the row.
\<close>

section \<open>Tables\<close>

datatype goal_status =
    GoalPlanning | GoalRunning | GoalJudging | GoalRetrying | GoalParked
  | GoalCompleted | GoalExhausted | GoalFailed | GoalCancelled | GoalInterrupted

record goal_check =
  gc_id :: string
  gc_description :: string
  gc_command :: "string option"

record goal_rubric =
  gr_id :: string
  gr_description :: string
  gr_weight :: rat

record acceptance =
  ac_checks :: "goal_check list"
  ac_rubric :: "goal_rubric list"
  ac_threshold :: rat

datatype check_method = ByCommand | ByModel | BySubstring

record criterion =
  cr_id :: string
  cr_pass :: "bool option"
  cr_score :: "rat option"
  cr_evidence :: string
  cr_gap :: "string option"
  cr_method :: "check_method option"

record goal_verdict =
  vd_score :: rat
  vd_criteria :: "criterion list"

record goal =
  gl_id :: string
  gl_user :: string
  gl_personality :: string
  gl_origin :: string
  gl_session :: "string option"
  gl_title :: string
  gl_text :: string
  gl_acceptance :: "acceptance option"
  gl_status :: goal_status
  gl_max_attempts :: int
  gl_max_cost :: "rat option"
  gl_deadline :: "string option"
  gl_output :: "string option"
  gl_partial :: "string option"
  gl_error :: "string option"
  gl_started :: int
  gl_completed :: "int option"
  gl_resumes :: int
  gl_turns :: "int option"
  gl_tools :: "int option"
  gl_tokens :: "int option"
  gl_cost :: "rat option"
  gl_tool_cap :: "int option"
  gl_dangerous :: bool
  gl_recoveries :: "int option"
  gl_identical :: "int option"
  gl_plan :: "string option"
  gl_lease :: "string option"
  gl_heartbeat :: "int option"

datatype strategy = FirstTry | PatchTry | PivotTry

record goal_attempt =
  ga_id :: string
  ga_goal :: string
  ga_n :: int
  ga_session :: string
  ga_output :: "string option"
  ga_artifacts :: "string option"
  ga_verdict :: "goal_verdict option"
  ga_strategy :: strategy
  ga_cost :: "rat option"
  ga_trace :: "string option"
  ga_started :: int
  ga_completed :: "int option"

datatype goal_event_type =
    GeRunStart | GePlanStart | GePlanReady | GeAttemptStart | GeTurnText | GeToolStart | GeToolEnd
  | GeSteer | GeUsage | GeCompleteAttempt | GeCompleteRejected | GeError | GeDone

record goal_event =
  ge_id :: nat
  ge_goal :: string
  ge_seq :: nat
  ge_type :: goal_event_type
  ge_payload :: string
  ge_created :: int

record goal_store =
  gs_goals :: "goal list"
  gs_attempts :: "goal_attempt list"
  gs_events :: "goal_event list"

definition empty_goals :: goal_store where
  "empty_goals = \<lparr>gs_goals = [], gs_attempts = [], gs_events = []\<rparr>"

datatype goal_error =
    GoalIdTaken string
  | GoalNotFound string
  | GoalMissing string
  | AttemptTaken string int
  | AttemptIdTaken string
  | AttemptNotFound string int

section \<open>Creating and reading\<close>

record goal_input =
  gi_user :: string
  gi_personality :: string
  gi_origin :: string
  gi_session :: "string option"
  gi_title :: string
  gi_text :: string
  gi_acceptance :: "acceptance option"
  gi_max_attempts :: "int option"
  gi_max_cost :: "rat option"
  gi_deadline :: "string option"
  gi_tool_cap :: "int option"
  gi_identical :: "int option"
  gi_dangerous :: "bool option"
  gi_recoveries :: "int option"

definition get_goal :: "goal_store \<Rightarrow> string \<Rightarrow> goal option" where
  "get_goal s i = find (\<lambda>g. gl_id g = i) (gs_goals s)"

definition new_goal :: "int \<Rightarrow> string \<Rightarrow> goal_input \<Rightarrow> goal" where
  "new_goal now i inp =
     \<lparr>gl_id = i, gl_user = gi_user inp, gl_personality = gi_personality inp, gl_origin = gi_origin inp,
      gl_session = gi_session inp, gl_title = gi_title inp, gl_text = gi_text inp,
      gl_acceptance = gi_acceptance inp, gl_status = GoalRunning,
      gl_max_attempts = (case gi_max_attempts inp of None \<Rightarrow> 3 | Some n \<Rightarrow> n),
      gl_max_cost = gi_max_cost inp, gl_deadline = gi_deadline inp,
      gl_output = None, gl_partial = None, gl_error = None,
      gl_started = now, gl_completed = None, gl_resumes = 0,
      gl_turns = None, gl_tools = None, gl_tokens = None, gl_cost = None,
      gl_tool_cap = gi_tool_cap inp, gl_dangerous = (gi_dangerous inp = Some True),
      gl_recoveries = gi_recoveries inp, gl_identical = gi_identical inp,
      gl_plan = None, gl_lease = None, gl_heartbeat = None\<rparr>"

text \<open>\<open>create\<close>: the id is the primary key; what is read back is the row.\<close>

definition create_goal :: "int \<Rightarrow> string \<Rightarrow> goal_input \<Rightarrow> goal_store \<Rightarrow> (goal_error, goal_store) result" where
  "create_goal now i inp s =
     (if get_goal s i \<noteq> None then Inl (GoalIdTaken i)
      else Inr (s\<lparr>gs_goals := gs_goals s @ [new_goal now i inp]\<rparr>))"

text \<open>
  \<open>list\<close>: newest first; a negative limit, which stands for none given, is no limit. SQL leaves the order of
  goals of one time open; here they keep the order of the table.
\<close>

definition list_goals :: "string option \<Rightarrow> goal_status option \<Rightarrow> int option \<Rightarrow> goal_store \<Rightarrow> goal list" where
  "list_goals us st most s =
     (let rows = sort_key (\<lambda>g. - gl_started g)
          (filter (\<lambda>g. (us = None \<or> us = Some (gl_user g)) \<and> (st = None \<or> st = Some (gl_status g))) (gs_goals s));
          n = (case most of None \<Rightarrow> - 1 | Some n \<Rightarrow> n)
      in if n < 0 then rows else take (nat n) rows)"

section \<open>Status writes\<close>

record status_extra =
  sx_output :: "string option option"
  sx_partial :: "string option option"
  sx_error :: "string option option"
  sx_completed :: "int option option"
  sx_turns :: "int option option"
  sx_tools :: "int option option"
  sx_tokens :: "int option option"
  sx_cost :: "rat option option"
  sx_plan :: "string option option"

definition no_extra :: status_extra where
  "no_extra = \<lparr>sx_output = None, sx_partial = None, sx_error = None, sx_completed = None, sx_turns = None,
     sx_tools = None, sx_tokens = None, sx_cost = None, sx_plan = None\<rparr>"

text \<open>A column is set when the field is given.\<close>

definition patched :: "'a option \<Rightarrow> 'a \<Rightarrow> 'a" where
  "patched x old = (case x of None \<Rightarrow> old | Some v \<Rightarrow> v)"

definition status_assignments :: "goal_status \<Rightarrow> status_extra \<Rightarrow> goal \<Rightarrow> goal" where
  "status_assignments st x g = g\<lparr>
     gl_status := st,
     gl_output := patched (sx_output x) (gl_output g),
     gl_partial := patched (sx_partial x) (gl_partial g),
     gl_error := patched (sx_error x) (gl_error g),
     gl_completed := patched (sx_completed x) (gl_completed g),
     gl_turns := patched (sx_turns x) (gl_turns g),
     gl_tools := patched (sx_tools x) (gl_tools g),
     gl_tokens := patched (sx_tokens x) (gl_tokens g),
     gl_cost := patched (sx_cost x) (gl_cost g),
     gl_plan := patched (sx_plan x) (gl_plan g)\<rparr>"

text \<open>\<open>UPDATE goals SET ... WHERE id = ? AND P\<close>, and whether it changed a row.\<close>

definition upd_goal :: "string \<Rightarrow> (goal \<Rightarrow> bool) \<Rightarrow> (goal \<Rightarrow> goal) \<Rightarrow> goal_store \<Rightarrow> bool \<times> goal_store" where
  "upd_goal i P f s =
     (list_ex (\<lambda>g. gl_id g = i \<and> P g) (gs_goals s),
      s\<lparr>gs_goals := map (\<lambda>g. if gl_id g = i \<and> P g then f g else g) (gs_goals s)\<rparr>)"

definition update_goal_status ::
  "string \<Rightarrow> goal_status \<Rightarrow> status_extra \<Rightarrow> goal_store \<Rightarrow> (goal_error, goal_store) result" where
  "update_goal_status i st x s =
     (case upd_goal i (\<lambda>_. True) (status_assignments st x) s of (hit, s') \<Rightarrow>
        if hit then Inr s' else Inl (GoalNotFound i))"

definition update_run_status ::
  "string \<Rightarrow> string \<Rightarrow> goal_status \<Rightarrow> status_extra \<Rightarrow> goal_store \<Rightarrow> bool \<times> goal_store" where
  "update_run_status i ow st x =
     upd_goal i (\<lambda>g. gl_status g \<noteq> GoalCancelled \<and> (gl_lease g = None \<or> gl_lease g = Some ow))
       (status_assignments st x)"

section \<open>Events and attempts\<close>

text \<open>\<open>appendEvent\<close>: the foreign key of an event is a goal.\<close>

definition append_goal_event ::
  "int \<Rightarrow> string \<Rightarrow> goal_event_type \<Rightarrow> string \<Rightarrow> goal_store \<Rightarrow> (goal_error, goal_store) result" where
  "append_goal_event now i ty payload s =
     (if get_goal s i = None then Inl (GoalMissing i)
      else Inr (s\<lparr>gs_events := gs_events s @
        [\<lparr>ge_id = next_id (map ge_id (gs_events s)), ge_goal = i,
          ge_seq = next_id (map ge_seq (filter (\<lambda>e. ge_goal e = i) (gs_events s))),
          ge_type = ty, ge_payload = payload, ge_created = now\<rparr>]\<rparr>))"

definition goal_events :: "string \<Rightarrow> goal_store \<Rightarrow> goal_event list" where
  "goal_events i s = sort_key ge_seq (filter (\<lambda>e. ge_goal e = i) (gs_events s))"

text \<open>Artifacts that JavaScript takes for false are stored as null.\<close>

definition falsy_json :: "string \<Rightarrow> bool" where
  "falsy_json t = (t \<in> {''0'', [CHR 34, CHR 34], ''false'', ''null''})"

definition kept_json :: "string option \<Rightarrow> string option" where
  "kept_json x = (case x of None \<Rightarrow> None | Some t \<Rightarrow> if falsy_json t then None else Some t)"

text \<open>\<open>saveAttempt\<close>: the attempt comes without its id.\<close>

definition save_attempt ::
  "string \<Rightarrow> goal_attempt \<Rightarrow> goal_store \<Rightarrow> (goal_error, goal_store) result" where
  "save_attempt i a s =
     (if list_ex (\<lambda>b. ga_id b = i) (gs_attempts s) then Inl (AttemptIdTaken i)
      else if list_ex (\<lambda>b. ga_goal b = ga_goal a \<and> ga_n b = ga_n a) (gs_attempts s)
        then Inl (AttemptTaken (ga_goal a) (ga_n a))
      else if get_goal s (ga_goal a) = None then Inl (GoalMissing (ga_goal a))
      else Inr (s\<lparr>gs_attempts := gs_attempts s @ [a\<lparr>ga_id := i, ga_artifacts := kept_json (ga_artifacts a)\<rparr>]\<rparr>))"

record attempt_patch =
  ap_verdict :: "goal_verdict option option"
  ap_output :: "string option option"
  ap_cost :: "rat option option"
  ap_completed :: "int option option"

definition patch_attempt :: "attempt_patch \<Rightarrow> goal_attempt \<Rightarrow> goal_attempt" where
  "patch_attempt p a = a\<lparr>
     ga_verdict := patched (ap_verdict p) (ga_verdict a),
     ga_output := patched (ap_output p) (ga_output a),
     ga_cost := patched (ap_cost p) (ga_cost a),
     ga_completed := patched (ap_completed p) (ga_completed a)\<rparr>"

definition update_attempt ::
  "string \<Rightarrow> int \<Rightarrow> attempt_patch \<Rightarrow> goal_store \<Rightarrow> (goal_error, goal_store) result" where
  "update_attempt i n p s =
     (if ap_verdict p = None \<and> ap_output p = None \<and> ap_cost p = None \<and> ap_completed p = None then Inr s
      else if list_ex (\<lambda>a. ga_goal a = i \<and> ga_n a = n) (gs_attempts s)
        then Inr (s\<lparr>gs_attempts :=
          map (\<lambda>a. if ga_goal a = i \<and> ga_n a = n then patch_attempt p a else a) (gs_attempts s)\<rparr>)
      else Inl (AttemptNotFound i n))"

definition goal_attempts :: "string \<Rightarrow> goal_store \<Rightarrow> goal_attempt list" where
  "goal_attempts i s = sort_key ga_n (filter (\<lambda>a. ga_goal a = i) (gs_attempts s))"

definition increment_resume_count :: "string \<Rightarrow> goal_store \<Rightarrow> (goal_error, goal_store) result" where
  "increment_resume_count i s =
     (case upd_goal i (\<lambda>_. True) (\<lambda>g. g\<lparr>gl_resumes := gl_resumes g + 1\<rparr>) s of (hit, s') \<Rightarrow>
        if hit then Inr s' else Inl (GoalNotFound i))"

section \<open>The lease\<close>

definition claim_goal :: "int \<Rightarrow> string \<Rightarrow> string \<Rightarrow> goal_store \<Rightarrow> bool \<times> goal_store" where
  "claim_goal now i ow =
     upd_goal i (\<lambda>_. True) (\<lambda>g. g\<lparr>gl_lease := Some ow, gl_heartbeat := Some now\<rparr>)"

definition resumable :: "goal_status \<Rightarrow> bool" where
  "resumable st = (st \<in> {GoalFailed, GoalCancelled, GoalInterrupted})"

definition resume_goal :: "int \<Rightarrow> string \<Rightarrow> string \<Rightarrow> goal_store \<Rightarrow> bool \<times> goal_store" where
  "resume_goal now i ow =
     upd_goal i (\<lambda>g. resumable (gl_status g))
       (\<lambda>g. g\<lparr>gl_status := GoalRunning, gl_resumes := gl_resumes g + 1,
              gl_lease := Some ow, gl_heartbeat := Some now\<rparr>)"

definition heartbeat_goal :: "int \<Rightarrow> string \<Rightarrow> string \<Rightarrow> goal_store \<Rightarrow> bool \<times> goal_store" where
  "heartbeat_goal now i ow =
     upd_goal i (\<lambda>g. gl_lease g = Some ow \<and> gl_status g \<noteq> GoalCancelled)
       (\<lambda>g. g\<lparr>gl_heartbeat := Some now\<rparr>)"

definition executing :: "goal_status \<Rightarrow> bool" where
  "executing st = (st \<in> {GoalPlanning, GoalRunning, GoalJudging, GoalRetrying})"

text \<open>The newest event of a goal, \<open>0\<close> for none.\<close>

definition last_event :: "goal_store \<Rightarrow> string \<Rightarrow> int" where
  "last_event s i = (case map ge_created (filter (\<lambda>e. ge_goal e = i) (gs_events s)) of
     [] \<Rightarrow> 0 | t # ts \<Rightarrow> fold max ts t)"

definition goal_quiet :: "goal_store \<Rightarrow> int \<Rightarrow> goal \<Rightarrow> bool" where
  "goal_quiet s threshold g =
     (executing (gl_status g) \<and>
      (case gl_heartbeat g of
         Some t \<Rightarrow> t \<le> threshold
       | None \<Rightarrow> max (gl_started g) (last_event s (gl_id g)) \<le> threshold))"

definition interrupt_stale :: "int \<Rightarrow> int \<Rightarrow> goal_store \<Rightarrow> string list \<times> goal_store" where
  "interrupt_stale stale now s =
     (let quiet = goal_quiet s (now - stale) in
      (map gl_id (filter quiet (gs_goals s)),
       s\<lparr>gs_goals := map (\<lambda>g. if quiet g then g\<lparr>gl_status := GoalInterrupted\<rparr> else g) (gs_goals s)\<rparr>))"

end
