(* ===== verification/GoalLaws.thy ===== *)
theory GoalLaws
  imports GoalStore
begin

text \<open>
  What the store of goals keeps: every call is an event of one machine that reports what it did, and the
  trace of reports and the tables agree (an instance of \<open>noted_machine\<close>). The trace tells who took a goal
  last, its status and its last sign of life; each report is lawful given the reports before it.
\<close>

section \<open>Calls and what they report\<close>

datatype goal_call =
    CreateGoal int string goal_input
  | SetGoalStatus string goal_status status_extra
  | RunGoalStatus string string goal_status status_extra
  | LogGoal int string goal_event_type string
  | SaveAttempt string goal_attempt
  | PatchAttempt string int attempt_patch
  | BumpResumes string
  | ClaimGoal int string string
  | ResumeGoal int string string
  | BeatGoal int string string
  | SweepGoals int int

datatype goal_note =
    Created string int
  | StatusSet string goal_status
  | RunWrote string string goal_status
  | Logged string int
  | Took string string int
  | Resumed string string int
  | Beat string string int
  | Swept "string list" int

text \<open>What a call reports when it throws, or changed nothing: nothing.\<close>

definition tell :: "'n \<Rightarrow> 's \<Rightarrow> ('e, 's) result \<Rightarrow> 'n list \<times> 's" where
  "tell n s r = (case r of Inl _ \<Rightarrow> ([], s) | Inr s' \<Rightarrow> ([n], s'))"

definition tell_if :: "'n \<Rightarrow> bool \<times> 's \<Rightarrow> 'n list \<times> 's" where
  "tell_if n r = (if fst r then [n] else [], snd r)"

fun goal_act :: "goal_call \<Rightarrow> goal_store \<Rightarrow> goal_note list \<times> goal_store" where
  "goal_act (CreateGoal now i inp) s = tell (Created i now) s (create_goal now i inp s)"
| "goal_act (SetGoalStatus i st x) s = tell (StatusSet i st) s (update_goal_status i st x s)"
| "goal_act (RunGoalStatus i ow st x) s = tell_if (RunWrote i ow st) (update_run_status i ow st x s)"
| "goal_act (LogGoal now i ty p) s = tell (Logged i now) s (append_goal_event now i ty p s)"
| "goal_act (SaveAttempt i a) s = ([], settle (save_attempt i a s) s)"
| "goal_act (PatchAttempt i n p) s = ([], settle (update_attempt i n p s) s)"
| "goal_act (BumpResumes i) s = ([], settle (increment_resume_count i s) s)"
| "goal_act (ClaimGoal now i ow) s = tell_if (Took i ow now) (claim_goal now i ow s)"
| "goal_act (ResumeGoal now i ow) s = tell_if (Resumed i ow now) (resume_goal now i ow s)"
| "goal_act (BeatGoal now i ow) s = tell_if (Beat i ow now) (heartbeat_goal now i ow s)"
| "goal_act (SweepGoals stale now) s =
     (case interrupt_stale stale now s of (is, s') \<Rightarrow> ([Swept is (now - stale)], s'))"

section \<open>Reading the trace\<close>

fun made :: "goal_note \<Rightarrow> (string \<times> int) list" where
  "made (Created i t) = [(i, t)]"
| "made _ = []"

text \<open>The goals created, oldest first, with their times.\<close>

definition goals_made :: "goal_note list \<Rightarrow> (string \<times> int) list" where
  "goals_made ns = concat (map made ns)"

fun status_after :: "string \<Rightarrow> goal_note \<Rightarrow> goal_status \<Rightarrow> goal_status" where
  "status_after i (StatusSet k st) old = (if k = i then st else old)"
| "status_after i (RunWrote k ow st) old = (if k = i then st else old)"
| "status_after i (Resumed k ow t) old = (if k = i then GoalRunning else old)"
| "status_after i (Swept is t) old = (if i \<in> set is then GoalInterrupted else old)"
| "status_after i _ old = old"

definition status_in :: "goal_note list \<Rightarrow> string \<Rightarrow> goal_status" where
  "status_in ns i = fold (status_after i) ns GoalRunning"

text \<open>The run that claimed or resumed the goal last.\<close>

fun holder_after :: "string \<Rightarrow> goal_note \<Rightarrow> string option \<Rightarrow> string option" where
  "holder_after i (Took k ow t) old = (if k = i then Some ow else old)"
| "holder_after i (Resumed k ow t) old = (if k = i then Some ow else old)"
| "holder_after i _ old = old"

definition holder_in :: "goal_note list \<Rightarrow> string \<Rightarrow> string option" where
  "holder_in ns i = fold (holder_after i) ns None"

text \<open>When the goal was last claimed, resumed or beaten for.\<close>

fun life_after :: "string \<Rightarrow> goal_note \<Rightarrow> int option \<Rightarrow> int option" where
  "life_after i (Took k ow t) old = (if k = i then Some t else old)"
| "life_after i (Resumed k ow t) old = (if k = i then Some t else old)"
| "life_after i (Beat k ow t) old = (if k = i then Some t else old)"
| "life_after i _ old = old"

definition life_in :: "goal_note list \<Rightarrow> string \<Rightarrow> int option" where
  "life_in ns i = fold (life_after i) ns None"

fun logged :: "string \<Rightarrow> goal_note \<Rightarrow> int list" where
  "logged i (Logged k t) = (if k = i then [t] else [])"
| "logged i _ = []"

definition logs_in :: "goal_note list \<Rightarrow> string \<Rightarrow> int list" where
  "logs_in ns i = concat (map (logged i) ns)"

text \<open>No sign of life after a time: no later beat or, for a goal no run has taken, no later event.\<close>

definition silent_since :: "goal_note list \<Rightarrow> int \<Rightarrow> string \<times> int \<Rightarrow> bool" where
  "silent_since ns t g =
     (case life_in ns (fst g) of
        Some u \<Rightarrow> u \<le> t
      | None \<Rightarrow> snd g \<le> t \<and> list_all (\<lambda>u. u \<le> t) (logs_in ns (fst g)) \<and> (logs_in ns (fst g) = [] \<longrightarrow> 0 \<le> t))"

definition fresh_note :: "goal_note list \<Rightarrow> string \<Rightarrow> bool" where
  "fresh_note ns i = (i \<notin> fst ` set (goals_made ns))"

text \<open>What the notes so far allow the next one to say.\<close>

fun lawful_note :: "goal_note list \<Rightarrow> goal_note \<Rightarrow> bool" where
  "lawful_note ns (Created i t) = fresh_note ns i"
| "lawful_note ns (StatusSet i st) = (\<not> fresh_note ns i)"
| "lawful_note ns (RunWrote i ow st) =
     (\<not> fresh_note ns i \<and> status_in ns i \<noteq> GoalCancelled \<and> holder_in ns i \<in> {None, Some ow})"
| "lawful_note ns (Logged i t) = (\<not> fresh_note ns i)"
| "lawful_note ns (Took i ow t) = (\<not> fresh_note ns i)"
| "lawful_note ns (Resumed i ow t) = (\<not> fresh_note ns i \<and> resumable (status_in ns i))"
| "lawful_note ns (Beat i ow t) =
     (\<not> fresh_note ns i \<and> status_in ns i \<noteq> GoalCancelled \<and> holder_in ns i = Some ow)"
| "lawful_note ns (Swept is t) =
     (is = map fst (filter (\<lambda>g. executing (status_in ns (fst g)) \<and> silent_since ns t g) (goals_made ns)))"

fun lawful_from :: "goal_note list \<Rightarrow> goal_note list \<Rightarrow> bool" where
  "lawful_from ns [] = True"
| "lawful_from ns (n # us) = (lawful_note ns n \<and> lawful_from (ns @ [n]) us)"

abbreviation lawful :: "goal_note list \<Rightarrow> bool" where
  "lawful \<equiv> lawful_from []"

lemma lawful_from_append: "lawful_from ns (us @ vs) \<longleftrightarrow> lawful_from ns us \<and> lawful_from (ns @ us) vs"
  by (induction us arbitrary: ns) auto

lemma lawful_at: "lawful (as @ n # bs) \<Longrightarrow> lawful_note as n"
  by (simp add: lawful_from_append)

lemma readers_snoc [simp]:
  "goals_made (ns @ [n]) = goals_made ns @ made n"
  "status_in (ns @ [n]) i = status_after i n (status_in ns i)"
  "holder_in (ns @ [n]) i = holder_after i n (holder_in ns i)"
  "life_in (ns @ [n]) i = life_after i n (life_in ns i)"
  "logs_in (ns @ [n]) i = logs_in ns i @ logged i n"
  by (simp_all add: goals_made_def status_in_def holder_in_def life_in_def logs_in_def)

section \<open>Tables and trace agree\<close>

text \<open>
  The rows are the goals the trace made, in that order, with the status, the lease and the beat the trace
  tells; events are numbered from 1 for each goal and carry the times the trace tells; attempts belong to
  goals, with distinct ids and, for each goal, distinct numbers. Nothing is told of a goal not made.
\<close>

definition row_told :: "goal_note list \<Rightarrow> goal \<Rightarrow> bool" where
  "row_told ns g \<longleftrightarrow> gl_status g = status_in ns (gl_id g) \<and> gl_lease g = holder_in ns (gl_id g)
     \<and> gl_heartbeat g = life_in ns (gl_id g)"

definition times_of :: "goal_store \<Rightarrow> string \<Rightarrow> int list" where
  "times_of s i = map ge_created (filter (\<lambda>e. ge_goal e = i) (gs_events s))"

definition seqs_of :: "goal_store \<Rightarrow> string \<Rightarrow> nat list" where
  "seqs_of s i = map ge_seq (filter (\<lambda>e. ge_goal e = i) (gs_events s))"

definition tables_ok :: "goal_store \<Rightarrow> bool" where
  "tables_ok s \<longleftrightarrow> distinct (map gl_id (gs_goals s))
     \<and> ge_goal ` set (gs_events s) \<subseteq> gl_id ` set (gs_goals s)
     \<and> (\<forall>i. numbered (seqs_of s i))
     \<and> ga_goal ` set (gs_attempts s) \<subseteq> gl_id ` set (gs_goals s)
     \<and> distinct (map ga_id (gs_attempts s))
     \<and> distinct (map (\<lambda>a. (ga_goal a, ga_n a)) (gs_attempts s))"

definition untold :: "goal_note list \<Rightarrow> string \<Rightarrow> bool" where
  "untold ns i \<longleftrightarrow> status_in ns i = GoalRunning \<and> holder_in ns i = None \<and> life_in ns i = None"

definition goal_good :: "goal_note list \<Rightarrow> goal_store \<Rightarrow> bool" where
  "goal_good ns s \<longleftrightarrow> tables_ok s \<and> lawful ns
     \<and> map (\<lambda>g. (gl_id g, gl_started g)) (gs_goals s) = goals_made ns
     \<and> (\<forall>g \<in> set (gs_goals s). row_told ns g)
     \<and> (\<forall>i. times_of s i = logs_in ns i)
     \<and> (\<forall>i. fresh_note ns i \<longrightarrow> untold ns i)"

lemma goal_good_empty: "goal_good [] empty_goals"
  by (simp add: goal_good_def tables_ok_def empty_goals_def goals_made_def times_of_def seqs_of_def
      logs_in_def untold_def status_in_def holder_in_def life_in_def)

section \<open>Every call keeps them\<close>

definition only_about :: "string \<Rightarrow> goal_note \<Rightarrow> bool" where
  "only_about i n \<longleftrightarrow> made n = [] \<and> (\<forall>k. logged k n = []) \<and> (\<forall>k x. k \<noteq> i \<longrightarrow> status_after k n x = x)
     \<and> (\<forall>k x. k \<noteq> i \<longrightarrow> holder_after k n x = x) \<and> (\<forall>k x. k \<noteq> i \<longrightarrow> life_after k n x = x)"

lemma only_about_notes [simp]:
  "only_about i (StatusSet i st)" "only_about i (RunWrote i ow st)" "only_about i (Took i ow t)"
  "only_about i (Resumed i ow t)" "only_about i (Beat i ow t)"
  by (simp_all add: only_about_def)

lemma upd_goal_parts [simp]:
  "gs_events (snd (upd_goal i P f s)) = gs_events s"
  "gs_attempts (snd (upd_goal i P f s)) = gs_attempts s"
  "times_of (snd (upd_goal i P f s)) k = times_of s k"
  "seqs_of (snd (upd_goal i P f s)) k = seqs_of s k"
  by (simp_all add: upd_goal_def times_of_def seqs_of_def)

lemma upd_goal_rows:
  "gs_goals (snd (upd_goal i P f s)) = map (\<lambda>g. if gl_id g = i \<and> P g then f g else g) (gs_goals s)"
  by (simp add: upd_goal_def)

lemma upd_goal_missed: "\<not> fst (upd_goal i P f s) \<Longrightarrow> snd (upd_goal i P f s) = s"
proof -
  assume "\<not> fst (upd_goal i P f s)"
  then have "map (\<lambda>g. if gl_id g = i \<and> P g then f g else g) (gs_goals s) = gs_goals s"
    by (intro map_idI) (auto simp: upd_goal_def list_ex_iff)
  then show ?thesis by (simp add: upd_goal_def)
qed

lemma upd_goal_hit: "fst (upd_goal i P f s) \<longleftrightarrow> (\<exists>g \<in> set (gs_goals s). gl_id g = i \<and> P g)"
  by (auto simp: upd_goal_def list_ex_iff)

lemma map_key_upd:
  "(\<And>g. key (f g) = key g) \<Longrightarrow> map key (map (\<lambda>g. if Q g then f g else g) xs) = map key xs"
  by simp

lemma good_made: "goal_good ns s \<Longrightarrow> \<not> fresh_note ns i \<longleftrightarrow> i \<in> gl_id ` set (gs_goals s)"
proof -
  assume "goal_good ns s"
  then have "map fst (goals_made ns) = map gl_id (gs_goals s)"
    unfolding goal_good_def by (metis (no_types, lifting) comp_apply fst_conv list.map_comp map_eq_conv)
  then show ?thesis unfolding fresh_note_def by (metis image_set)
qed

lemma good_row: "goal_good ns s \<Longrightarrow> g \<in> set (gs_goals s) \<Longrightarrow> row_told ns g \<and> \<not> fresh_note ns (gl_id g)"
  using good_made [of ns s "gl_id g"] by (auto simp: goal_good_def)

text \<open>An update of one row, told by a note about it.\<close>

lemma told_upd:
  assumes good: "goal_good ns s" and about: "only_about i n" and ok: "lawful_note ns n"
    and old: "\<not> fresh_note ns i" and hit: "fst (upd_goal i P f s)"
    and keys: "\<And>g. gl_id (f g) = gl_id g" "\<And>g. gl_started (f g) = gl_started g"
    and told: "\<And>g. gl_id g = i \<Longrightarrow> P g \<Longrightarrow> row_told ns g \<Longrightarrow> row_told (ns @ [n]) (f g)"
  shows "goal_good (ns @ [n]) (snd (upd_goal i P f s))"
proof -
  let ?s = "snd (upd_goal i P f s)"
  have ids: "map gl_id (gs_goals ?s) = map gl_id (gs_goals s)"
    and rows: "map (\<lambda>g. (gl_id g, gl_started g)) (gs_goals ?s) = map (\<lambda>g. (gl_id g, gl_started g)) (gs_goals s)"
    unfolding upd_goal_rows by (auto simp: keys)
  then have idset: "gl_id ` set (gs_goals ?s) = gl_id ` set (gs_goals s)" by (metis image_set)
  have dist: "distinct (map gl_id (gs_goals s))" using good by (simp add: goal_good_def tables_ok_def)
  obtain g0 where g0: "g0 \<in> set (gs_goals s)" "gl_id g0 = i" "P g0" using hit by (auto simp: upd_goal_hit)
  have "row_told (ns @ [n]) g" if g: "g \<in> set (gs_goals ?s)" for g
  proof -
    obtain h where h: "h \<in> set (gs_goals s)" "g = (if gl_id h = i \<and> P h then f h else h)"
      using g by (auto simp: upd_goal_rows)
    have "row_told ns h" using good_row [OF good h(1)] by simp
    moreover have "gl_id h = i \<Longrightarrow> h = g0" using dist h(1) g0(1,2) by (auto simp: distinct_map inj_on_def)
    ultimately show ?thesis
      using h(2) g0(3) told [of h] about by (cases "gl_id h = i") (auto simp: row_told_def only_about_def)
  qed
  moreover have "fresh_note (ns @ [n]) k \<longrightarrow> untold (ns @ [n]) k" for k
    using good about old by (cases "k = i") (auto simp: goal_good_def only_about_def fresh_note_def untold_def)
  ultimately show ?thesis
    using good about ok ids rows idset
    by (simp add: goal_good_def tables_ok_def lawful_from_append only_about_def)
qed

text \<open>The call as a whole: what it hit was lawful to tell, and it told it.\<close>

lemma told_call:
  assumes good: "goal_good ns s" and act: "tell_if n (upd_goal i P f s) = (us, s')" and about: "only_about i n"
    and keys: "\<And>g. gl_id (f g) = gl_id g" "\<And>g. gl_started (f g) = gl_started g"
    and ok: "\<And>g. gl_id g = i \<Longrightarrow> P g \<Longrightarrow> row_told ns g \<Longrightarrow> \<not> fresh_note ns i \<Longrightarrow> lawful_note ns n"
    and told: "\<And>g. gl_id g = i \<Longrightarrow> P g \<Longrightarrow> row_told ns g \<Longrightarrow> row_told (ns @ [n]) (f g)"
  shows "goal_good (ns @ us) s'"
proof (cases "fst (upd_goal i P f s)")
  case True
  then obtain g where g: "g \<in> set (gs_goals s)" "gl_id g = i" "P g" by (auto simp: upd_goal_hit)
  have "row_told ns g" "\<not> fresh_note ns i" using good_row [OF good g(1)] g(2) by simp_all
  then show ?thesis using told_upd [OF good about ok _ True keys told] g act True by (auto simp: tell_if_def)
next
  case False
  then show ?thesis using upd_goal_missed [of i P f s] good act by (simp add: tell_if_def)
qed

lemma throwing_upd:
  "tell n s (case upd_goal i P f s of (hit, s') \<Rightarrow> if hit then Inr s' else Inl e) = tell_if n (upd_goal i P f s)"
  using upd_goal_missed [of i P f s] by (auto simp: tell_def tell_if_def split: prod.splits)

named_theorems goal_keeps \<open>a call keeps what tables and trace agree on\<close>

lemma set_status_keeps [goal_keeps]:
  "goal_good ns s \<Longrightarrow> goal_act (SetGoalStatus i st x) s = (us, s') \<Longrightarrow> goal_good (ns @ us) s'"
  unfolding goal_act.simps update_goal_status_def throwing_upd
  by (erule (1) told_call) (auto simp: row_told_def status_assignments_def)

lemma run_status_keeps [goal_keeps]:
  "goal_good ns s \<Longrightarrow> goal_act (RunGoalStatus i ow st x) s = (us, s') \<Longrightarrow> goal_good (ns @ us) s'"
  unfolding goal_act.simps update_run_status_def
  by (erule (1) told_call) (auto simp: row_told_def status_assignments_def)

lemma claim_goal_keeps [goal_keeps]:
  "goal_good ns s \<Longrightarrow> goal_act (ClaimGoal now i ow) s = (us, s') \<Longrightarrow> goal_good (ns @ us) s'"
  unfolding goal_act.simps claim_goal_def by (erule (1) told_call) (auto simp: row_told_def)

lemma resume_goal_keeps [goal_keeps]:
  "goal_good ns s \<Longrightarrow> goal_act (ResumeGoal now i ow) s = (us, s') \<Longrightarrow> goal_good (ns @ us) s'"
  unfolding goal_act.simps resume_goal_def by (erule (1) told_call) (auto simp: row_told_def)

lemma beat_goal_keeps [goal_keeps]:
  "goal_good ns s \<Longrightarrow> goal_act (BeatGoal now i ow) s = (us, s') \<Longrightarrow> goal_good (ns @ us) s'"
  unfolding goal_act.simps heartbeat_goal_def by (erule (1) told_call) (auto simp: row_told_def)

text \<open>The calls that tell nothing.\<close>

lemma silent_rows:
  assumes "goal_good ns s" "tables_ok s'" "gs_goals s' = map f (gs_goals s)" "gs_events s' = gs_events s"
    "\<And>g. gl_id (f g) = gl_id g \<and> gl_started (f g) = gl_started g \<and> gl_status (f g) = gl_status g
       \<and> gl_lease (f g) = gl_lease g \<and> gl_heartbeat (f g) = gl_heartbeat g"
  shows "goal_good ns s'"
  using assms by (simp add: goal_good_def row_told_def times_of_def comp_def)

lemma bump_resumes_keeps [goal_keeps]:
  assumes good: "goal_good ns s" and act: "goal_act (BumpResumes i) s = (us, s')"
  shows "goal_good (ns @ us) s'"
proof -
  let ?f = "\<lambda>g. g\<lparr>gl_resumes := gl_resumes g + 1\<rparr>"
  let ?s = "snd (upd_goal i (\<lambda>_. True) ?f s)"
  have s': "us = [] \<and> (s' = s \<or> s' = ?s)"
    using act by (auto simp: increment_resume_count_def split: prod.splits if_splits)
  have ids: "map gl_id (gs_goals ?s) = map gl_id (gs_goals s)" by (simp add: upd_goal_rows)
  then have "gl_id ` set (gs_goals ?s) = gl_id ` set (gs_goals s)" by (metis image_set)
  then have "tables_ok ?s" using good ids by (simp add: goal_good_def tables_ok_def)
  then have "goal_good ns ?s"
    by (rule silent_rows [OF good, where f = "\<lambda>g. if gl_id g = i \<and> True then ?f g else g"])
      (simp_all add: upd_goal_rows)
  with s' good show ?thesis by auto
qed

lemma save_attempt_keeps [goal_keeps]:
  assumes good: "goal_good ns s" and act: "goal_act (SaveAttempt i a) s = (us, s')"
  shows "goal_good (ns @ us) s'"
proof -
  have "tables_ok t" if t: "save_attempt i a s = Inr t" for t
  proof -
    have "i \<notin> ga_id ` set (gs_attempts s)" "(ga_goal a, ga_n a) \<notin> (\<lambda>b. (ga_goal b, ga_n b)) ` set (gs_attempts s)"
      "ga_goal a \<in> gl_id ` set (gs_goals s)"
      using t by (force simp: save_attempt_def get_goal_def find_None_iff list_ex_iff split: if_splits)+
    moreover have "t = s\<lparr>gs_attempts := gs_attempts s @ [a\<lparr>ga_id := i, ga_artifacts := kept_json (ga_artifacts a)\<rparr>]\<rparr>"
      using t by (simp add: save_attempt_def split: if_splits)
    ultimately show ?thesis using good by (simp add: goal_good_def tables_ok_def seqs_of_def)
  qed
  moreover have "goal_good ns t" if t: "save_attempt i a s = Inr t" and "tables_ok t" for t
  proof (rule silent_rows [OF good that(2), where f = "\<lambda>g. g"])
    show "gs_goals t = map (\<lambda>g. g) (gs_goals s)" "gs_events t = gs_events s"
      using t by (auto simp: save_attempt_def split: if_splits)
  qed simp
  ultimately show ?thesis using good act by (cases "save_attempt i a s") auto
qed

lemma patch_keys [simp]:
  "ga_id (patch_attempt p a) = ga_id a" "ga_goal (patch_attempt p a) = ga_goal a" "ga_n (patch_attempt p a) = ga_n a"
  by (simp_all add: patch_attempt_def)

lemma patch_attempt_keeps [goal_keeps]:
  assumes good: "goal_good ns s" and act: "goal_act (PatchAttempt i n p) s = (us, s')"
  shows "goal_good (ns @ us) s'"
proof -
  let ?h = "\<lambda>a. if ga_goal a = i \<and> ga_n a = n then patch_attempt p a else a"
  let ?s = "s\<lparr>gs_attempts := map ?h (gs_attempts s)\<rparr>"
  have s': "us = [] \<and> (s' = s \<or> s' = ?s)"
    using act by (auto simp: update_attempt_def split: if_splits)
  have "map ga_id (map ?h (gs_attempts s)) = map ga_id (gs_attempts s)"
    "map (\<lambda>a. (ga_goal a, ga_n a)) (map ?h (gs_attempts s)) = map (\<lambda>a. (ga_goal a, ga_n a)) (gs_attempts s)"
    by simp_all
  moreover have "ga_goal ` set (map ?h (gs_attempts s)) = ga_goal ` set (gs_attempts s)"
    unfolding set_map image_image by (rule image_cong) auto
  ultimately have "tables_ok ?s"
    using good by (simp add: goal_good_def tables_ok_def seqs_of_def del: map_map set_map list.map_comp)
  then have "goal_good ns ?s" by (rule silent_rows [OF good, where f = "\<lambda>g. g"]) simp_all
  with s' good show ?thesis by auto
qed

lemma create_goal_keeps [goal_keeps]:
  assumes good: "goal_good ns s" and act: "goal_act (CreateGoal now i inp) s = (us, s')"
  shows "goal_good (ns @ us) s'"
proof (cases "get_goal s i")
  case None
  then have new: "i \<notin> gl_id ` set (gs_goals s)" by (auto simp: get_goal_def find_None_iff)
  then have fresh: "fresh_note ns i" using good_made [OF good, of i] by blast
  have s': "us = [Created i now]" "s' = s\<lparr>gs_goals := gs_goals s @ [new_goal now i inp]\<rparr>"
    using act None by (auto simp: create_goal_def tell_def)
  have "row_told (ns @ us) (new_goal now i inp)"
    using good fresh s' by (auto simp: goal_good_def untold_def row_told_def new_goal_def)
  moreover have "fresh_note (ns @ us) k \<longrightarrow> untold (ns @ us) k" for k
    using good s' by (auto simp: goal_good_def untold_def fresh_note_def)
  ultimately show ?thesis using good new fresh s'
    by (auto simp: goal_good_def tables_ok_def seqs_of_def times_of_def row_told_def new_goal_def lawful_from_append)
qed (use good act in \<open>auto simp: create_goal_def tell_def\<close>)

lemma log_goal_keeps [goal_keeps]:
  assumes good: "goal_good ns s" and act: "goal_act (LogGoal now i ty p) s = (us, s')"
  shows "goal_good (ns @ us) s'"
proof (cases "get_goal s i")
  case (Some g)
  then have old: "i \<in> gl_id ` set (gs_goals s)" by (auto simp: get_goal_def find_Some_iff)
  then have told: "\<not> fresh_note ns i" using good_made [OF good, of i] by blast
  let ?e = "\<lparr>ge_id = next_id (map ge_id (gs_events s)), ge_goal = i, ge_seq = next_id (seqs_of s i),
    ge_type = ty, ge_payload = p, ge_created = now\<rparr>"
  have s': "us = [Logged i now]" "s' = s\<lparr>gs_events := gs_events s @ [?e]\<rparr>"
    using act Some by (auto simp: append_goal_event_def tell_def seqs_of_def)
  have "numbered (seqs_of s' k)" for k
    using good numbered_snoc [of "seqs_of s k"] s' by (auto simp: goal_good_def tables_ok_def seqs_of_def)
  moreover have "times_of s' k = logs_in (ns @ us) k" for k
    using good s' by (auto simp: goal_good_def times_of_def)
  ultimately show ?thesis using good old told s'
    by (simp add: goal_good_def tables_ok_def row_told_def untold_def fresh_note_def lawful_from_append)
qed (use good act in \<open>auto simp: append_goal_event_def tell_def\<close>)

text \<open>The sweep takes the goals the trace calls silent.\<close>

lemma fold_max_le: "fold max ts t \<le> u \<longleftrightarrow> t \<le> u \<and> list_all (\<lambda>x. x \<le> u) (ts :: int list)"
  by (induction ts arbitrary: t) auto

lemma last_event_le:
  "last_event s i \<le> u \<longleftrightarrow> list_all (\<lambda>t. t \<le> u) (times_of s i) \<and> (times_of s i = [] \<longrightarrow> 0 \<le> u)"
  by (simp add: last_event_def times_of_def [symmetric] fold_max_le split: list.split)

lemma quiet_iff_silent:
  assumes "goal_good ns s" "g \<in> set (gs_goals s)"
  shows "goal_quiet s u g \<longleftrightarrow>
    executing (status_in ns (gl_id g)) \<and> silent_since ns u (gl_id g, gl_started g)"
  using good_row [OF assms] assms(1)
  by (auto simp: goal_quiet_def silent_since_def row_told_def last_event_le goal_good_def split: option.splits)

lemma sweep_keeps_told [goal_keeps]:
  assumes good: "goal_good ns s" and act: "goal_act (SweepGoals stale now) s = (us, s')"
  shows "goal_good (ns @ us) s'"
proof -
  let ?u = "now - stale"
  let ?is = "map gl_id (filter (goal_quiet s ?u) (gs_goals s))"
  let ?f = "\<lambda>g. if goal_quiet s ?u g then g\<lparr>gl_status := GoalInterrupted\<rparr> else g"
  have s': "us = [Swept ?is ?u]" "s' = s\<lparr>gs_goals := map ?f (gs_goals s)\<rparr>"
    using act by (simp_all add: interrupt_stale_def Let_def)
  have dist: "distinct (map gl_id (gs_goals s))" using good by (simp add: goal_good_def tables_ok_def)
  have "?is = map fst (filter (\<lambda>g. executing (status_in ns (fst g)) \<and> silent_since ns ?u g)
      (map (\<lambda>g. (gl_id g, gl_started g)) (gs_goals s)))"
    by (simp add: filter_map comp_def) (rule arg_cong [where f = "map gl_id"], rule filter_cong;
        simp add: quiet_iff_silent [OF good])
  then have law: "lawful_note ns (Swept ?is ?u)" using good by (simp add: goal_good_def)
  have row: "row_told (ns @ us) (?f g)" if g: "g \<in> set (gs_goals s)" for g
  proof -
    have "gl_id g \<in> set ?is \<longleftrightarrow> goal_quiet s ?u g"
      using dist g by (auto simp: distinct_map inj_on_def)
    then show ?thesis using good_row [OF good g] s' by (auto simp: row_told_def)
  qed
  have keys: "map (\<lambda>g. (gl_id g, gl_started g)) (map ?f (gs_goals s)) = map (\<lambda>g. (gl_id g, gl_started g)) (gs_goals s)"
    "map gl_id (map ?f (gs_goals s)) = map gl_id (gs_goals s)" by simp_all
  then have ids: "gl_id ` set (map ?f (gs_goals s)) = gl_id ` set (gs_goals s)" by (metis image_set)
  have "fresh_note (ns @ us) k \<longrightarrow> untold (ns @ us) k" for k
    using good good_made [OF good, of k] s' by (auto simp: goal_good_def untold_def fresh_note_def)
  moreover have "tables_ok s'" using good keys(2) ids s'
    by (simp add: goal_good_def tables_ok_def seqs_of_def del: map_map set_map list.map_comp)
  moreover have "lawful (ns @ us)" using good law s'(1) by (simp add: goal_good_def lawful_from_append)
  moreover have "map (\<lambda>g. (gl_id g, gl_started g)) (gs_goals s') = goals_made (ns @ us)"
    using good keys(1) s' by (simp add: goal_good_def)
  moreover have "set (gs_goals s') = ?f ` set (gs_goals s)" using s'(2) by simp
  then have "\<forall>g \<in> set (gs_goals s'). row_told (ns @ us) g"
    by (simp only: ball_simps) (intro ballI row)
  moreover have "times_of s' k = logs_in (ns @ us) k" for k using good s' by (simp add: goal_good_def times_of_def)
  ultimately show ?thesis by (simp add: goal_good_def)
qed

lemma goal_act_keeps: "goal_good ns s \<Longrightarrow> goal_act c s = (us, s') \<Longrightarrow> goal_good (ns @ us) s'"
  by (cases c) (simp_all only: goal_keeps)

interpretation goal_notes: noted_machine goal_act goal_good
  by unfold_locales (rule goal_act_keeps)

end
