(* ===== verification/GoalProps.thy ===== *)
theory GoalProps
  imports GoalLaws
begin

text \<open>
  What the store of goals promises its runs and the people who cancel them, over every history of calls on
  one database.
\<close>

lemma goals_reached: "noted_run goal_act cs empty_goals = (ns, s) \<Longrightarrow> goal_good ns s"
  using goal_notes.run_good [OF goal_good_empty, of cs ns s] by simp

lemma row_of: "goal_good ns s \<Longrightarrow> get_goal s i = Some g \<Longrightarrow> row_told ns g \<and> gl_id g = i \<and> \<not> fresh_note ns i"
  using good_row [of ns s g] find_SomeD by (fastforce simp: get_goal_def)

text \<open>A conditional update applies when the row the trace tells of meets its condition.\<close>

lemma hit_told:
  assumes good: "goal_good ns s" and cond: "\<And>g. row_told ns g \<Longrightarrow> gl_id g = i \<Longrightarrow> P g = Q"
  shows "fst (upd_goal i P f s) \<longleftrightarrow> \<not> fresh_note ns i \<and> Q"
  using good_made [OF good, of i] good_row [OF good] cond unfolding upd_goal_hit by (auto simp: image_iff)

lemma goal_tables_sound: "noted_run goal_act cs empty_goals = (ns, s) \<Longrightarrow> tables_ok s"
  using goals_reached [of cs ns s] by (simp add: goal_good_def)

lemma goal_history_lawful:
  assumes "noted_run goal_act cs empty_goals = (as @ n # bs, s)"
  shows "lawful_note as n"
  using goals_reached [OF assms] lawful_at [of as n bs] unfolding goal_good_def by blast

section \<open>Runs\<close>

definition held_by :: "goal_note list \<Rightarrow> string \<Rightarrow> string \<Rightarrow> bool" where
  "held_by ns i ow = (holder_in ns i \<in> {None, Some ow})"

text \<open>
  C14: A run is fenced by its lease. After any history of calls, a run's status write applies exactly when
  the goal exists, was not cancelled, and the last run to claim or resume it is this one, or there was
  none; the run's beat succeeds exactly when it is this one. A write or a beat that does not apply changes
  nothing.
\<close>

theorem goal_run_fenced:
  assumes "noted_run goal_act cs empty_goals = (ns, s)"
  shows "fst (update_run_status i ow st x s) =
           (\<not> fresh_note ns i \<and> status_in ns i \<noteq> GoalCancelled \<and> held_by ns i ow)
    \<and> fst (heartbeat_goal now i ow s) =
           (\<not> fresh_note ns i \<and> status_in ns i \<noteq> GoalCancelled \<and> holder_in ns i = Some ow)
    \<and> (\<not> fst (update_run_status i ow st x s) \<longrightarrow> snd (update_run_status i ow st x s) = s)
    \<and> (\<not> fst (heartbeat_goal now i ow s) \<longrightarrow> snd (heartbeat_goal now i ow s) = s)"
  using hit_told [OF goals_reached [OF assms]] upd_goal_missed
  unfolding update_run_status_def heartbeat_goal_def held_by_def
  by (auto simp: row_told_def)

definition plain_goal :: goal_input where
  "plain_goal = \<lparr>gi_user = ''u'', gi_personality = ''p'', gi_origin = ''cli'', gi_session = None,
     gi_title = ''t'', gi_text = ''do it'', gi_acceptance = None, gi_max_attempts = None, gi_max_cost = None,
     gi_deadline = None, gi_tool_cap = None, gi_identical = None, gi_dangerous = None, gi_recoveries = None\<rparr>"

definition resumed_history :: "goal_call list" where
  "resumed_history = [CreateGoal 10 ''g'' plain_goal, ClaimGoal 11 ''g'' ''a'',
     SetGoalStatus ''g'' GoalCancelled no_extra, ResumeGoal 20 ''g'' ''b'']"

definition resumed_notes :: "goal_note list" where
  "resumed_notes = [Created ''g'' 10, Took ''g'' ''a'' 11, StatusSet ''g'' GoalCancelled, Resumed ''g'' ''b'' 20]"

lemma resumed_runs: "fst (noted_run goal_act resumed_history empty_goals) = resumed_notes"
  by code_simp

theorem goal_run_fenced_witness:
  "let s = snd (noted_run goal_act resumed_history empty_goals) in
     fst (update_run_status ''g'' ''b'' GoalJudging no_extra s) \<and> fst (heartbeat_goal 30 ''g'' ''b'' s)
     \<and> snd (update_run_status ''g'' ''a'' GoalCompleted no_extra s) = s \<and> snd (heartbeat_goal 30 ''g'' ''a'' s) = s"
proof -
  let ?s = "snd (noted_run goal_act resumed_history empty_goals)"
  have run: "noted_run goal_act resumed_history empty_goals = (resumed_notes, ?s)"
    using resumed_runs by (metis prod.collapse)
  have told: "\<not> fresh_note resumed_notes ''g''" "status_in resumed_notes ''g'' = GoalRunning"
    "holder_in resumed_notes ''g'' = Some ''b''" by code_simp+
  show ?thesis
    using goal_run_fenced [OF run, of "''g''" "''b''" GoalJudging no_extra 30]
      goal_run_fenced [OF run, of "''g''" "''a''" GoalCompleted no_extra 30] told
    by (simp add: held_by_def Let_def)
qed

text \<open>The calls that can take a cancel back: a resume of the goal, or a plain status write on it.\<close>

fun revives :: "string \<Rightarrow> goal_call \<Rightarrow> bool" where
  "revives i (SetGoalStatus k st x) = (k = i)"
| "revives i (ResumeGoal now k ow) = (k = i)"
| "revives i _ = False"

text \<open>What a claim or a counted resume may change of a cancelled goal.\<close>

definition same_but_lease :: "goal \<Rightarrow> goal \<Rightarrow> bool" where
  "same_but_lease g h = (h = g\<lparr>gl_lease := gl_lease h, gl_heartbeat := gl_heartbeat h, gl_resumes := gl_resumes h\<rparr>)"

lemma get_goal_map:
  assumes "\<And>g. gl_id (f g) = gl_id g"
  shows "get_goal (s\<lparr>gs_goals := map f (gs_goals s)\<rparr>) i = map_option f (get_goal s i)"
  unfolding get_goal_def by (simp add: find_map_other assms)

lemma get_goal_upd:
  assumes "\<And>g. gl_id (f g) = gl_id g"
  shows "get_goal (snd (upd_goal k P f s)) i = map_option (\<lambda>g. if gl_id g = k \<and> P g then f g else g) (get_goal s i)"
  unfolding upd_goal_def by (simp add: get_goal_map assms)

lemma same_but_lease_trans: "same_but_lease f g \<Longrightarrow> same_but_lease g h \<Longrightarrow> same_but_lease f h"
  by (cases f, cases g, cases h) (simp add: same_but_lease_def)

lemma same_but_lease_cancelled: "same_but_lease g h \<Longrightarrow> gl_status h = gl_status g"
  by (cases g, cases h) (simp add: same_but_lease_def)

lemma tell_if_snd [simp]: "snd (tell_if n r) = snd r"
  by (simp add: tell_if_def)

lemma tell_snd [simp]: "snd (tell n s r) = settle r s"
  by (cases r) (simp_all add: tell_def)

text \<open>What one update leaves of a cancelled goal it does not revive.\<close>

lemma cancelled_upd:
  assumes g: "get_goal s i = Some g" "gl_status g = GoalCancelled" and id: "\<And>g. gl_id (f g) = gl_id g"
    and same: "gl_id g = k \<Longrightarrow> P g \<Longrightarrow> same_but_lease g (f g)"
  shows "\<exists>h. get_goal (snd (upd_goal k P f s)) i = Some h \<and> same_but_lease g h"
  using assms by (auto simp: get_goal_upd same_but_lease_def)

lemma settle_upd:
  "settle (case upd_goal k P f s of (hit, s') \<Rightarrow> if hit then Inr s' else Inl e) s = snd (upd_goal k P f s)"
  using upd_goal_missed [of k P f s] by (auto split: prod.splits)

lemma get_goal_same_rows: "gs_goals s' = gs_goals s \<Longrightarrow> get_goal s' i = get_goal s i"
  by (simp add: get_goal_def)

lemma cancelled_step:
  assumes g: "get_goal s i = Some g" "gl_status g = GoalCancelled" and c: "\<not> revives i c"
  shows "\<exists>h. get_goal (snd (goal_act c s)) i = Some h \<and> same_but_lease g h"
proof -
  have id: "gl_id g = i" using g(1) by (auto simp: get_goal_def find_Some_iff)
  have refl: "same_but_lease g g" by (simp add: same_but_lease_def)
  show ?thesis
  proof (cases c)
    case (CreateGoal now k inp)
    then show ?thesis using g refl
      by (auto simp: create_goal_def get_goal_def find_append)
  next
    case (SetGoalStatus k st x)
    then show ?thesis using c id
      by (simp add: update_goal_status_def settle_upd) (rule cancelled_upd [OF g]; simp add: status_assignments_def)
  next
    case (RunGoalStatus k ow st x)
    then show ?thesis
      by (simp add: update_run_status_def) (rule cancelled_upd [OF g]; simp add: status_assignments_def g)
  next
    case (BumpResumes k)
    then show ?thesis
      by (simp add: increment_resume_count_def settle_upd) (rule cancelled_upd [OF g]; simp add: same_but_lease_def)
  next
    case (ClaimGoal now k ow)
    then show ?thesis
      by (simp add: claim_goal_def) (rule cancelled_upd [OF g]; simp add: same_but_lease_def)
  next
    case (ResumeGoal now k ow)
    then show ?thesis using c id by (simp add: resume_goal_def) (rule cancelled_upd [OF g]; simp)
  next
    case (BeatGoal now k ow)
    then show ?thesis by (simp add: heartbeat_goal_def) (rule cancelled_upd [OF g]; simp add: g)
  next
    case (SweepGoals stale now)
    then show ?thesis using g refl
      by (simp add: interrupt_stale_def Let_def get_goal_map goal_quiet_def executing_def)
  next
    case (LogGoal now k ty p)
    then show ?thesis using g refl by (simp add: append_goal_event_def get_goal_def)
  next
    case (SaveAttempt k a)
    then show ?thesis using g refl by (simp add: save_attempt_def get_goal_def)
  next
    case (PatchAttempt k n p)
    then show ?thesis using g refl by (simp add: update_attempt_def get_goal_def)
  qed
qed

text \<open>
  C15: A cancel stands. Once a goal is cancelled no history of calls changes its row, but for its lease and
  its count of resumes, as long as nobody resumes the goal and no plain status write is made on it: the
  runs, their beats and the sweeps of all processes included.
\<close>

theorem goal_cancel_stands:
  assumes "get_goal s i = Some g" "gl_status g = GoalCancelled" "list_all (\<lambda>c. \<not> revives i c) cs"
  shows "\<exists>h. get_goal (snd (noted_run goal_act cs s)) i = Some h \<and> same_but_lease g h"
  using assms
proof (induction cs arbitrary: s g)
  case (Cons c cs)
  obtain h where h: "get_goal (snd (goal_act c s)) i = Some h" "same_but_lease g h"
    using cancelled_step [of s i g c] Cons.prems by auto
  have "\<exists>k. get_goal (snd (noted_run goal_act cs (snd (goal_act c s)))) i = Some k \<and> same_but_lease h k"
    using Cons h same_but_lease_cancelled [OF h(2)] by simp
  then show ?case using h(2) same_but_lease_trans by (auto simp: case_prod_unfold)
qed (simp add: same_but_lease_def)

definition late_calls :: "goal_call list" where
  "late_calls = [RunGoalStatus ''g'' ''a'' GoalCompleted no_extra, BeatGoal 21 ''g'' ''a'', SweepGoals 5 90]"

theorem goal_cancel_stands_witness:
  "\<exists>h. get_goal (snd (noted_run goal_act late_calls (snd (noted_run goal_act (take 3 resumed_history) empty_goals)))) ''g''
     = Some h \<and> gl_status h = GoalCancelled"
proof -
  let ?s = "snd (noted_run goal_act (take 3 resumed_history) empty_goals)"
  have "map_option gl_status (get_goal ?s ''g'') = Some GoalCancelled" by code_simp
  then obtain g where g: "get_goal ?s ''g'' = Some g" "gl_status g = GoalCancelled" by auto
  have "list_all (\<lambda>c. \<not> revives ''g'' c) late_calls" by (simp add: late_calls_def)
  from goal_cancel_stands [OF g this] show ?thesis
    using same_but_lease_cancelled g(2) by metis
qed

section \<open>Sweeps and resumes\<close>

definition swept_in :: "goal_note list \<Rightarrow> int \<Rightarrow> string list" where
  "swept_in ns t =
     map fst (filter (\<lambda>g. executing (status_in ns (fst g)) \<and> silent_since ns t g) (goals_made ns))"

text \<open>
  C17: A sweep interrupts exactly the goals that look abandoned. After any history of calls it returns, in
  the order they were created, the goals that are executing and whose last claim, resume or beat is at
  least \<open>staleMs\<close> old or, when no run ever took them, whose creation and events all are; so a goal whose
  run beat later than that is spared, and each goal it returns is interrupted.
\<close>

theorem goal_sweep_exact:
  assumes "noted_run goal_act cs empty_goals = (ns, s)"
  shows "fst (interrupt_stale stale now s) = swept_in ns (now - stale)
    \<and> (\<forall>g \<in> set (gs_goals s). gl_id g \<in> set (swept_in ns (now - stale)) \<longrightarrow>
         map_option gl_status (get_goal (snd (interrupt_stale stale now s)) (gl_id g)) = Some GoalInterrupted)
    \<and> (\<forall>i t. life_in ns i = Some t \<and> now - stale < t \<longrightarrow> i \<notin> set (swept_in ns (now - stale)))"
proof -
  have good: "goal_good ns s" using goals_reached [OF assms] .
  have "lawful_note ns (Swept (fst (interrupt_stale stale now s)) (now - stale))"
    using goal_act_keeps [OF good, of "SweepGoals stale now"]
    by (auto simp: case_prod_unfold goal_good_def lawful_from_append)
  then have eq: "fst (interrupt_stale stale now s) = swept_in ns (now - stale)" by (simp add: swept_in_def)
  have dist: "distinct (map gl_id (gs_goals s))" using good by (simp add: goal_good_def tables_ok_def)
  have "map_option gl_status (get_goal (snd (interrupt_stale stale now s)) (gl_id g)) = Some GoalInterrupted"
    if "g \<in> set (gs_goals s)" "gl_id g \<in> set (swept_in ns (now - stale))" for g
  proof -
    have "get_goal s (gl_id g) = Some g" using that(1) dist by (simp add: get_goal_def find_key_iff)
    moreover have "goal_quiet s (now - stale) g"
      using that dist unfolding eq [symmetric] by (auto simp: interrupt_stale_def Let_def distinct_map inj_on_def)
    ultimately show ?thesis by (simp add: interrupt_stale_def Let_def get_goal_map)
  qed
  moreover have "i \<notin> set (swept_in ns (now - stale))" if "life_in ns i = Some t" "now - stale < t" for i t
    using that by (auto simp: swept_in_def silent_since_def)
  ultimately show ?thesis using eq by blast
qed

text \<open>The notes of a resume, and those that end a goal so that it can be resumed.\<close>

fun resumes :: "string \<Rightarrow> goal_note \<Rightarrow> bool" where
  "resumes i (Resumed k ow t) = (k = i)"
| "resumes i _ = False"

fun ends_goal :: "string \<Rightarrow> goal_note \<Rightarrow> bool" where
  "ends_goal i (StatusSet k st) = (k = i \<and> resumable st)"
| "ends_goal i (RunWrote k ow st) = (k = i \<and> resumable st)"
| "ends_goal i (Swept is t) = (i \<in> set is)"
| "ends_goal i _ = False"

lemma resumes_bound:
  "lawful_from as bs \<Longrightarrow>
     length (filter (resumes i) bs) + (if resumable (status_in (as @ bs) i) then 1 else 0)
       \<le> length (filter (ends_goal i) bs) + (if resumable (status_in as i) then 1 else 0)"
proof (induction bs rule: rev_induct)
  case (snoc n bs)
  have "lawful_from as bs" "lawful_note (as @ bs) n" using snoc.prems by (auto simp: lawful_from_append)
  then show ?case using snoc.IH unfolding append_assoc [symmetric] readers_snoc
    by (cases n) (auto simp: resumable_def split: if_splits)
qed simp

text \<open>
  C16: Of the processes that resume one goal, one wins. In any stretch of any history of calls, a goal is
  resumed at most once more often than it ended in it, that is, failed, was cancelled or was interrupted;
  without such an end at most one resume succeeds, whoever asks and however often. And whoever asks while
  the goal has ended does succeed.
\<close>

theorem goal_resumed_once:
  assumes "noted_run goal_act cs empty_goals = (as @ bs @ ds, s)"
  shows "length (filter (resumes i) bs) \<le> 1 + length (filter (ends_goal i) bs)
    \<and> fst (resume_goal now i ow s) =
        (\<not> fresh_note (as @ bs @ ds) i \<and> resumable (status_in (as @ bs @ ds) i))"
proof -
  have good: "goal_good (as @ bs @ ds) s" using goals_reached [OF assms] .
  then have "lawful_from as bs" by (simp add: goal_good_def lawful_from_append)
  from resumes_bound [OF this, of i] have "length (filter (resumes i) bs) \<le> 1 + length (filter (ends_goal i) bs)"
    by (auto split: if_splits)
  moreover have "fst (resume_goal now i ow s) =
      (\<not> fresh_note (as @ bs @ ds) i \<and> resumable (status_in (as @ bs @ ds) i))"
    unfolding resume_goal_def by (rule hit_told [OF good]) (simp add: row_told_def)
  ultimately show ?thesis by simp
qed

theorem goal_sweep_exact_witness:
  "fst (interrupt_stale 60 100 (snd (noted_run goal_act resumed_history empty_goals))) = [''g'']
   \<and> fst (interrupt_stale 90 100 (snd (noted_run goal_act resumed_history empty_goals))) = []"
proof -
  let ?s = "snd (noted_run goal_act resumed_history empty_goals)"
  have run: "noted_run goal_act resumed_history empty_goals = (resumed_notes, ?s)"
    using resumed_runs by (metis prod.collapse)
  have "swept_in resumed_notes (100 - 60) = [''g'']" "swept_in resumed_notes (100 - 90) = []" by code_simp+
  then show ?thesis
    using goal_sweep_exact [OF run, of 60 100] goal_sweep_exact [OF run, of 90 100] by simp
qed

theorem goal_resumed_once_witness:
  "length (filter (resumes ''g'') (fst (noted_run goal_act (resumed_history @ [ResumeGoal 21 ''g'' ''c'']) empty_goals))) \<le> 2"
proof -
  let ?r = "noted_run goal_act (resumed_history @ [ResumeGoal 21 ''g'' ''c'']) empty_goals"
  have ns: "fst ?r = resumed_notes" by code_simp
  have "?r = ([] @ resumed_notes @ [], snd ?r)" using ns by (metis append_Nil append_Nil2 prod.collapse)
  from goal_resumed_once [OF this, of "''g''"] show ?thesis
    unfolding ns by (simp add: resumed_notes_def resumable_def)
qed

end
