(* ===== verification/Spec2Isabelle.thy ===== *)
theory Spec2Isabelle
  imports KanbanProps Lanes BatchRun Limiter Breaker PauseClock Hooks Budgets Chain ToolNames ToolRegistry
    Pairing ChannelFilter JobLife GatewayRuns Chunking LaneKeys FrameCodec ShimFrames
    OutboxProps DeliveryProps SafeFetchProps FsReachProps GoalProps
begin

text \<open>
  A verification library for ethos, an agent runtime in TypeScript. A message arrives from a channel,
  passes the channel filter (packages/safety/channel), waits in the lane of its session
  (packages/session-lane), and runs as a turn: the provider chain (packages/core/src/providers) streams
  the model's answer, the hook registry and the turn budgets (packages/core) decide how it goes on, and
  the tool registry (packages/core/src/tool-registry.ts) offers and runs its tools. Work that outlives a
  turn is a ticket on the kanban board (extensions/kanban-store), from which workers claim runs; batches
  of prompts go through the batch runner (extensions/batch-runner), and background jobs are rows of the job
  store (extensions/job-store) that executors claim and gateways announce; a goal that runs for many turns is a
  row of the goal store (extensions/goal-store), which one run at a time holds by a lease. Around a turn, the gateway
  (extensions/gateway) keeps every message it owes an answer in the inbound spool (extensions/inbound-spool),
  names its conversation with a lane key (packages/core/src/lane-key.ts) and cuts its answer into the
  messages the channel allows; the delivery ledger (extensions/delivery-ledger) holds each reply until a platform
  confirmed it. What an agent wants to publish waits in the outbox (extensions/outbox) until a
  human approves it. Around them stand gates on time: the
  limiters of the agent-to-agent endpoint (packages/a2a), the circuit breaker of the decision provider
  (extensions/decision-typesafe) and the pause clock (extensions/pause-clock).

  How code becomes theory. A class with fields is a record, its methods are functions from the record
  to the record (with an answer, or an error as the left of a sum); a union of string literals is a
  datatype; a throw is \<open>Inl\<close>; a SQL table is a list of rows in rowid order and a transaction that throws
  leaves the state before it (\<open>settle\<close>, \<open>run_live\<close> of \<open>Prelude\<close>). Interleaving is explicit: where
  methods await, the model has one step per resumption and a theorem ranges over all event lists. The
  clock is an argument. What is not in the repository is an argument too: the answers of a provider, a
  plugin handler, a tool, a hash; nothing is assumed of them except where a theorem says so. Numbers are
  \<open>int\<close>, \<open>nat\<close> or \<open>rat\<close> as the source uses them; the one hash that wraps (FNV-1a of MCP names) is on
  \<open>32 word\<close>, and the audio frames are on \<open>8 word\<close> and \<open>16 word\<close>. Everything is executable; no definition
  needs fuel, since each loop runs over a list or has a measure, and the lanes, batches, stores and the
  gateway are step functions that a list of events drives. The chunkers' loops, which a limit too small
  would keep from advancing, are \<open>partial_function\<close>s whose results are proved to exist.

  The theories, in the order of the imports:

  \<^item> \<open>Prelude\<close>: results and their sequencing, the contract \<open>inv_machine\<close> of a machine that keeps an
    invariant through failing steps, insertion-ordered maps, strings.
  \<^item> \<open>KanbanModel\<close>, \<open>KanbanOps\<close>, \<open>KanbanSweeps\<close>: the board of KanbanStore
    (extensions/kanban-store/src/index.ts, autonomy-tier.ts), its single-ticket operations
    (createTask, updateStatus, completeRun, blockRun, heartbeatRun, reclaimTask, link) and its composed
    ones (bulk updates, createSwarm, promoteReady, rollups, the staleness gates).
    \<open>KanbanInv\<close> and \<open>KanbanSafe\<close> state the board invariant (running exactly with one open run of its
    own; links acyclic and between tasks; the cap on running tasks) and prove that every operation keeps
    it; \<open>KanbanProps\<close> runs whole histories of calls and states what the operations do.
  \<^item> \<open>Lanes\<close>: SessionLane and the batch runner's Semaphore, both interpretations of one first-in
    first-out contract \<open>fifo_service\<close>.
  \<^item> \<open>BatchRun\<close>: BatchRunner.run and runTask as interleaved steps: the bound on concurrency, the accounting
    of tasks, the soundness of checkpoints, and how concurrent saves can lose one.
  \<^item> \<open>Limiter\<close>: the contracts \<open>sliding_window\<close> and \<open>exact_window\<close>, interpreted on the two gates of
    packages/a2a/src/limiter.ts (and on the decline window in \<open>Pairing\<close>).
  \<^item> \<open>Breaker\<close>: breaker.ts and the call through it, refined against the state machine of its comment.
  \<^item> \<open>PauseClock\<close>: the watchdog and the delivery of detected pauses.
  \<^item> \<open>Hooks\<close>: HookRegistry, its three kinds of firing and its plugin allowlist.
  \<^item> \<open>Budgets\<close>: agent-loop/budgets.ts, the guards that warn and stop a turn.
  \<^item> \<open>Chain\<close>: ChainedProvider.complete with error classification, failover, cooldowns, pinned retries.
  \<^item> \<open>ToolNames\<close>, \<open>ToolRegistry\<close>: the MCP name convention; registration, filters, definitions, the cache
    and executeParallel.
  \<^item> \<open>Pairing\<close>, \<open>ChannelFilter\<close>: pairing codes, approvals, lockout and decline windows; checkMessage.
  \<^item> \<open>Contracts\<close>: the contract \<open>claim_slot\<close> of a slot that one claimant at a time wins, with the bound on how
    often it is won in any interleaving; \<open>noted_machine\<close>, for what a state and the trace behind it keep together.
  \<^item> \<open>JobStore\<close>, \<open>JobLaws\<close>, \<open>JobLife\<close>: every method of SQLiteJobStore over its tables of jobs, events, notices
    and steers; the invariant they keep (numbered trails, steers pending only for live jobs and below the
    cap); the life cycle of a job as an inductive relation that every call refines, the three claims as
    instances of \<open>claim_slot\<close>, the queue's order, the paging of trails.
  \<^item> \<open>InboundSpool\<close>: every method of SQLiteInboundSpool over its table.
  \<^item> \<open>GatewaySpool\<close>: the gateway's use of the spool as a machine of events. The spool and the job deliveries
    survive a \<open>Boot\<close>, what waits or runs in the process does not. An event is atomic as far as the source
    has no await in it; the listing of a row for replay and its claim are one event, which is what the
    conditional UPDATE of the claim makes them.
  \<^item> \<open>GatewaySafe\<close>, \<open>GatewayRuns\<close>: a row is in one place of the process at a time and under its claim;
    what no event undoes; from both, that a turn that started a tool is not run again and that runs are
    bounded by the attempt cap, and a trace in which a readmitted review escapes the first.
  \<^item> \<open>Chunking\<close>: the chunkers of the channel adapters and the reflow of sent messages.
  \<^item> \<open>LaneKeys\<close>: lane keys with URL encoding on UTF-8 bytes. \<open>FrameCodec\<close>: the audio frames and PCM samples of
    packages/web-contracts. \<open>ShimFrames\<close>: the Content-Length frames of extensions/execution-docker.
  \<^item> \<open>Outbox\<close>: the binding, store and service of the approval outbox and the dispatcher of
    apps/ethos/src/lib/outbox-wiring.ts, as one machine of events by any number of processes; a call of the service
    is one event, which loses nothing for what is sent, since each write repeats its guard in its UPDATE.
    \<open>OutboxLaws\<close>: what the store and the notes of a history satisfy together (\<open>noted_machine\<close>);
    \<open>OutboxProps\<close>: no send without a decision on its bytes, one send for one decision, the binding as an
    injective text, the answers and the life cycle.
  \<^item> \<open>DeliveryLedger\<close>, \<open>GatewayDelivery\<close>: every method of SQLiteDeliveryLedger, and the gateway over it as a
    machine of events: a live send with its in-flight mark (delivery.ts), the sweep (sweepDeliveriesOnce) one row at
    a time, refusals with backoff and cap, voice notes sent again from their artifact, overdue replies, storage that
    throws, restarts. The id of a new row is one never drawn before, as for a UUID.
    \<open>DeliveryLife\<close>: the life of one reply as an inductive relation and what holds along it; \<open>DeliveryRows\<close>: a reply
    as a view of the gateway's state; \<open>DeliveryProps\<close>: every event is a step of that life for every reply, hence sends
    in turn, none lost, bounded; and for several processes the claim as an instance of \<open>claim_slot\<close>.

  \<^item> \<open>SafeFetch\<close>: the network gate of packages/safety/network: validation of a URL, the private ranges on
    \<open>32 word\<close>, the pinned connection and the redirect loop, with the resolver and the servers as arguments.
    \<open>SafeFetchProps\<close>: where requests can connect, where credentials go, which addresses are private, and three
    addresses that pass though they should not.

  \<^item> \<open>FsPaths\<close>: paths as lists of segments, the deny keys of packages/types/src/deny-fold.ts, a file system with
    links as a map from places to nodes, the kernel's walk, lstat and realpath, and the longest existing ancestor.
    \<open>FsKernel\<close>: the walk as an inductive relation without a limit on links, how it splits and how a link may be
    rewritten. \<open>FsFloors\<close>: the predicates of personality-definition.ts and memory-paths.ts and the sensitive paths.
    \<open>ScopedFs\<close> and \<open>ScopedStorage\<close>: the two boundaries a turn's file accesses pass
    (packages/core/src/scoped/scoped-fs.ts, packages/storage-fs/src/scoped-storage.ts); \<open>FsReach\<close>: the derivation of
    a personality's reach (packages/core/src/fs-reach.ts). \<open>ScopedFsProps\<close>, \<open>ScopedStorageProps\<close>, \<open>FsReachProps\<close>:
    an access lands inside the reach and at no denied place, in the kernel's semantics; the boundaries agree; what
    shared turns see, what removes cannot move, what the default reach grants; and how a climbing \<open>..\<close> escapes.
    Names are ASCII there, so folding is lower case; time passes between check and access only in the code.

  \<^item> \<open>GoalStore\<close>: every method of SQLiteGoalStore over its tables of goals, attempts and events. \<open>GoalLaws\<close>: the calls
    of any number of processes as a machine that reports what applied, and what its tables and its trace keep
    together (\<open>noted_machine\<close>): a goal's status, holder and last sign of life can be read from either.
    \<open>GoalProps\<close>: a superseded or cancelled run writes nothing, a cancel stands, a sweep takes exactly the goals
    that look abandoned, and of the processes that resume a goal one wins.

  Each component's lemmas first show the invariant its operations keep, through an interpretation of
  the contract that fits it, and then what the operations do on every branch; the properties rest on
  those facts, and each property with a hypothesis is applied at a concrete input by the theorem of the
  same name that ends in \<open>_witness\<close>.

  Bounds. Strings are lists of bytes; a character outside ASCII in a message is its UTF-8 encoding, and
  lengths and letter case are those of ASCII text. White space and line ends are those of ASCII.
  JSON texts are strings.

  Not modelled: the SQL text, its migrations and the mapping of rows (kanban, pairing), file and network
  access, timers (their ticks are steps), logging and telemetry, and the parts of the repository the
  manifest lists as such: channel adapters, providers, storage back ends, the command line, web and
  desktop applications, the gateway but for its spool and its deliveries, the outbox's approval cards.
\<close>

end
